(* ===== verification/Prelude.thy ===== *)
theory Prelude
  imports Main "HOL-Library.Word" "HOL-Library.Monad_Syntax"
begin

text \<open>
  The vocabulary every component shares: the C integer types, the option monad in which
  \<open>None\<close> is an invalid memory access or a loop that does not end, and the theory of
  circular doubly linked lists that the kernel builds all its queues from.  A ring is
  described over its two link functions alone (\<open>next\<close> and \<open>previous\<close>), so that one set of
  lemmas serves every structure of the code that embeds such a pair of pointers; the
  locale \<open>dlink\<close> states what such a structure has to provide.
\<close>

section \<open>C integer types\<close>

type_synonym u8 = "8 word"
type_synonym u16 = "16 word"
type_synonym u32 = "32 word"
type_synonym s64 = int

text \<open>
  \<open>s64\<close> values (ticks and microseconds) are integers.  The system time and the calendar wrap
  their sums and products to 64 bits; the ticks of the kernel, which last for ages, and the
  deadlines of the software timers, whose theorems bound the time, are plain sums.  Division of
  such values is C division, which truncates towards zero.
\<close>

definition cdiv :: "int \<Rightarrow> int \<Rightarrow> int" where
  "cdiv a b = sgn a * sgn b * (\<bar>a\<bar> div \<bar>b\<bar>)"

definition cmod :: "int \<Rightarrow> int \<Rightarrow> int" where
  "cmod a b = a - b * cdiv a b"

lemma cdiv_nonneg [simp]: "0 \<le> a \<Longrightarrow> 0 < b \<Longrightarrow> cdiv a b = a div b"
  by (cases "a = 0") (auto simp: cdiv_def)

lemma cmod_nonneg [simp]: "0 \<le> a \<Longrightarrow> 0 < b \<Longrightarrow> cmod a b = a mod b"
  by (simp add: cmod_def minus_mult_div_eq_mod)

section \<open>Hints for the option monad\<close>

named_theorems fault_simps "unfolding of the checked memory accesses"

lemma bind_Some_conv [fault_simps]: "Option.bind (Some x) f = f x"
  by simp

lemma bind_weak: "m = m' \<Longrightarrow> Option.bind m f = Option.bind m' f"
  by simp

text \<open>\<open>for\<close> loops over a fixed range.\<close>

fun for_each :: "'a list \<Rightarrow> ('a \<Rightarrow> 's \<Rightarrow> 's option) \<Rightarrow> 's \<Rightarrow> 's option" where
  "for_each [] f s = Some s"
| "for_each (x # xs) f s = do { s \<leftarrow> f x s; for_each xs f s }"

text \<open>
  A call that may put its caller to sleep either returns a value or has blocked; in the
  second case the value computed when the caller runs again is given by a definition of
  its own, and the locals it needs are carried along.
\<close>

datatype ('a, 'b) call = Return 'a | Block 'b

section \<open>Circular doubly linked lists\<close>

text \<open>
  \<open>dseg n p xs\<close>: consecutive elements of \<open>xs\<close> are linked both ways.  \<open>dring n p xs\<close>: the
  elements of \<open>xs\<close>, each once, form a cycle.
\<close>

fun dseg :: "('p \<Rightarrow> 'p) \<Rightarrow> ('p \<Rightarrow> 'p) \<Rightarrow> 'p list \<Rightarrow> bool" where
  "dseg n p [] = True"
| "dseg n p [x] = True"
| "dseg n p (x # y # r) = (n x = y \<and> p y = x \<and> dseg n p (y # r))"

definition dring :: "('p \<Rightarrow> 'p) \<Rightarrow> ('p \<Rightarrow> 'p) \<Rightarrow> 'p list \<Rightarrow> bool" where
  "dring n p xs \<longleftrightarrow> xs \<noteq> [] \<and> distinct xs \<and> dseg n p (xs @ [hd xs])"

lemma dseg_Cons:
  "dseg n p (x # ys) \<longleftrightarrow> dseg n p ys \<and> (ys \<noteq> [] \<longrightarrow> n x = hd ys \<and> p (hd ys) = x)"
  by (cases ys) auto

lemma dseg_append:
  "dseg n p (xs @ ys) \<longleftrightarrow> dseg n p xs \<and> dseg n p ys \<and>
     (xs \<noteq> [] \<longrightarrow> ys \<noteq> [] \<longrightarrow> n (last xs) = hd ys \<and> p (hd ys) = last xs)"
  by (induction xs) (auto simp: dseg_Cons hd_append)

lemma dseg_upd_n [simp]: "x \<notin> set (butlast ys) \<Longrightarrow> dseg (n(x := v)) p ys = dseg n p ys"
  by (induction n p ys rule: dseg.induct) auto

lemma dseg_upd_p [simp]: "x \<notin> set (tl ys) \<Longrightarrow> dseg n (p(x := v)) ys = dseg n p ys"
proof (induction n p ys rule: dseg.induct)
  case (3 n p x y r)
  then show ?case by (cases r) auto
qed auto

lemma dring_not_Nil [simp]: "\<not> dring n p []"
  by (simp add: dring_def)

lemma dring_distinct: "dring n p xs \<Longrightarrow> distinct xs"
  by (simp add: dring_def)

lemma dring_single: "dring n p [x] \<longleftrightarrow> n x = x \<and> p x = x"
  by (auto simp: dring_def)

lemma dring_Cons:
  "dring n p (x # xs) \<longleftrightarrow> distinct (x # xs) \<and> dseg n p (x # xs) \<and>
     n (last (x # xs)) = x \<and> p x = last (x # xs)"
  by (cases xs) (auto simp: dring_def dseg_Cons dseg_append)

lemma dring_iff:
  "dring n p xs \<longleftrightarrow> xs \<noteq> [] \<and> distinct xs \<and> dseg n p xs \<and>
     n (last xs) = hd xs \<and> p (hd xs) = last xs"
  by (cases xs) (simp_all add: dring_Cons)

lemma dring_rotate1: "dring n p (x # xs) \<longleftrightarrow> dring n p (xs @ [x])"
  by (cases xs) (auto simp: dring_iff dseg_Cons dseg_append)

lemma dring_rotate: "dring n p (as @ bs) \<longleftrightarrow> dring n p (bs @ as)"
proof (induction as arbitrary: bs)
  case Nil
  then show ?case by simp
next
  case (Cons a as)
  have "dring n p ((a # as) @ bs) \<longleftrightarrow> dring n p (as @ bs @ [a])"
    using dring_rotate1 [of n p a "as @ bs"] by simp
  also have "\<dots> \<longleftrightarrow> dring n p ((bs @ [a]) @ as)"
    by (rule Cons.IH)
  finally show ?case by simp
qed

lemma dring_next: "dring n p (x # xs) \<Longrightarrow> n x = hd (xs @ [x])"
  by (cases xs) (auto simp: dring_def)

lemma dring_prev: "dring n p (x # xs) \<Longrightarrow> p x = last (x # xs)"
  by (simp add: dring_Cons)

lemma dring_next_mid: "dring n p (as @ x # y # bs) \<Longrightarrow> n x = y"
  using dring_rotate [of n p as "x # y # bs"] dring_next [of n p x "y # bs @ as"] by simp

lemma dring_next_last: "dring n p (as @ [x]) \<Longrightarrow> n x = hd (as @ [x])"
  using dring_rotate [of n p as "[x]"] dring_next [of n p x as] by simp

lemma dring_prev_mid: "dring n p (as @ x # y # bs) \<Longrightarrow> p y = x"
  using dring_rotate [of n p "as @ [x]" "y # bs"] dring_prev [of n p y "bs @ as @ [x]"] by simp

lemma dring_next_in: "dring n p xs \<Longrightarrow> x \<in> set xs \<Longrightarrow> n x \<in> set xs"
proof -
  assume r: "dring n p xs" and "x \<in> set xs"
  then obtain as bs where xs: "xs = as @ x # bs" by (meson split_list)
  with r have "n x = hd ((bs @ as) @ [x])"
    using dring_next [of n p x "bs @ as"] dring_rotate [of n p as "x # bs"] by simp
  then have "n x \<in> set ((bs @ as) @ [x])" by (metis hd_in_set snoc_eq_iff_butlast)
  then show ?thesis by (auto simp: xs)
qed

lemma dring_prev_in: "dring n p xs \<Longrightarrow> x \<in> set xs \<Longrightarrow> p x \<in> set xs"
proof -
  assume r: "dring n p xs" and "x \<in> set xs"
  then obtain as bs where xs: "xs = as @ x # bs" by (meson split_list)
  with r have "p x = last (x # bs @ as)"
    using dring_prev [of n p x "bs @ as"] dring_rotate [of n p as "x # bs"] by simp
  then have "p x \<in> set (x # bs @ as)" by (metis last_in_set list.distinct(1))
  then show ?thesis by (auto simp: xs)
qed

lemma dring_proper:
  assumes "dring n p (as @ x # bs)" and "as @ bs \<noteq> []"
  shows "n x \<noteq> x \<and> p x \<noteq> x"
proof -
  have r: "dring n p (x # bs @ as)"
    using assms(1) dring_rotate [of n p as "x # bs"] by simp
  from assms(2) obtain y ys where ys: "bs @ as = y # ys" by (cases "bs @ as") auto
  with r have "n x = y" "y \<noteq> x" by (auto simp: dring_Cons)
  moreover have "p x = last (y # ys)" using r ys by (simp add: dring_Cons)
  moreover have "x \<notin> set (y # ys)" using r ys by (simp add: dring_Cons)
  ultimately show ?thesis by (metis last_in_set list.distinct(1))
qed

lemma dring_cong:
  assumes "\<And>x. x \<in> set xs \<Longrightarrow> n x = n' x" and "\<And>x. x \<in> set xs \<Longrightarrow> p x = p' x"
  shows "dring n p xs = dring n' p' xs"
proof -
  have "dseg n p ys = dseg n' p' ys" if "set ys \<subseteq> set xs" for ys
    using that assms by (induction n p ys rule: dseg.induct) auto
  from this [of "xs @ [hd xs]"] show ?thesis
    by (cases xs) (auto simp: dring_def)
qed

lemma dring_upd_other [simp]:
  "x \<notin> set xs \<Longrightarrow> dring (n(x := v)) p xs = dring n p xs"
  "x \<notin> set xs \<Longrightarrow> dring n (p(x := v)) xs = dring n p xs"
  by (auto intro!: dring_cong)

text \<open>Linking a new element in front of \<open>y\<close>, unlinking an element, replacing an element.\<close>

lemma dring_insert:
  assumes "dring n p (y # bs)" and "x \<notin> set (y # bs)"
  shows "dring (n(x := y, p y := x)) (p(x := p y, y := x)) (y # bs @ [x])"
proof -
  let ?z = "last (y # bs)"
  from assms have z: "p y = ?z" and seg: "dseg n p (y # bs)" and d: "distinct (y # bs)"
    by (auto simp: dring_Cons)
  have "?z \<notin> set (butlast (y # bs))"
    using d append_butlast_last_id [of "y # bs"] by (metis distinct_append disjoint_insert(1) list.distinct(1) list.simps(15))
  moreover have "x \<notin> set (butlast (y # bs))"
    using assms(2) by (meson in_set_butlastD)
  ultimately have "dseg (n(x := y, ?z := x)) (p(x := ?z, y := x)) (y # bs)"
    using seg d assms(2) by simp
  moreover have "?z \<noteq> x" using assms(2) by (metis last_in_set list.distinct(1))
  ultimately show ?thesis
    using z d assms(2) dseg_append [of "n(x := y, ?z := x)" "p(x := ?z, y := x)" "y # bs" "[x]"]
    by (simp add: dring_iff) auto
qed

lemma dring_delete:
  assumes "dring n p (x # y # bs)"
  shows "dring (n(p x := n x)) (p(n x := p x)) (y # bs)"
proof -
  let ?z = "last (y # bs)"
  from assms have *: "n x = y" "p x = ?z" "dseg n p (y # bs)" "distinct (y # bs)"
    by (auto simp: dring_Cons)
  have "?z \<notin> set (butlast (y # bs))"
    using *(4) append_butlast_last_id [of "y # bs"] by (metis distinct_append disjoint_insert(1) list.distinct(1) list.simps(15))
  with * show ?thesis by (simp add: dring_Cons)
qed

lemma dring_insert_mid:
  assumes "dring n p (as @ y # bs)" and "x \<notin> set (as @ y # bs)"
  shows "dring (n(x := y, p y := x)) (p(x := p y, y := x)) (as @ x # y # bs)"
proof -
  have "dring n p (y # bs @ as)" using assms(1) dring_rotate [of n p as "y # bs"] by simp
  then have "dring (n(x := y, p y := x)) (p(x := p y, y := x)) ((y # bs) @ (as @ [x]))"
    using dring_insert [of n p y "bs @ as" x] assms(2) by auto
  then show ?thesis using dring_rotate [of _ _ "y # bs" "as @ [x]"] by simp
qed

lemma dring_delete_mid:
  assumes "dring n p (as @ x # bs)" and "as @ bs \<noteq> []"
  shows "dring (n(p x := n x)) (p(n x := p x)) (as @ bs)"
proof -
  have "dring n p (x # bs @ as)" using assms(1) dring_rotate [of n p as "x # bs"] by simp
  then have "dring (n(p x := n x)) (p(n x := p x)) (bs @ as)"
    using assms(2) dring_delete [of n p x] by (cases "bs @ as") auto
  then show ?thesis by (rule dring_rotate [THEN iffD1])
qed

lemma dring_swap:
  assumes "dring n p (as @ x # bs)" and "y \<notin> set (as @ x # bs)"
  shows "dring (n(p x := y, y := (n(p x := y)) x)) (p(y := p x, (n(p x := y)) x := y)) (as @ y # bs)"
proof (cases "as @ bs")
  case Nil
  then show ?thesis using assms by (auto simp: dring_single)
next
  case (Cons a cs)
  have r: "dring n p (x # bs @ as)" using assms(1) dring_rotate [of n p as "x # bs"] by simp
  have x: "n x \<noteq> x" "p x \<noteq> x" using dring_proper [OF assms(1)] Cons by auto
  have nx: "n x = hd (bs @ as)" "p x = last (bs @ as)" using r Cons by (cases "bs @ as"; auto simp: dring_Cons)+
  have "p x \<in> set (bs @ as)" using nx(2) Cons by (metis append_is_Nil_conv last_in_set list.distinct(1))
  then have py: "p x \<noteq> y" using assms(2) by auto
  have xy: "x \<noteq> y" using assms(2) by auto
  have "dring (n(y := x, p x := y)) (p(y := p x, x := y)) (as @ y # x # bs)"
    by (rule dring_insert_mid [OF assms])
  then have "dring (n(y := x, p x := y)) (p(y := p x, x := y)) ((as @ [y]) @ x # bs)" by simp
  from dring_delete_mid [OF this]
  have "dring (n(y := n x, p x := y)) (p(y := p x, x := y, n x := y)) (as @ y # bs)"
    using x xy by (simp add: fun_upd_twist [OF py])
  moreover have "p(y := p x, x := y, n x := y) = (p(y := p x, n x := y))(x := y)"
    using x(1) by (simp add: fun_upd_twist)
  moreover have "x \<notin> set (as @ y # bs)" using assms xy by (auto simp: dring_iff)
  ultimately have "dring (n(y := n x, p x := y)) (p(y := p x, n x := y)) (as @ y # bs)"
    by (simp add: dring_upd_other(2))
  then show ?thesis using x py by (simp add: fun_upd_twist [OF py])
qed

text \<open>
  Sorted insertion: \<open>x\<close> goes behind the longest prefix whose elements satisfy \<open>P\<close>.  The loops
  of the code that look for the insertion point walk the ring once and, when every element
  satisfies \<open>P\<close>, stop at the head again, in front of which is the tail.
\<close>

definition ins_by :: "('p \<Rightarrow> bool) \<Rightarrow> 'p \<Rightarrow> 'p list \<Rightarrow> 'p list" where
  "ins_by P x xs = takeWhile P xs @ x # dropWhile P xs"

lemma set_ins_by [simp]: "set (ins_by P x xs) = insert x (set xs)"
proof -
  have "set (takeWhile P xs) \<union> set (dropWhile P xs) = set xs"
    by (metis set_append takeWhile_dropWhile_id)
  then show ?thesis by (auto simp: ins_by_def)
qed

lemma ins_by_not_Nil [simp]: "ins_by P x xs \<noteq> []"
  by (simp add: ins_by_def)

lemma hd_ins_by: "hd (ins_by P x xs) = (if xs = [] \<or> \<not> P (hd xs) then x else hd xs)"
  by (cases xs) (auto simp: ins_by_def)

lemma distinct_ins_by: "distinct (ins_by P x xs) \<longleftrightarrow> x \<notin> set xs \<and> distinct xs"
proof -
  have "distinct (x # takeWhile P xs @ dropWhile P xs) \<longleftrightarrow> x \<notin> set xs \<and> distinct xs" by simp
  then show ?thesis by (auto simp: ins_by_def simp del: takeWhile_dropWhile_id)
qed

lemma sorted_ins_by:
  fixes f :: "'p \<Rightarrow> 'k::linorder"
  assumes "sorted (map f xs)"
  shows "sorted (map f (ins_by (\<lambda>y. f y \<le> f x) x xs))"
proof -
  let ?P = "\<lambda>y. f y \<le> f x"
  have xs: "sorted (map f (takeWhile ?P xs @ dropWhile ?P xs))" using assms by simp
  have "f x \<le> f b" if "b \<in> set (dropWhile ?P xs)" for b
  proof -
    let ?d = "dropWhile ?P xs"
    have ne: "?d \<noteq> []" using that by (metis empty_iff list.set(1))
    then have "f x < f (hd ?d)" using hd_dropWhile [OF ne] by simp
    moreover have "f (hd ?d) \<le> f b"
      using xs that ne by (cases ?d) (auto simp: sorted_append)
    ultimately show ?thesis by simp
  qed
  then show ?thesis using xs
    by (auto simp: ins_by_def sorted_append simp del: takeWhile_dropWhile_id dest: set_takeWhileD)
qed

lemma dring_ins_by:
  assumes "dring n p xs" and "x \<notin> set xs" and y: "y = hd (dropWhile P xs @ [hd xs])"
  shows "dring (n(x := y, p y := x)) (p(x := p y, y := x)) (ins_by P x xs)"
proof (cases "dropWhile P xs")
  case Nil
  then obtain bs where xs: "xs = y # bs" using assms(1) y by (cases xs) auto
  have "takeWhile P xs = xs" using Nil by (metis append_Nil2 takeWhile_dropWhile_id)
  then show ?thesis using dring_insert [of n p y bs x] assms(1,2) Nil xs by (simp add: ins_by_def)
next
  case (Cons z bs)
  then have "xs = takeWhile P xs @ y # bs" using y by (metis append_Cons list.sel(1) takeWhile_dropWhile_id)
  then show ?thesis
    using dring_insert_mid [of n p "takeWhile P xs" y bs x] assms(1,2) Cons y by (simp add: ins_by_def)
qed

text \<open>
  What a structure with an embedded pair of links has to provide: writing one link of one
  element changes that link of that element and nothing else.
\<close>

locale dlink =
  fixes nx :: "'s \<Rightarrow> 'p \<Rightarrow> 'p" and pv :: "'s \<Rightarrow> 'p \<Rightarrow> 'p"
    and put_nx :: "'p \<Rightarrow> 'p \<Rightarrow> 's \<Rightarrow> 's" and put_pv :: "'p \<Rightarrow> 'p \<Rightarrow> 's \<Rightarrow> 's"
  assumes nx_put_nx: "nx (put_nx a v s) = (nx s)(a := v)"
    and pv_put_nx: "pv (put_nx a v s) = pv s"
    and nx_put_pv: "nx (put_pv a v s) = nx s"
    and pv_put_pv: "pv (put_pv a v s) = (pv s)(a := v)"
begin

lemmas link_simps = nx_put_nx pv_put_nx nx_put_pv pv_put_pv

lemma self_link: "dring (nx (put_pv x x (put_nx x x s))) (pv (put_pv x x (put_nx x x s))) [x]"
  by (simp add: link_simps dring_single)

text \<open>The order of the four writes in which the kernel links \<open>x\<close> in front of \<open>y\<close>.\<close>

lemma link_before:
  assumes "dring (nx s) (pv s) (as @ y # bs)" and "x \<notin> set (as @ y # bs)"
    and s': "s' = put_pv y x (put_nx (pv s y) x (put_pv x (pv s y) (put_nx x y s)))"
  shows "dring (nx s') (pv s') (as @ x # y # bs)"
proof -
  have "dring (nx s) (pv s) (y # bs @ as)"
    using assms(1) dring_rotate [of _ _ as "y # bs"] by simp
  moreover have "x \<notin> set (y # bs @ as)" using assms(2) by auto
  ultimately have "dring (nx s') (pv s') ((y # bs) @ (as @ [x]))"
    using dring_insert [of "nx s" "pv s" y "bs @ as" x] by (simp add: s' link_simps)
  then have "dring (nx s') (pv s') ((as @ [x]) @ (y # bs))"
    by (rule dring_rotate [THEN iffD1])
  then show ?thesis by simp
qed

text \<open>Linking at the tail is linking in front of the head; the head stays where it is.\<close>

lemma link_tail:
  assumes "dring (nx s) (pv s) (y # bs)" and "x \<notin> set (y # bs)"
    and "s' = put_pv y x (put_nx (pv s y) x (put_pv x (pv s y) (put_nx x y s)))"
  shows "dring (nx s') (pv s') (y # bs @ [x])"
  using link_before [of s "[]" y bs x s'] dring_rotate1 [of "nx s'" "pv s'" x "y # bs"] assms
  by simp

lemma unlink:
  assumes "dring (nx s) (pv s) (as @ x # bs)" and "as @ bs \<noteq> []"
    and s': "s' = put_nx (pv s x) (nx s x) (put_pv (nx s x) (pv s x) s)"
  shows "dring (nx s') (pv s') (as @ bs)"
proof -
  have "dring (nx s) (pv s) (x # bs @ as)"
    using assms(1) dring_rotate [of _ _ as "x # bs"] by simp
  then have "dring (nx s') (pv s') (bs @ as)"
    using assms(2) dring_delete [of "nx s" "pv s" x] by (cases "bs @ as") (auto simp: s' link_simps)
  then show ?thesis by (rule dring_rotate [THEN iffD1])
qed

end

end
