(* ===== verification/DList.thy ===== *)
theory DList
  imports Prelude
begin

text \<open>
  The public list module, \<open>djyos/core/list.c\<close>.  Nodes are addressed by numbers and the
  heap gives each node its record of links, as \<open>struct dListNode\<close> and \<open>struct sListNode\<close>
  of \<open>djyos/include/list.h\<close> have them.  The module checks no pointer: the caller hands in
  valid nodes.
\<close>

record dListNode =
  d_next :: nat
  d_prev :: nat

type_synonym dheap = "nat \<Rightarrow> dListNode"

definition put_d_next :: "nat \<Rightarrow> nat \<Rightarrow> dheap \<Rightarrow> dheap" where
  "put_d_next a v h = h(a := (h a)\<lparr>d_next := v\<rparr>)"

definition put_d_prev :: "nat \<Rightarrow> nat \<Rightarrow> dheap \<Rightarrow> dheap" where
  "put_d_prev a v h = h(a := (h a)\<lparr>d_prev := v\<rparr>)"

definition dnext :: "dheap \<Rightarrow> nat \<Rightarrow> nat" where
  "dnext h a = d_next (h a)"

definition dprev :: "dheap \<Rightarrow> nat \<Rightarrow> nat" where
  "dprev h a = d_prev (h a)"

interpretation dl: dlink dnext dprev put_d_next put_d_prev
  by unfold_locales (auto simp: dnext_def dprev_def put_d_next_def put_d_prev_def)

definition dListInit :: "nat \<Rightarrow> dheap \<Rightarrow> dheap" where
  "dListInit l h = put_d_next l l (put_d_prev l l h)"

definition dListInsertAfter :: "nat \<Rightarrow> nat \<Rightarrow> dheap \<Rightarrow> dheap" where
  "dListInsertAfter loc node h =
     (let h = put_d_prev (dnext h loc) node h;
          h = put_d_next node (dnext h loc) h;
          h = put_d_next loc node h;
          h = put_d_prev node loc h
      in h)"

definition dListInsertBefore :: "nat \<Rightarrow> nat \<Rightarrow> dheap \<Rightarrow> dheap" where
  "dListInsertBefore loc node h =
     (let h = put_d_next (dprev h loc) node h;
          h = put_d_prev node (dprev h loc) h;
          h = put_d_prev loc node h;
          h = put_d_next node loc h
      in h)"

definition dListGetBefore :: "nat \<Rightarrow> dheap \<Rightarrow> nat" where
  "dListGetBefore loc h = dprev h loc"

definition dListGetAfter :: "nat \<Rightarrow> dheap \<Rightarrow> nat" where
  "dListGetAfter loc h = dnext h loc"

definition dListRemove :: "nat \<Rightarrow> dheap \<Rightarrow> dheap" where
  "dListRemove node h =
     (let h = put_d_prev (dnext h node) (dprev h node) h;
          h = put_d_next (dprev h node) (dnext h node) h;
          h = put_d_prev node node h;
          h = put_d_next node node h
      in h)"

definition dListIsEmpty :: "nat \<Rightarrow> dheap \<Rightarrow> bool" where
  "dListIsEmpty l h \<longleftrightarrow> dnext h l = l"

record sListNode =
  s_next :: nat

definition sListInit :: "nat \<Rightarrow> (nat \<Rightarrow> sListNode) \<Rightarrow> nat \<Rightarrow> sListNode" where
  "sListInit l h = h(l := (h l)\<lparr>s_next := l\<rparr>)"

definition sListInsertAfter :: "nat \<Rightarrow> nat \<Rightarrow> (nat \<Rightarrow> sListNode) \<Rightarrow> nat \<Rightarrow> sListNode" where
  "sListInsertAfter loc node h =
     (let h = h(node := (h node)\<lparr>s_next := s_next (h loc)\<rparr>)
      in h(loc := (h loc)\<lparr>s_next := node\<rparr>))"

definition sListIsEmpty :: "nat \<Rightarrow> (nat \<Rightarrow> sListNode) \<Rightarrow> bool" where
  "sListIsEmpty l h \<longleftrightarrow> s_next (h l) = l"

text \<open>The list a head node \<open>l\<close> holds: the ring through \<open>l\<close>, without \<open>l\<close>.\<close>

definition dlist :: "nat \<Rightarrow> nat list \<Rightarrow> dheap \<Rightarrow> bool" where
  "dlist l xs h \<longleftrightarrow> dring (dnext h) (dprev h) (l # xs)"

lemmas dops = dl.link_simps Let_def

lemma dListInit_empty: "dlist l [] (dListInit l h)"
  by (simp add: dlist_def dListInit_def dops dring_single)

lemma dListIsEmpty_iff: "dlist l xs h \<Longrightarrow> dListIsEmpty l h \<longleftrightarrow> xs = []"
  by (cases xs) (auto simp: dlist_def dListIsEmpty_def dring_Cons)

lemma dListInsertBefore_links:
  assumes "node \<noteq> loc" and "node \<noteq> dprev h loc"
  shows "dnext (dListInsertBefore loc node h) = (dnext h)(node := loc, dprev h loc := node)"
    and "dprev (dListInsertBefore loc node h) = (dprev h)(node := dprev h loc, loc := node)"
  using assms by (auto simp: dListInsertBefore_def dops)

lemma dListInsertBefore_dlist:
  assumes "dlist l (as @ bs) h" and "node \<notin> set (l # as @ bs)"
  shows "dlist l (as @ node # bs) (dListInsertBefore (hd (bs @ [l])) node h)"
proof -
  let ?loc = "hd (bs @ [l])"
  have r: "dring (dnext h) (dprev h) (bs @ l # as)"
    using assms(1) dring_rotate [of "dnext h" "dprev h" "l # as" bs] by (simp add: dlist_def)
  then obtain cs where cs: "bs @ l # as = ?loc # cs" by (cases bs) auto
  with r have "dring (dnext h) (dprev h) (?loc # cs)" by simp
  moreover have nin: "node \<notin> set (?loc # cs)" using assms(2) cs by (metis Un_iff insert_iff list.set(2) set_append)
  ultimately have new: "dring ((dnext h)(node := ?loc, dprev h ?loc := node))
      ((dprev h)(node := dprev h ?loc, ?loc := node)) (?loc # cs @ [node])"
    by (rule dring_insert)
  have "dprev h ?loc \<in> set (?loc # cs)"
    using dring_prev_in [OF \<open>dring (dnext h) (dprev h) (?loc # cs)\<close>, of ?loc] by simp
  with nin have "node \<noteq> ?loc" "node \<noteq> dprev h ?loc" by auto
  with new have "dring (dnext (dListInsertBefore ?loc node h)) (dprev (dListInsertBefore ?loc node h))
      (bs @ l # as @ [node])"
    using cs by (simp add: dListInsertBefore_links) (metis append_Cons append_assoc)
  then show ?thesis
    using dring_rotate [of _ _ bs "l # as @ [node]"] by (simp add: dlist_def)
qed

lemma put_d_comm:
  "put_d_prev a v (put_d_next b w h) = put_d_next b w (put_d_prev a v h)"
  "a \<noteq> c \<Longrightarrow> put_d_prev a v (put_d_prev c u h) = put_d_prev c u (put_d_prev a v h)"
  "a \<noteq> c \<Longrightarrow> put_d_next a v (put_d_next c u h) = put_d_next c u (put_d_next a v h)"
  by (auto simp: put_d_prev_def put_d_next_def fun_eq_iff)

lemma dListInsertAfter_Before:
  assumes "node \<noteq> a" and "node \<noteq> b" and "dnext h a = b" and "dprev h b = a"
  shows "dListInsertAfter a node h = dListInsertBefore b node h"
proof -
  have "dListInsertAfter a node h =
      put_d_prev node a (put_d_next a node (put_d_next node b (put_d_prev b node h)))"
    using assms by (simp add: dListInsertAfter_def dops)
  also have "\<dots> = put_d_prev node a (put_d_next node b (put_d_next a node (put_d_prev b node h)))"
    using assms(1) put_d_comm(3) [of a node] by simp
  also have "\<dots> = put_d_next node b (put_d_prev b node (put_d_prev node a (put_d_next a node h)))"
    using assms(2) put_d_comm(2) [of node b] by (simp add: put_d_comm(1))
  also have "\<dots> = dListInsertBefore b node h"
    using assms by (simp add: dListInsertBefore_def dops)
  finally show ?thesis .
qed

lemma dListInsertAfter_eq_Before:
  assumes "dlist l (as @ bs) h" and "node \<notin> set (l # as @ bs)"
  shows "dListInsertAfter (last (l # as)) node h = dListInsertBefore (hd (bs @ [l])) node h"
proof -
  let ?a = "last (l # as)" and ?b = "hd (bs @ [l])"
  have "dring (dnext h) (dprev h) ((l # as) @ bs)" using assms(1) by (simp add: dlist_def)
  moreover have "l # as = butlast (l # as) @ [?a]" by simp
  ultimately have r: "dring (dnext h) (dprev h) (?a # bs @ butlast (l # as))"
    using dring_rotate [of "dnext h" "dprev h" "butlast (l # as)" "?a # bs"] by (metis append_Cons append_Nil append_assoc)
  have ab: "dnext h ?a = ?b" "dprev h ?b = ?a"
  proof -
    show "dnext h ?a = ?b"
      using dring_next [OF r] by (cases bs; cases as) auto
    show "dprev h ?b = ?a"
      using r by (cases bs; cases as) (auto simp: dring_Cons dseg_Cons dseg_append)
  qed
  have "node \<noteq> ?a" "node \<noteq> ?b" using assms(2) by (cases as rule: rev_cases; cases bs; auto)+
  then show ?thesis using ab by (intro dListInsertAfter_Before)
qed

lemma dListRemove_dlist:
  assumes "dlist l (as @ node # bs) h"
  shows "dlist l (as @ bs) (dListRemove node h)"
    and "dListIsEmpty node (dListRemove node h)"
proof -
  have r: "dring (dnext h) (dprev h) ((l # as) @ node # bs)" using assms by (simp add: dlist_def)
  have "dring (dnext (put_d_next (dprev h node) (dnext h node) (put_d_prev (dnext h node) (dprev h node) h)))
      (dprev (put_d_next (dprev h node) (dnext h node) (put_d_prev (dnext h node) (dprev h node) h)))
      ((l # as) @ bs)"
    by (rule dl.unlink [OF r _ refl]) simp
  moreover have "node \<notin> set ((l # as) @ bs)" using r by (auto simp: dring_iff)
  moreover have "dnext h node \<noteq> node" "dprev h node \<noteq> node"
    using dring_proper [OF r] by auto
  ultimately show "dlist l (as @ bs) (dListRemove node h)"
    by (simp add: dlist_def dListRemove_def dops)
  show "dListIsEmpty node (dListRemove node h)"
    by (simp add: dListIsEmpty_def dListRemove_def dops)
qed

end
