(* ===== verification/KState.thy ===== *)
theory KState
  imports Prelude
begin

text \<open>
  The data of the kernel: event control blocks, event types, threads, semaphores, mutexes
  and the global variables of \<open>djyos/core/djyos.c\<close>, \<open>djyos/int/int.c\<close> and
  \<open>djyos/lock/lock.c\<close>, with checked accesses to them.

  A pointer to an event control block is \<open>NULL\<close>, the address of the variable
  \<open>s_ptEventFree\<close> (which the code stores in \<open>previous\<close> to mark a free block), or the
  address of an element of \<open>g_ptECB_Table\<close>.  Reading or writing through anything else than
  a pointer into the table is \<open>None\<close>.  Indexing the event type table out of its bounds, and
  touching a thread that is not allocated, are \<open>None\<close> as well.  A theorem that an operation
  gives \<open>Some\<close> therefore also says that it makes no invalid access and that its loops end.
\<close>

datatype eptr = NULL | FREE_ANCHOR | Ecb nat

text \<open>Addresses of queue heads (\<open>struct EventECB **\<close>).\<close>

datatype headp =
    NULLH
  | H_Sync nat        \<comment> \<open>\<open>&g_ptECB_Table[i].sync\<close>\<close>
  | H_DoneSync nat    \<comment> \<open>\<open>&g_ptEvttTable[i].done_sync\<close>\<close>
  | H_PopSync nat     \<comment> \<open>\<open>&g_ptEvttTable[i].pop_sync\<close>\<close>
  | H_Semp nat        \<comment> \<open>\<open>&semp->semp_sync\<close>\<close>
  | H_Mutex nat       \<comment> \<open>\<open>&mutex->mutex_sync\<close>\<close>
  | H_MemSync         \<comment> \<open>\<open>&s_ptMemSync\<close>\<close>

record EventECB =
  ecb_next :: eptr
  ecb_previous :: eptr
  multi_next :: eptr
  multi_previous :: eptr
  ecb_vm :: "nat option"
  param1 :: u32
  param2 :: u32
  ecb_sync :: eptr
  sync_head :: headp
  EventStartTime :: s64
  consumed_time :: s64
  consumed_time_second :: u32
  consumed_time_record :: u32
  delay_start_tick :: s64
  delay_end_tick :: s64
  error_no :: u32
  event_result :: u32
  wait_mem_size :: u32
  wakeup_from :: u32
  event_status :: u32
  prio_base :: u32
  prio :: u32
  evtt_id :: u16
  sync_counter :: u16
  event_id :: u16
  local_memory :: u32

datatype enEventRelation = EN_INDEPENDENCE | EN_CORRELATIVE

datatype enSwitchType = EN_SWITCH_IN | EN_SWITCH_OUT

record EventType =
  correlative :: enEventRelation
  registered :: bool
  inuse :: bool
  deleting :: bool
  my_free_vm :: "nat option"
  SchHook :: nat
  evtt_name :: string
  default_prio :: u32
  events :: u16
  vpus_res :: u16
  vpus_limit :: u16
  vpus :: u16
  thread_routine :: nat
  stack_size :: u32
  pop_times :: u32
  mark_event :: eptr
  done_sync :: eptr
  pop_sync :: eptr

record ThreadVm =
  vm_next :: "nat option"
  vm_stack_size :: u32

record SemaphoreLCB =
  sync_order :: u32
  lamps_limit :: u32
  lamp_counter :: u32
  semp_sync :: eptr

record MutexLCB =
  enable :: int
  owner :: eptr
  mutex_sync :: eptr

text \<open>
  What the kernel asks of code outside the model: the scheduling hook of an event type, the
  assembler routines that switch the processor to another thread, the exception manager
  and the heap.
\<close>

datatype kcall =
    Call_SchHook nat enSwitchType
  | Call_switch_context "nat option" "nat option"
  | Call_switch_context_int "nat option" "nat option"
  | Call_turnto_context "nat option"
  | Call_start_thread "nat option"
  | Call_reset_switch nat "nat option" "nat option"
  | Call_Exp_Throw u32
  | Call_free nat
  | Call_M_CleanUp u16
  | Call_DelayUs u32
  | Call_InitTick
  | Call_OBJ_AddChild headp
  | Call_OBJ_Del headp
  | Call_Mb_Free headp
  | Call_MaintainSysTime

record kst =
  ecbs :: "eptr \<Rightarrow> EventECB"
  evtts :: "nat \<Rightarrow> EventType"
  vms :: "nat \<Rightarrow> ThreadVm option"
  semps :: "nat \<Rightarrow> SemaphoreLCB"
  mutexes :: "nat \<Rightarrow> MutexLCB"
  s_ptEventFree :: eptr
  g_ptEventReady :: eptr
  g_ptEventRunning :: eptr
  g_ptEventDelay :: eptr
  s_ptMemSync :: eptr
  s_u32RRS_Slice :: u32
  g_s64RunningStartTime :: s64
  g_s64OsTicks :: s64
  g_bScheduleEnable :: bool
  g_bMultiEventStarted :: bool
  nest_asyn_signal :: u32
  en_asyn_signal_counter :: u32
  asyn_signal_open :: bool
  cfgEventLimit :: nat
  cfgEvttLimit :: nat
  cfgTickUs :: u32
  systime :: s64
  vm_supply :: "(nat \<times> u32) option list"
  kcalls :: "kcall list"

section \<open>Constants\<close>

abbreviation (input) "CN_TIMEOUT_FOREVER \<equiv> (0xFFFFFFFF :: u32)"
abbreviation (input) "CN_LIMIT_UINT32 \<equiv> (0xFFFFFFFF :: u32)"
abbreviation (input) "CN_LIMIT_UCPU \<equiv> (0xFFFFFFFF :: u32)"
abbreviation (input) "CN_BLOCK_FIFO \<equiv> (0 :: u32)"
abbreviation (input) "CN_BLOCK_PRIO \<equiv> (1 :: u32)"
abbreviation (input) "CN_EVENT_ID_INVALID \<equiv> (0xFFFF :: u16)"
abbreviation (input) "CN_EVTT_ID_INVALID \<equiv> (0xFFFF :: u16)"
abbreviation (input) "CN_EVENT_ID_ASYN \<equiv> (0xFFFE :: u16)"
abbreviation (input) "CN_EVTT_ID_ASYN \<equiv> (0xFFFE :: u16)"
abbreviation (input) "CN_EVTT_ID_BASE \<equiv> (16384 :: u16)"
abbreviation (input) "CN_EVTT_ID_MASK \<equiv> (0x4000 :: u16)"
abbreviation (input) "CN_SYNC_SUCCESS \<equiv> (0 :: u32)"
abbreviation (input) "CN_SYNC_TIMEOUT \<equiv> (1 :: u32)"
abbreviation (input) "CN_SYNC_ERROR \<equiv> (0xFFFFFFFF :: u32)"
abbreviation (input) "CN_PRIO_SYS_SERVICE \<equiv> (250 :: u32)"

text \<open>\<open>enum _KNL_ERROR_CODE_\<close> counts from \<open>CN_KNL_NO_ERROR = 1 << 24\<close>.\<close>

abbreviation (input) "EN_KNL_NO_ERROR \<equiv> (0x1000000 :: u32)"
abbreviation (input) "EN_KNL_ECB_EXHAUSTED \<equiv> (0x1000002 :: u32)"
abbreviation (input) "EN_KNL_ETCB_EXHAUSTED \<equiv> (0x1000003 :: u32)"
abbreviation (input) "EN_KNL_CANT_SCHED \<equiv> (0x1000005 :: u32)"
abbreviation (input) "EN_KNL_INVALID_PRIO \<equiv> (0x1000006 :: u32)"
abbreviation (input) "EN_KNL_VPU_OVER \<equiv> (0x1000007 :: u32)"
abbreviation (input) "EN_KNL_EVTT_HOMONYMY \<equiv> (0x1000009 :: u32)"
abbreviation (input) "EN_KNL_EVENT_FREE \<equiv> (0x100000A :: u32)"
abbreviation (input) "EN_KNL_EVTT_FREE \<equiv> (0x100000B :: u32)"
abbreviation (input) "EN_KNL_EVTTID_LIMIT \<equiv> (0x100000C :: u32)"
abbreviation (input) "EN_KNL_EVTT_UNREGISTER \<equiv> (0x100000D :: u32)"
abbreviation (input) "EN_KNL_EVENT_SYNC_EXIT \<equiv> (0x100000E :: u32)"
abbreviation (input) "EN_MEM_TRIED \<equiv> (0x3000003 :: u32)"
abbreviation (input) "CN_EXP_TYPE_ETCB_EXHAUSTED \<equiv> (0x40000002 :: u32)"
abbreviation (input) "CN_EXP_TYPE_ECB_EXHAUSTED \<equiv> (0x40000003 :: u32)"
abbreviation (input) "CN_EXP_TYPE_MEM_EVTT \<equiv> (0x40000004 :: u32)"
abbreviation (input) "CN_EXP_TYPE_EVENT_EXIT \<equiv> (0x40000005 :: u32)"
abbreviation (input) "EN_LOCK_PARA_ERROR \<equiv> (0x7000001 :: u32)"
abbreviation (input) "EN_LOCK_BLOCK_IN_INT \<equiv> (0x7000003 :: u32)"

text \<open>Event states and wake-up reasons are bits of one word.\<close>

abbreviation (input) "CN_STS_EVENT_READY \<equiv> (0 :: u32)"
abbreviation (input) "CN_STS_EVENT_DELAY \<equiv> (0x1 :: u32)"
abbreviation (input) "CN_STS_SYNC_TIMEOUT \<equiv> (0x2 :: u32)"
abbreviation (input) "CN_STS_WAIT_EVENT_DONE \<equiv> (0x4 :: u32)"
abbreviation (input) "CN_STS_EVENT_EXP_EXIT \<equiv> (0x8 :: u32)"
abbreviation (input) "CN_STS_WAIT_EVTT_POP \<equiv> (0x10 :: u32)"
abbreviation (input) "CN_STS_WAIT_EVTT_DONE \<equiv> (0x20 :: u32)"
abbreviation (input) "CN_STS_WAIT_MEMORY \<equiv> (0x40 :: u32)"
abbreviation (input) "CN_STS_WAIT_SEMP \<equiv> (0x80 :: u32)"
abbreviation (input) "CN_STS_WAIT_MUTEX \<equiv> (0x100 :: u32)"
abbreviation (input) "CN_STS_WAIT_ASYN_SIGNAL \<equiv> (0x200 :: u32)"
abbreviation (input) "CN_WF_EVTT_DELETED \<equiv> (0x4000 :: u32)"
abbreviation (input) "CN_WF_EVENT_NORUN \<equiv> (0x10000 :: u32)"
abbreviation (input) "CN_BLOCK_PRIO_SORT \<equiv> (0x20000 :: u32)"

unbundle bit_operations_syntax

text \<open>\<open>if(status & flag)\<close>.\<close>

definition has_flag :: "u32 \<Rightarrow> u32 \<Rightarrow> bool" where
  "has_flag w f \<longleftrightarrow> w AND f \<noteq> 0"

section \<open>Checked accesses\<close>

type_synonym heap = "eptr \<Rightarrow> EventECB"

fun vptr :: "nat \<Rightarrow> eptr \<Rightarrow> bool" where
  "vptr n (Ecb i) \<longleftrightarrow> i < n"
| "vptr n NULL \<longleftrightarrow> False"
| "vptr n FREE_ANCHOR \<longleftrightarrow> False"

abbreviation valid :: "eptr \<Rightarrow> kst \<Rightarrow> bool" where
  "valid p s \<equiv> vptr (cfgEventLimit s) p"

definition hput :: "(EventECB \<Rightarrow> EventECB) \<Rightarrow> eptr \<Rightarrow> heap \<Rightarrow> heap" where
  "hput f p h = h(p := f (h p))"

definition rd :: "(EventECB \<Rightarrow> 'a) \<Rightarrow> eptr \<Rightarrow> kst \<Rightarrow> 'a option" where
  "rd f p s = (if valid p s then Some (f (ecbs s p)) else None)"

definition wr :: "(EventECB \<Rightarrow> EventECB) \<Rightarrow> eptr \<Rightarrow> kst \<Rightarrow> kst option" where
  "wr f p s = (if valid p s then Some (s\<lparr>ecbs := hput f p (ecbs s)\<rparr>) else None)"

definition rdt :: "(EventType \<Rightarrow> 'a) \<Rightarrow> nat \<Rightarrow> kst \<Rightarrow> 'a option" where
  "rdt f i s = (if i < cfgEvttLimit s then Some (f (evtts s i)) else None)"

definition wrt :: "(EventType \<Rightarrow> EventType) \<Rightarrow> nat \<Rightarrow> kst \<Rightarrow> kst option" where
  "wrt f i s = (if i < cfgEvttLimit s
     then Some (s\<lparr>evtts := (evtts s)(i := f (evtts s i))\<rparr>) else None)"

definition set_next :: "eptr \<Rightarrow> eptr \<Rightarrow> kst \<Rightarrow> kst option" where
  "set_next p v = wr (\<lambda>e. e\<lparr>ecb_next := v\<rparr>) p"

definition set_previous :: "eptr \<Rightarrow> eptr \<Rightarrow> kst \<Rightarrow> kst option" where
  "set_previous p v = wr (\<lambda>e. e\<lparr>ecb_previous := v\<rparr>) p"

definition set_multi_next :: "eptr \<Rightarrow> eptr \<Rightarrow> kst \<Rightarrow> kst option" where
  "set_multi_next p v = wr (\<lambda>e. e\<lparr>multi_next := v\<rparr>) p"

definition set_multi_previous :: "eptr \<Rightarrow> eptr \<Rightarrow> kst \<Rightarrow> kst option" where
  "set_multi_previous p v = wr (\<lambda>e. e\<lparr>multi_previous := v\<rparr>) p"

text \<open>Reading and writing \<open>*Head\<close>.\<close>

definition rd_head :: "headp \<Rightarrow> kst \<Rightarrow> eptr option" where
  "rd_head q s = (case q of
       NULLH \<Rightarrow> None
     | H_Sync i \<Rightarrow> rd ecb_sync (Ecb i) s
     | H_DoneSync i \<Rightarrow> rdt done_sync i s
     | H_PopSync i \<Rightarrow> rdt pop_sync i s
     | H_Semp i \<Rightarrow> Some (semp_sync (semps s i))
     | H_Mutex i \<Rightarrow> Some (mutex_sync (mutexes s i))
     | H_MemSync \<Rightarrow> Some (s_ptMemSync s))"

definition wr_head :: "headp \<Rightarrow> eptr \<Rightarrow> kst \<Rightarrow> kst option" where
  "wr_head q v s = (case q of
       NULLH \<Rightarrow> None
     | H_Sync i \<Rightarrow> wr (\<lambda>e. e\<lparr>ecb_sync := v\<rparr>) (Ecb i) s
     | H_DoneSync i \<Rightarrow> wrt (\<lambda>t. t\<lparr>done_sync := v\<rparr>) i s
     | H_PopSync i \<Rightarrow> wrt (\<lambda>t. t\<lparr>pop_sync := v\<rparr>) i s
     | H_Semp i \<Rightarrow> Some (s\<lparr>semps := (semps s)(i := (semps s i)\<lparr>semp_sync := v\<rparr>)\<rparr>)
     | H_Mutex i \<Rightarrow> Some (s\<lparr>mutexes := (mutexes s)(i := (mutexes s i)\<lparr>mutex_sync := v\<rparr>)\<rparr>)
     | H_MemSync \<Rightarrow> Some (s\<lparr>s_ptMemSync := v\<rparr>))"

text \<open>Threads are \<open>struct ThreadVm\<close> blocks; a released one is \<open>None\<close>.\<close>

definition rdv :: "(ThreadVm \<Rightarrow> 'a) \<Rightarrow> nat option \<Rightarrow> kst \<Rightarrow> 'a option" where
  "rdv f v s = do { i \<leftarrow> v; x \<leftarrow> vms s i; Some (f x) }"

definition wrv :: "(ThreadVm \<Rightarrow> ThreadVm) \<Rightarrow> nat option \<Rightarrow> kst \<Rightarrow> kst option" where
  "wrv f v s = do { i \<leftarrow> v; x \<leftarrow> vms s i; Some (s\<lparr>vms := (vms s)(i \<mapsto> f x)\<rparr>) }"

definition kcall_out :: "kcall \<Rightarrow> kst \<Rightarrow> kst" where
  "kcall_out c s = s\<lparr>kcalls := kcalls s @ [c]\<rparr>"

text \<open>\<open>evtt_id & (~CN_EVTT_ID_MASK)\<close> as an index of \<open>g_ptEvttTable\<close>.\<close>

definition evtt_index :: "u16 \<Rightarrow> nat" where
  "evtt_index w = unat (w AND NOT CN_EVTT_ID_MASK)"

section \<open>The link fields as rings\<close>

definition nxt :: "heap \<Rightarrow> eptr \<Rightarrow> eptr" where "nxt h p = ecb_next (h p)"
definition prv :: "heap \<Rightarrow> eptr \<Rightarrow> eptr" where "prv h p = ecb_previous (h p)"
definition mnx :: "heap \<Rightarrow> eptr \<Rightarrow> eptr" where "mnx h p = multi_next (h p)"
definition mpv :: "heap \<Rightarrow> eptr \<Rightarrow> eptr" where "mpv h p = multi_previous (h p)"
definition pri :: "heap \<Rightarrow> eptr \<Rightarrow> u32" where "pri h p = prio (h p)"
definition sts :: "heap \<Rightarrow> eptr \<Rightarrow> u32" where "sts h p = event_status (h p)"
definition shd :: "heap \<Rightarrow> eptr \<Rightarrow> headp" where "shd h p = sync_head (h p)"
definition wkf :: "heap \<Rightarrow> eptr \<Rightarrow> u32" where "wkf h p = wakeup_from (h p)"
definition due :: "heap \<Rightarrow> eptr \<Rightarrow> s64" where "due h p = delay_end_tick (h p)"

named_theorems heap_simps "reading a field after a write"

lemma fold_fields [heap_simps]:
  "ecb_next (h p) = nxt h p" "ecb_previous (h p) = prv h p"
  "multi_next (h p) = mnx h p" "multi_previous (h p) = mpv h p"
  "prio (h p) = pri h p" "event_status (h p) = sts h p"
  "sync_head (h p) = shd h p" "delay_end_tick (h p) = due h p" "wakeup_from (h p) = wkf h p"
  by (simp_all add: wkf_def nxt_def prv_def mnx_def mpv_def pri_def sts_def shd_def due_def)

lemma field_hput [heap_simps]:
  "nxt (hput f p h) = (nxt h)(p := ecb_next (f (h p)))"
  "prv (hput f p h) = (prv h)(p := ecb_previous (f (h p)))"
  "mnx (hput f p h) = (mnx h)(p := multi_next (f (h p)))"
  "mpv (hput f p h) = (mpv h)(p := multi_previous (f (h p)))"
  "pri (hput f p h) = (pri h)(p := prio (f (h p)))"
  "sts (hput f p h) = (sts h)(p := event_status (f (h p)))"
  "shd (hput f p h) = (shd h)(p := sync_head (f (h p)))"
  "due (hput f p h) = (due h)(p := delay_end_tick (f (h p)))"
  "wkf (hput f p h) = (wkf h)(p := wakeup_from (f (h p)))"
  by (simp_all add: hput_def fun_eq_iff nxt_def prv_def mnx_def mpv_def pri_def sts_def
      shd_def due_def wkf_def)

text \<open>A write that keeps a field, stated without a case distinction on the pointers.\<close>

lemma hput_keep:
  "(\<And>e. ecb_next (f e) = ecb_next e) \<Longrightarrow> nxt (hput f p h) = nxt h"
  "(\<And>e. ecb_previous (f e) = ecb_previous e) \<Longrightarrow> prv (hput f p h) = prv h"
  "(\<And>e. multi_next (f e) = multi_next e) \<Longrightarrow> mnx (hput f p h) = mnx h"
  "(\<And>e. multi_previous (f e) = multi_previous e) \<Longrightarrow> mpv (hput f p h) = mpv h"
  "(\<And>e. prio (f e) = prio e) \<Longrightarrow> pri (hput f p h) = pri h"
  "(\<And>e. event_status (f e) = event_status e) \<Longrightarrow> sts (hput f p h) = sts h"
  by (auto simp: hput_def fun_eq_iff nxt_def prv_def mnx_def mpv_def pri_def sts_def)

interpretation main: dlink nxt prv
  "\<lambda>p v. hput (\<lambda>e. e\<lparr>ecb_next := v\<rparr>) p" "\<lambda>p v. hput (\<lambda>e. e\<lparr>ecb_previous := v\<rparr>) p"
  by unfold_locales (simp_all add: heap_simps)

interpretation multi: dlink mnx mpv
  "\<lambda>p v. hput (\<lambda>e. e\<lparr>multi_next := v\<rparr>) p" "\<lambda>p v. hput (\<lambda>e. e\<lparr>multi_previous := v\<rparr>) p"
  by unfold_locales (simp_all add: heap_simps)

lemma vptrD: "vptr n p \<Longrightarrow> p \<noteq> NULL \<and> p \<noteq> FREE_ANCHOR"
  by (cases p) auto

text \<open>
  The definitions that turn a checked access to a valid pointer into a plain update.
\<close>

lemma rd_valid [fault_simps]: "valid p s \<Longrightarrow> rd f p s = Some (f (ecbs s p))"
  by (simp add: rd_def)

lemma wr_valid [fault_simps]: "valid p s \<Longrightarrow> wr f p s = Some (s\<lparr>ecbs := hput f p (ecbs s)\<rparr>)"
  by (simp add: wr_def)

lemmas [fault_simps] = set_next_def set_previous_def set_multi_next_def set_multi_previous_def



section \<open>What an operation leaves alone\<close>

text \<open>
  \<open>links_only A h h'\<close>: the heaps differ at most in the four queue links of the events of \<open>A\<close>.
\<close>

definition no_links :: "EventECB \<Rightarrow> EventECB" where
  "no_links e = e\<lparr>ecb_next := NULL, ecb_previous := NULL, multi_next := NULL, multi_previous := NULL\<rparr>"

definition links_only :: "eptr set \<Rightarrow> heap \<Rightarrow> heap \<Rightarrow> bool" where
  "links_only A h h' \<longleftrightarrow> (\<forall>p. no_links (h' p) = no_links (h p)) \<and> (\<forall>p. p \<notin> A \<longrightarrow> h' p = h p)"

lemma links_only_refl [simp]: "links_only A h h"
  by (simp add: links_only_def)

lemma links_only_trans: "links_only A h h' \<Longrightarrow> links_only A h' h'' \<Longrightarrow> links_only A h h''"
  by (simp add: links_only_def)

lemma links_only_mono: "links_only A h h' \<Longrightarrow> A \<subseteq> B \<Longrightarrow> links_only B h h'"
  by (auto simp: links_only_def)

lemma links_only_hput:
  assumes "links_only A h h'" and "p \<in> A"
  shows "links_only A h (hput (\<lambda>e. e\<lparr>ecb_next := v\<rparr>) p h')"
    and "links_only A h (hput (\<lambda>e. e\<lparr>ecb_previous := v\<rparr>) p h')"
    and "links_only A h (hput (\<lambda>e. e\<lparr>multi_next := v\<rparr>) p h')"
    and "links_only A h (hput (\<lambda>e. e\<lparr>multi_previous := v\<rparr>) p h')"
  using assms by (auto simp: links_only_def hput_def no_links_def)

lemma links_only_fields:
  assumes "links_only A h h'"
  shows "pri h' = pri h" and "sts h' = sts h" and "shd h' = shd h" and "due h' = due h" and "wkf h' = wkf h"
proof -
  have n: "no_links (h' p) = no_links (h p)" for p using assms by (simp add: links_only_def)
  have f: "f (h' p) = f (h p)" if "\<And>e. f (no_links e) = f e" for f :: "EventECB \<Rightarrow> 'z" and p
    using n [of p] that by metis
  show "pri h' = pri h" "sts h' = sts h" "shd h' = shd h" "due h' = due h" "wkf h' = wkf h"
    by (auto simp: fun_eq_iff pri_def sts_def shd_def due_def wkf_def no_links_def intro!: f)
qed

lemma links_only_data:
  assumes "links_only A h h'"
  shows "wakeup_from (h' p) = wakeup_from (h p)" and "ecb_sync (h' p) = ecb_sync (h p)"
    and "ecb_vm (h' p) = ecb_vm (h p)" and "event_id (h' p) = event_id (h p)"
    and "sync_counter (h' p) = sync_counter (h p)" and "evtt_id (h' p) = evtt_id (h p)"
proof -
  have n: "no_links (h' p) = no_links (h p)" using assms by (simp add: links_only_def)
  have f: "f (h' p) = f (h p)" if "\<And>e. f (no_links e) = f e" for f :: "EventECB \<Rightarrow> 'z"
    using n that by metis
  show "wakeup_from (h' p) = wakeup_from (h p)" "ecb_sync (h' p) = ecb_sync (h p)"
    "ecb_vm (h' p) = ecb_vm (h p)" "event_id (h' p) = event_id (h p)"
    "sync_counter (h' p) = sync_counter (h p)" "evtt_id (h' p) = evtt_id (h p)"
    by (rule f; simp add: no_links_def)+
qed

lemma links_only_outside:
  assumes "links_only A h h'" and "p \<notin> A"
  shows "h' p = h p" and "nxt h' p = nxt h p" and "prv h' p = prv h p"
    and "mnx h' p = mnx h p" and "mpv h' p = mpv h p"
  using assms by (auto simp: links_only_def nxt_def prv_def mnx_def mpv_def)

lemma links_only_rings:
  assumes "links_only A h h'" and "set xs \<inter> A = {}"
  shows "dring (nxt h') (prv h') xs = dring (nxt h) (prv h) xs"
    and "dring (mnx h') (mpv h') xs = dring (mnx h) (mpv h) xs"
proof -
  have "p \<notin> A" if "p \<in> set xs" for p using that assms(2) by auto
  then show "dring (nxt h') (prv h') xs = dring (nxt h) (prv h) xs"
    and "dring (mnx h') (mpv h') xs = dring (mnx h) (mpv h) xs"
    using links_only_outside [OF assms(1)] by (auto intro!: dring_cong)
qed

end
