(* ===== verification/Ready.thy ===== *)
theory Ready
  imports KState
begin

text \<open>
  The ready queue of \<open>djyos/core/djyos.c\<close>: a ring through \<open>next\<close>/\<open>previous\<close> sorted by
  priority, whose first event of each priority is also a member of a second ring through
  \<open>multi_next\<close>/\<open>multi_previous\<close> (the "priority monotone" queue), so that the insertion point
  is found by visiting one event per priority.  The operations on it are
  \<open>__Djy_EventReady\<close> and \<open>__Djy_CutReadyEvent\<close>.
\<close>

section \<open>Pointer idioms of the code\<close>

text \<open>\<open>e->next->previous = e->previous; e->previous->next = e->next;\<close>\<close>

definition cut_main :: "eptr \<Rightarrow> kst \<Rightarrow> kst option" where
  "cut_main e s = do {
     nx \<leftarrow> rd ecb_next e s; pv \<leftarrow> rd ecb_previous e s;
     s \<leftarrow> set_previous nx pv s;
     pv \<leftarrow> rd ecb_previous e s; nx \<leftarrow> rd ecb_next e s;
     set_next pv nx s }"

text \<open>\<open>e->next = y; e->previous = y->previous; y->previous->next = e; y->previous = e;\<close>\<close>

definition ins_main :: "eptr \<Rightarrow> eptr \<Rightarrow> kst \<Rightarrow> kst option" where
  "ins_main e y s = do {
     s \<leftarrow> set_next e y s;
     pv \<leftarrow> rd ecb_previous y s;
     s \<leftarrow> set_previous e pv s;
     pv \<leftarrow> rd ecb_previous y s;
     s \<leftarrow> set_next pv e s;
     set_previous y e s }"

text \<open>The same idioms for the \<open>multi\<close> links, in the orders of writes the code uses.\<close>

definition ins_multi :: "eptr \<Rightarrow> eptr \<Rightarrow> kst \<Rightarrow> kst option" where
  "ins_multi e y s = do {
     s \<leftarrow> set_multi_next e y s;
     pv \<leftarrow> rd multi_previous y s;
     s \<leftarrow> set_multi_previous e pv s;
     pv \<leftarrow> rd multi_previous y s;
     s \<leftarrow> set_multi_next pv e s;
     set_multi_previous y e s }"

definition ins_multi_ready :: "eptr \<Rightarrow> eptr \<Rightarrow> kst \<Rightarrow> kst option" where
  "ins_multi_ready e y s = do {
     pv \<leftarrow> rd multi_previous y s;
     s \<leftarrow> set_multi_next pv e s;
     pv \<leftarrow> rd multi_previous y s;
     s \<leftarrow> set_multi_previous e pv s;
     s \<leftarrow> set_multi_previous y e s;
     set_multi_next e y s }"

text \<open>\<open>y\<close> takes the place of \<open>e\<close>.\<close>

definition swap_multi :: "eptr \<Rightarrow> eptr \<Rightarrow> kst \<Rightarrow> kst option" where
  "swap_multi e y s = do {
     pv \<leftarrow> rd multi_previous e s;
     s \<leftarrow> set_multi_next pv y s;
     pv \<leftarrow> rd multi_previous e s;
     s \<leftarrow> set_multi_previous y pv s;
     nx \<leftarrow> rd multi_next e s;
     s \<leftarrow> set_multi_previous nx y s;
     nx \<leftarrow> rd multi_next e s;
     set_multi_next y nx s }"

text \<open>\<open>y->multi_previous = e->multi_previous; e->multi_previous->multi_next = y;\<close>\<close>

definition drop_multi :: "eptr \<Rightarrow> eptr \<Rightarrow> kst \<Rightarrow> kst option" where
  "drop_multi e y s = do {
     pv \<leftarrow> rd multi_previous e s;
     s \<leftarrow> set_multi_previous y pv s;
     pv \<leftarrow> rd multi_previous e s;
     set_multi_next pv y s }"

definition self_multi :: "eptr \<Rightarrow> kst \<Rightarrow> kst option" where
  "self_multi e s = do { s \<leftarrow> set_multi_next e e s; set_multi_previous e e s }"

definition clear_multi :: "eptr \<Rightarrow> kst \<Rightarrow> kst option" where
  "clear_multi e s = do { s \<leftarrow> set_multi_next e NULL s; set_multi_previous e NULL s }"

definition self_main :: "eptr \<Rightarrow> kst \<Rightarrow> kst option" where
  "self_main e s = do { s \<leftarrow> set_next e e s; set_previous e e s }"

definition clear_main :: "eptr \<Rightarrow> kst \<Rightarrow> kst option" where
  "clear_main e s = do { s \<leftarrow> set_next e NULL s; set_previous e NULL s }"

section \<open>The two operations\<close>

text \<open>
  The loop \<open>do { if (skip event) event = event->link; else break; } while (event != head);\<close>
  with which the kernel looks for the place of an event in a sorted queue.
\<close>

partial_function (option) ring_search ::
    "(EventECB \<Rightarrow> eptr) \<Rightarrow> (EventECB \<Rightarrow> bool) \<Rightarrow> eptr \<Rightarrow> eptr \<Rightarrow> kst \<Rightarrow> eptr option" where
  "ring_search lnk skip head event s = do {
     c \<leftarrow> rd skip event s;
     if c then do {
       nx \<leftarrow> rd lnk event s;
       if nx \<noteq> head then ring_search lnk skip head nx s else Some nx }
     else Some event }"

definition Djy_EventReady :: "eptr \<Rightarrow> kst \<Rightarrow> kst option" where
  "Djy_EventReady event_ready s = do {
     k \<leftarrow> rd prio event_ready s;
     event \<leftarrow> ring_search multi_next (\<lambda>e. prio e \<le> k) (g_ptEventReady s) (g_ptEventReady s) s;
     s \<leftarrow> ins_main event_ready event s;
     pv \<leftarrow> rd ecb_previous event_ready s;
     pk \<leftarrow> rd prio pv s;
     s \<leftarrow> (if k \<noteq> pk then ins_multi_ready event_ready event s
          else clear_multi event_ready s);
     rk \<leftarrow> rd prio (g_ptEventReady s) s;
     Some (if k < rk then s\<lparr>g_ptEventReady := event_ready\<rparr> else s) }"

definition Djy_CutReadyEvent :: "eptr \<Rightarrow> kst \<Rightarrow> kst option" where
  "Djy_CutReadyEvent event s = (
     if event \<noteq> g_ptEventReady s then do {
       mn \<leftarrow> rd multi_next event s;
       if mn = NULL then cut_main event s
       else do {
         pl_ecb \<leftarrow> rd ecb_next event s;
         s \<leftarrow> cut_main event s;
         k \<leftarrow> rd prio event s;
         pk \<leftarrow> rd prio pl_ecb s;
         if pk = k then swap_multi event pl_ecb s else drop_multi event pl_ecb s } }
     else do {
       pl_ecb \<leftarrow> rd ecb_next event s;
       let s = s\<lparr>g_ptEventReady := pl_ecb\<rparr>;
       s \<leftarrow> cut_main event s;
       k \<leftarrow> rd prio event s;
       pk \<leftarrow> rd prio pl_ecb s;
       if pk = k then swap_multi event pl_ecb s else drop_multi event pl_ecb s })"

lemmas [fault_simps] = cut_main_def ins_main_def ins_multi_def ins_multi_ready_def
  swap_multi_def drop_multi_def self_multi_def clear_multi_def self_main_def clear_main_def

section \<open>First of each priority\<close>

fun leaders_from :: "('p \<Rightarrow> 'k) \<Rightarrow> 'k \<Rightarrow> 'p list \<Rightarrow> 'p list" where
  "leaders_from f k [] = []"
| "leaders_from f k (x # xs) =
     (if f x = k then leaders_from f k xs else x # leaders_from f (f x) xs)"

fun leaders :: "('p \<Rightarrow> 'k) \<Rightarrow> 'p list \<Rightarrow> 'p list" where
  "leaders f [] = []"
| "leaders f (x # xs) = x # leaders_from f (f x) xs"

lemma leaders_from_append:
  "leaders_from f k (as @ bs) =
     leaders_from f k as @ leaders_from f (if as = [] then k else f (last as)) bs"
  by (induction f k as rule: leaders_from.induct) auto

lemma leaders_append:
  "as \<noteq> [] \<Longrightarrow> leaders f (as @ bs) = leaders f as @ leaders_from f (f (last as)) bs"
  by (cases as) (auto simp: leaders_from_append)

lemma set_leaders_from: "set (leaders_from f k xs) \<subseteq> set xs"
  by (induction f k xs rule: leaders_from.induct) auto

lemma set_leaders: "set (leaders f xs) \<subseteq> set xs"
  using set_leaders_from by (cases xs) fastforce+

lemma leaders_hd: "xs \<noteq> [] \<Longrightarrow> leaders f xs \<noteq> [] \<and> hd (leaders f xs) = hd xs"
  by (cases xs) auto

lemma leaders_cong: "(\<And>x. x \<in> set xs \<Longrightarrow> f x = g x) \<Longrightarrow> leaders f xs = leaders g xs"
proof -
  have "(\<And>x. x \<in> set ys \<Longrightarrow> f x = g x) \<Longrightarrow> leaders_from f k ys = leaders_from g k ys" for k ys
    by (induction f k ys rule: leaders_from.induct) auto
  then show "(\<And>x. x \<in> set xs \<Longrightarrow> f x = g x) \<Longrightarrow> leaders f xs = leaders g xs"
    by (cases xs) auto
qed

lemma leaders_insert:
  fixes f :: "'p \<Rightarrow> 'k::linorder"
  assumes "f x < f y"
  shows "leaders f (as @ x # y # bs) =
     (if as \<noteq> [] \<and> f (last as) = f x then leaders f as @ y # leaders_from f (f y) bs
      else leaders f as @ x # y # leaders_from f (f y) bs)"
  using assms by (cases "as = []") (auto simp: leaders_append)

lemma leaders_before:
  fixes f :: "'p \<Rightarrow> 'k::linorder"
  assumes "as = [] \<or> f (last as) < f y"
  shows "leaders f (as @ y # bs) = leaders f as @ y # leaders_from f (f y) bs"
  using assms by (cases "as = []") (auto simp: leaders_append)

section \<open>The invariant of the ready queue\<close>

definition ready_ok :: "nat \<Rightarrow> heap \<Rightarrow> eptr \<Rightarrow> eptr list \<Rightarrow> bool" where
  "ready_ok n h r xs \<longleftrightarrow>
     dring (nxt h) (prv h) xs \<and> r = hd xs \<and> sorted (map (pri h) xs) \<and>
     dring (mnx h) (mpv h) (leaders (pri h) xs) \<and>
     (\<forall>x \<in> set xs - set (leaders (pri h) xs). mnx h x = NULL) \<and>
     (\<forall>x \<in> set xs. vptr n x)"

abbreviation ready :: "kst \<Rightarrow> eptr list \<Rightarrow> bool" where
  "ready s xs \<equiv> ready_ok (cfgEventLimit s) (ecbs s) (g_ptEventReady s) xs"

text \<open>Where an event of priority \<open>k\<close> goes: behind all events of the same or a higher one.\<close>

definition prio_insert :: "('p \<Rightarrow> 'k::linorder) \<Rightarrow> 'p \<Rightarrow> 'p list \<Rightarrow> 'p list" where
  "prio_insert f x xs = ins_by (\<lambda>y. f y \<le> f x) x xs"

lemma set_prio_insert [simp]: "set (prio_insert f x xs) = insert x (set xs)"
  by (simp add: prio_insert_def)

lemma prio_insert_split:
  assumes "sorted (map f xs)" and "xs \<noteq> []" and "f x < f (last xs)"
  obtains as y bs where "xs = as @ y # bs" and "prio_insert f x xs = as @ x # y # bs"
    and "\<And>a. a \<in> set as \<Longrightarrow> f a \<le> f x" and "f x < f y"
proof -
  let ?as = "takeWhile (\<lambda>y. f y \<le> f x) xs" and ?ds = "dropWhile (\<lambda>y. f y \<le> f x) xs"
  have "last xs \<in> set xs" "\<not> f (last xs) \<le> f x" using assms(2,3) by (simp_all add: not_le)
  then have "?ds \<noteq> []" unfolding dropWhile_eq_Nil_conv by blast
  then obtain y bs where ds: "?ds = y # bs" by (cases ?ds) auto
  have "f x < f y" using hd_dropWhile [OF \<open>?ds \<noteq> []\<close>] ds by simp
  moreover have "xs = ?as @ y # bs" using ds takeWhile_dropWhile_id [of "\<lambda>y. f y \<le> f x" xs] by simp
  moreover have "a \<in> set ?as \<Longrightarrow> f a \<le> f x" for a by (auto dest: set_takeWhileD)
  ultimately show ?thesis using that [of ?as y bs] ds by (simp add: prio_insert_def ins_by_def)
qed

text \<open>The search returns: at the first element it does not skip, or back at the head.\<close>

lemma ring_search_from:
  assumes "dring (\<lambda>p. lnk (ecbs s p)) pv (pre @ xs)" and "xs \<noteq> []" and "h = hd (pre @ xs)"
    and "\<forall>z \<in> set xs. valid z s"
  shows "ring_search lnk skip h (hd xs) s = Some (hd (dropWhile (\<lambda>p. skip (ecbs s p)) xs @ [h]))"
  using assms
proof (induction xs arbitrary: pre)
  case (Cons z zs)
  show ?case
  proof (cases zs)
    case Nil
    then have "lnk (ecbs s z) = h"
      using Cons.prems(1,3) dring_next_last [of "\<lambda>p. lnk (ecbs s p)" pv pre z] by simp
    then show ?thesis using Cons.prems(4) Nil by (subst ring_search.simps) (simp add: fault_simps)
  next
    case (Cons w ws)
    then have "lnk (ecbs s z) = w"
      using Cons.prems(1) dring_next_mid [of "\<lambda>p. lnk (ecbs s p)" pv pre z w ws] by simp
    moreover have "w \<noteq> h"
    proof -
      have "distinct (pre @ z # w # ws)" using Cons.prems(1) Cons by (simp add: dring_iff)
      then show ?thesis using Cons.prems(3) by (cases pre) auto
    qed
    moreover have "ring_search lnk skip h (hd zs) s = Some (hd (dropWhile (\<lambda>p. skip (ecbs s p)) zs @ [h]))"
      using Cons.prems Cons by (intro Cons.IH [of "pre @ [z]"]) auto
    ultimately show ?thesis using Cons.prems(4) Cons
      by (subst ring_search.simps) (simp add: fault_simps)
  qed
qed simp

lemma ring_search_finds:
  assumes "dring (\<lambda>p. lnk (ecbs s p)) pv xs" and "h = hd xs" and "\<forall>z \<in> set xs. valid z s"
  shows "ring_search lnk skip h h s = Some (hd (dropWhile (\<lambda>p. skip (ecbs s p)) xs @ [h]))"
proof -
  have "xs \<noteq> []" using assms(1) by auto
  then show ?thesis using ring_search_from [of lnk s pv "[]" xs h skip] assms by simp
qed

lemma ready_okD:
  assumes "ready s xs"
  shows "dring (nxt (ecbs s)) (prv (ecbs s)) xs" and "g_ptEventReady s = hd xs"
    and "sorted (map (pri (ecbs s)) xs)"
    and "dring (mnx (ecbs s)) (mpv (ecbs s)) (leaders (pri (ecbs s)) xs)"
    and "\<And>x. x \<in> set xs \<Longrightarrow> x \<notin> set (leaders (pri (ecbs s)) xs) \<Longrightarrow> mnx (ecbs s) x = NULL"
    and "\<And>x. x \<in> set xs \<Longrightarrow> valid x s" and "xs \<noteq> []" and "distinct xs"
  using assms by (auto simp: ready_ok_def dring_iff)


lemma leaders_here:
  "as = [] \<or> f (last as) \<noteq> f x \<Longrightarrow> leaders f (as @ x # bs) = leaders f as @ x # leaders_from f (f x) bs"
  by (cases "as = []") (auto simp: leaders_append)

lemma leaders_hidden:
  "as \<noteq> [] \<Longrightarrow> f (last as) = f x \<Longrightarrow> leaders f (as @ x # bs) = leaders f as @ leaders_from f (f x) bs"
  by (simp add: leaders_append)

lemma leaders_mem:
  assumes "distinct (as @ x # bs)"
  shows "x \<in> set (leaders f (as @ x # bs)) \<longleftrightarrow> as = [] \<or> f (last as) \<noteq> f x"
proof (cases "as = [] \<or> f (last as) \<noteq> f x")
  case True
  then show ?thesis by (simp add: leaders_here)
next
  case False
  then have "set (leaders f (as @ x # bs)) \<subseteq> set as \<union> set bs"
    using set_leaders [of f as] set_leaders_from [of f "f x" bs] by (auto simp: leaders_hidden)
  then show ?thesis using False assms by auto
qed

text \<open>
  \<open>__Djy_EventReady\<close> returns, and puts the event behind the last event that has its priority
  or a higher one.  The event that runs at the lowest priority of the system (the service
  event) is never at risk of being overtaken, so its presence bounds the search.
\<close>

lemma EventReady_ready:
  assumes r: "ready s xs" and e: "e \<notin> set xs" "valid e s" and k: "pri (ecbs s) e < pri (ecbs s) (last xs)"
  shows "\<exists>h r'. Djy_EventReady e s = Some (s\<lparr>ecbs := h, g_ptEventReady := r'\<rparr>) \<and>
    ready_ok (cfgEventLimit s) h r' (prio_insert (pri (ecbs s)) e xs) \<and>
    links_only (insert e (set xs)) (ecbs s) h"
proof -
  let ?h = "ecbs s" and ?f = "pri (ecbs s)"
  note R = ready_okD [OF r]
  obtain as y bs where xs: "xs = as @ y # bs" and ins: "prio_insert ?f e xs = as @ e # y # bs"
    and le: "\<And>a. a \<in> set as \<Longrightarrow> ?f a \<le> ?f e" and lt: "?f e < ?f y"
    using prio_insert_split [OF R(3,7) k] by blast
  have as: "as = [] \<or> ?f (last as) < ?f y" using le lt last_in_set [of as] by (metis le_less_trans)
  let ?L = "leaders_from ?f (?f y) bs"
  have L: "leaders ?f xs = leaders ?f as @ y # ?L" using leaders_before [OF as] xs by simp
  have hdL: "hd (leaders ?f as @ [y]) = hd xs"
    using leaders_hd [of as ?f] xs by (cases as) auto
  have val: "valid z s" if "z \<in> set (leaders ?f xs)" for z
    using that set_leaders [of ?f xs] R(6) by auto
  have srch: "ring_search multi_next (\<lambda>e'. prio e' \<le> ?f e) (hd xs) (hd xs) s = Some y"
  proof -
    have "dring (\<lambda>p. multi_next (?h p)) (mpv ?h) (leaders ?f xs)" using R(4) by (simp add: mnx_def [abs_def])
    moreover have "hd xs = hd (leaders ?f xs)" using R(7) leaders_hd [of xs ?f] by simp
    moreover have "dropWhile (\<lambda>p. prio (?h p) \<le> ?f e) (leaders ?f xs) = y # ?L"
    proof -
      have "\<forall>z \<in> set (leaders ?f as). ?f z \<le> ?f e" using le set_leaders [of ?f as] by auto
      then show ?thesis using lt by (simp add: L pri_def dropWhile_append not_le)
    qed
    ultimately show ?thesis
      using ring_search_finds [of multi_next s _ _ "hd xs" "\<lambda>e'. prio e' \<le> ?f e"] val by simp
  qed
  let ?p = "prv ?h y" and ?q = "mpv ?h y"
  have yv: "valid y s" "y \<noteq> e" using R(6) xs e by auto
  have pin: "?p \<in> set xs" using dring_prev_in [OF R(1), of y] xs by simp
  then have pv: "valid ?p s" "?p \<noteq> e" using R(6) e by auto
  have "?q \<in> set (leaders ?f xs)" using dring_prev_in [OF R(4), of y] L by simp
  then have qin: "?q \<in> set xs" and qv: "valid ?q s" "?q \<noteq> e"
    using set_leaders [of ?f xs] e val by auto
  define h1 where "h1 = hput (\<lambda>x. x\<lparr>ecb_previous := e\<rparr>) y (hput (\<lambda>x. x\<lparr>ecb_next := e\<rparr>) ?p
     (hput (\<lambda>x. x\<lparr>ecb_previous := ?p\<rparr>) e (hput (\<lambda>x. x\<lparr>ecb_next := y\<rparr>) e ?h)))"
  have h1m: "dring (nxt h1) (prv h1) (as @ e # y # bs)" unfolding h1_def
    by (rule main.link_before [OF _ _ refl]) (use R(1) xs e in auto)
  have h1f: "pri h1 = ?f" "mnx h1 = mnx ?h" "mpv h1 = mpv ?h" "prv h1 e = ?p"
    using yv pv by (auto simp: h1_def heap_simps fun_eq_iff)
  have h1l: "links_only (insert e (set xs)) ?h h1"
    unfolding h1_def using pin xs by (intro links_only_hput links_only_refl) auto
  have lead: "as \<noteq> [] \<and> ?f (last as) = ?f e \<longleftrightarrow> ?f ?p = ?f e"
  proof (cases "as = []")
    case True
    then have "?p = last xs" using R(1) xs by (simp add: dring_prev)
    then show ?thesis using True k by simp
  next
    case False
    then have "as @ y # bs = butlast as @ last as # y # bs" by simp
    then have "?p = last as" using R(1) xs dring_prev_mid [of "nxt ?h" "prv ?h" "butlast as" "last as" y bs] by metis
    then show ?thesis using False by simp
  qed
  define h2 where "h2 = (if ?f e \<noteq> ?f ?p
     then hput (\<lambda>x. x\<lparr>multi_next := y\<rparr>) e (hput (\<lambda>x. x\<lparr>multi_previous := e\<rparr>) y
        (hput (\<lambda>x. x\<lparr>multi_previous := ?q\<rparr>) e (hput (\<lambda>x. x\<lparr>multi_next := e\<rparr>) ?q h1)))
     else hput (\<lambda>x. x\<lparr>multi_previous := NULL\<rparr>) e (hput (\<lambda>x. x\<lparr>multi_next := NULL\<rparr>) e h1))"
  have h2f: "pri h2 = ?f" "nxt h2 = nxt h1" "prv h2 = prv h1"
    by (auto simp: h2_def h1f(1) heap_simps fun_eq_iff)
  have h2l: "links_only (insert e (set xs)) ?h h2"
    unfolding h2_def using h1l qin xs by (auto intro!: links_only_hput)
  have L2: "leaders ?f (as @ e # y # bs) =
      (if ?f ?p = ?f e then leaders ?f as @ y # ?L else leaders ?f as @ e # y # ?L)"
    using leaders_insert [of ?f e y as bs] lt lead by simp
  have Ls: "set (leaders ?f as @ y # ?L) \<subseteq> set xs" using set_leaders [of ?f xs] L by simp
  have multi: "dring (mnx h2) (mpv h2) (leaders ?f (as @ e # y # bs)) \<and>
      (\<forall>x \<in> insert e (set xs) - set (leaders ?f (as @ e # y # bs)). mnx h2 x = NULL)"
  proof (cases "?f e = ?f ?p")
    case True
    then have [simp]: "mnx h2 = (mnx ?h)(e := NULL)" "mpv h2 = (mpv ?h)(e := NULL)"
      by (simp_all add: h2_def heap_simps h1f)
    have "e \<notin> set (leaders ?f as @ y # ?L)" using Ls e by blast
    then have "dring (mnx h2) (mpv h2) (leaders ?f as @ y # ?L)" using R(4) L by simp
    then show ?thesis using True L2 L R(5) Ls e by auto
  next
    case False
    then have [simp]: "mnx h2 = (mnx ?h)(?q := e, e := y)" "mpv h2 = (mpv ?h)(e := ?q, y := e)"
      using yv qv by (simp_all add: h2_def heap_simps h1f fun_eq_iff)
    have "e \<notin> set (leaders ?f as @ y # ?L)" using Ls e by blast
    with R(4) have "dring ((mnx ?h)(e := y, ?q := e)) ((mpv ?h)(e := ?q, y := e)) (leaders ?f as @ e # y # ?L)"
      unfolding L by (rule dring_insert_mid)
    then have "dring (mnx h2) (mpv h2) (leaders ?f as @ e # y # ?L)"
      using fun_upd_twist [OF qv(2), of "mnx ?h" e y] by simp
    moreover have "?q \<in> set (leaders ?f xs)" by fact
    ultimately show ?thesis using False L2 L R(5) by auto
  qed
  have hv: "valid (hd xs) s" using R(6,7) by simp
  have run: "Djy_EventReady e s = Some (s\<lparr>ecbs := h2,
      g_ptEventReady := if ?f e < ?f (hd xs) then e else hd xs\<rparr>)"
    using srch R(2) e(2) yv pv qv hv
    unfolding Djy_EventReady_def h2_def h1_def
    by (simp add: fault_simps heap_simps)
  have hd: "(if ?f e < ?f (hd xs) then e else hd xs) = hd (as @ e # y # bs)"
    using xs le [of "hd as"] lt by (cases as) (auto dest: leD)
  have "sorted (map ?f (as @ e # y # bs))"
    using R(3) xs le lt by (auto simp: sorted_append)
  then have "ready_ok (cfgEventLimit s) h2 (if ?f e < ?f (hd xs) then e else hd xs) (as @ e # y # bs)"
    unfolding ready_ok_def h2f using h1m multi hd R(6) e xs by auto
  then show ?thesis unfolding ins using run h2l by blast
qed


text \<open>
  \<open>__Djy_CutReadyEvent\<close> unlinks any event but the last one (the service event) and keeps the
  queue sorted and its second ring complete: the next event of the same priority, if there is
  one, takes the place of the one cut.
\<close>

lemma CutReadyEvent_ready:
  assumes r: "ready s (as @ e # y # bs)"
  shows "\<exists>h r'. Djy_CutReadyEvent e s = Some (s\<lparr>ecbs := h, g_ptEventReady := r'\<rparr>) \<and>
    ready_ok (cfgEventLimit s) h r' (as @ y # bs) \<and>
    links_only (set (as @ e # y # bs)) (ecbs s) h"
proof -
  let ?xs = "as @ e # y # bs" and ?h = "ecbs s" and ?f = "pri (ecbs s)"
  note R = ready_okD [OF r]
  have ny: "nxt ?h e = y" by (rule dring_next_mid [OF R(1)])
  let ?p = "prv ?h e" and ?q = "mpv ?h e" and ?n = "mnx ?h e"
  have ne: "y \<noteq> e" "e \<notin> set (as @ y # bs)" using R(8) by auto
  have pin: "?p \<in> set ?xs" using dring_prev_in [OF R(1), of e] by simp
  have pe: "?p \<noteq> e" using dring_proper [OF R(1)] by simp
  have val: "valid e s" "valid y s" "valid ?p s" using R(6) pin by auto
  define h1 where "h1 = hput (\<lambda>x. x\<lparr>ecb_next := y\<rparr>) ?p (hput (\<lambda>x. x\<lparr>ecb_previous := ?p\<rparr>) y ?h)"
  have h1m: "dring (nxt h1) (prv h1) (as @ y # bs)" unfolding h1_def
    by (rule main.unlink [OF R(1)]) (simp_all add: ny)
  have h1f: "pri h1 = ?f" "mnx h1 = mnx ?h" "mpv h1 = mpv ?h"
    by (auto simp: h1_def heap_simps fun_eq_iff)
  have h1l: "links_only (set ?xs) ?h h1"
    unfolding h1_def using pin by (intro links_only_hput links_only_refl) auto
  have h1r: "cut_main e s' = Some (s'\<lparr>ecbs := h1\<rparr>)" if "ecbs s' = ?h" "cfgEventLimit s' = cfgEventLimit s" for s'
    using that val ne ny pe unfolding h1_def by (simp add: fault_simps heap_simps)
  have srt: "sorted (map ?f (as @ y # bs))" using R(3) by (auto simp: sorted_append)
  have mem: "e \<in> set (leaders ?f ?xs) \<longleftrightarrow> ?n \<noteq> NULL"
  proof
    assume "e \<in> set (leaders ?f ?xs)"
    then have "?n \<in> set (leaders ?f ?xs)" using dring_next_in [OF R(4)] by blast
    then have "valid ?n s" using set_leaders [of ?f ?xs] R(6) by blast
    then show "?n \<noteq> NULL" using vptrD by blast
  qed (use R(5) in auto)
  have ready_h: "ready_ok (cfgEventLimit s) h2 (hd (as @ y # bs)) (as @ y # bs)"
    if "nxt h2 = nxt h1" "prv h2 = prv h1" "pri h2 = ?f"
      and "dring (mnx h2) (mpv h2) (leaders ?f (as @ y # bs))"
      and "\<And>x. x \<in> set (as @ y # bs) \<Longrightarrow> x \<notin> set (leaders ?f (as @ y # bs)) \<Longrightarrow> mnx h2 x = NULL" for h2
    unfolding ready_ok_def that(1-3) using that(4,5) h1m srt R(6) by auto
  show ?thesis
  proof (cases "e \<in> set (leaders ?f ?xs)")
    case False
    then have as: "as \<noteq> []" "?f (last as) = ?f e" using leaders_mem [OF R(8)] by auto
    then have L: "leaders ?f (as @ y # bs) = leaders ?f ?xs" by (simp add: leaders_append)
    have "hd (as @ y # bs) = g_ptEventReady s" "e \<noteq> g_ptEventReady s"
      using as(1) R(2) ne by (cases as; auto)+
    moreover from this have "Djy_CutReadyEvent e s = Some (s\<lparr>ecbs := h1\<rparr>)"
      using False mem val h1r by (simp add: Djy_CutReadyEvent_def rd_valid heap_simps)
    moreover have "ready_ok (cfgEventLimit s) h1 (hd (as @ y # bs)) (as @ y # bs)"
      using R(4,5) L by (intro ready_h) (auto simp: h1f)
    ultimately show ?thesis using h1l by (intro exI [of _ h1] exI [of _ "g_ptEventReady s"]) simp
  next
    case True
    then have lst: "as = [] \<or> ?f (last as) \<noteq> ?f e" using leaders_mem [OF R(8)] by auto
    then have L: "leaders ?f ?xs = leaders ?f as @ e # leaders_from ?f (?f e) (y # bs)"
      by (rule leaders_here)
    note M = R(4) [unfolded L]
    let ?T = "leaders_from ?f (?f y) bs"
    have qin: "?q \<in> set (leaders ?f ?xs)" "?n \<in> set (leaders ?f ?xs)"
      using dring_prev_in [OF R(4) True] dring_next_in [OF R(4) True] by auto
    then have qx: "?q \<in> set ?xs" "?n \<in> set ?xs" using set_leaders [of ?f ?xs] by auto
    then have qv: "valid ?q s" "valid ?n s" using R(6) by auto
    have "\<forall>a \<in> set as. ?f a \<le> ?f e" "?f e \<le> ?f y" using R(3) by (auto simp: sorted_append)
    then have "as = [] \<or> ?f (last as) \<le> ?f e" "?f e \<le> ?f y" using last_in_set by blast+
    then have "as = [] \<or> ?f (last as) < ?f y" using lst by force
    then have Lnew: "leaders ?f (as @ y # bs) = leaders ?f as @ y # ?T"
      by (rule leaders_before)
    define r' where "r' = (if e = g_ptEventReady s then y else g_ptEventReady s)"
    have r': "r' = hd (as @ y # bs)" using R(2) ne by (cases as) (auto simp: r'_def)
    define s1 where "s1 = s\<lparr>ecbs := h1, g_ptEventReady := r'\<rparr>"
    have reorder: "s\<lparr>g_ptEventReady := y, ecbs := h1\<rparr> = s\<lparr>ecbs := h1, g_ptEventReady := y\<rparr>"
      by simp
    have run: "Djy_CutReadyEvent e s =
        (if ?f y = ?f e then swap_multi e y s1 else drop_multi e y s1)"
    proof (cases "g_ptEventReady s = e")
      case g: True
      show ?thesis using val h1r h1f(1) ny unfolding Djy_CutReadyEvent_def s1_def r'_def g
        by (simp add: rd_valid heap_simps reorder)
    next
      case False
      then have "e \<noteq> g_ptEventReady s" by simp
      then show ?thesis using True mem val h1r h1f(1) ny
        by (simp add: Djy_CutReadyEvent_def rd_valid heap_simps s1_def r'_def)
    qed
    show ?thesis
    proof (cases "?f y = ?f e")
      case True
      have nin: "y \<notin> set (leaders ?f as @ e # ?T)"
        using ne R(8) set_leaders [of ?f as] set_leaders_from [of ?f "?f y" bs] by auto
      let ?n1 = "((mnx ?h)(?q := y)) e"
      have "?q \<noteq> y" "?n \<noteq> y" using nin qin L True by auto
      note qy = this ne
      define h2 where "h2 = hput (\<lambda>x. x\<lparr>multi_next := ?n1\<rparr>) y (hput (\<lambda>x. x\<lparr>multi_previous := y\<rparr>) ?n1
         (hput (\<lambda>x. x\<lparr>multi_previous := ?q\<rparr>) y (hput (\<lambda>x. x\<lparr>multi_next := y\<rparr>) ?q h1)))"
      have f2: "mnx h2 = (mnx ?h)(?q := y, y := ?n1)" "mpv h2 = (mpv ?h)(y := ?q, ?n1 := y)"
        "nxt h2 = nxt h1" "prv h2 = prv h1" "pri h2 = ?f"
        using qy by (simp_all add: h2_def heap_simps h1f fun_eq_iff)
      have "swap_multi e y s1 = Some (s1\<lparr>ecbs := h2\<rparr>)"
        using val qv ne unfolding h2_def s1_def by (simp add: fault_simps heap_simps h1f)
      moreover have "dring (mnx h2) (mpv h2) (leaders ?f as @ y # ?T)" unfolding f2
        by (rule dring_swap) (use M True nin in simp_all)
      moreover have "x \<notin> set (leaders ?f as @ y # ?T) \<Longrightarrow> x \<in> set (as @ y # bs) \<Longrightarrow> mnx h2 x = NULL" for x
        using R(5) [of x] L True ne qin by (auto simp: f2)
      moreover have "links_only (set ?xs) ?h h2" unfolding h2_def using h1l qx
        by (intro links_only_hput) auto
      ultimately show ?thesis using run True r' f2(3-5) Lnew ready_h [of h2]
        by (intro exI [of _ h2] exI [of _ r']) (auto simp: s1_def)
    next
      case False
      define h2 where "h2 = hput (\<lambda>x. x\<lparr>multi_next := y\<rparr>) ?q (hput (\<lambda>x. x\<lparr>multi_previous := ?q\<rparr>) y h1)"
      have f2: "mnx h2 = (mnx ?h)(?q := y)" "mpv h2 = (mpv ?h)(y := ?q)"
        "nxt h2 = nxt h1" "prv h2 = prv h1" "pri h2 = ?f"
        by (simp_all add: h2_def heap_simps h1f fun_eq_iff)
      have M2: "dring (mnx ?h) (mpv ?h) (leaders ?f as @ e # y # ?T)" using M False by simp
      have "?n = y" by (rule dring_next_mid [OF M2])
      then have "dring (mnx h2) (mpv h2) (leaders ?f as @ y # ?T)" unfolding f2
        using dring_delete_mid [OF M2] by simp
      moreover have "drop_multi e y s1 = Some (s1\<lparr>ecbs := h2\<rparr>)"
        using val qv ne unfolding h2_def s1_def by (simp add: fault_simps heap_simps h1f)
      moreover have "x \<notin> set (leaders ?f as @ y # ?T) \<Longrightarrow> x \<in> set (as @ y # bs) \<Longrightarrow> mnx h2 x = NULL" for x
        using R(5) [of x] L False ne qin by (auto simp: f2)
      moreover have "links_only (set ?xs) ?h h2" unfolding h2_def using h1l qx
        by (intro links_only_hput) auto
      ultimately show ?thesis using run False r' f2(3-5) Lnew ready_h [of h2]
        by (intro exI [of _ h2] exI [of _ r']) (auto simp: s1_def)
    qed
  qed
qed

end
