(* ===== verification/Sched.thy ===== *)
theory Sched
  imports Ready
begin

text \<open>
  The scheduler of \<open>djyos/core/djyos.c\<close> and the scheduling lock of \<open>djyos/int/int.c\<close>: the
  search for an event that can run, the context switch, the delay queue, the block queues,
  the tick and the priorities.  Assembler routines (\<open>__asm_switch_context\<close> and the like) are
  recorded in \<open>kcalls\<close>; the switch returns with the asynchronous signal open.
\<close>

section \<open>The asynchronous signal\<close>

definition Int_CutAsynSignal :: "kst \<Rightarrow> kst" where
  "Int_CutAsynSignal s = s\<lparr>asyn_signal_open := False\<rparr>"

definition Int_ContactAsynSignal :: "kst \<Rightarrow> kst" where
  "Int_ContactAsynSignal s = s\<lparr>asyn_signal_open := True\<rparr>"

definition Int_SaveAsynSignal :: "kst \<Rightarrow> kst" where
  "Int_SaveAsynSignal s =
     (if nest_asyn_signal s \<noteq> 0 then s
      else let s = Int_CutAsynSignal s;
               s = (if en_asyn_signal_counter s \<noteq> CN_LIMIT_UCPU
                    then s\<lparr>en_asyn_signal_counter := en_asyn_signal_counter s + 1\<rparr> else s)
           in s\<lparr>g_bScheduleEnable := False\<rparr>)"

definition Int_ResetAsynSignal :: "kst \<Rightarrow> kst" where
  "Int_ResetAsynSignal s =
     (let s = Int_CutAsynSignal s
      in s\<lparr>en_asyn_signal_counter := 1, g_bScheduleEnable := False\<rparr>)"

definition Int_GetRunLevel :: "kst \<Rightarrow> u32" where
  "Int_GetRunLevel s = nest_asyn_signal s"

definition Int_HalfEnableAsynSignal :: "kst \<Rightarrow> kst" where
  "Int_HalfEnableAsynSignal s = s\<lparr>en_asyn_signal_counter := 0\<rparr>"

definition Int_CheckAsynSignal :: "kst \<Rightarrow> bool" where
  "Int_CheckAsynSignal s \<longleftrightarrow> en_asyn_signal_counter s = 0"

definition Djy_QuerySch :: "kst \<Rightarrow> bool" where
  "Djy_QuerySch s = g_bScheduleEnable s"

definition Djy_IsMultiEventStarted :: "kst \<Rightarrow> bool" where
  "Djy_IsMultiEventStarted s = g_bMultiEventStarted s"

section \<open>Small accessors\<close>

definition Djy_SaveLastError :: "u32 \<Rightarrow> kst \<Rightarrow> kst option" where
  "Djy_SaveLastError ErrorCode s = wr (\<lambda>e. e\<lparr>error_no := ErrorCode\<rparr>) (g_ptEventRunning s) s"

definition Djy_GetLastError :: "kst \<Rightarrow> u32 option" where
  "Djy_GetLastError s = rd error_no (g_ptEventRunning s) s"

definition DjyGetSysTick :: "kst \<Rightarrow> s64" where
  "DjyGetSysTick s = g_s64OsTicks s"

definition kernel_time :: "kst \<Rightarrow> s64" where
  "kernel_time s = systime s"

definition Djy_SetRRS_Slice :: "u32 \<Rightarrow> kst \<Rightarrow> kst" where
  "Djy_SetRRS_Slice slices s =
     s\<lparr>s_u32RRS_Slice := (slices + cfgTickUs s - 1) div cfgTickUs s\<rparr>"

definition Djy_GetRRS_Slice :: "kst \<Rightarrow> u32" where
  "Djy_GetRRS_Slice s = s_u32RRS_Slice s * cfgTickUs s"

section \<open>Choosing the event to run\<close>

text \<open>
  \<open>__CreateThread\<close> belongs to the port (\<open>bsp/arch\<close>).  Whether the heap can give it a block,
  and which, is read from \<open>vm_supply\<close>; it stores the size it needs in \<open>*stack_size\<close>.
\<close>

definition align_up_sys :: "u32 \<Rightarrow> u32" where
  "align_up_sys x = (x + 7) AND NOT 7"

definition CreateThread :: "nat \<Rightarrow> kst \<Rightarrow> (nat option \<times> u32 \<times> kst) option" where
  "CreateThread i s = do {
     len \<leftarrow> rdt stack_size i s;
     let len = align_up_sys len;
     case vm_supply s of
       Some (v, sz) # r \<Rightarrow> Some (Some v, len, s\<lparr>vm_supply := r,
         vms := (vms s)(v \<mapsto> \<lparr>vm_next = None, vm_stack_size = sz\<rparr>)\<rparr>)
     | _ \<Rightarrow> do {
         s \<leftarrow> Djy_SaveLastError EN_MEM_TRIED (s\<lparr>vm_supply := tl (vm_supply s)\<rparr>);
         Some (None, len, s) } }"

text \<open>The heap's queue of events that wait for memory (\<open>heap-dynamic.c\<close>).\<close>

definition M_WaitMemory :: "eptr \<Rightarrow> kst \<Rightarrow> kst option" where
  "M_WaitMemory event s = do {
     size \<leftarrow> rd wait_mem_size event s;
     let pl_event = s_ptMemSync s;
     s \<leftarrow> wr (\<lambda>e. e\<lparr>sync_head := H_MemSync\<rparr>) event s;
     if pl_event = NULL then do {
       s \<leftarrow> clear_main event s;
       s \<leftarrow> self_multi event s;
       Some (s\<lparr>s_ptMemSync := event\<rparr>) }
     else do {
       pl_event \<leftarrow> ring_search multi_next (\<lambda>e. wait_mem_size e < size) pl_event pl_event s;
       ins_multi event pl_event s } }"

text \<open>An independent event without a thread is also queued at its type.\<close>

definition mark_insert :: "nat \<Rightarrow> eptr \<Rightarrow> kst \<Rightarrow> kst option" where
  "mark_insert i pl_ecb s = do {
     m \<leftarrow> rdt mark_event i s;
     if m = NULL then do {
       s \<leftarrow> set_previous pl_ecb pl_ecb s;
       s \<leftarrow> set_next pl_ecb pl_ecb s;
       wrt (\<lambda>t. t\<lparr>mark_event := pl_ecb\<rparr>) i s }
     else do {
       k \<leftarrow> rd prio pl_ecb s;
       temp_var \<leftarrow> ring_search ecb_next (\<lambda>e. \<not> prio e > k) m m s;
       pv \<leftarrow> rd ecb_previous temp_var s;
       s \<leftarrow> set_next pv pl_ecb s;
       pv \<leftarrow> rd ecb_previous temp_var s;
       s \<leftarrow> set_previous pl_ecb pv s;
       s \<leftarrow> set_previous temp_var pl_ecb s;
       s \<leftarrow> set_next pl_ecb temp_var s;
       pv \<leftarrow> rd ecb_previous pl_ecb s;
       pk \<leftarrow> rd prio pv s;
       if k > pk then wrt (\<lambda>t. t\<lparr>mark_event := pv\<rparr>) i s else Some s } }"

definition select_step :: "kst \<Rightarrow> kst option" where
  "select_step s = do {
     w \<leftarrow> rd evtt_id (g_ptEventReady s) s;
     let i = evtt_index w;
     fv \<leftarrow> rdt my_free_vm i s;
     if fv \<noteq> None then do {
       s \<leftarrow> wr (\<lambda>e. e\<lparr>ecb_vm := fv\<rparr>) (g_ptEventReady s) s;
       n \<leftarrow> rdv vm_next fv s;
       wrt (\<lambda>t. t\<lparr>my_free_vm := n\<rparr>) i s }
     else do {
       (nv, len, s) \<leftarrow> CreateThread i s;
       s \<leftarrow> wr (\<lambda>e. e\<lparr>wait_mem_size := len, ecb_vm := nv\<rparr>) (g_ptEventReady s) s;
       if nv = None then do {
         let pl_ecb = g_ptEventReady s;
         s \<leftarrow> Djy_CutReadyEvent pl_ecb s;
         s \<leftarrow> M_WaitMemory pl_ecb s;
         c \<leftarrow> rdt correlative i s;
         if c = EN_INDEPENDENCE then mark_insert i pl_ecb s else Some s }
       else wrt (\<lambda>t. t\<lparr>vpus := vpus t + 1\<rparr>) i s } }"

partial_function (option) Djy_SelectEventToRun :: "kst \<Rightarrow> kst option" where
  "Djy_SelectEventToRun s = do {
     v \<leftarrow> rd ecb_vm (g_ptEventReady s) s;
     if v \<noteq> None then Some s
     else do { s \<leftarrow> select_step s; Djy_SelectEventToRun s } }"

text \<open>\<open>g_ptEvttTable[event->evtt_id & (~CN_EVTT_ID_MASK)].SchHook(dir)\<close>.\<close>

definition call_SchHook :: "eptr \<Rightarrow> enSwitchType \<Rightarrow> kst \<Rightarrow> kst option" where
  "call_SchHook event dir s = do {
     w \<leftarrow> rd evtt_id event s;
     f \<leftarrow> rdt SchHook (evtt_index w) s;
     Some (kcall_out (Call_SchHook f dir) s) }"

text \<open>\<open>(u32)DjyGetSysTime()\<close>: the time is cut to 32 bits before it is charged to the event.\<close>

definition charge_running :: "eptr \<Rightarrow> kst \<Rightarrow> kst option" where
  "charge_running event s = do {
     let time = kernel_time s mod 2 ^ 32;
     s \<leftarrow> wr (\<lambda>e. e\<lparr>consumed_time := consumed_time e + (time - g_s64RunningStartTime s)\<rparr>) event s;
     Some (s\<lparr>g_s64RunningStartTime := time\<rparr>) }"

definition Djy_Schedule :: "kst \<Rightarrow> (bool \<times> kst) option" where
  "Djy_Schedule s = do {
     s \<leftarrow> Djy_SelectEventToRun s;
     if g_ptEventReady s \<noteq> g_ptEventRunning s then do {
       let event = g_ptEventRunning s;
       s \<leftarrow> charge_running event s;
       s \<leftarrow> call_SchHook event EN_SWITCH_OUT s;
       let s = s\<lparr>g_ptEventRunning := g_ptEventReady s\<rparr>;
       s \<leftarrow> call_SchHook (g_ptEventRunning s) EN_SWITCH_IN s;
       let s = Int_HalfEnableAsynSignal s;
       nv \<leftarrow> rd ecb_vm (g_ptEventReady s) s;
       ov \<leftarrow> rd ecb_vm event s;
       Some (True, Int_ContactAsynSignal (kcall_out (Call_switch_context nv ov) s)) }
     else Some (False, s) }"

definition Djy_ScheduleAsynSignal :: "kst \<Rightarrow> kst option" where
  "Djy_ScheduleAsynSignal s = do {
     s \<leftarrow> Djy_SelectEventToRun s;
     if g_ptEventReady s \<noteq> g_ptEventRunning s then do {
       let event = g_ptEventRunning s;
       s \<leftarrow> charge_running event s;
       s \<leftarrow> call_SchHook event EN_SWITCH_OUT s;
       let s = s\<lparr>g_ptEventRunning := g_ptEventReady s\<rparr>;
       s \<leftarrow> call_SchHook (g_ptEventRunning s) EN_SWITCH_IN s;
       nv \<leftarrow> rd ecb_vm (g_ptEventReady s) s;
       ov \<leftarrow> rd ecb_vm event s;
       Some (kcall_out (Call_switch_context_int nv ov) s) }
     else Some s }"

definition Int_RestoreAsynSignal :: "kst \<Rightarrow> kst option" where
  "Int_RestoreAsynSignal s =
     (if nest_asyn_signal s \<noteq> 0 then Some s
      else let s = (if en_asyn_signal_counter s \<noteq> 0
                    then s\<lparr>en_asyn_signal_counter := en_asyn_signal_counter s - 1\<rparr> else s)
           in if en_asyn_signal_counter s = 0 then
                let s = s\<lparr>g_bScheduleEnable := True\<rparr>
                in if g_ptEventRunning s \<noteq> g_ptEventReady s
                   then map_option snd (Djy_Schedule s)
                   else Some (Int_ContactAsynSignal s)
              else Some ((Int_CutAsynSignal s)\<lparr>g_bScheduleEnable := False\<rparr>))"

section \<open>The delay queue\<close>

definition Djy_ResumeDelay :: "eptr \<Rightarrow> kst \<Rightarrow> kst option" where
  "Djy_ResumeDelay delay_event s = do {
     nx \<leftarrow> rd ecb_next (g_ptEventDelay s) s;
     s \<leftarrow> (if nx = g_ptEventDelay s then Some (s\<lparr>g_ptEventDelay := NULL\<rparr>)
          else do {
            let s = (if delay_event = g_ptEventDelay s then s\<lparr>g_ptEventDelay := nx\<rparr> else s);
            cut_main delay_event s });
     s \<leftarrow> clear_main delay_event s;
     wr (\<lambda>e. e\<lparr>delay_end_tick := DjyGetSysTick s\<rparr>) delay_event s }"

text \<open>The running event goes into the delay queue behind the events due no later than it.\<close>

definition delay_insert :: "kst \<Rightarrow> kst option" where
  "delay_insert s = do {
     let run = g_ptEventRunning s;
     if g_ptEventDelay s = NULL then do {
       s \<leftarrow> self_main run s;
       Some (s\<lparr>g_ptEventDelay := run\<rparr>) }
     else do {
       t \<leftarrow> rd delay_end_tick run s;
       event \<leftarrow> ring_search ecb_next (\<lambda>e. delay_end_tick e \<le> t) (g_ptEventDelay s) (g_ptEventDelay s) s;
       s \<leftarrow> ins_main run event s;
       dt \<leftarrow> rd delay_end_tick (g_ptEventDelay s) s;
       Some (if dt > t then s\<lparr>g_ptEventDelay := run\<rparr> else s) } }"

text \<open>Microseconds to ticks, rounded up.\<close>

definition us_to_ticks :: "kst \<Rightarrow> s64 \<Rightarrow> s64" where
  "us_to_ticks s us = cdiv (us + uint (cfgTickUs s) - 1) (uint (cfgTickUs s))"

definition set_delay :: "u32 \<Rightarrow> kst \<Rightarrow> kst option" where
  "set_delay u32l_uS s =
     wr (\<lambda>e. e\<lparr>delay_start_tick := DjyGetSysTick s,
               delay_end_tick := DjyGetSysTick s + us_to_ticks s (uint u32l_uS)\<rparr>)
        (g_ptEventRunning s) s"

definition Djy_AddToDelay :: "u32 \<Rightarrow> kst \<Rightarrow> kst option" where
  "Djy_AddToDelay u32l_uS s = do { s \<leftarrow> set_delay u32l_uS s; delay_insert s }"

section \<open>Block queues\<close>

text \<open>The status of a blocked event, with its timeout.\<close>

definition block_status :: "u32 \<Rightarrow> u32 \<Rightarrow> kst \<Rightarrow> kst option" where
  "block_status timeout Status s = do {
     let run = g_ptEventRunning s;
     if timeout \<noteq> CN_TIMEOUT_FOREVER then do {
       s \<leftarrow> wr (\<lambda>e. e\<lparr>event_status := Status + CN_STS_SYNC_TIMEOUT\<rparr>) run s;
       Djy_AddToDelay timeout s }
     else wr (\<lambda>e. e\<lparr>event_status := Status\<rparr>) run s }"

text \<open>The running event joins the queue \<open>*Head\<close>, by priority or at the tail.\<close>

definition block_queue :: "headp \<Rightarrow> u32 \<Rightarrow> kst \<Rightarrow> kst option" where
  "block_queue Head Qsort s = do {
     let run = g_ptEventRunning s;
     event \<leftarrow> rd_head Head s;
     if event = NULL then do {
       s \<leftarrow> self_multi run s;
       wr_head Head run s }
     else if Qsort = CN_BLOCK_PRIO then do {
       k \<leftarrow> rd prio run s;
       event \<leftarrow> ring_search multi_next (\<lambda>e. prio e \<le> k) event event s;
       s \<leftarrow> wr (\<lambda>e. e\<lparr>event_status := event_status e OR CN_BLOCK_PRIO_SORT\<rparr>) run s;
       s \<leftarrow> ins_multi run event s;
       h \<leftarrow> rd_head Head s;
       hk \<leftarrow> rd prio h s;
       if hk > k then wr_head Head run s else Some s }
     else do {
       s \<leftarrow> wr (\<lambda>e. e\<lparr>event_status := event_status e AND NOT CN_BLOCK_PRIO_SORT\<rparr>) run s;
       ins_multi run event s } }"

definition Djy_AddRunningToBlock :: "headp \<Rightarrow> u32 \<Rightarrow> u32 \<Rightarrow> u32 \<Rightarrow> kst \<Rightarrow> kst option" where
  "Djy_AddRunningToBlock Head Qsort timeout Status s = do {
     let run = g_ptEventRunning s;
     s \<leftarrow> Djy_CutReadyEvent run s;
     s \<leftarrow> clear_main run s;
     s \<leftarrow> wr (\<lambda>e. e\<lparr>sync_head := Head\<rparr>) run s;
     s \<leftarrow> block_queue Head Qsort s;
     block_status timeout Status s }"

text \<open>
  \<open>__Djy_ChangeBlockQueue\<close>, with the last two statements as they are: the new neighbour's
  \<open>multi_previous\<close> is set to itself, and the head is changed in a local variable only.
\<close>

definition Djy_ChangeBlockQueue :: "eptr \<Rightarrow> kst \<Rightarrow> kst option" where
  "Djy_ChangeBlockQueue Event s = do {
     q \<leftarrow> rd sync_head Event s;
     Head \<leftarrow> rd_head q s;
     Prio \<leftarrow> rd prio Event s;
     nx \<leftarrow> rd multi_next Event s; pv \<leftarrow> rd multi_previous Event s;
     nk \<leftarrow> rd prio nx s; pk \<leftarrow> rd prio pv s;
     hp \<leftarrow> rd multi_previous Head s;
     if (Event = Head \<and> Prio \<le> nk) \<or> (Prio \<ge> pk \<and> Prio \<le> nk) \<or> (Event = hp \<and> Prio \<ge> pk)
     then Some s
     else do {
       s \<leftarrow> set_multi_next pv nx s;
       nx \<leftarrow> rd multi_next Event s; pv \<leftarrow> rd multi_previous Event s;
       s \<leftarrow> set_multi_previous nx pv s;
       pl_ecb \<leftarrow> ring_search multi_next (\<lambda>e. prio e < Prio) Head Head s;
       s \<leftarrow> set_multi_next Event pl_ecb s;
       pv \<leftarrow> rd multi_previous pl_ecb s;
       s \<leftarrow> set_multi_previous Event pv s;
       pv \<leftarrow> rd multi_previous pl_ecb s;
       s \<leftarrow> set_multi_next pv Event s;
       set_multi_previous pl_ecb pl_ecb s } }"

definition Djy_CutEcbFromSync :: "eptr \<Rightarrow> kst \<Rightarrow> kst option" where
  "Djy_CutEcbFromSync event s = do {
     syn_head \<leftarrow> rd sync_head event s;
     if syn_head = NULLH then Some s
     else do {
       nx \<leftarrow> rd multi_next event s;
       s \<leftarrow> (if nx = event then wr_head syn_head NULL s
            else do {
              h \<leftarrow> rd_head syn_head s;
              s \<leftarrow> (if h = event then wr_head syn_head nx s else Some s);
              s \<leftarrow> drop_multi event nx s;
              clear_multi event s });
       wr (\<lambda>e. e\<lparr>sync_head := NULLH\<rparr>) event s } }"

definition Djy_CutEventFromEvttMarked :: "eptr \<Rightarrow> kst \<Rightarrow> kst option" where
  "Djy_CutEventFromEvttMarked event s = do {
     w \<leftarrow> rd evtt_id event s;
     pv \<leftarrow> rd ecb_previous event s;
     if event = pv then wrt (\<lambda>t. t\<lparr>mark_event := NULL\<rparr>) (evtt_index w) s
     else do {
       m \<leftarrow> rdt mark_event (evtt_index w) s;
       nx \<leftarrow> rd ecb_next event s;
       s \<leftarrow> (if event = m then wrt (\<lambda>t. t\<lparr>mark_event := nx\<rparr>) (evtt_index w) s else Some s);
       s \<leftarrow> set_next pv nx s;
       nx \<leftarrow> rd ecb_next event s; pv \<leftarrow> rd ecb_previous event s;
       set_previous nx pv s } }"

text \<open>Taking the first event of a block queue, as \<open>Lock_SempPost\<close> and \<open>Lock_MutexPost\<close> do.\<close>

definition take_first :: "headp \<Rightarrow> eptr \<Rightarrow> kst \<Rightarrow> kst option" where
  "take_first q event s = do {
     s \<leftarrow> wr (\<lambda>e. e\<lparr>sync_head := NULLH\<rparr>) event s;
     nx \<leftarrow> rd multi_next event s;
     if nx = event then wr_head q NULL s
     else do {
       s \<leftarrow> wr_head q nx s;
       s \<leftarrow> drop_multi event nx s;
       clear_multi event s } }"

text \<open>Leaving the delay queue, if a timeout was given, and becoming ready for a reason.\<close>

definition resume_timeout :: "eptr \<Rightarrow> kst \<Rightarrow> kst option" where
  "resume_timeout pl_ecb s = do {
     st \<leftarrow> rd event_status pl_ecb s;
     if has_flag st CN_STS_SYNC_TIMEOUT then Djy_ResumeDelay pl_ecb s else Some s }"

definition wake_up :: "u32 \<Rightarrow> eptr \<Rightarrow> kst \<Rightarrow> kst option" where
  "wake_up why = wr (\<lambda>e. e\<lparr>wakeup_from := why, event_status := CN_STS_EVENT_READY\<rparr>)"

section \<open>The tick\<close>

text \<open>An event whose time is up leaves the block queue it also waits in.\<close>

definition tick_leave_sync :: "eptr \<Rightarrow> kst \<Rightarrow> kst option" where
  "tick_leave_sync pl_ecb s = do {
     q \<leftarrow> rd sync_head pl_ecb s;
     if q = NULLH then Some s
     else do {
       h \<leftarrow> rd_head q s;
       nx \<leftarrow> rd multi_next pl_ecb s; pv \<leftarrow> rd multi_previous pl_ecb s;
       s \<leftarrow> (if h = pl_ecb then
              if nx = pl_ecb then do { s \<leftarrow> wr_head q NULL s; clear_multi pl_ecb s }
              else do { s \<leftarrow> wr_head q nx s; s \<leftarrow> set_multi_next pv nx s; set_multi_previous nx pv s }
            else do { s \<leftarrow> set_multi_next pv nx s; set_multi_previous nx pv s });
       wr (\<lambda>e. e\<lparr>sync_head := NULLH\<rparr>) pl_ecb s } }"

text \<open>
  One event of the delay queue whose time is up.  When it was the only one the queue is empty
  afterwards and the loop ends; otherwise the loop goes on with the new head.
\<close>

definition tick_step :: "eptr \<Rightarrow> kst \<Rightarrow> kst option" where
  "tick_step pl_ecb s = do {
     s \<leftarrow> tick_leave_sync pl_ecb s;
     s \<leftarrow> wr (\<lambda>e. e\<lparr>wakeup_from := event_status e, event_status := CN_STS_EVENT_READY\<rparr>) pl_ecb s;
     nx \<leftarrow> rd ecb_next pl_ecb s;
     if nx = pl_ecb then Djy_EventReady pl_ecb (s\<lparr>g_ptEventDelay := NULL\<rparr>)
     else do {
       s \<leftarrow> cut_main pl_ecb (s\<lparr>g_ptEventDelay := nx\<rparr>);
       Djy_EventReady pl_ecb s } }"

partial_function (option) tick_expire :: "eptr \<Rightarrow> kst \<Rightarrow> kst option" where
  "tick_expire pl_ecb s = do {
     t \<leftarrow> rd delay_end_tick pl_ecb s;
     if t \<le> g_s64OsTicks s then do {
       s \<leftarrow> tick_step pl_ecb s;
       if g_ptEventDelay s = NULL then Some s else tick_expire (g_ptEventDelay s) s }
     else Some s }"

text \<open>Round robin: the running event goes behind the last event of its priority.\<close>

definition tick_rotate :: "kst \<Rightarrow> kst option" where
  "tick_rotate s = do {
     let run = g_ptEventRunning s;
     pl_ecb \<leftarrow> rd ecb_next run s;
     pl_ecbn \<leftarrow> rd multi_next run s;
     pl_ecbp \<leftarrow> rd multi_previous run s;
     s \<leftarrow> set_multi_next pl_ecbp pl_ecb s;
     s \<leftarrow> set_multi_previous pl_ecb pl_ecbp s;
     s \<leftarrow> set_multi_previous pl_ecbn pl_ecb s;
     s \<leftarrow> set_multi_next pl_ecb pl_ecbn s;
     s \<leftarrow> clear_multi run s;
     let s = (if g_ptEventReady s = run then s\<lparr>g_ptEventReady := pl_ecb\<rparr> else s);
     pv \<leftarrow> rd ecb_previous run s;
     s \<leftarrow> set_next pv pl_ecb s;
     pv \<leftarrow> rd ecb_previous run s;
     s \<leftarrow> set_previous pl_ecb pv s;
     pv \<leftarrow> rd ecb_previous pl_ecbn s;
     s \<leftarrow> set_previous run pv s;
     s \<leftarrow> set_next run pl_ecbn s;
     pv \<leftarrow> rd ecb_previous pl_ecbn s;
     s \<leftarrow> set_next pv run s;
     set_previous pl_ecbn run s }"

definition tick_round_robin :: "kst \<Rightarrow> kst option" where
  "tick_round_robin s =
     (if s_u32RRS_Slice s \<noteq> 0 then do {
        k \<leftarrow> rd prio (g_ptEventRunning s) s;
        nx \<leftarrow> rd ecb_next (g_ptEventRunning s) s;
        nk \<leftarrow> rd prio nx s;
        if k = nk \<and> g_ptEventRunning s \<noteq> nx
           \<and> word_of_int (g_s64OsTicks s) mod s_u32RRS_Slice s = 0
        then tick_rotate s else Some s }
      else Some s)"

definition Djy_IsrTick :: "u32 \<Rightarrow> kst \<Rightarrow> kst option" where
  "Djy_IsrTick inc_ticks s = do {
     let s = s\<lparr>g_s64OsTicks := g_s64OsTicks s + uint inc_ticks\<rparr>;
     let s = kcall_out Call_MaintainSysTime s;
     s \<leftarrow> (if g_ptEventDelay s \<noteq> NULL then tick_expire (g_ptEventDelay s) s else Some s);
     tick_round_robin s }"

section \<open>Priorities\<close>

text \<open>\<open>&g_ptECB_Table[event_id]\<close>.\<close>

definition ecb_at :: "u16 \<Rightarrow> eptr" where
  "ecb_at ev_id = Ecb (unat ev_id)"

definition requeue :: "eptr \<Rightarrow> u32 \<Rightarrow> kst \<Rightarrow> kst option" where
  "requeue pl_ecb k s = do {
     s \<leftarrow> Djy_CutReadyEvent pl_ecb s;
     s \<leftarrow> wr (\<lambda>e. e\<lparr>prio := k\<rparr>) pl_ecb s;
     Djy_EventReady pl_ecb s }"

definition change_prio :: "eptr \<Rightarrow> u32 \<Rightarrow> kst \<Rightarrow> kst option" where
  "change_prio pl_ecb k s = do {
     st \<leftarrow> rd event_status pl_ecb s;
     if st = CN_STS_EVENT_READY then requeue pl_ecb k s
     else if has_flag st CN_BLOCK_PRIO_SORT then do {
       s \<leftarrow> wr (\<lambda>e. e\<lparr>prio := k\<rparr>) pl_ecb s;
       Djy_ChangeBlockQueue pl_ecb s }
     else Some s }"

definition Djy_SetEventPrio :: "u16 \<Rightarrow> u32 \<Rightarrow> kst \<Rightarrow> (bool \<times> kst) option" where
  "Djy_SetEventPrio ev_id new_prio s =
     (if new_prio \<ge> CN_PRIO_SYS_SERVICE \<or> new_prio = 0 \<or> unat ev_id \<ge> cfgEventLimit s
      then Some (False, s)
      else do {
        let s = Int_SaveAsynSignal s;
        let pl_ecb = ecb_at ev_id;
        s \<leftarrow> wr (\<lambda>e. e\<lparr>prio_base := new_prio\<rparr>) pl_ecb s;
        k \<leftarrow> rd prio pl_ecb s;
        s \<leftarrow> (if new_prio \<noteq> k then change_prio pl_ecb new_prio s else Some s);
        s \<leftarrow> Int_RestoreAsynSignal s;
        Some (True, s) })"

definition Djy_RaiseTempPrio :: "u16 \<Rightarrow> kst \<Rightarrow> (bool \<times> kst) option" where
  "Djy_RaiseTempPrio ev_id s =
     (if unat ev_id \<ge> cfgEventLimit s then Some (False, s)
      else do {
        let s = Int_SaveAsynSignal s;
        let pl_ecb = ecb_at ev_id;
        rk \<leftarrow> rd prio (g_ptEventRunning s) s;
        k \<leftarrow> rd prio pl_ecb s;
        s \<leftarrow> (if rk < k then change_prio pl_ecb rk s else Some s);
        s \<leftarrow> Int_RestoreAsynSignal s;
        Some (True, s) })"

definition Djy_RestorePrio :: "kst \<Rightarrow> (bool \<times> kst) option" where
  "Djy_RestorePrio s = do {
     let s = Int_SaveAsynSignal s;
     k \<leftarrow> rd prio (g_ptEventRunning s) s;
     b \<leftarrow> rd prio_base (g_ptEventRunning s) s;
     s \<leftarrow> (if k \<noteq> b then requeue (g_ptEventRunning s) b s else Some s);
     s \<leftarrow> Int_RestoreAsynSignal s;
     Some (True, s) }"

end
