(* ===== verification/Queues.thy ===== *)
theory Queues
  imports Sched
begin

text \<open>
  The invariant of the kernel's queues.  \<open>kinv s xs ds Q\<close>: the ready queue holds \<open>xs\<close>, the
  delay queue \<open>ds\<close>, the block queue with head \<open>q\<close> holds \<open>Q q\<close>.  An event is in the ready queue
  or blocked; a blocked event may wait in a block queue, in the delay queue, or in both, in
  which case its status has the timeout bit.  The lemmas below give the effect of every
  queue operation of \<open>djyos.c\<close> on these lists.
\<close>

section \<open>Heads of block queues\<close>

definition hvalid :: "headp \<Rightarrow> kst \<Rightarrow> bool" where
  "hvalid q s = (case q of
       NULLH \<Rightarrow> False
     | H_Sync i \<Rightarrow> i < cfgEventLimit s
     | H_DoneSync i \<Rightarrow> i < cfgEvttLimit s
     | H_PopSync i \<Rightarrow> i < cfgEvttLimit s
     | _ \<Rightarrow> True)"

definition hdval :: "headp \<Rightarrow> kst \<Rightarrow> eptr" where
  "hdval q s = (case q of
       NULLH \<Rightarrow> NULL
     | H_Sync i \<Rightarrow> ecb_sync (ecbs s (Ecb i))
     | H_DoneSync i \<Rightarrow> done_sync (evtts s i)
     | H_PopSync i \<Rightarrow> pop_sync (evtts s i)
     | H_Semp i \<Rightarrow> semp_sync (semps s i)
     | H_Mutex i \<Rightarrow> mutex_sync (mutexes s i)
     | H_MemSync \<Rightarrow> s_ptMemSync s)"

definition puthd :: "headp \<Rightarrow> eptr \<Rightarrow> kst \<Rightarrow> kst" where
  "puthd q v s = (case q of
       NULLH \<Rightarrow> s
     | H_Sync i \<Rightarrow> s\<lparr>ecbs := hput (\<lambda>e. e\<lparr>ecb_sync := v\<rparr>) (Ecb i) (ecbs s)\<rparr>
     | H_DoneSync i \<Rightarrow> s\<lparr>evtts := (evtts s)(i := (evtts s i)\<lparr>done_sync := v\<rparr>)\<rparr>
     | H_PopSync i \<Rightarrow> s\<lparr>evtts := (evtts s)(i := (evtts s i)\<lparr>pop_sync := v\<rparr>)\<rparr>
     | H_Semp i \<Rightarrow> s\<lparr>semps := (semps s)(i := (semps s i)\<lparr>semp_sync := v\<rparr>)\<rparr>
     | H_Mutex i \<Rightarrow> s\<lparr>mutexes := (mutexes s)(i := (mutexes s i)\<lparr>mutex_sync := v\<rparr>)\<rparr>
     | H_MemSync \<Rightarrow> s\<lparr>s_ptMemSync := v\<rparr>)"

lemma rd_head_valid [fault_simps]: "hvalid q s \<Longrightarrow> rd_head q s = Some (hdval q s)"
  by (auto simp: hvalid_def rd_head_def hdval_def rd_def rdt_def split: headp.splits)

lemma wr_head_valid [fault_simps]: "hvalid q s \<Longrightarrow> wr_head q v s = Some (puthd q v s)"
  by (auto simp: hvalid_def wr_head_def puthd_def wr_def wrt_def split: headp.splits)

lemma hvalid_not_NULLH [simp]: "\<not> hvalid NULLH s"
  by (simp add: hvalid_def)

section \<open>What the queue operations leave alone\<close>

text \<open>
  \<open>kframe\<close>: the data that is not part of a queue.  Of an event: its thread, parameters,
  priorities and identity; of a lock, everything but the head of its queue.
\<close>

definition ecb_core :: "EventECB \<Rightarrow> EventECB" where
  "ecb_core e = (no_links e)\<lparr>ecb_sync := NULL, sync_head := NULLH, delay_start_tick := 0,
     delay_end_tick := 0, wakeup_from := 0, event_status := 0\<rparr>"

definition kst_core :: "kst \<Rightarrow> kst" where
  "kst_core s = s\<lparr>ecbs := (\<lambda>p. ecb_core (ecbs s p)),
     evtts := (\<lambda>i. (evtts s i)\<lparr>done_sync := NULL, pop_sync := NULL\<rparr>),
     semps := (\<lambda>i. (semps s i)\<lparr>semp_sync := NULL\<rparr>),
     mutexes := (\<lambda>i. (mutexes s i)\<lparr>mutex_sync := NULL\<rparr>),
     g_ptEventReady := NULL, g_ptEventDelay := NULL, s_ptMemSync := NULL\<rparr>"

definition kframe :: "kst \<Rightarrow> kst \<Rightarrow> bool" where
  "kframe s s' \<longleftrightarrow> kst_core s' = kst_core s"

lemma kframe_refl [simp]: "kframe s s"
  by (simp add: kframe_def)

lemma kframe_trans [trans]: "kframe s s' \<Longrightarrow> kframe s' s'' \<Longrightarrow> kframe s s''"
  by (simp add: kframe_def)

lemma kframe_heap:
  assumes "\<And>p. ecb_core (h p) = ecb_core (ecbs s p)"
  shows "kframe s (s\<lparr>ecbs := h\<rparr>)" and "kframe s (s\<lparr>ecbs := h, g_ptEventReady := r\<rparr>)"
    and "kframe s (s\<lparr>ecbs := h, g_ptEventDelay := d\<rparr>)"
  using assms by (simp_all add: kframe_def kst_core_def)

lemma kframe_links:
  assumes "links_only A (ecbs s) h"
  shows "kframe s (s\<lparr>ecbs := h\<rparr>)" and "kframe s (s\<lparr>ecbs := h, g_ptEventReady := r\<rparr>)"
    and "kframe s (s\<lparr>ecbs := h, g_ptEventDelay := d\<rparr>)"
  by (rule kframe_heap; use assms in \<open>simp add: ecb_core_def links_only_def\<close>)+

lemma kframe_puthd [simp]: "kframe s (puthd q v s)"
  by (cases q) (auto simp: kframe_def kst_core_def puthd_def hput_def ecb_core_def no_links_def fun_eq_iff)

lemma kframe_fields:
  assumes "kframe s s'"
  shows "g_ptEventRunning s' = g_ptEventRunning s" and "g_s64OsTicks s' = g_s64OsTicks s"
    and "nest_asyn_signal s' = nest_asyn_signal s"
    and "en_asyn_signal_counter s' = en_asyn_signal_counter s"
    and "g_bScheduleEnable s' = g_bScheduleEnable s" and "cfgEventLimit s' = cfgEventLimit s"
    and "cfgEvttLimit s' = cfgEvttLimit s" and "cfgTickUs s' = cfgTickUs s"
    and "vms s' = vms s" and "systime s' = systime s" and "kcalls s' = kcalls s"
    and "s_u32RRS_Slice s' = s_u32RRS_Slice s" and "asyn_signal_open s' = asyn_signal_open s"
    and "vm_supply s' = vm_supply s"
proof -
  have k: "kst_core s' = kst_core s" using assms by (simp add: kframe_def)
  have f: "f s' = f s" if "\<And>s. f (kst_core s) = f s" for f :: "kst \<Rightarrow> 'z" using that k by metis
  show "g_ptEventRunning s' = g_ptEventRunning s" and "g_s64OsTicks s' = g_s64OsTicks s"
    and "nest_asyn_signal s' = nest_asyn_signal s"
    and "en_asyn_signal_counter s' = en_asyn_signal_counter s"
    and "g_bScheduleEnable s' = g_bScheduleEnable s" and "cfgEventLimit s' = cfgEventLimit s"
    and "cfgEvttLimit s' = cfgEvttLimit s" and "cfgTickUs s' = cfgTickUs s"
    and "vms s' = vms s" and "systime s' = systime s" and "kcalls s' = kcalls s"
    and "s_u32RRS_Slice s' = s_u32RRS_Slice s" and "asyn_signal_open s' = asyn_signal_open s"
    and "vm_supply s' = vm_supply s"
    by (rule f; simp add: kst_core_def)+
qed

lemma kframe_ecb:
  assumes "kframe s s'"
  shows "prio (ecbs s' p) = prio (ecbs s p)" and "prio_base (ecbs s' p) = prio_base (ecbs s p)"
    and "ecb_vm (ecbs s' p) = ecb_vm (ecbs s p)" and "evtt_id (ecbs s' p) = evtt_id (ecbs s p)"
    and "event_id (ecbs s' p) = event_id (ecbs s p)" and "pri (ecbs s') = pri (ecbs s)"
proof -
  have k: "ecb_core (ecbs s' p) = ecb_core (ecbs s p)" for p
    using arg_cong [where f = "\<lambda>s. ecbs s p", OF assms [unfolded kframe_def]] by (simp add: kst_core_def)
  have f: "f (ecbs s' p) = f (ecbs s p)" if "\<And>e. f (ecb_core e) = f e" for f :: "EventECB \<Rightarrow> 'z" and p
    using that k [of p] by metis
  show "prio (ecbs s' p) = prio (ecbs s p)" and "prio_base (ecbs s' p) = prio_base (ecbs s p)"
    and "ecb_vm (ecbs s' p) = ecb_vm (ecbs s p)" and "evtt_id (ecbs s' p) = evtt_id (ecbs s p)"
    and "event_id (ecbs s' p) = event_id (ecbs s p)" and "pri (ecbs s') = pri (ecbs s)"
    by (auto simp: fun_eq_iff pri_def intro!: f simp: ecb_core_def no_links_def)
qed

lemma kframe_locks:
  assumes "kframe s s'"
  shows "lamp_counter (semps s' i) = lamp_counter (semps s i)"
    and "lamps_limit (semps s' i) = lamps_limit (semps s i)"
    and "sync_order (semps s' i) = sync_order (semps s i)"
    and "enable (mutexes s' i) = enable (mutexes s i)" and "owner (mutexes s' i) = owner (mutexes s i)"
    and "SchHook (evtts s' i) = SchHook (evtts s i)"
proof -
  have a: "(semps s' i)\<lparr>semp_sync := NULL\<rparr> = (semps s i)\<lparr>semp_sync := NULL\<rparr>"
    using arg_cong [where f = "\<lambda>s. semps s i", OF assms [unfolded kframe_def]] by (simp add: kst_core_def)
  have b: "(mutexes s' i)\<lparr>mutex_sync := NULL\<rparr> = (mutexes s i)\<lparr>mutex_sync := NULL\<rparr>"
    using arg_cong [where f = "\<lambda>s. mutexes s i", OF assms [unfolded kframe_def]] by (simp add: kst_core_def)
  have c: "(evtts s' i)\<lparr>done_sync := NULL, pop_sync := NULL\<rparr> = (evtts s i)\<lparr>done_sync := NULL, pop_sync := NULL\<rparr>"
    using arg_cong [where f = "\<lambda>s. evtts s i", OF assms [unfolded kframe_def]] by (simp add: kst_core_def)
  show "lamp_counter (semps s' i) = lamp_counter (semps s i)"
    and "lamps_limit (semps s' i) = lamps_limit (semps s i)"
    and "sync_order (semps s' i) = sync_order (semps s i)"
    using arg_cong [where f = lamp_counter, OF a] arg_cong [where f = lamps_limit, OF a]
      arg_cong [where f = sync_order, OF a] by simp_all
  show "enable (mutexes s' i) = enable (mutexes s i)" and "owner (mutexes s' i) = owner (mutexes s i)"
    using arg_cong [where f = enable, OF b] arg_cong [where f = owner, OF b] by simp_all
  show "SchHook (evtts s' i) = SchHook (evtts s i)" using arg_cong [where f = SchHook, OF c] by simp
qed

section \<open>The invariant\<close>

definition delay_ok :: "nat \<Rightarrow> heap \<Rightarrow> eptr \<Rightarrow> eptr list \<Rightarrow> bool" where
  "delay_ok n h d ds \<longleftrightarrow>
     (if ds = [] then d = NULL
      else dring (nxt h) (prv h) ds \<and> d = hd ds \<and> sorted (map (due h) ds) \<and> (\<forall>x \<in> set ds. vptr n x))"

definition block_ok :: "nat \<Rightarrow> heap \<Rightarrow> headp \<Rightarrow> eptr \<Rightarrow> eptr list \<Rightarrow> bool" where
  "block_ok n h q v bs \<longleftrightarrow>
     (if bs = [] then v = NULL
      else dring (mnx h) (mpv h) bs \<and> v = hd bs \<and> (\<forall>x \<in> set bs. shd h x = q \<and> vptr n x))"

definition kinv :: "kst \<Rightarrow> eptr list \<Rightarrow> eptr list \<Rightarrow> (headp \<Rightarrow> eptr list) \<Rightarrow> bool" where
  "kinv s xs ds Q \<longleftrightarrow> ready s xs \<and> delay_ok (cfgEventLimit s) (ecbs s) (g_ptEventDelay s) ds \<and>
     (\<forall>q. if hvalid q s then block_ok (cfgEventLimit s) (ecbs s) q (hdval q s) (Q q) else Q q = []) \<and>
     set xs \<inter> set ds = {} \<and>
     (\<forall>x \<in> set xs. shd (ecbs s) x = NULLH \<and> sts (ecbs s) x = CN_STS_EVENT_READY) \<and>
     (\<forall>x \<in> set ds. shd (ecbs s) x = NULLH \<or> x \<in> set (Q (shd (ecbs s) x))) \<and>
     (\<forall>q. \<forall>x \<in> set (Q q). has_flag (sts (ecbs s) x) CN_STS_SYNC_TIMEOUT \<longleftrightarrow> x \<in> set ds)"

lemma kinvD:
  assumes "kinv s xs ds Q"
  shows "ready s xs" and "delay_ok (cfgEventLimit s) (ecbs s) (g_ptEventDelay s) ds"
    and "hvalid q s \<Longrightarrow> block_ok (cfgEventLimit s) (ecbs s) q (hdval q s) (Q q)"
    and "\<not> hvalid q s \<Longrightarrow> Q q = []"
    and "set xs \<inter> set ds = {}"
    and "x \<in> set xs \<Longrightarrow> shd (ecbs s) x = NULLH" and "x \<in> set xs \<Longrightarrow> sts (ecbs s) x = CN_STS_EVENT_READY"
    and "x \<in> set ds \<Longrightarrow> shd (ecbs s) x = NULLH \<or> x \<in> set (Q (shd (ecbs s) x))"
    and "x \<in> set (Q q) \<Longrightarrow> has_flag (sts (ecbs s) x) CN_STS_SYNC_TIMEOUT \<longleftrightarrow> x \<in> set ds"
    and "x \<in> set (Q q) \<Longrightarrow> shd (ecbs s) x = q \<and> valid x s \<and> hvalid q s"
    and "x \<in> set ds \<Longrightarrow> valid x s" and "x \<in> set xs \<Longrightarrow> valid x s"
proof -
  show "x \<in> set (Q q) \<Longrightarrow> shd (ecbs s) x = q \<and> valid x s \<and> hvalid q s"
    using assms unfolding kinv_def block_ok_def by (metis empty_iff list.set(1))
  show "x \<in> set ds \<Longrightarrow> valid x s" using assms unfolding kinv_def delay_ok_def by (cases ds) auto
qed (use assms in \<open>auto simp: kinv_def ready_ok_def\<close>)

section \<open>Ready queue operations\<close>

lemma delay_ok_links:
  assumes "links_only A h h'" and "A \<inter> set ds = {}"
  shows "delay_ok n h' d ds = delay_ok n h d ds"
proof -
  have "set ds \<inter> A = {}" using assms(2) by auto
  then show ?thesis using links_only_rings(1) [OF assms(1)] links_only_fields(4) [OF assms(1)]
    by (simp add: delay_ok_def)
qed

lemma block_ok_links:
  assumes "links_only A h h'" and "A \<inter> set bs = {}"
  shows "block_ok n h' q v bs = block_ok n h q v bs"
proof -
  have "set bs \<inter> A = {}" using assms(2) by auto
  then show ?thesis using links_only_rings(2) [OF assms(1)] links_only_fields(3) [OF assms(1)]
    by (simp add: block_ok_def)
qed

lemma hdval_links:
  assumes "links_only A (ecbs s) h"
  shows "hdval q (s\<lparr>ecbs := h\<rparr>) = hdval q s" and "hdval q (s\<lparr>ecbs := h, g_ptEventReady := r\<rparr>) = hdval q s"
    and "hdval q (s\<lparr>ecbs := h, g_ptEventDelay := d\<rparr>) = hdval q s"
proof -
  have "ecb_sync (h p) = ecb_sync (ecbs s p)" for p by (rule links_only_data(2) [OF assms])
  then show "hdval q (s\<lparr>ecbs := h\<rparr>) = hdval q s" and "hdval q (s\<lparr>ecbs := h, g_ptEventReady := r\<rparr>) = hdval q s"
    and "hdval q (s\<lparr>ecbs := h, g_ptEventDelay := d\<rparr>) = hdval q s"
    by (auto simp: hdval_def split: headp.split)
qed

lemma hvalid_upd [simp]:
  "hvalid q (s\<lparr>ecbs := h\<rparr>) = hvalid q s" "hvalid q (s\<lparr>g_ptEventReady := r\<rparr>) = hvalid q s"
  "hvalid q (s\<lparr>g_ptEventDelay := r\<rparr>) = hvalid q s" "hvalid q (s\<lparr>g_ptEventRunning := r\<rparr>) = hvalid q s"
  by (auto simp: hvalid_def split: headp.split)

lemma kinv_ready_step:
  assumes K: "kinv s xs ds Q" and l: "links_only A (ecbs s) h" and A: "A \<inter> set ds = {}" "\<And>q. A \<inter> set (Q q) = {}"
    and r: "ready_ok (cfgEventLimit s) h r xs'" and d: "set xs' \<inter> set ds = {}"
    and x: "\<And>x. x \<in> set xs' \<Longrightarrow> shd (ecbs s) x = NULLH \<and> sts (ecbs s) x = CN_STS_EVENT_READY"
  shows "kinv (s\<lparr>ecbs := h, g_ptEventReady := r\<rparr>) xs' ds Q"
proof -
  note f = links_only_fields [OF l] hdval_links [OF l]
  show ?thesis
    using K r d x delay_ok_links [OF l A(1)] block_ok_links [OF l A(2)]
    unfolding kinv_def by (auto simp: f)
qed

text \<open>An event that is in no queue at all.\<close>

definition loose :: "eptr \<Rightarrow> kst \<Rightarrow> eptr list \<Rightarrow> eptr list \<Rightarrow> bool" where
  "loose e s xs ds \<longleftrightarrow> valid e s \<and> e \<notin> set xs \<and> e \<notin> set ds \<and> shd (ecbs s) e = NULLH"

lemma loose_not_blocked: "kinv s xs ds Q \<Longrightarrow> shd (ecbs s) e = NULLH \<Longrightarrow> e \<notin> set (Q q)"
  using kinvD(10) [of s xs ds Q e q] by auto

lemma ready_not_blocked: "kinv s xs ds Q \<Longrightarrow> x \<in> set xs \<Longrightarrow> x \<notin> set (Q q)"
  using kinvD(6) loose_not_blocked by blast

lemma kinv_EventReady:
  assumes K: "kinv s xs ds Q" and e: "loose e s xs ds" "sts (ecbs s) e = CN_STS_EVENT_READY"
    and k: "pri (ecbs s) e < pri (ecbs s) (last xs)"
  shows "\<exists>s'. Djy_EventReady e s = Some s' \<and> kinv s' (prio_insert (pri (ecbs s)) e xs) ds Q \<and>
    kframe s s' \<and> links_only UNIV (ecbs s) (ecbs s') \<and> g_ptEventDelay s' = g_ptEventDelay s"
proof -
  from EventReady_ready [OF kinvD(1) [OF K] _ _ k] e(1) obtain h r where
    run: "Djy_EventReady e s = Some (s\<lparr>ecbs := h, g_ptEventReady := r\<rparr>)"
    and r: "ready_ok (cfgEventLimit s) h r (prio_insert (pri (ecbs s)) e xs)"
    and l: "links_only (insert e (set xs)) (ecbs s) h"
    by (auto simp: loose_def)
  have "kinv (s\<lparr>ecbs := h, g_ptEventReady := r\<rparr>) (prio_insert (pri (ecbs s)) e xs) ds Q"
  proof (rule kinv_ready_step [OF K l _ _ r])
    show "insert e (set xs) \<inter> set ds = {}" using kinvD(5) [OF K] e by (auto simp: loose_def)
    show "insert e (set xs) \<inter> set (Q q) = {}" for q
      using loose_not_blocked [OF K] ready_not_blocked [OF K] e by (auto simp: loose_def)
  qed (use kinvD(5-7) [OF K] e in \<open>auto simp: loose_def\<close>)
  then show ?thesis using run kframe_links(2) [OF l] links_only_mono [OF l] by force
qed

lemma kinv_CutReady:
  assumes K: "kinv s (as @ e # y # bs) ds Q"
  shows "\<exists>s'. Djy_CutReadyEvent e s = Some s' \<and> kinv s' (as @ y # bs) ds Q \<and> loose e s' (as @ y # bs) ds \<and>
    kframe s s' \<and> links_only UNIV (ecbs s) (ecbs s') \<and> g_ptEventDelay s' = g_ptEventDelay s"
proof -
  let ?xs = "as @ e # y # bs"
  from CutReadyEvent_ready [OF kinvD(1) [OF K]] obtain h r where
    run: "Djy_CutReadyEvent e s = Some (s\<lparr>ecbs := h, g_ptEventReady := r\<rparr>)"
    and r: "ready_ok (cfgEventLimit s) h r (as @ y # bs)" and l: "links_only (set ?xs) (ecbs s) h"
    by auto
  have "kinv (s\<lparr>ecbs := h, g_ptEventReady := r\<rparr>) (as @ y # bs) ds Q"
  proof (rule kinv_ready_step [OF K l _ _ r])
    show "set ?xs \<inter> set ds = {}" using kinvD(5) [OF K] by simp
    show "set ?xs \<inter> set (Q q) = {}" for q using ready_not_blocked [OF K] by blast
    show "set (as @ y # bs) \<inter> set ds = {}" using kinvD(5) [OF K] by auto
  qed (use kinvD(6,7) [OF K] in auto)
  moreover have "loose e (s\<lparr>ecbs := h, g_ptEventReady := r\<rparr>) (as @ y # bs) ds"
    using kinvD(5) [OF K] kinvD(6,12) [OF K, of e] ready_okD(8) [OF kinvD(1) [OF K]]
      links_only_fields(3) [OF l] by (auto simp: loose_def)
  ultimately show ?thesis using run kframe_links(2) [OF l] links_only_mono [OF l] by force
qed

section \<open>Delay queue operations\<close>

text \<open>
  \<open>main_only A h h'\<close>: the heaps differ at most in \<open>next\<close>/\<open>previous\<close> of the events of \<open>A\<close> and
  in the two delay times.
\<close>

definition main_only :: "eptr set \<Rightarrow> heap \<Rightarrow> heap \<Rightarrow> bool" where
  "main_only A h h' \<longleftrightarrow>
     (\<forall>p. (h' p)\<lparr>ecb_next := NULL, ecb_previous := NULL, delay_start_tick := 0, delay_end_tick := 0\<rparr>
        = (h p)\<lparr>ecb_next := NULL, ecb_previous := NULL, delay_start_tick := 0, delay_end_tick := 0\<rparr>) \<and>
     (\<forall>p. p \<notin> A \<longrightarrow> h' p = h p)"

lemma main_only_refl [simp]: "main_only A h h"
  by (simp add: main_only_def)

lemma main_only_trans: "main_only A h h' \<Longrightarrow> main_only A h' h'' \<Longrightarrow> main_only A h h''"
  by (simp add: main_only_def)

lemma main_only_hput:
  assumes "main_only A h h'" and "p \<in> A"
  shows "main_only A h (hput (\<lambda>e. e\<lparr>ecb_next := v\<rparr>) p h')"
    and "main_only A h (hput (\<lambda>e. e\<lparr>ecb_previous := v\<rparr>) p h')"
    and "main_only A h (hput (\<lambda>e. e\<lparr>delay_end_tick := t\<rparr>) p h')"
    and "main_only A h (hput (\<lambda>e. e\<lparr>delay_start_tick := u, delay_end_tick := t\<rparr>) p h')"
  using assms by (auto simp: main_only_def hput_def)

lemma main_only_same:
  assumes "main_only A h h'"
  shows "mnx h' = mnx h" and "mpv h' = mpv h" and "pri h' = pri h" and "sts h' = sts h" and "shd h' = shd h"
    and "ecb_sync (h' p) = ecb_sync (h p)" and "ecb_core (h' p) = ecb_core (h p)"
    and "p \<notin> A \<Longrightarrow> nxt h' p = nxt h p" and "p \<notin> A \<Longrightarrow> prv h' p = prv h p" and "p \<notin> A \<Longrightarrow> due h' p = due h p"
    and "wakeup_from (h' p) = wakeup_from (h p)"
proof -
  let ?c = "\<lambda>e. e\<lparr>ecb_next := NULL, ecb_previous := NULL, delay_start_tick := 0, delay_end_tick := 0\<rparr>"
  have n: "?c (h' p) = ?c (h p)" for p using assms by (simp add: main_only_def)
  have f: "f (h' p) = f (h p)" if "\<And>e. f (?c e) = f e" for f :: "EventECB \<Rightarrow> 'z" and p
    using n [of p] that by metis
  show "mnx h' = mnx h" "mpv h' = mpv h" "pri h' = pri h" "sts h' = sts h" "shd h' = shd h"
    by (auto simp: fun_eq_iff mnx_def mpv_def pri_def sts_def shd_def intro!: f)
  show "ecb_sync (h' p) = ecb_sync (h p)" "ecb_core (h' p) = ecb_core (h p)"
    "wakeup_from (h' p) = wakeup_from (h p)"
    by (auto intro!: f simp: ecb_core_def no_links_def)
  show "p \<notin> A \<Longrightarrow> nxt h' p = nxt h p" "p \<notin> A \<Longrightarrow> prv h' p = prv h p" "p \<notin> A \<Longrightarrow> due h' p = due h p"
    using assms by (auto simp: main_only_def nxt_def prv_def due_def)
qed

lemma ready_ok_main:
  assumes "main_only A h h'" and "A \<inter> set xs = {}"
  shows "ready_ok n h' r xs = ready_ok n h r xs"
proof -
  have "p \<notin> A" if "p \<in> set xs" for p using that assms(2) by auto
  then have "dring (nxt h') (prv h') xs = dring (nxt h) (prv h) xs"
    using main_only_same(8,9) [OF assms(1)] by (auto intro!: dring_cong)
  then show ?thesis by (simp add: ready_ok_def main_only_same(1-3) [OF assms(1)])
qed

text \<open>Transport of the invariant over a step that only rearranges the delay queue.\<close>

lemma kinv_delay_step:
  assumes K: "kinv s xs ds Q" and m: "main_only A (ecbs s) h" and A: "A \<inter> set xs = {}"
    and d: "delay_ok (cfgEventLimit s) h d ds'" and x: "set xs \<inter> set ds' = {}"
    and Q: "\<And>x. x \<in> set ds' \<Longrightarrow> shd (ecbs s) x = NULLH \<or> x \<in> set (Q (shd (ecbs s) x))"
    and T: "\<And>q x. x \<in> set (Q q) \<Longrightarrow> has_flag (sts (ecbs s) x) CN_STS_SYNC_TIMEOUT \<longleftrightarrow> x \<in> set ds'"
  shows "kinv (s\<lparr>ecbs := h, g_ptEventDelay := d\<rparr>) xs ds' Q"
proof -
  note f = main_only_same [OF m]
  have "hdval q (s\<lparr>ecbs := h, g_ptEventDelay := d\<rparr>) = hdval q s" for q
    by (auto simp: hdval_def f(6) split: headp.split)
  then show ?thesis
    using K d x Q T ready_ok_main [OF m A]
    unfolding kinv_def block_ok_def by (auto simp: f(1-5))
qed

text \<open>\<open>__Djy_ResumeDelay\<close>: the event leaves the delay queue; its end time becomes now.\<close>

lemma ResumeDelay_delay:
  assumes d: "delay_ok (cfgEventLimit s) (ecbs s) (g_ptEventDelay s) ds" and x: "x \<in> set ds"
  shows "\<exists>h d. Djy_ResumeDelay x s = Some (s\<lparr>ecbs := h, g_ptEventDelay := d\<rparr>) \<and>
    delay_ok (cfgEventLimit s) h d (remove1 x ds) \<and> main_only (set ds) (ecbs s) h"
proof -
  let ?h = "ecbs s" and ?ds = "remove1 x ds"
  from x obtain as bs where ds: "ds = as @ x # bs" "x \<notin> set as" by (meson split_list_first)
  have r: "dring (nxt ?h) (prv ?h) (as @ x # bs)" "g_ptEventDelay s = hd ds" "sorted (map (due ?h) ds)"
    and v: "\<And>z. z \<in> set ds \<Longrightarrow> valid z s"
    using d x ds by (auto simp: delay_ok_def split: if_splits)
  have rm: "?ds = as @ bs" using ds by (simp add: remove1_append)
  have xb: "x \<notin> set (as @ bs)" using r(1) by (auto simp: dring_iff)
  let ?n = "nxt ?h x" and ?p = "prv ?h x"
  have np: "?n \<in> set ds" "?p \<in> set ds" using dring_next_in [OF r(1), of x] dring_prev_in [OF r(1), of x] ds by auto
  let ?h1 = "hput (\<lambda>e. e\<lparr>ecb_next := ?n\<rparr>) ?p (hput (\<lambda>e. e\<lparr>ecb_previous := ?p\<rparr>) ?n ?h)"
  let ?clr = "\<lambda>h. hput (\<lambda>e. e\<lparr>delay_end_tick := g_s64OsTicks s\<rparr>) x
     (hput (\<lambda>e. e\<lparr>ecb_previous := NULL\<rparr>) x (hput (\<lambda>e. e\<lparr>ecb_next := NULL\<rparr>) x h))"
  define h2 where "h2 = ?clr (if as @ bs = [] then ?h else ?h1)"
  have "ds \<noteq> []" using ds by simp
  then have "hd ds \<in> set ds" by (rule hd_in_set)
  then have hdv: "valid (hd ds) s" "valid x s" "valid ?n s" "valid ?p s" using v x np by auto
  have m2: "main_only (set ds) ?h h2"
    unfolding h2_def using x np by (auto intro!: main_only_hput)
  show ?thesis
  proof (cases "as @ bs = []")
    case True
    then have "nxt ?h x = x" "hd ds = x" using r(1) ds by (auto simp: dring_single)
    then have "Djy_ResumeDelay x s = Some (s\<lparr>g_ptEventDelay := NULL, ecbs := h2\<rparr>)"
      using True hdv r(2) by (simp add: Djy_ResumeDelay_def h2_def fault_simps heap_simps DjyGetSysTick_def)
    then show ?thesis using m2 rm True by (intro exI [of _ h2] exI [of _ NULL]) (auto simp: delay_ok_def)
  next
    case False
    have h2: "h2 = ?clr ?h1" unfolding h2_def if_not_P [OF False] ..
    have hn: "nxt ?h (hd ds) \<noteq> hd ds"
      using r(1) dring_proper [of "nxt ?h" "prv ?h" "[]" "hd ds" "tl ds"] False ds
      by (cases as; cases bs) auto
    have pr: "?n \<noteq> x" "?p \<noteq> x" using dring_proper [OF r(1) False] by auto
    let ?d = "if x = hd ds then ?n else hd ds"
    have run: "Djy_ResumeDelay x s = Some (s\<lparr>g_ptEventDelay := ?d, ecbs := h2\<rparr>)"
    proof (cases "x = hd ds")
      case True
      then show ?thesis using hdv r(2) hn pr
        by (simp add: Djy_ResumeDelay_def h2 fault_simps heap_simps DjyGetSysTick_def)
    next
      case ne: False
      then show ?thesis using hdv r(2) hn pr
        by (simp add: Djy_ResumeDelay_def h2 fault_simps heap_simps DjyGetSysTick_def)
    qed
    have "dring (nxt ?h1) (prv ?h1) (as @ bs)" by (rule main.unlink [OF r(1) False]) simp
    then have ring: "dring (nxt h2) (prv h2) (as @ bs)"
      using xb by (simp add: h2 heap_simps)
    have "?d = hd (as @ bs)"
    proof (cases as)
      case Nil
      then show ?thesis using ds dring_next [of "nxt ?h" "prv ?h" x bs] r(1) False by (cases bs) auto
    qed (use ds in auto)
    moreover have "sorted (map (due h2) (as @ bs))"
    proof -
      have e: "map (due h2) (as @ bs) = map (due ?h) (as @ bs)"
        using xb by (auto simp: h2 heap_simps)
      show ?thesis unfolding e using r(3) ds by (auto simp: sorted_append)
    qed
    ultimately have "delay_ok (cfgEventLimit s) h2 ?d (as @ bs)"
      using False ring v ds by (auto simp: delay_ok_def)
    then show ?thesis using run m2 rm by (intro exI [of _ h2] exI [of _ ?d]) simp
  qed
qed

text \<open>
  Queueing the running event by its due time.  Behind those due at the same time: the events
  of one tick wake up in the order in which they went to sleep.
\<close>

lemma delay_insert_delay:
  assumes d: "delay_ok (cfgEventLimit s) (ecbs s) (g_ptEventDelay s) ds"
    and e: "e = g_ptEventRunning s" "valid e s" "e \<notin> set ds"
  shows "\<exists>h d. delay_insert s = Some (s\<lparr>ecbs := h, g_ptEventDelay := d\<rparr>) \<and>
    delay_ok (cfgEventLimit s) h d (ins_by (\<lambda>y. due (ecbs s) y \<le> due (ecbs s) e) e ds) \<and>
    main_only (insert e (set ds)) (ecbs s) h \<and> due h = due (ecbs s)"
proof (cases "ds = []")
  case True
  let ?h = "hput (\<lambda>x. x\<lparr>ecb_previous := e\<rparr>) e (hput (\<lambda>x. x\<lparr>ecb_next := e\<rparr>) e (ecbs s))"
  have "delay_insert s = Some (s\<lparr>ecbs := ?h, g_ptEventDelay := e\<rparr>)"
    using True d e by (simp add: delay_insert_def delay_ok_def fault_simps heap_simps Let_def)
  moreover have "main_only (insert e (set ds)) (ecbs s) ?h" by (auto intro!: main_only_hput)
  moreover have "delay_ok (cfgEventLimit s) ?h e [e]"
    using e by (simp add: delay_ok_def main.self_link)
  ultimately show ?thesis using True
    by (intro exI [of _ ?h] exI [of _ e]) (auto simp: ins_by_def heap_simps fun_eq_iff)
next
  case False
  let ?h = "ecbs s" and ?P = "\<lambda>y. due (ecbs s) y \<le> due (ecbs s) e"
  define y where "y = hd (dropWhile ?P ds @ [hd ds])"
  have r: "dring (nxt ?h) (prv ?h) ds" "g_ptEventDelay s = hd ds" "sorted (map (due ?h) ds)"
    and v: "\<And>z. z \<in> set ds \<Longrightarrow> valid z s" using d False by (auto simp: delay_ok_def)
  have hds: "hd ds \<in> set ds" using False by simp
  have yds: "y \<in> set ds"
  proof (cases "dropWhile ?P ds")
    case Nil
    show ?thesis unfolding y_def Nil using hds by simp
  next
    case (Cons a as)
    then have "y \<in> set (dropWhile ?P ds)" by (simp add: y_def)
    then show ?thesis by (rule set_dropWhileD)
  qed
  let ?p = "prv ?h y"
  have pds: "?p \<in> set ds" by (rule dring_prev_in [OF r(1) yds])
  have ne: "y \<noteq> e" "?p \<noteq> e" "hd ds \<noteq> e" and vv: "valid y s" "valid ?p s" "valid (hd ds) s"
    using yds pds hds e(3) v by auto
  have srch: "ring_search ecb_next (\<lambda>x. delay_end_tick x \<le> due ?h e) (hd ds) (hd ds) s = Some y"
    using ring_search_finds [of ecb_next s "prv ?h" ds "hd ds" "\<lambda>x. delay_end_tick x \<le> due ?h e"] r(1) v
    by (simp add: y_def nxt_def [abs_def] due_def)
  define h1 where "h1 = hput (\<lambda>x. x\<lparr>ecb_previous := e\<rparr>) y (hput (\<lambda>x. x\<lparr>ecb_next := e\<rparr>) ?p
     (hput (\<lambda>x. x\<lparr>ecb_previous := ?p\<rparr>) e (hput (\<lambda>x. x\<lparr>ecb_next := y\<rparr>) e ?h)))"
  let ?d = "if due ?h (hd ds) > due ?h e then e else hd ds"
  have due1: "due h1 = due ?h" by (auto simp: h1_def heap_simps fun_eq_iff)
  have run: "delay_insert s = Some (s\<lparr>ecbs := h1, g_ptEventDelay := ?d\<rparr>)"
  proof -
    have "hd ds \<noteq> NULL" using vv(3) vptrD by blast
    then show ?thesis using srch e ne vv r(2) unfolding delay_insert_def h1_def
      by (simp add: fault_simps heap_simps Let_def)
  qed
  have "nxt h1 = (nxt ?h)(e := y, ?p := e)" "prv h1 = (prv ?h)(e := ?p, y := e)"
    using ne by (auto simp: h1_def heap_simps fun_eq_iff)
  then have "dring (nxt h1) (prv h1) (ins_by ?P e ds)"
    using dring_ins_by [OF r(1) e(3) y_def] by simp
  moreover have "?d = hd (ins_by ?P e ds)" using False by (auto simp: hd_ins_by)
  moreover have "sorted (map (due h1) (ins_by ?P e ds))" unfolding due1 by (rule sorted_ins_by [OF r(3)])
  ultimately have "delay_ok (cfgEventLimit s) h1 ?d (ins_by ?P e ds)"
    using v e(2) by (auto simp: delay_ok_def)
  moreover have "main_only (insert e (set ds)) ?h h1"
    unfolding h1_def using yds pds by (auto intro!: main_only_hput)
  ultimately show ?thesis using run due1 by blast
qed

section \<open>Block queue operations\<close>

lemma puthd_fields [simp]:
  "nxt (ecbs (puthd q v s)) = nxt (ecbs s)" "prv (ecbs (puthd q v s)) = prv (ecbs s)"
  "mnx (ecbs (puthd q v s)) = mnx (ecbs s)" "mpv (ecbs (puthd q v s)) = mpv (ecbs s)"
  "pri (ecbs (puthd q v s)) = pri (ecbs s)" "sts (ecbs (puthd q v s)) = sts (ecbs s)"
  "shd (ecbs (puthd q v s)) = shd (ecbs s)" "due (ecbs (puthd q v s)) = due (ecbs s)"
  "wkf (ecbs (puthd q v s)) = wkf (ecbs s)"
  by (cases q; auto simp: puthd_def heap_simps fun_eq_iff)+

lemma puthd_globals [simp]:
  "cfgEventLimit (puthd q v s) = cfgEventLimit s" "g_ptEventReady (puthd q v s) = g_ptEventReady s"
  "g_ptEventDelay (puthd q v s) = g_ptEventDelay s" "g_ptEventRunning (puthd q v s) = g_ptEventRunning s"
  "g_s64OsTicks (puthd q v s) = g_s64OsTicks s" "hvalid q' (puthd q v s) = hvalid q' s"
  by (cases q; auto simp: puthd_def hvalid_def split: headp.split)+

lemma hdval_puthd: "q \<noteq> NULLH \<Longrightarrow> hdval q' (puthd q v s) = (if q' = q then v else hdval q' s)"
  by (cases q; cases q') (auto simp: puthd_def hdval_def hput_def)

lemma hdval_hput:
  assumes "\<And>e. ecb_sync (f e) = ecb_sync e"
  shows "hdval q (s\<lparr>ecbs := hput f p h\<rparr>) = hdval q (s\<lparr>ecbs := h\<rparr>)"
  using assms by (auto simp: hdval_def hput_def split: headp.split)

text \<open>Transport of the invariant over a step that only changes the block queue \<open>q\<close>.\<close>

lemma kinv_block_step:
  assumes K: "kinv s xs ds Q" and q: "hvalid q s"
    and same: "nxt (ecbs s') = nxt (ecbs s)" "prv (ecbs s') = prv (ecbs s)" "pri (ecbs s') = pri (ecbs s)"
      "sts (ecbs s') = sts (ecbs s)" "due (ecbs s') = due (ecbs s)" "cfgEventLimit s' = cfgEventLimit s"
      "g_ptEventReady s' = g_ptEventReady s" "g_ptEventDelay s' = g_ptEventDelay s"
    and hv: "\<And>q'. hvalid q' s' = hvalid q' s"
    and hd: "\<And>q'. hvalid q' s \<Longrightarrow> hdval q' s' = (if q' = q then v else hdval q' s)"
    and mn: "\<And>x. x \<notin> A \<Longrightarrow> mnx (ecbs s') x = mnx (ecbs s) x \<and> mpv (ecbs s') x = mpv (ecbs s) x
               \<and> shd (ecbs s') x = shd (ecbs s) x"
    and A: "A \<inter> set xs = {}" "\<And>q'. q' \<noteq> q \<Longrightarrow> A \<inter> set (Q q') = {}" "set (Q q) - A \<subseteq> set bs'"
    and b: "block_ok (cfgEventLimit s) (ecbs s') q v bs'"
    and ds: "\<And>x. x \<in> A \<Longrightarrow> x \<in> set ds \<Longrightarrow> shd (ecbs s') x = NULLH \<or> shd (ecbs s') x = q \<and> x \<in> set bs'"
    and T: "\<And>x. x \<in> set bs' \<Longrightarrow> has_flag (sts (ecbs s) x) CN_STS_SYNC_TIMEOUT \<longleftrightarrow> x \<in> set ds"
  shows "kinv s' xs ds (Q(q := bs'))"
proof -
  have ring: "dring (mnx (ecbs s')) (mpv (ecbs s')) ys = dring (mnx (ecbs s)) (mpv (ecbs s)) ys"
    if "A \<inter> set ys = {}" for ys
    using mn that by (intro dring_cong) (metis disjoint_iff)+
  have xs: "mnx (ecbs s') x = mnx (ecbs s) x" "shd (ecbs s') x = shd (ecbs s) x" if "x \<in> set xs" for x
    using mn A(1) that by blast+
  have "A \<inter> set (leaders (pri (ecbs s)) xs) = {}" using A(1) set_leaders [of "pri (ecbs s)" xs] by blast
  then have R: "ready s' xs"
    using kinvD(1) [OF K] xs(1) by (simp add: ready_ok_def same ring)
  have D: "delay_ok (cfgEventLimit s') (ecbs s') (g_ptEventDelay s') ds"
    using kinvD(2) [OF K] by (simp add: delay_ok_def same)
  have B: "if hvalid q' s' then block_ok (cfgEventLimit s') (ecbs s') q' (hdval q' s') ((Q(q := bs')) q')
      else (Q(q := bs')) q' = []" for q'
  proof (cases "q' = q")
    case True
    then show ?thesis using q b by (simp add: hv hd same)
  next
    case False
    have "shd (ecbs s') x = shd (ecbs s) x" if "x \<in> set (Q q')" for x using mn A(2) [OF False] that by blast
    then show ?thesis using False kinvD(3,4) [OF K, of q'] ring [OF A(2) [OF False]]
      by (auto simp: hv hd same block_ok_def)
  qed
  have S: "shd (ecbs s') x = NULLH \<or> x \<in> set ((Q(q := bs')) (shd (ecbs s') x))" if "x \<in> set ds" for x
  proof (cases "x \<in> A")
    case False
    then show ?thesis using mn [OF False] kinvD(8) [OF K that] A(3) by auto
  qed (use ds that in auto)
  have F: "has_flag (sts (ecbs s') x) CN_STS_SYNC_TIMEOUT \<longleftrightarrow> x \<in> set ds"
    if "x \<in> set ((Q(q := bs')) q')" for q' x
    using that T kinvD(9) [OF K, of x q'] by (cases "q' = q") (simp_all add: same)
  have X: "shd (ecbs s') x = NULLH" "sts (ecbs s') x = CN_STS_EVENT_READY" if "x \<in> set xs" for x
    using kinvD(6,7) [OF K that] xs(2) [OF that] by (simp_all add: same)
  show ?thesis unfolding kinv_def
    by (intro conjI allI ballI) (rule R D B S F X kinvD(5) [OF K] | assumption)+
qed

lemma kinv_take_first:
  assumes K: "kinv s xs ds Q" and q: "hvalid q s" "Q q = e # bs"
  shows "\<exists>s'. take_first q e s = Some s' \<and> kinv s' xs ds (Q(q := bs)) \<and> kframe s s' \<and>
    shd (ecbs s') e = NULLH \<and> sts (ecbs s') = sts (ecbs s)"
proof -
  let ?h = "ecbs s"
  have qN: "q \<noteq> NULLH" using q by auto
  have B: "dring (mnx ?h) (mpv ?h) (e # bs)" "hdval q s = e"
    and v: "\<And>x. x \<in> set (e # bs) \<Longrightarrow> shd ?h x = q \<and> valid x s"
    using kinvD(3) [OF K q(1)] q(2) by (auto simp: block_ok_def)
  have ev: "valid e s" using v by simp
  let ?n = "mnx ?h e" and ?p = "mpv ?h e"
  have npin: "?n \<in> set (e # bs)" "?p \<in> set (e # bs)"
    using dring_next_in [OF B(1), of e] dring_prev_in [OF B(1), of e] by auto
  have Aq: "set (e # bs) \<inter> set xs = {}" "q' \<noteq> q \<Longrightarrow> set (e # bs) \<inter> set (Q q') = {}" for q'
    using v kinvD(6) [OF K] qN kinvD(10) [OF K] by fastforce+
  have T: "has_flag (sts ?h x) CN_STS_SYNC_TIMEOUT \<longleftrightarrow> x \<in> set ds" if "x \<in> set (e # bs)" for x
    using kinvD(9) [OF K, of x q] q(2) that by simp
  show ?thesis
  proof (cases bs)
    case Nil
    define s1 where "s1 = puthd q NULL (s\<lparr>ecbs := hput (\<lambda>x. x\<lparr>sync_head := NULLH\<rparr>) e ?h\<rparr>)"
    have "?n = e" using B(1) Nil by (simp add: dring_single)
    then have run: "take_first q e s = Some s1"
      using ev q(1) unfolding take_first_def s1_def by (simp add: fault_simps heap_simps)
    have "kinv s1 xs ds (Q(q := []))"
      by (rule kinv_block_step [OF K q(1), where A = "{e}" and v = NULL])
        (use Aq Nil q qN in \<open>auto simp: s1_def heap_simps fun_eq_iff hdval_puthd hdval_hput block_ok_def\<close>)
    moreover have "kframe s s1" unfolding s1_def
      by (rule kframe_trans [OF kframe_heap(1) kframe_puthd]) (simp add: hput_def ecb_core_def no_links_def)
    ultimately show ?thesis using run Nil by (auto simp: s1_def heap_simps fun_eq_iff)
  next
    case (Cons b cs)
    have pr: "?n \<noteq> e" "?p \<noteq> e" using dring_proper [of "mnx ?h" "mpv ?h" "[]" e bs] B(1) Cons by auto
    have nb: "?n = b" using dring_next [OF B(1)] Cons by simp
    have nv: "valid ?n s" "valid ?p s" using npin v by auto
    define s1 where "s1 = puthd q ?n (s\<lparr>ecbs := hput (\<lambda>x. x\<lparr>sync_head := NULLH\<rparr>) e ?h\<rparr>)"
    define s2 where "s2 = s1\<lparr>ecbs := hput (\<lambda>x. x\<lparr>multi_previous := NULL\<rparr>) e (hput (\<lambda>x. x\<lparr>multi_next := NULL\<rparr>) e
       (hput (\<lambda>x. x\<lparr>multi_next := ?n\<rparr>) ?p (hput (\<lambda>x. x\<lparr>multi_previous := ?p\<rparr>) ?n (ecbs s1))))\<rparr>"
    have run: "take_first q e s = Some s2"
      using ev nv q(1) pr unfolding take_first_def s2_def s1_def
      by (simp add: fault_simps heap_simps)
    have f2: "mnx (ecbs s2) = (mnx ?h)(?p := ?n, e := NULL)" "mpv (ecbs s2) = (mpv ?h)(?n := ?p, e := NULL)"
      "shd (ecbs s2) = (shd ?h)(e := NULLH)"
      by (auto simp: s2_def s1_def heap_simps fun_eq_iff)
    have enb: "e \<notin> set bs" using B(1) by (simp add: dring_iff)
    have "dring ((mnx ?h)(?p := ?n)) ((mpv ?h)(?n := ?p)) bs"
      using dring_delete_mid [of "mnx ?h" "mpv ?h" "[]" e bs] B(1) Cons by simp
    then have "block_ok (cfgEventLimit s) (ecbs s2) q ?n bs"
      using enb v nb Cons by (auto simp: block_ok_def f2)
    then have "kinv s2 xs ds (Q(q := bs))"
      by (rule kinv_block_step [OF K q(1), where A = "set (e # bs)" and v = ?n, rotated -3])
        (use Aq npin q qN enb v T in \<open>auto simp: f2\<close>,
         use qN in \<open>auto simp: s2_def s1_def heap_simps fun_eq_iff hdval_puthd hdval_hput\<close>)
    moreover have "kframe s s1" unfolding s1_def
      by (rule kframe_trans [OF kframe_heap(1) kframe_puthd]) (simp add: hput_def ecb_core_def no_links_def)
    moreover have "kframe s1 s2" unfolding s2_def
      by (rule kframe_links(1) [where A = UNIV]) (intro links_only_hput links_only_refl, auto)
    ultimately show ?thesis using run kframe_trans by (auto simp: s2_def s1_def heap_simps fun_eq_iff)
  qed
qed

section \<open>Waking an event\<close>

lemma kframe_main: "main_only A (ecbs s) h \<Longrightarrow> kframe s (s\<lparr>ecbs := h, g_ptEventDelay := d\<rparr>)"
  by (rule kframe_heap(3)) (rule main_only_same(7))

lemma kinv_resume_timeout:
  assumes K: "kinv s xs ds Q" and e: "valid e s" "e \<notin> set xs" "shd (ecbs s) e = NULLH"
    and T: "has_flag (sts (ecbs s) e) CN_STS_SYNC_TIMEOUT \<longleftrightarrow> e \<in> set ds"
  shows "\<exists>s'. resume_timeout e s = Some s' \<and> kinv s' xs (remove1 e ds) Q \<and> kframe s s' \<and>
    shd (ecbs s') = shd (ecbs s) \<and> sts (ecbs s') = sts (ecbs s)"
proof (cases "e \<in> set ds")
  case False
  then show ?thesis using K T e(1)
    by (auto simp: resume_timeout_def rd_valid heap_simps remove1_idem)
next
  case True
  from ResumeDelay_delay [OF kinvD(2) [OF K] True] obtain h d where
    run: "Djy_ResumeDelay e s = Some (s\<lparr>ecbs := h, g_ptEventDelay := d\<rparr>)"
    and d: "delay_ok (cfgEventLimit s) h d (remove1 e ds)" and m: "main_only (set ds) (ecbs s) h"
    by blast
  have "distinct ds" using kinvD(2) [OF K] True by (auto simp: delay_ok_def dring_iff split: if_splits)
  then have dd: "set (remove1 e ds) = set ds - {e}" by simp
  have "e \<notin> set (Q q)" for q using loose_not_blocked [OF K e(3)] .
  then have "kinv (s\<lparr>ecbs := h, g_ptEventDelay := d\<rparr>) xs (remove1 e ds) Q"
    using kinvD(5) [OF K] kinvD(8,9) [OF K] unfolding dd
    by (intro kinv_delay_step [OF K m _ d]) (auto simp: dd)
  then show ?thesis using run T True e(1) kframe_main [OF m] main_only_same(4,5) [OF m]
    by (auto simp: resume_timeout_def rd_valid heap_simps)
qed

lemma kinv_status:
  assumes K: "kinv s xs ds Q" and e: "e \<notin> set xs" "\<And>q. e \<notin> set (Q q)"
    and h: "h = hput f e (ecbs s)" and f: "\<And>x. f x = x\<lparr>event_status := st x, wakeup_from := w x\<rparr>"
  shows "kinv (s\<lparr>ecbs := h\<rparr>) xs ds Q"
proof -
  have F: "nxt h = nxt (ecbs s)" "prv h = prv (ecbs s)" "mnx h = mnx (ecbs s)" "mpv h = mpv (ecbs s)"
    "pri h = pri (ecbs s)" "shd h = shd (ecbs s)" "due h = due (ecbs s)" "sts h = (sts (ecbs s))(e := st (ecbs s e))"
    by (auto simp: h f heap_simps fun_eq_iff)
  have "hdval q (s\<lparr>ecbs := h\<rparr>) = hdval q s" for q by (simp add: h f hdval_hput)
  moreover have "ready_ok n h r xs = ready_ok n (ecbs s) r xs" for n r by (simp add: ready_ok_def F)
  moreover have "delay_ok n h d ds = delay_ok n (ecbs s) d ds" for n d by (simp add: delay_ok_def F)
  moreover have "block_ok n h q v bs = block_ok n (ecbs s) q v bs" for n q v bs by (simp add: block_ok_def F)
  moreover have "sts h x = sts (ecbs s) x" if "x \<noteq> e" for x using that by (simp add: F)
  moreover have "x \<noteq> e" if "x \<in> set xs \<or> x \<in> set (Q q)" for x q using that e by auto
  ultimately show ?thesis
    using K unfolding kinv_def by (simp add: F(6)) (metis (no_types, lifting))
qed

lemma kframe_status:
  "(\<And>x. f x = x\<lparr>event_status := st x, wakeup_from := w x\<rparr>) \<Longrightarrow> kframe s (s\<lparr>ecbs := hput f e (ecbs s)\<rparr>)"
  by (rule kframe_heap(1)) (simp add: hput_def ecb_core_def no_links_def)

text \<open>
  The common end of every wake-up in the kernel: out of the delay queue, ready again for a
  reason, and into the ready queue.
\<close>

definition wake_ready :: "u32 \<Rightarrow> eptr \<Rightarrow> kst \<Rightarrow> kst option" where
  "wake_ready why e s = do {
     s \<leftarrow> resume_timeout e s; s \<leftarrow> wake_up why e s; Djy_EventReady e s }"

lemma kinv_wake_loose:
  assumes K: "kinv s xs ds Q" and e: "valid e s" "e \<notin> set xs" "shd (ecbs s) e = NULLH"
    and T: "has_flag (sts (ecbs s) e) CN_STS_SYNC_TIMEOUT \<longleftrightarrow> e \<in> set ds"
  shows "\<exists>s'. (do { s \<leftarrow> resume_timeout e s; wake_up why e s }) = Some s' \<and>
    kinv s' xs (remove1 e ds) Q \<and> loose e s' xs (remove1 e ds) \<and> sts (ecbs s') e = CN_STS_EVENT_READY \<and>
    wakeup_from (ecbs s' e) = why \<and> kframe s s'"
proof -
  from kinv_resume_timeout [OF K e T] obtain s1 where
    s1: "resume_timeout e s = Some s1" "kinv s1 xs (remove1 e ds) Q" "kframe s s1"
      "shd (ecbs s1) = shd (ecbs s)" "sts (ecbs s1) = sts (ecbs s)" by blast
  note f1 = kframe_fields [OF s1(3)] kframe_ecb [OF s1(3)]
  define s2 where "s2 = s1\<lparr>ecbs := hput (\<lambda>x. x\<lparr>wakeup_from := why, event_status := CN_STS_EVENT_READY\<rparr>) e (ecbs s1)\<rparr>"
  have up: "wake_up why e s1 = Some s2"
    using e(1) by (simp add: wake_up_def s2_def wr_valid f1)
  have nb: "e \<notin> set (Q q)" for q using loose_not_blocked [OF K e(3)] .
  have K2: "kinv s2 xs (remove1 e ds) Q" unfolding s2_def
    by (rule kinv_status [OF s1(2) e(2) nb refl, where w = "\<lambda>_. why" and st = "\<lambda>_. CN_STS_EVENT_READY"]) simp
  have "distinct ds" using kinvD(2) [OF K] by (auto simp: delay_ok_def dring_iff split: if_splits)
  then have "loose e s2 xs (remove1 e ds)"
    using e s1(4) by (auto simp: loose_def s2_def heap_simps f1)
  moreover have "sts (ecbs s2) e = CN_STS_EVENT_READY" by (simp add: s2_def heap_simps)
  moreover have "kframe s1 s2" unfolding s2_def
    by (rule kframe_status [where w = "\<lambda>_. why" and st = "\<lambda>_. CN_STS_EVENT_READY"]) simp
  then have "kframe s s2" using s1(3) kframe_trans by blast
  ultimately show ?thesis using s1(1) up K2 by (simp add: s2_def hput_def)
qed

lemma kinv_wake_ready:
  assumes K: "kinv s xs ds Q" and e: "valid e s" "e \<notin> set xs" "shd (ecbs s) e = NULLH"
    and T: "has_flag (sts (ecbs s) e) CN_STS_SYNC_TIMEOUT \<longleftrightarrow> e \<in> set ds"
    and k: "pri (ecbs s) e < pri (ecbs s) (last xs)"
  shows "\<exists>s'. wake_ready why e s = Some s' \<and>
    kinv s' (prio_insert (pri (ecbs s)) e xs) (remove1 e ds) Q \<and> kframe s s' \<and>
    wakeup_from (ecbs s' e) = why"
proof -
  from kinv_wake_loose [OF K e T, of why] obtain s2 where
    s2: "(do { s \<leftarrow> resume_timeout e s; wake_up why e s }) = Some s2" "kinv s2 xs (remove1 e ds) Q"
      "loose e s2 xs (remove1 e ds)" "sts (ecbs s2) e = CN_STS_EVENT_READY" "wakeup_from (ecbs s2 e) = why"
      "kframe s s2" by blast
  have p2: "pri (ecbs s2) = pri (ecbs s)" using kframe_ecb(6) [OF s2(6)] .
  from kinv_EventReady [OF s2(2-4)] k obtain s3 where s3: "Djy_EventReady e s2 = Some s3"
      "kinv s3 (prio_insert (pri (ecbs s)) e xs) (remove1 e ds) Q" "kframe s2 s3"
      "links_only UNIV (ecbs s2) (ecbs s3)"
    by (auto simp: p2)
  have "wakeup_from (ecbs s3 e) = why" using links_only_data(1) [OF s3(4)] s2(5) by simp
  moreover have "wake_ready why e s = Some s3"
    using s2(1) s3(1) by (auto simp: wake_ready_def split: bind_splits)
  ultimately show ?thesis using s3(2,3) s2(6) kframe_trans by blast
qed

text \<open>Waking the first event of a block queue.\<close>

lemma kinv_wake_first:
  assumes K: "kinv s xs ds Q" and q: "hvalid q s" "Q q = e # bs"
    and k: "pri (ecbs s) e < pri (ecbs s) (last xs)"
  shows "\<exists>s'. (do { s \<leftarrow> take_first q e s; wake_ready why e s }) = Some s' \<and>
    kinv s' (prio_insert (pri (ecbs s)) e xs) (remove1 e ds) (Q(q := bs)) \<and> kframe s s' \<and>
    wakeup_from (ecbs s' e) = why"
proof -
  from kinv_take_first [OF K q] obtain s1 where
    s1: "take_first q e s = Some s1" "kinv s1 xs ds (Q(q := bs))" "kframe s s1"
      "shd (ecbs s1) e = NULLH" "sts (ecbs s1) = sts (ecbs s)" by blast
  note f1 = kframe_fields [OF s1(3)] kframe_ecb [OF s1(3)]
  have eq: "e \<in> set (Q q)" using q(2) by simp
  have "e \<notin> set xs" using ready_not_blocked [OF K] eq by blast
  moreover have "valid e s1" using kinvD(10) [OF K eq] by (simp add: f1)
  moreover have "has_flag (sts (ecbs s1) e) CN_STS_SYNC_TIMEOUT \<longleftrightarrow> e \<in> set ds"
    using kinvD(9) [OF K eq] s1(5) by simp
  moreover have "pri (ecbs s1) e < pri (ecbs s1) (last xs)" using k by (simp add: f1)
  ultimately obtain s2 where "wake_ready why e s1 = Some s2"
      "kinv s2 (prio_insert (pri (ecbs s1)) e xs) (remove1 e ds) (Q(q := bs))" "kframe s1 s2"
      "wakeup_from (ecbs s2 e) = why"
    using kinv_wake_ready [OF s1(2) _ _ s1(4)] by blast
  then show ?thesis using s1(1,3) kframe_trans by (auto simp: f1)
qed

section \<open>Scheduling\<close>

text \<open>What the invariant looks at.\<close>

definition qview where
  "qview s = (nxt (ecbs s), prv (ecbs s), mnx (ecbs s), mpv (ecbs s), pri (ecbs s), sts (ecbs s),
     shd (ecbs s), due (ecbs s), (\<lambda>q. hdval q s), (\<lambda>q. hvalid q s), g_ptEventReady s,
     g_ptEventDelay s, cfgEventLimit s)"

lemma kinv_view:
  assumes "qview s' = qview s"
  shows "kinv s' xs ds Q = kinv s xs ds Q"
proof -
  have "nxt (ecbs s') = nxt (ecbs s)" "prv (ecbs s') = prv (ecbs s)" "mnx (ecbs s') = mnx (ecbs s)"
    "mpv (ecbs s') = mpv (ecbs s)" "pri (ecbs s') = pri (ecbs s)" "sts (ecbs s') = sts (ecbs s)"
    "shd (ecbs s') = shd (ecbs s)" "due (ecbs s') = due (ecbs s)" "g_ptEventReady s' = g_ptEventReady s"
    "g_ptEventDelay s' = g_ptEventDelay s" "cfgEventLimit s' = cfgEventLimit s"
    "hdval q s' = hdval q s" "hvalid q s' = hvalid q s" for q
    using assms by (auto simp: qview_def fun_eq_iff)
  then show ?thesis by (simp add: kinv_def ready_ok_def delay_ok_def block_ok_def)
qed

lemma qview_upd [simp]:
  "qview (s\<lparr>g_ptEventRunning := a\<rparr>) = qview s" "qview (s\<lparr>g_s64RunningStartTime := t\<rparr>) = qview s"
  "qview (s\<lparr>g_bScheduleEnable := b\<rparr>) = qview s" "qview (s\<lparr>en_asyn_signal_counter := c\<rparr>) = qview s"
  "qview (s\<lparr>asyn_signal_open := b\<rparr>) = qview s" "qview (s\<lparr>kcalls := k\<rparr>) = qview s"
  "qview (s\<lparr>g_s64OsTicks := t\<rparr>) = qview s" "qview (s\<lparr>g_bMultiEventStarted := b\<rparr>) = qview s"
  "qview (s\<lparr>nest_asyn_signal := n\<rparr>) = qview s"
  by (auto simp: qview_def hdval_def hvalid_def fun_eq_iff split: headp.split)

lemma qview_consumed [simp]:
  "qview (s\<lparr>ecbs := hput (\<lambda>e. e\<lparr>consumed_time := t e\<rparr>) p (ecbs s)\<rparr>) = qview s"
  by (auto simp: qview_def nxt_def prv_def mnx_def mpv_def pri_def sts_def shd_def due_def
      hdval_def hvalid_def hput_def fun_eq_iff split: headp.split)

lemma Select_runnable:
  "valid (g_ptEventReady s) s \<Longrightarrow> ecb_vm (ecbs s (g_ptEventReady s)) \<noteq> None \<Longrightarrow>
   Djy_SelectEventToRun s = Some s"
  by (subst Djy_SelectEventToRun.simps) (simp add: rd_valid)

text \<open>An event whose type is in the table.\<close>

definition typed :: "eptr \<Rightarrow> kst \<Rightarrow> bool" where
  "typed p s \<longleftrightarrow> valid p s \<and> evtt_index (evtt_id (ecbs s p)) < cfgEvttLimit s"

lemma call_SchHook_typed:
  "typed p s \<Longrightarrow> call_SchHook p dir s =
     Some (kcall_out (Call_SchHook (SchHook (evtts s (evtt_index (evtt_id (ecbs s p))))) dir) s)"
  by (simp add: call_SchHook_def typed_def rd_def rdt_def)

definition runnable :: "kst \<Rightarrow> bool" where
  "runnable s \<longleftrightarrow> typed (g_ptEventReady s) s \<and> typed (g_ptEventRunning s) s \<and>
     ecb_vm (ecbs s (g_ptEventReady s)) \<noteq> None"

text \<open>The data that neither a queue operation nor a context switch changes.\<close>

definition kfix :: "kst \<Rightarrow> kst \<Rightarrow> bool" where
  "kfix s s' \<longleftrightarrow> (\<forall>p. ecb_vm (ecbs s' p) = ecb_vm (ecbs s p) \<and> evtt_id (ecbs s' p) = evtt_id (ecbs s p) \<and>
       event_id (ecbs s' p) = event_id (ecbs s p)) \<and>
     cfgEventLimit s' = cfgEventLimit s \<and> cfgEvttLimit s' = cfgEvttLimit s \<and> cfgTickUs s' = cfgTickUs s \<and>
     g_s64OsTicks s' = g_s64OsTicks s \<and> s_u32RRS_Slice s' = s_u32RRS_Slice s \<and>
     nest_asyn_signal s' = nest_asyn_signal s"

lemma kfix_refl [simp]: "kfix s s"
  by (simp add: kfix_def)

lemma kfix_upd [simp]:
  "kfix s (x\<lparr>asyn_signal_open := b\<rparr>) = kfix s x" "kfix s (x\<lparr>en_asyn_signal_counter := c\<rparr>) = kfix s x"
  "kfix s (x\<lparr>g_bScheduleEnable := b\<rparr>) = kfix s x" "kfix s (x\<lparr>semps := f\<rparr>) = kfix s x"
  "kfix s (x\<lparr>mutexes := g\<rparr>) = kfix s x" "kfix s (x\<lparr>kcalls := k\<rparr>) = kfix s x"
  by (simp_all add: kfix_def)

lemma kfix_trans [trans]: "kfix s s' \<Longrightarrow> kfix s' s'' \<Longrightarrow> kfix s s''"
  by (simp add: kfix_def)

lemma kframe_kfix: "kframe s s' \<Longrightarrow> kfix s s'"
  using kframe_fields [of s s'] kframe_ecb [of s s'] by (simp add: kfix_def)

text \<open>
  \<open>__Djy_Schedule\<close> gives the processor to the head of the ready queue, opens the scheduling
  lock completely and changes no queue.
\<close>

lemma Schedule_runs:
  assumes r: "runnable s" and ne: "g_ptEventReady s \<noteq> g_ptEventRunning s"
  shows "\<exists>s'. Djy_Schedule s = Some (True, s') \<and> qview s' = qview s \<and>
    g_ptEventRunning s' = g_ptEventReady s \<and> en_asyn_signal_counter s' = 0 \<and> asyn_signal_open s' \<and>
    g_bScheduleEnable s' = g_bScheduleEnable s \<and> semps s' = semps s \<and> mutexes s' = mutexes s \<and>
    wkf (ecbs s') = wkf (ecbs s) \<and> kfix s s' \<and>
    last (kcalls s') = Call_switch_context (ecb_vm (ecbs s (g_ptEventReady s))) (ecb_vm (ecbs s (g_ptEventRunning s)))"
proof -
  let ?r = "g_ptEventReady s" and ?u = "g_ptEventRunning s"
  define t where "t = kernel_time s mod 2 ^ 32"
  define s1 where "s1 = s\<lparr>ecbs := hput (\<lambda>e. e\<lparr>consumed_time := consumed_time e + (t - g_s64RunningStartTime s)\<rparr>) ?u (ecbs s),
     g_s64RunningStartTime := t\<rparr>"
  have v: "valid ?r s" "valid ?u s" using r by (auto simp: runnable_def typed_def)
  have c: "charge_running ?u s = Some s1"
    using v by (simp add: charge_running_def s1_def t_def wr_valid Let_def)
  have f1: "ecb_vm (ecbs s1 p) = ecb_vm (ecbs s p)" "evtt_id (ecbs s1 p) = evtt_id (ecbs s p)" for p
    by (simp_all add: s1_def hput_def)
  have t1: "typed ?r (s1\<lparr>kcalls := k, g_ptEventRunning := ?r\<rparr>)" "typed ?u s1" for k
    using r f1 by (auto simp: runnable_def typed_def s1_def)
  have g1: "g_ptEventReady s1 = ?r" "g_ptEventRunning s1 = ?u" "kcalls s1 = kcalls s" "valid p s1 = valid p s" for p
    by (simp_all add: s1_def)
  let ?hook = "\<lambda>p. SchHook (evtts s1 (evtt_index (evtt_id (ecbs s1 p))))"
  define s2 where "s2 = s1\<lparr>kcalls := kcalls s @ [Call_SchHook (?hook ?u) EN_SWITCH_OUT,
      Call_SchHook (?hook ?r) EN_SWITCH_IN, Call_switch_context (ecb_vm (ecbs s ?r)) (ecb_vm (ecbs s ?u))],
      g_ptEventRunning := ?r, en_asyn_signal_counter := 0, asyn_signal_open := True\<rparr>"
  have "Djy_SelectEventToRun s = Some s" using v(1) r by (simp add: Select_runnable runnable_def)
  then have "Djy_Schedule s = Some (True, s2)"
    using ne c call_SchHook_typed [OF t1(2)] call_SchHook_typed [OF t1(1)]
    by (simp add: Djy_Schedule_def Let_def kcall_out_def g1 rd_def v f1 s2_def
      Int_HalfEnableAsynSignal_def Int_ContactAsynSignal_def)
  moreover have "wkf (ecbs s2) = wkf (ecbs s)" by (simp add: s2_def s1_def heap_simps fun_eq_iff)
  moreover have "kfix s s2" by (simp add: kfix_def s2_def s1_def hput_def)
  ultimately show ?thesis by (simp add: s2_def s1_def)
qed

text \<open>Releasing the scheduling lock, in the three situations the code distinguishes.\<close>

lemma Restore_cases:
  assumes r: "runnable s"
  shows "\<exists>s'. Int_RestoreAsynSignal s = Some s' \<and> qview s' = qview s \<and> semps s' = semps s \<and>
    mutexes s' = mutexes s \<and> wkf (ecbs s') = wkf (ecbs s) \<and> kfix s s' \<and>
    (if nest_asyn_signal s \<noteq> 0 then s' = s
     else if en_asyn_signal_counter s \<le> 1
     then g_ptEventRunning s' = g_ptEventReady s \<and> en_asyn_signal_counter s' = 0 \<and>
       g_bScheduleEnable s' \<and> asyn_signal_open s'
     else g_ptEventRunning s' = g_ptEventRunning s \<and>
       en_asyn_signal_counter s' = en_asyn_signal_counter s - 1 \<and> \<not> g_bScheduleEnable s' \<and>
       \<not> asyn_signal_open s')"
proof -
  let ?c = "en_asyn_signal_counter s"
  define s1 where "s1 = s\<lparr>en_asyn_signal_counter := 0, g_bScheduleEnable := True\<rparr>"
  have c: "?c \<le> 1 \<longleftrightarrow> ?c = 0 \<or> ?c = 1" by (auto simp: word_le_nat_alt word_unat_eq_iff)
  have r1: "runnable s1" using r by (simp add: runnable_def typed_def s1_def)
  have s1: "s\<lparr>g_bScheduleEnable := True\<rparr> = s1" if "?c = 0" using that by (simp add: s1_def)
  consider "nest_asyn_signal s \<noteq> 0" | "nest_asyn_signal s = 0" "?c \<le> 1" | "nest_asyn_signal s = 0" "\<not> ?c \<le> 1"
    by blast
  then show ?thesis
  proof cases
    case 2
    have s1': "(s\<lparr>en_asyn_signal_counter := 0\<rparr>)\<lparr>g_bScheduleEnable := True\<rparr> = s1" by (simp add: s1_def)
    have run: "Int_RestoreAsynSignal s =
        (if g_ptEventRunning s1 \<noteq> g_ptEventReady s1 then map_option snd (Djy_Schedule s1)
         else Some (Int_ContactAsynSignal s1))"
    proof (cases "?c = 0")
      case True
      then show ?thesis using 2(1) s1 by (simp add: Int_RestoreAsynSignal_def)
    next
      case False
      then have "?c = 1" using 2(2) c by simp
      then show ?thesis using 2(1) s1' by (simp add: Int_RestoreAsynSignal_def Let_def)
    qed
    have g: "g_ptEventRunning s1 = g_ptEventRunning s" "g_ptEventReady s1 = g_ptEventReady s"
      "qview s1 = qview s" "semps s1 = semps s" "mutexes s1 = mutexes s" "g_bScheduleEnable s1"
      "wkf (ecbs s1) = wkf (ecbs s)" "kfix s s1" "\<And>x. kfix s1 x = kfix s x" "en_asyn_signal_counter s1 = 0" by (simp_all add: s1_def kfix_def)
    show ?thesis
    proof (cases "g_ptEventRunning s = g_ptEventReady s")
      case True
      then show ?thesis using 2 run g by (simp add: Int_ContactAsynSignal_def)
    next
      case False
      then have "g_ptEventReady s1 \<noteq> g_ptEventRunning s1" using g by auto
      from Schedule_runs [OF r1 this] show ?thesis using 2 run False g by auto
    qed
  next
    case 3
    then have "?c \<noteq> 0" "?c - 1 \<noteq> 0" using c by auto
    then show ?thesis using 3 by (simp add: Int_RestoreAsynSignal_def Int_CutAsynSignal_def kfix_def)
  qed (simp add: Int_RestoreAsynSignal_def)
qed

section \<open>Blocking the running event\<close>

lemma delay_ok_cong:
  assumes "nxt h' = nxt h" and "prv h' = prv h" and "\<And>x. x \<in> set ds \<Longrightarrow> due h' x = due h x"
  shows "delay_ok n h' d ds = delay_ok n h d ds"
proof -
  have "map (due h') ds = map (due h) ds" using assms(3) by (rule map_cong [OF refl])
  then show ?thesis unfolding delay_ok_def assms(1,2) by (simp only:)
qed

lemma kinv_delay_status_step:
  assumes K: "kinv s xs ds Q" and f: "\<And>x. f x = x\<lparr>event_status := st\<rparr>"
    and m: "main_only A (hput f e (ecbs s)) h" and A: "A \<inter> set xs = {}" "e \<notin> set xs"
    and d: "delay_ok (cfgEventLimit s) h d ds'" and x: "set xs \<inter> set ds' = {}"
    and Q: "\<And>x. x \<in> set ds' \<Longrightarrow> shd (ecbs s) x = NULLH \<or> x \<in> set (Q (shd (ecbs s) x))"
    and T: "\<And>q x. x \<in> set (Q q) \<Longrightarrow> has_flag (((sts (ecbs s))(e := st)) x) CN_STS_SYNC_TIMEOUT \<longleftrightarrow> x \<in> set ds'"
  shows "kinv (s\<lparr>ecbs := h, g_ptEventDelay := d\<rparr>) xs ds' Q"
proof -
  let ?g = "hput f e (ecbs s)"
  note m' = main_only_same [OF m]
  have g: "nxt ?g = nxt (ecbs s)" "prv ?g = prv (ecbs s)" "mnx ?g = mnx (ecbs s)" "mpv ?g = mpv (ecbs s)"
    "pri ?g = pri (ecbs s)" "shd ?g = shd (ecbs s)" "sts ?g = (sts (ecbs s))(e := st)"
    by (auto simp: f heap_simps fun_eq_iff)
  have "ecb_sync (?g p) = ecb_sync (ecbs s p)" for p by (simp add: f hput_def)
  then have "hdval q (s\<lparr>ecbs := h, g_ptEventDelay := d\<rparr>) = hdval q s" for q
    by (auto simp: hdval_def m'(6) split: headp.split)
  moreover have "ready_ok n h r xs = ready_ok n (ecbs s) r xs" for n r
    using ready_ok_main [OF m A(1)] by (simp add: ready_ok_def g)
  moreover have "block_ok n h q v bs = block_ok n (ecbs s) q v bs" for n q v bs
    by (simp add: block_ok_def m'(1-5) g)
  moreover have "sts h x = sts (ecbs s) x" if "x \<in> set xs" for x using that A(2) by (auto simp: m'(4) g)
  ultimately show ?thesis
    using K d x Q T unfolding kinv_def by (auto simp: m'(4,5) g)
qed

lemma kinv_block_status:
  assumes K: "kinv s xs ds Q" and e: "e = g_ptEventRunning s" "e \<in> set (Q q)" "e \<notin> set ds"
    and st: "\<not> has_flag Status CN_STS_SYNC_TIMEOUT" "has_flag (Status + CN_STS_SYNC_TIMEOUT) CN_STS_SYNC_TIMEOUT"
    and t: "t = g_s64OsTicks s + us_to_ticks s (uint timeout)"
  shows "\<exists>s'. block_status timeout Status s = Some s' \<and>
    kinv s' xs (if timeout = CN_TIMEOUT_FOREVER then ds else ins_by (\<lambda>y. due (ecbs s) y \<le> t) e ds) Q \<and>
    kframe s s' \<and> (timeout \<noteq> CN_TIMEOUT_FOREVER \<longrightarrow> due (ecbs s') e = t) \<and>
    sts (ecbs s') e = (if timeout = CN_TIMEOUT_FOREVER then Status else Status + CN_STS_SYNC_TIMEOUT)"
proof -
  have ev: "valid e s" "shd (ecbs s) e = q" using kinvD(10) [OF K e(2)] by auto
  have ex: "e \<notin> set xs" using ready_not_blocked [OF K] e(2) by blast
  show ?thesis
  proof (cases "timeout = CN_TIMEOUT_FOREVER")
    case True
    let ?h = "hput (\<lambda>x. x\<lparr>event_status := Status\<rparr>) e (ecbs s)"
    have run: "block_status timeout Status s = Some (s\<lparr>ecbs := ?h, g_ptEventDelay := g_ptEventDelay s\<rparr>)"
      using True ev e(1) by (simp add: block_status_def wr_valid Let_def)
    have d: "delay_ok (cfgEventLimit s) ?h (g_ptEventDelay s) ds"
    proof -
      have "nxt ?h = nxt (ecbs s)" "prv ?h = prv (ecbs s)" "due ?h = due (ecbs s)"
        by (auto simp: heap_simps fun_eq_iff)
      then show ?thesis using kinvD(2) [OF K] by (simp add: delay_ok_def)
    qed
    have "kinv (s\<lparr>ecbs := ?h, g_ptEventDelay := g_ptEventDelay s\<rparr>) xs ds Q"
      by (rule kinv_delay_status_step [OF K refl, where A = "{}" and e = e])
        (use d ex e st kinvD(5,8,9) [OF K] in \<open>auto intro: kinvD(5) [OF K]\<close>)
    moreover have "kframe s (s\<lparr>ecbs := ?h, g_ptEventDelay := g_ptEventDelay s\<rparr>)"
      by (rule kframe_heap(3)) (simp add: hput_def ecb_core_def no_links_def)
    ultimately show ?thesis using run True by (auto simp: field_hput)
  next
    case False
    define s1 where "s1 = s\<lparr>ecbs := hput (\<lambda>x. x\<lparr>event_status := Status + CN_STS_SYNC_TIMEOUT\<rparr>) e (ecbs s)\<rparr>"
    define s2 where "s2 = s1\<lparr>ecbs := hput (\<lambda>x. x\<lparr>delay_start_tick := g_s64OsTicks s, delay_end_tick := t\<rparr>) e (ecbs s1)\<rparr>"
    have f2: "nxt (ecbs s2) = nxt (ecbs s)" "prv (ecbs s2) = prv (ecbs s)" "due (ecbs s2) = (due (ecbs s))(e := t)"
      by (auto simp: s2_def s1_def heap_simps fun_eq_iff)
    have g2: "cfgEventLimit s2 = cfgEventLimit s" "g_ptEventDelay s2 = g_ptEventDelay s" "g_ptEventRunning s2 = e"
      using e(1) by (simp_all add: s2_def s1_def)
    have m12: "main_only {e} (ecbs s1) (ecbs s2)"
      unfolding s2_def by (simp, rule main_only_hput(4)) auto
    have "due (ecbs s2) x = due (ecbs s) x" if "x \<in> set ds" for x using that e(3) by (auto simp: f2)
    from delay_ok_cong [OF f2(1,2) this]
    have "delay_ok (cfgEventLimit s2) (ecbs s2) (g_ptEventDelay s2) ds"
      using kinvD(2) [OF K] by (simp add: g2)
    from delay_insert_delay [OF this] obtain h d where
      di: "delay_insert s2 = Some (s2\<lparr>ecbs := h, g_ptEventDelay := d\<rparr>)"
      and d: "delay_ok (cfgEventLimit s) h d (ins_by (\<lambda>y. due (ecbs s2) y \<le> due (ecbs s2) e) e ds)"
      and m: "main_only (insert e (set ds)) (ecbs s2) h" and dh: "due h = due (ecbs s2)"
      using g2 ev e(3) by auto
    have "ins_by (\<lambda>y. due (ecbs s2) y \<le> due (ecbs s2) e) e ds = ins_by (\<lambda>y. due (ecbs s) y \<le> t) e ds"
      using e(3) unfolding ins_by_def f2(3)
      by (intro arg_cong2 [where f = append] arg_cong2 [where f = Cons] takeWhile_cong dropWhile_cong) auto
    note d = d [unfolded this]
    have "main_only (insert e (set ds)) (ecbs s1) h"
      using m12 m unfolding main_only_def by (metis insertI1 singletonD)
    then have m1: "main_only (insert e (set ds)) (hput (\<lambda>x. x\<lparr>event_status := Status + CN_STS_SYNC_TIMEOUT\<rparr>) e (ecbs s)) h"
      by (simp add: s1_def)
    have run: "block_status timeout Status s = Some (s\<lparr>ecbs := h, g_ptEventDelay := d\<rparr>)"
    proof -
      have "set_delay timeout s1 = Some s2"
        using ev e(1) t by (simp add: set_delay_def s1_def s2_def wr_valid DjyGetSysTick_def us_to_ticks_def)
      moreover have "wr (\<lambda>x. x\<lparr>event_status := Status + CN_STS_SYNC_TIMEOUT\<rparr>) (g_ptEventRunning s) s = Some s1"
        using ev e(1) by (simp add: s1_def wr_valid)
      ultimately show ?thesis using False di
        by (simp add: block_status_def Djy_AddToDelay_def Let_def s2_def s1_def)
    qed
    have K': "kinv (s\<lparr>ecbs := h, g_ptEventDelay := d\<rparr>) xs (ins_by (\<lambda>y. due (ecbs s) y \<le> t) e ds) Q"
    proof (rule kinv_delay_status_step [OF K refl m1 _ ex d])
      show "insert e (set ds) \<inter> set xs = {}" "set xs \<inter> set (ins_by (\<lambda>y. due (ecbs s) y \<le> t) e ds) = {}"
        using kinvD(5) [OF K] ex by auto
      show "shd (ecbs s) x = NULLH \<or> x \<in> set (Q (shd (ecbs s) x))"
        if "x \<in> set (ins_by (\<lambda>y. due (ecbs s) y \<le> t) e ds)" for x
        using that kinvD(8) [OF K, of x] ev(2) e(2) by auto
      show "has_flag (((sts (ecbs s))(e := Status + CN_STS_SYNC_TIMEOUT)) x) CN_STS_SYNC_TIMEOUT \<longleftrightarrow>
          x \<in> set (ins_by (\<lambda>y. due (ecbs s) y \<le> t) e ds)" if "x \<in> set (Q q')" for q' x
        using st(2) kinvD(9) [OF K that] by auto
    qed
    have "kframe s (s\<lparr>ecbs := h, g_ptEventDelay := d\<rparr>)"
      by (rule kframe_heap(3)) (simp add: main_only_same(7) [OF m1], simp add: hput_def ecb_core_def no_links_def)
    moreover have "sts h e = Status + CN_STS_SYNC_TIMEOUT" using main_only_same(4) [OF m1] by (simp add: field_hput)
    ultimately show ?thesis using run K' False dh f2(3) by auto
  qed
qed

text \<open>Linking an event, already marked with its head, into a block queue.\<close>

definition block_link :: "headp \<Rightarrow> eptr \<Rightarrow> eptr \<Rightarrow> bool \<Rightarrow> kst \<Rightarrow> kst option" where
  "block_link q e y front s = do { s \<leftarrow> ins_multi e y s; if front then wr_head q e s else Some s }"

lemma kinv_block_link:
  assumes K: "kinv s xs ds Q" and q: "hvalid q s" "Q q \<noteq> []"
    and e: "valid e s" "e \<notin> set xs" "e \<notin> set ds" "shd (ecbs s) e = q" "e \<notin> set (Q q)"
    and T: "\<not> has_flag (sts (ecbs s) e) CN_STS_SYNC_TIMEOUT"
    and y: "y = hd (dropWhile P (Q q) @ [hd (Q q)])"
  shows "\<exists>s'. block_link q e y (\<not> P (hd (Q q))) s = Some s' \<and> kinv s' xs ds (Q(q := ins_by P e (Q q))) \<and>
    kframe s s' \<and> sts (ecbs s') = sts (ecbs s) \<and> due (ecbs s') = due (ecbs s) \<and> shd (ecbs s') = shd (ecbs s)"
proof -
  let ?h = "ecbs s" and ?bs = "Q q"
  have qN: "q \<noteq> NULLH" using q by auto
  have B: "dring (mnx ?h) (mpv ?h) ?bs" "hdval q s = hd ?bs" and v: "\<And>x. x \<in> set ?bs \<Longrightarrow> shd ?h x = q \<and> valid x s"
    using kinvD(3) [OF K q(1)] q(2) by (auto simp: block_ok_def)
  have hb: "hd ?bs \<in> set ?bs" using q(2) by simp
  have yb: "y \<in> set ?bs"
  proof (cases "dropWhile P ?bs")
    case Nil
    show ?thesis unfolding y Nil using hb by simp
  next
    case (Cons a as)
    then have "y \<in> set (dropWhile P ?bs)" by (simp add: y)
    then show ?thesis by (rule set_dropWhileD)
  qed
  let ?p = "mpv ?h y"
  have pb: "?p \<in> set ?bs" by (rule dring_prev_in [OF B(1) yb])
  have ne: "y \<noteq> e" "?p \<noteq> e" and vv: "valid y s" "valid ?p s" using yb pb e(5) v by auto
  define s1 where "s1 = s\<lparr>ecbs := hput (\<lambda>x. x\<lparr>multi_previous := e\<rparr>) y (hput (\<lambda>x. x\<lparr>multi_next := e\<rparr>) ?p
     (hput (\<lambda>x. x\<lparr>multi_previous := ?p\<rparr>) e (hput (\<lambda>x. x\<lparr>multi_next := y\<rparr>) e ?h)))\<rparr>"
  define s2 where "s2 = (if \<not> P (hd ?bs) then puthd q e s1 else s1)"
  have i: "ins_multi e y s = Some s1"
    using e(1) ne vv by (simp add: ins_multi_def s1_def fault_simps heap_simps)
  have hv1: "hvalid q' s1 = hvalid q' s" for q' by (simp add: s1_def)
  have run: "block_link q e y (\<not> P (hd ?bs)) s = Some s2"
    using i q(1) by (simp add: block_link_def s2_def wr_head_valid hv1)
  have f1: "mnx (ecbs s2) = (mnx ?h)(e := y, ?p := e)" "mpv (ecbs s2) = (mpv ?h)(e := ?p, y := e)"
    "shd (ecbs s2) = shd ?h"
    using ne by (auto simp: s2_def s1_def heap_simps fun_eq_iff)
  let ?v = "if \<not> P (hd ?bs) then e else hd ?bs"
  have "dring (mnx (ecbs s2)) (mpv (ecbs s2)) (ins_by P e ?bs)"
    unfolding f1 by (rule dring_ins_by [OF B(1) e(5) y])
  then have b: "block_ok (cfgEventLimit s) (ecbs s2) q ?v (ins_by P e ?bs)"
    using e v q(2) by (auto simp: block_ok_def f1 hd_ins_by)
  have hd1: "hdval q' s1 = hdval q' s" for q' by (simp add: s1_def hdval_hput)
  have hd2: "hdval q' s2 = (if q' = q then ?v else hdval q' s)" for q'
    using qN by (simp add: s2_def hdval_puthd hd1 B(2))
  have "set ?bs \<inter> set xs = {}" using ready_not_blocked [OF K] by blast
  moreover have "insert e (set ?bs) \<inter> set (Q q') = {}" if "q' \<noteq> q" for q'
  proof -
    have "x \<notin> set (Q q')" if "x \<in> insert e (set ?bs)" for x
      using kinvD(10) [OF K, of x q'] that v [of x] e(4) \<open>q' \<noteq> q\<close> by auto
    then show ?thesis by blast
  qed
  ultimately have A: "insert e (set ?bs) \<inter> set xs = {}" "\<And>q'. q' \<noteq> q \<Longrightarrow> insert e (set ?bs) \<inter> set (Q q') = {}"
    using e(2) by auto
  have same: "nxt (ecbs s2) = nxt ?h" "prv (ecbs s2) = prv ?h" "pri (ecbs s2) = pri ?h"
      "sts (ecbs s2) = sts ?h" "due (ecbs s2) = due ?h" "cfgEventLimit s2 = cfgEventLimit s"
      "g_ptEventReady s2 = g_ptEventReady s" "g_ptEventDelay s2 = g_ptEventDelay s"
      "hvalid q' s2 = hvalid q' s" for q'
    by (auto simp: s2_def s1_def heap_simps fun_eq_iff)
  have TT: "has_flag (sts ?h x) CN_STS_SYNC_TIMEOUT \<longleftrightarrow> x \<in> set ds" if "x \<in> set (ins_by P e ?bs)" for x
    using that T e(3) kinvD(9) [OF K, of x q] by auto
  have mn: "mnx (ecbs s2) x = mnx ?h x \<and> mpv (ecbs s2) x = mpv ?h x \<and> shd (ecbs s2) x = shd ?h x"
    if "x \<notin> insert e (set ?bs)" for x
    using that yb pb by (auto simp: f1)
  have "kinv s2 xs ds (Q(q := ins_by P e ?bs))"
    by (rule kinv_block_step [OF K q(1) same(1-8) same(9) hd2 mn A _ b _ TT]) (use e v f1(3) in auto)
  moreover have "kframe s s1" unfolding s1_def
    by (rule kframe_links(1) [where A = UNIV]) (intro links_only_hput links_only_refl, auto)
  then have "kframe s s2" unfolding s2_def using kframe_trans by auto
  ultimately show ?thesis using run f1(3)
    by (auto simp: s2_def s1_def heap_simps fun_eq_iff)
qed

text \<open>An event that is about to be queued under \<open>q\<close>.\<close>

lemma kinv_mark:
  assumes K: "kinv s xs ds Q" and e: "loose e s xs ds" and q: "hvalid q s"
  shows "\<exists>s'. (do { s \<leftarrow> clear_main e s; wr (\<lambda>x. x\<lparr>sync_head := q\<rparr>) e s }) = Some s' \<and>
    kinv s' xs ds Q \<and> kframe s s' \<and> shd (ecbs s') = (shd (ecbs s))(e := q) \<and>
    sts (ecbs s') = sts (ecbs s) \<and> due (ecbs s') = due (ecbs s)"
proof -
  have ev: "valid e s" "e \<notin> set xs" "e \<notin> set ds" "shd (ecbs s) e = NULLH" using e by (auto simp: loose_def)
  have nb: "e \<notin> set (Q q')" for q' by (rule loose_not_blocked [OF K ev(4)])
  define h where "h = hput (\<lambda>x. x\<lparr>ecb_previous := NULL\<rparr>) e (hput (\<lambda>x. x\<lparr>ecb_next := NULL\<rparr>) e (ecbs s))"
  define s1 where "s1 = s\<lparr>ecbs := h, g_ptEventDelay := g_ptEventDelay s\<rparr>"
  have m: "main_only {e} (ecbs s) h" unfolding h_def by (intro main_only_hput main_only_refl) auto
  have ds: "delay_ok (cfgEventLimit s) h (g_ptEventDelay s) ds"
  proof -
    have "dring (nxt h) (prv h) ds = dring (nxt (ecbs s)) (prv (ecbs s)) ds"
      by (intro dring_cong) (use ev(3) in \<open>auto simp: h_def heap_simps\<close>)
    moreover have "due h = due (ecbs s)" by (auto simp: h_def heap_simps fun_eq_iff)
    ultimately show ?thesis using kinvD(2) [OF K] by (simp add: delay_ok_def)
  qed
  have K1: "kinv s1 xs ds Q" unfolding s1_def
    using ev(2) by (intro kinv_delay_step [OF K m _ ds kinvD(5) [OF K] kinvD(8) [OF K] kinvD(9) [OF K]]) auto
  define s2 where "s2 = s1\<lparr>ecbs := hput (\<lambda>x. x\<lparr>sync_head := q\<rparr>) e (ecbs s1)\<rparr>"
  have q1: "hvalid q s1" using q by (simp add: s1_def)
  have f2: "nxt (ecbs s2) = nxt (ecbs s1)" "prv (ecbs s2) = prv (ecbs s1)" "pri (ecbs s2) = pri (ecbs s1)"
    "sts (ecbs s2) = sts (ecbs s1)" "due (ecbs s2) = due (ecbs s1)" "mnx (ecbs s2) = mnx (ecbs s1)"
    "mpv (ecbs s2) = mpv (ecbs s1)" "shd (ecbs s2) = (shd (ecbs s1))(e := q)"
    by (auto simp: s2_def heap_simps fun_eq_iff)
  have B: "block_ok (cfgEventLimit s1) (ecbs s2) q (hdval q s1) (Q q)"
    using kinvD(3) [OF K1 q1] nb [of q] by (auto simp: block_ok_def f2)
  have hd2: "hdval q' s2 = hdval q' s1" for q' by (simp add: s2_def hdval_hput)
  have g2: "cfgEventLimit s2 = cfgEventLimit s1" "g_ptEventReady s2 = g_ptEventReady s1"
    "g_ptEventDelay s2 = g_ptEventDelay s1" "hvalid q' s2 = hvalid q' s1" for q' by (simp_all add: s2_def)
  have "kinv s2 xs ds (Q(q := Q q))"
    by (rule kinv_block_step [OF K1 q1 f2(1-5) g2(1-3), where A = "{e}" and v = "hdval q s1"])
      (use nb ev kinvD(9) [OF K1] B hd2 in \<open>auto simp: f2 g2\<close>)
  then have K2: "kinv s2 xs ds Q" by simp
  have "kframe s1 s2" unfolding s2_def by (rule kframe_heap(1)) (simp add: hput_def ecb_core_def no_links_def)
  then have "kframe s s2" using kframe_main [OF m] kframe_trans unfolding s1_def by blast
  moreover have "(do { s \<leftarrow> clear_main e s; wr (\<lambda>x. x\<lparr>sync_head := q\<rparr>) e s }) = Some s2"
    using ev(1) by (simp add: fault_simps s2_def s1_def h_def)
  ultimately show ?thesis using K2
    by (auto simp: f2 s1_def h_def heap_simps fun_eq_iff)
qed

text \<open>The order of a block queue.\<close>

definition queue_before :: "u32 \<Rightarrow> heap \<Rightarrow> eptr \<Rightarrow> eptr \<Rightarrow> bool" where
  "queue_before Qsort h e y \<longleftrightarrow> (Qsort = CN_BLOCK_PRIO \<longrightarrow> pri h y \<le> pri h e)"

lemma ins_multi_only:
  assumes "ins_multi e y s = Some s'"
  shows "\<exists>h. s' = s\<lparr>ecbs := h\<rparr> \<and> links_only UNIV (ecbs s) h"
proof -
  let ?h = "hput (\<lambda>x. x\<lparr>multi_previous := e\<rparr>) y"
  obtain p v h where "s' = s\<lparr>ecbs := ?h (hput (\<lambda>x. x\<lparr>multi_next := e\<rparr>) p (hput (\<lambda>x. x\<lparr>multi_previous := v\<rparr>) e h))\<rparr>"
    "h = hput (\<lambda>x. x\<lparr>multi_next := y\<rparr>) e (ecbs s)"
    using assms by (auto simp: ins_multi_def set_multi_next_def set_multi_previous_def rd_def wr_def
        split: Option.bind_splits if_splits)
  then show ?thesis by (auto intro!: exI links_only_hput)
qed

lemma kinv_block_queue:
  assumes K: "kinv s xs ds Q" and q: "hvalid q s" and e: "e = g_ptEventRunning s"
    and ev: "valid e s" "e \<notin> set xs" "e \<notin> set ds" "shd (ecbs s) e = q" "e \<notin> set (Q q)"
    and st: "sts (ecbs s) e = CN_STS_EVENT_READY"
  shows "\<exists>s'. block_queue q Qsort s = Some s' \<and> kinv s' xs ds (Q(q := ins_by (queue_before Qsort (ecbs s) e) e (Q q))) \<and>
    kframe s s' \<and> due (ecbs s') = due (ecbs s)"
proof (cases "Q q = []")
  case True
  have qN: "q \<noteq> NULLH" using q by auto
  define s1 where "s1 = s\<lparr>ecbs := hput (\<lambda>x. x\<lparr>multi_previous := e\<rparr>) e (hput (\<lambda>x. x\<lparr>multi_next := e\<rparr>) e (ecbs s))\<rparr>"
  have hN: "hdval q s = NULL" using kinvD(3) [OF K q] True by (simp add: block_ok_def)
  have l: "links_only {e} (ecbs s) (ecbs s1)" unfolding s1_def by (simp, intro links_only_hput) auto
  have run: "block_queue q Qsort s = Some (puthd q e s1)"
    using hN q e ev(1) unfolding block_queue_def s1_def
    by (simp add: fault_simps heap_simps Let_def)
  have oth: "e \<notin> set (Q q')" for q'
    using kinvD(10) [OF K, of e q'] ev(4,5) by (cases "q' = q") auto
  have f1: "nxt (ecbs s1) = nxt (ecbs s)" "prv (ecbs s1) = prv (ecbs s)" "pri (ecbs s1) = pri (ecbs s)"
    "sts (ecbs s1) = sts (ecbs s)" "due (ecbs s1) = due (ecbs s)" "shd (ecbs s1) = shd (ecbs s)"
    "mnx (ecbs s1) = (mnx (ecbs s))(e := e)" "mpv (ecbs s1) = (mpv (ecbs s))(e := e)"
    by (auto simp: s1_def heap_simps fun_eq_iff)
  have g1: "cfgEventLimit s1 = cfgEventLimit s" "g_ptEventReady s1 = g_ptEventReady s"
    "g_ptEventDelay s1 = g_ptEventDelay s" "hvalid q' s1 = hvalid q' s" "hdval q' s1 = hdval q' s" for q'
    by (simp_all add: s1_def hdval_hput)
  have B: "block_ok (cfgEventLimit s) (ecbs (puthd q e s1)) q e [e]"
    using ev by (simp add: block_ok_def f1 dring_single)
  have "kinv (puthd q e s1) xs ds (Q(q := [e]))"
    by (rule kinv_block_step [OF K q, where A = "{e}" and v = e])
      (use B oth ev st True qN in \<open>auto simp: f1 g1 hdval_puthd has_flag_def\<close>)
  moreover have "kframe s (puthd q e s1)"
    using kframe_links(1) [OF l] kframe_trans kframe_puthd by (simp add: s1_def)
  ultimately show ?thesis using run True by (auto simp: ins_by_def f1)
next
  case False
  let ?P = "queue_before Qsort (ecbs s) e" and ?bs = "Q q"
  have B: "dring (mnx (ecbs s)) (mpv (ecbs s)) ?bs" "hdval q s = hd ?bs" and v: "\<And>x. x \<in> set ?bs \<Longrightarrow> valid x s"
    using kinvD(3) [OF K q] False by (auto simp: block_ok_def)
  have hb: "valid (hd ?bs) s" "hd ?bs \<noteq> e" "hd ?bs \<noteq> NULL" using v [of "hd ?bs"] False ev(5) vptrD by auto
  define y where "y = hd (dropWhile ?P ?bs @ [hd ?bs])"
  define f :: "EventECB \<Rightarrow> EventECB" where "f = (\<lambda>x. x\<lparr>event_status := if Qsort = CN_BLOCK_PRIO then event_status x OR CN_BLOCK_PRIO_SORT
     else event_status x AND NOT CN_BLOCK_PRIO_SORT\<rparr>)"
  define s1 where "s1 = s\<lparr>ecbs := hput f e (ecbs s)\<rparr>"
  have oth: "e \<notin> set (Q q')" for q'
    using kinvD(10) [OF K, of e q'] ev(4,5) by (cases "q' = q") auto
  have K1: "kinv s1 xs ds Q" unfolding s1_def
    by (rule kinv_status [OF K ev(2) oth refl, where w = wakeup_from and st = "\<lambda>x. event_status (f x)"]) (simp add: f_def)
  have f1: "pri (ecbs s1) = pri (ecbs s)" "shd (ecbs s1) = shd (ecbs s)" "due (ecbs s1) = due (ecbs s)"
    "mnx (ecbs s1) = mnx (ecbs s)"
    by (auto simp: s1_def f_def heap_simps fun_eq_iff)
  have q1: "hvalid q s1" using q by (simp add: s1_def)
  have st1: "\<not> has_flag (sts (ecbs s1) e) CN_STS_SYNC_TIMEOUT"
    using st by (auto simp: s1_def f_def heap_simps has_flag_def)
  obtain s2 where s2: "block_link q e y (\<not> ?P (hd ?bs)) s1 = Some s2"
      "kinv s2 xs ds (Q(q := ins_by ?P e ?bs))" "kframe s1 s2" "due (ecbs s2) = due (ecbs s1)"
    using kinv_block_link [OF K1 q1 False _ ev(2,3) _ oth st1 y_def] ev(1,4) f1 by (auto simp: s1_def)
  have k1: "kframe s s1" unfolding s1_def
    by (rule kframe_status [where w = wakeup_from and st = "\<lambda>x. event_status (f x)"]) (simp add: f_def)
  have "block_queue q Qsort s = Some s2"
  proof (cases "Qsort = CN_BLOCK_PRIO")
    case True
    have srch: "ring_search multi_next (\<lambda>x. prio x \<le> pri (ecbs s) e) (hd ?bs) (hd ?bs) s = Some y"
      using ring_search_finds [of multi_next s "mpv (ecbs s)" ?bs "hd ?bs" "\<lambda>x. prio x \<le> pri (ecbs s) e"] B(1) v True
      by (simp add: y_def mnx_def [abs_def] pri_def queue_before_def [abs_def])
    have P: "?P z \<longleftrightarrow> pri (ecbs s) z \<le> pri (ecbs s) e" for z using True by (simp add: queue_before_def)
    have w: "wr (\<lambda>x. x\<lparr>event_status := event_status x OR CN_BLOCK_PRIO_SORT\<rparr>) e s = Some s1"
      using True ev(1) by (simp add: wr_valid s1_def f_def)
    obtain s' where i: "ins_multi e y s1 = Some s'" and s': "(if \<not> ?P (hd ?bs) then wr_head q e s' else Some s') = Some s2"
      using s2(1) by (auto simp: block_link_def split: Option.bind_splits)
    obtain h' where h': "s' = s1\<lparr>ecbs := h'\<rparr>" "links_only UNIV (ecbs s1) h'" using ins_multi_only [OF i] by blast
    have "hdval q s' = hdval q s1" "pri h' = pri (ecbs s1)"
      using hdval_links(1) [OF h'(2)] links_only_fields(1) [OF h'(2)] h'(1) by auto
    then have "rd_head q s' = Some (hd ?bs)" "rd prio (hd ?bs) s' = Some (pri (ecbs s) (hd ?bs))"
      using B(2) q1 hb(1) h'(1) f1(1) by (auto simp: rd_head_valid rd_valid heap_simps s1_def hdval_hput f_def)
    then show ?thesis using s' srch w i B(2) hb ev(1) q True P
      by (simp add: block_queue_def Let_def rd_head_valid rd_valid heap_simps not_le e [symmetric])
  next
    case F: False
    have P: "?P z" for z using F by (simp add: queue_before_def)
    have N: "dropWhile ?P ?bs = []" by (simp add: P)
    have "y = hd ?bs" unfolding y_def N by simp
    moreover have "wr (\<lambda>x. x\<lparr>event_status := event_status x AND NOT CN_BLOCK_PRIO_SORT\<rparr>) e s = Some s1"
      using F ev(1) by (simp add: wr_valid s1_def f_def)
    moreover have "ins_multi e y s1 = Some s2"
      using s2(1) P by (auto simp: block_link_def split: Option.bind_splits)
    ultimately show ?thesis using B(2) hb F q
      by (simp add: block_queue_def Let_def rd_head_valid e [symmetric])
  qed
  then show ?thesis using s2 k1 f1 kframe_trans by auto
qed

text \<open>
  \<open>__Djy_AddRunningToBlock\<close>: the running event leaves the ready queue, joins the block queue
  (behind those of the same or a higher priority, or at the tail) and, unless it waits for
  ever, the delay queue.
\<close>

lemma kinv_AddRunningToBlock:
  assumes K: "kinv s (as @ e # y # bs) ds Q" and e: "e = g_ptEventRunning s" and q: "hvalid q s"
    and st: "\<not> has_flag Status CN_STS_SYNC_TIMEOUT" "has_flag (Status + CN_STS_SYNC_TIMEOUT) CN_STS_SYNC_TIMEOUT"
    and t: "t = g_s64OsTicks s + us_to_ticks s (uint timeout)"
  shows "\<exists>s'. Djy_AddRunningToBlock q Qsort timeout Status s = Some s' \<and> kframe s s' \<and>
    kinv s' (as @ y # bs) (if timeout = CN_TIMEOUT_FOREVER then ds else ins_by (\<lambda>y. due (ecbs s) y \<le> t) e ds)
      (Q(q := ins_by (queue_before Qsort (ecbs s) e) e (Q q))) \<and>
    sts (ecbs s') e = (if timeout = CN_TIMEOUT_FOREVER then Status else Status + CN_STS_SYNC_TIMEOUT)"
proof -
  let ?xs = "as @ y # bs" and ?P = "queue_before Qsort (ecbs s) e"
  obtain s1 where s1: "Djy_CutReadyEvent e s = Some s1" "kinv s1 ?xs ds Q" "loose e s1 ?xs ds" "kframe s s1"
      "links_only UNIV (ecbs s) (ecbs s1)"
    using kinv_CutReady [OF K] by blast
  have qe: "hvalid q s1" using q kframe_fields(6,7) [OF s1(4)] by (auto simp: hvalid_def split: headp.splits)
  obtain s2 where s2: "(do { s \<leftarrow> clear_main e s1; wr (\<lambda>x. x\<lparr>sync_head := q\<rparr>) e s }) = Some s2"
      "kinv s2 ?xs ds Q" "kframe s1 s2" "shd (ecbs s2) = (shd (ecbs s1))(e := q)"
      "sts (ecbs s2) = sts (ecbs s1)" "due (ecbs s2) = due (ecbs s1)"
    using kinv_mark [OF s1(2,3) qe] by blast
  have k2: "kframe s s2" using s1(4) s2(3) kframe_trans by blast
  note F2 = kframe_fields [OF k2] kframe_ecb [OF k2]
  have L1: "sts (ecbs s1) = sts (ecbs s)" "due (ecbs s1) = due (ecbs s)" using links_only_fields [OF s1(5)] by auto
  have ev: "valid e s2" "e \<notin> set ?xs" "e \<notin> set ds" using s1(3) kframe_fields(6) [OF s2(3)] by (auto simp: loose_def)
  have nb: "e \<notin> set (Q q)" using s1(2,3) loose_not_blocked by (auto simp: loose_def)
  have q2: "hvalid q s2" using q F2(6,7) by (auto simp: hvalid_def split: headp.splits)
  have e2: "e = g_ptEventRunning s2" "sts (ecbs s2) e = CN_STS_EVENT_READY" "shd (ecbs s2) e = q"
    using kinvD(7) [OF K, of e] e F2(1) s2(4) by (simp_all add: s2(5) L1)
  have "queue_before Qsort (ecbs s2) e = ?P" using F2 by (simp add: queue_before_def [abs_def])
  with kinv_block_queue [OF s2(2) q2 e2(1) ev e2(3) nb e2(2), of Qsort] obtain s3 where
    s3: "block_queue q Qsort s2 = Some s3" "kinv s3 ?xs ds (Q(q := ins_by ?P e (Q q)))" "kframe s2 s3"
      "due (ecbs s3) = due (ecbs s2)"
    by auto
  have k3: "kframe s s3" using k2 s3(3) kframe_trans by blast
  note F3 = kframe_fields [OF k3]
  have "e \<in> set ((Q(q := ins_by ?P e (Q q))) q)" by simp
  moreover have "t = g_s64OsTicks s3 + us_to_ticks s3 (uint timeout)" by (simp add: t F3 us_to_ticks_def)
  ultimately obtain s4 where s4: "block_status timeout Status s3 = Some s4" "kframe s3 s4"
      "kinv s4 ?xs (if timeout = CN_TIMEOUT_FOREVER then ds else ins_by (\<lambda>y. due (ecbs s3) y \<le> t) e ds)
         (Q(q := ins_by ?P e (Q q)))" "sts (ecbs s4) e = (if timeout = CN_TIMEOUT_FOREVER then Status else Status + CN_STS_SYNC_TIMEOUT)"
    using kinv_block_status [OF s3(2) _ _ ev(3) st] e F3(1) by metis
  have "Djy_AddRunningToBlock q Qsort timeout Status s = Some s4"
    using s1(1) s2(1) s3(1) s4(1) e by (auto simp: Djy_AddRunningToBlock_def Let_def split: Option.bind_splits)
  then show ?thesis using s4(2-4) k3 kframe_trans by (auto simp: s3(4) s2(6) L1)
qed

end
