(* ===== verification/Tick.thy ===== *)
theory Tick
  imports Queues
begin

text \<open>
  The tick interrupt \<open>Djy_IsrTick\<close>: which events it wakes, in which order, and what it leaves
  in the queues.
\<close>

section \<open>Leaving a block queue when the time is up\<close>

lemma kinv_leave:
  assumes K: "kinv s xs ds Q" and x: "valid x s" "x \<notin> set xs"
    and sh: "shd (ecbs s) x = NULLH \<or> x \<in> set (Q (shd (ecbs s) x))"
  shows "\<exists>s'. tick_leave_sync x s = Some s' \<and> kinv s' xs ds (\<lambda>q. remove1 x (Q q)) \<and> kframe s s' \<and>
    shd (ecbs s') x = NULLH \<and> sts (ecbs s') = sts (ecbs s) \<and> due (ecbs s') = due (ecbs s) \<and>
    nxt (ecbs s') = nxt (ecbs s) \<and> prv (ecbs s') = prv (ecbs s) \<and> g_ptEventDelay s' = g_ptEventDelay s \<and>
    wkf (ecbs s') = wkf (ecbs s)"
proof (cases "shd (ecbs s) x = NULLH")
  case True
  then have "x \<notin> set (Q q)" for q by (rule loose_not_blocked [OF K])
  then have "(\<lambda>q. remove1 x (Q q)) = Q" by (auto simp: remove1_idem)
  then show ?thesis using True K x(1) by (simp add: tick_leave_sync_def rd_valid heap_simps)
next
  case False
  let ?h = "ecbs s" and ?q = "shd (ecbs s) x"
  have xQ: "x \<in> set (Q ?q)" using sh False by simp
  have q: "hvalid ?q s" using kinvD(10) [OF K xQ] by simp
  obtain as bs where Q: "Q ?q = as @ x # bs" using xQ by (meson split_list)
  have B: "dring (mnx ?h) (mpv ?h) (as @ x # bs)" "hdval ?q s = hd (as @ x # bs)"
    and v: "\<And>z. z \<in> set (as @ x # bs) \<Longrightarrow> shd ?h z = ?q \<and> valid z s"
    using kinvD(3) [OF K q] Q by (auto simp: block_ok_def split: if_splits)
  have nin: "x \<notin> set (as @ bs)" using B(1) by (auto simp: dring_iff)
  have oth: "x \<notin> set (Q q')" if "q' \<noteq> ?q" for q' using kinvD(10) [OF K, of x q'] that by auto
  have rm: "(\<lambda>q'. remove1 x (Q q')) = Q(?q := as @ bs)"
    using oth nin by (auto simp: fun_eq_iff remove1_idem remove1_append Q)
  let ?n = "mnx ?h x" and ?p = "mpv ?h x"
  have np: "?n \<in> set (as @ x # bs)" "?p \<in> set (as @ x # bs)"
    using dring_next_in [OF B(1), of x] dring_prev_in [OF B(1), of x] by auto
  have vv: "valid ?n s" "valid ?p s" using v np by auto
  define single where "single \<longleftrightarrow> as @ bs = []"
  define front where "front \<longleftrightarrow> hd (as @ x # bs) = x"
  let ?v = "if single then NULL else if front then ?n else hd (as @ x # bs)"
  define L where "L = (\<lambda>h. if single
     then hput (\<lambda>e. e\<lparr>multi_previous := NULL\<rparr>) x (hput (\<lambda>e. e\<lparr>multi_next := NULL\<rparr>) x h)
     else hput (\<lambda>e. e\<lparr>multi_previous := ?p\<rparr>) ?n (hput (\<lambda>e. e\<lparr>multi_next := ?n\<rparr>) ?p h))"
  define s1 where "s1 = (if front then puthd ?q ?v s else s)"
  define s2 where "s2 = s1\<lparr>ecbs := L (ecbs s1)\<rparr>"
  define s3 where "s3 = s2\<lparr>ecbs := hput (\<lambda>e. e\<lparr>sync_head := NULLH\<rparr>) x (ecbs s2)\<rparr>"
  have sing: "?n = x \<longleftrightarrow> single"
    using dring_proper [OF B(1)] B(1) unfolding single_def by (cases "as @ bs = []") (auto simp: dring_single)
  have front: "hdval ?q s = x \<longleftrightarrow> front" and sf: "single \<Longrightarrow> front" using B(2) by (simp_all add: front_def single_def)
  have run: "tick_leave_sync x s = Some s3"
  proof (cases single)
    case True
    then show ?thesis using False q x(1) sing front sf unfolding s3_def s2_def s1_def L_def
      by (simp add: tick_leave_sync_def fault_simps heap_simps)
  next
    case ns: False
    then show ?thesis
    proof (cases front)
      case True
      then show ?thesis using False q x(1) sing front vv ns unfolding s3_def s2_def s1_def L_def
        by (simp add: tick_leave_sync_def fault_simps heap_simps)
    next
      case nf: False
      then show ?thesis using False q x(1) sing front vv ns unfolding s3_def s2_def s1_def L_def
        by (simp add: tick_leave_sync_def fault_simps heap_simps)
    qed
  qed
  have f3: "nxt (ecbs s3) = nxt ?h" "prv (ecbs s3) = prv ?h" "pri (ecbs s3) = pri ?h" "sts (ecbs s3) = sts ?h"
    "due (ecbs s3) = due ?h" "wkf (ecbs s3) = wkf ?h" "shd (ecbs s3) = (shd ?h)(x := NULLH)"
    "mnx (ecbs s3) = (if single then (mnx ?h)(x := NULL) else (mnx ?h)(?p := ?n))"
    "mpv (ecbs s3) = (if single then (mpv ?h)(x := NULL) else (mpv ?h)(?n := ?p))"
    by (auto simp: s3_def s2_def s1_def L_def heap_simps fun_eq_iff)
  have g3: "cfgEventLimit s3 = cfgEventLimit s" "g_ptEventReady s3 = g_ptEventReady s"
    "g_ptEventDelay s3 = g_ptEventDelay s" "hvalid q' s3 = hvalid q' s" for q'
    by (auto simp: s3_def s2_def s1_def)
  have h3: "hdval q' s3 = (if q' = ?q then ?v else hdval q' s)" for q'
  proof -
    have "hdval q' s3 = hdval q' s1" by (simp add: s3_def s2_def L_def hdval_hput)
    then show ?thesis using False B(2) sf front by (auto simp: s1_def hdval_puthd)
  qed
  have b: "block_ok (cfgEventLimit s) (ecbs s3) ?q ?v (as @ bs)"
  proof (cases single)
    case ns: False
    then have ab: "as @ bs \<noteq> []" by (simp add: single_def)
    have "dring ((mnx ?h)(?p := ?n)) ((mpv ?h)(?n := ?p)) (as @ bs)" by (rule dring_delete_mid [OF B(1) ab])
    moreover have "?v = hd (as @ bs)"
    proof (cases as)
      case Nil
      then show ?thesis using ab dring_next [of "mnx ?h" "mpv ?h" x bs] B(1) ns by (cases bs) (auto simp: front_def)
    next
      case (Cons a as')
      then show ?thesis using nin ns by (auto simp: front_def)
    qed
    moreover have "\<forall>z \<in> set (as @ bs). shd (ecbs s3) z = ?q \<and> valid z s"
    proof
      fix z assume "z \<in> set (as @ bs)"
      then have "z \<noteq> x" "z \<in> set (as @ x # bs)" using nin by auto
      then show "shd (ecbs s3) z = ?q \<and> valid z s" using v [of z] by (simp add: f3(7))
    qed
    ultimately show ?thesis using ns ab unfolding block_ok_def f3(8,9) by auto
  qed (simp add: block_ok_def single_def)
  have dis: "set (as @ x # bs) \<inter> set xs = {}" using ready_not_blocked [OF K] Q by (metis disjoint_iff)
  have dis2: "set (as @ x # bs) \<inter> set (Q q') = {}" if "q' \<noteq> ?q" for q'
  proof -
    have "z \<notin> set (Q q')" if "z \<in> set (as @ x # bs)" for z
      using kinvD(10) [OF K, of z q'] v [OF that] \<open>q' \<noteq> ?q\<close> by auto
    then show ?thesis by blast
  qed
  have T: "has_flag (sts ?h z) CN_STS_SYNC_TIMEOUT \<longleftrightarrow> z \<in> set ds" if "z \<in> set (as @ bs)" for z
    using kinvD(9) [OF K, of z ?q] that Q by auto
  have mn: "mnx (ecbs s3) z = mnx ?h z \<and> mpv (ecbs s3) z = mpv ?h z \<and> shd (ecbs s3) z = shd ?h z"
    if "z \<notin> set (as @ x # bs)" for z
    using that np by (auto simp: f3)
  have S: "shd (ecbs s3) z = NULLH \<or> shd (ecbs s3) z = ?q \<and> z \<in> set (as @ bs)" if "z \<in> set (as @ x # bs)" for z
    using that v [of z] nin by (auto simp: f3(7))
  have "kinv s3 xs ds (Q(?q := as @ bs))"
    by (rule kinv_block_step [OF K q f3(1-5) g3(1-3) g3(4) h3 mn dis dis2 _ b S T])
      (use Q in auto)
  moreover have "kframe s s3"
  proof -
    have "kframe s s1" by (simp add: s1_def)
    also have "kframe s1 s2" unfolding s2_def L_def
      by (rule kframe_links(1) [where A = UNIV]) (auto intro!: links_only_hput)
    also have "kframe s2 s3" unfolding s3_def by (rule kframe_heap(1)) (simp add: hput_def ecb_core_def no_links_def)
    finally show ?thesis .
  qed
  ultimately show ?thesis using run rm f3 g3 by auto
qed

section \<open>One event whose time is up\<close>

lemma kinv_tick_step:
  assumes K: "kinv s xs (x # ds) Q" and k: "pri (ecbs s) x < pri (ecbs s) (last xs)"
  shows "\<exists>s'. tick_step x s = Some s' \<and>
    kinv s' (prio_insert (pri (ecbs s)) x xs) ds (\<lambda>q. remove1 x (Q q)) \<and> kframe s s' \<and>
    wkf (ecbs s') = (wkf (ecbs s))(x := sts (ecbs s) x) \<and>
    (\<forall>y. y \<noteq> x \<longrightarrow> sts (ecbs s') y = sts (ecbs s) y) \<and> due (ecbs s') = due (ecbs s)"
proof -
  let ?Q = "\<lambda>q. remove1 x (Q q)"
  have x: "valid x s" "x \<notin> set xs" "shd (ecbs s) x = NULLH \<or> x \<in> set (Q (shd (ecbs s) x))"
    using kinvD(5) [OF K] kinvD(11) [OF K, of x] kinvD(8) [OF K, of x] by auto
  from kinv_leave [OF K x] obtain s1 where s1: "tick_leave_sync x s = Some s1" "kinv s1 xs (x # ds) ?Q"
      "kframe s s1" "shd (ecbs s1) x = NULLH" "sts (ecbs s1) = sts (ecbs s)" "due (ecbs s1) = due (ecbs s)"
      "nxt (ecbs s1) = nxt (ecbs s)" "prv (ecbs s1) = prv (ecbs s)" "g_ptEventDelay s1 = g_ptEventDelay s"
      "wkf (ecbs s1) = wkf (ecbs s)" by blast
  note F1 = kframe_fields [OF s1(3)] kframe_ecb [OF s1(3)]
  have D: "dring (nxt (ecbs s)) (prv (ecbs s)) (x # ds)" "g_ptEventDelay s = x"
    "sorted (map (due (ecbs s)) (x # ds))" and dv: "\<And>z. z \<in> set (x # ds) \<Longrightarrow> valid z s"
    using kinvD(2) [OF K] by (auto simp: delay_ok_def)
  have xd: "x \<notin> set ds" using D(1) by (simp add: dring_iff)
  have nb: "x \<notin> set (?Q q)" for q by (rule loose_not_blocked [OF s1(2,4)])
  let ?f = "\<lambda>e. e\<lparr>wakeup_from := event_status e, event_status := CN_STS_EVENT_READY\<rparr> :: EventECB"
  define s2 where "s2 = s1\<lparr>ecbs := hput ?f x (ecbs s1)\<rparr>"
  have K2: "kinv s2 xs (x # ds) ?Q" unfolding s2_def
    by (rule kinv_status [OF s1(2) x(2) nb refl, where w = event_status and st = "\<lambda>_. CN_STS_EVENT_READY"]) simp
  have k2: "kframe s1 s2" unfolding s2_def
    by (rule kframe_status [where w = event_status and st = "\<lambda>_. CN_STS_EVENT_READY"]) simp
  have f2: "nxt (ecbs s2) = nxt (ecbs s)" "prv (ecbs s2) = prv (ecbs s)" "due (ecbs s2) = due (ecbs s)"
    "shd (ecbs s2) = shd (ecbs s1)" "sts (ecbs s2) = (sts (ecbs s))(x := CN_STS_EVENT_READY)"
    "wkf (ecbs s2) = (wkf (ecbs s))(x := sts (ecbs s) x)"
    by (auto simp: s2_def heap_simps fun_eq_iff s1)
  have l2: "cfgEventLimit s2 = cfgEventLimit s" by (simp add: s2_def F1)
  define h where "h = (if ds = [] then ecbs s2
     else hput (\<lambda>e. e\<lparr>ecb_next := nxt (ecbs s) x\<rparr>) (prv (ecbs s) x)
            (hput (\<lambda>e. e\<lparr>ecb_previous := prv (ecbs s) x\<rparr>) (nxt (ecbs s) x) (ecbs s2)))"
  define d where "d = (if ds = [] then NULL else nxt (ecbs s) x)"
  define s3 where "s3 = s2\<lparr>ecbs := h, g_ptEventDelay := d\<rparr>"
  have np: "nxt (ecbs s) x \<in> set (x # ds)" "prv (ecbs s) x \<in> set (x # ds)"
    using dring_next_in [OF D(1), of x] dring_prev_in [OF D(1), of x] by auto
  have m: "main_only (set (x # ds)) (ecbs s2) h"
    unfolding h_def using np by (auto intro!: main_only_hput)
  have dk: "delay_ok (cfgEventLimit s2) h d ds"
  proof (cases "ds = []")
    case False
    have "dring ((nxt (ecbs s))(prv (ecbs s) x := nxt (ecbs s) x)) ((prv (ecbs s))(nxt (ecbs s) x := prv (ecbs s) x)) ds"
      using dring_delete_mid [of _ _ "[]" x ds] D(1) False by simp
    moreover have "d = hd ds" using False dring_next [OF D(1)] by (cases ds) (auto simp: d_def)
    moreover have "due h = due (ecbs s)" by (auto simp: h_def heap_simps fun_eq_iff f2(3))
    moreover have "nxt h = (nxt (ecbs s))(prv (ecbs s) x := nxt (ecbs s) x)"
      "prv h = (prv (ecbs s))(nxt (ecbs s) x := prv (ecbs s) x)"
      using False by (auto simp: h_def heap_simps fun_eq_iff f2)
    ultimately show ?thesis using False D(3) dv by (simp add: delay_ok_def l2)
  qed (simp add: delay_ok_def d_def)
  have K3: "kinv s3 xs ds ?Q" unfolding s3_def
  proof (rule kinv_delay_step [OF K2 m _ dk])
    show "set (x # ds) \<inter> set xs = {}" "set xs \<inter> set ds = {}" using kinvD(5) [OF K] by auto
    show "shd (ecbs s2) z = NULLH \<or> z \<in> set (?Q (shd (ecbs s2) z))" if "z \<in> set ds" for z
      using kinvD(8) [OF K2, of z] that by simp
    show "has_flag (sts (ecbs s2) z) CN_STS_SYNC_TIMEOUT \<longleftrightarrow> z \<in> set ds" if "z \<in> set (?Q q)" for q z
      using kinvD(9) [OF K2 that] that nb [of q] by auto
  qed
  have k3: "kframe s2 s3" unfolding s3_def by (rule kframe_main [OF m])
  have ks3: "kframe s s3" using s1(3) k2 k3 kframe_trans by blast
  note M = main_only_same [OF m]
  have "loose x s3 xs ds" using x(1,2) xd s1(4) kframe_fields(6) [OF ks3]
    by (simp add: loose_def) (simp add: s3_def M f2)
  moreover have "sts (ecbs s3) x = CN_STS_EVENT_READY" by (simp add: s3_def M f2)
  moreover have "pri (ecbs s3) = pri (ecbs s)" by (rule kframe_ecb(6) [OF ks3])
  ultimately obtain s4 where s4: "Djy_EventReady x s3 = Some s4" "kinv s4 (prio_insert (pri (ecbs s)) x xs) ds ?Q"
      "kframe s3 s4" "links_only UNIV (ecbs s3) (ecbs s4)"
    using kinv_EventReady [OF K3, of x] k by auto
  have run: "tick_step x s = Some s4"
  proof (cases "ds = []")
    case True
    then have "nxt (ecbs s) x = x" using D(1) by (simp add: dring_single)
    moreover have "s2\<lparr>g_ptEventDelay := NULL\<rparr> = s3" using True by (simp add: s3_def h_def d_def)
    ultimately show ?thesis using s1(1) x(1) s4(1) F1 f2(1) True
      by (simp add: tick_step_def wr_valid rd_valid heap_simps s2_def [symmetric] l2)
  next
    case False
    have ne: "nxt (ecbs s) x \<noteq> x" "prv (ecbs s) x \<noteq> x"
      using dring_proper [of "nxt (ecbs s)" "prv (ecbs s)" "[]" x ds] D(1) False by auto
    have vv: "valid (nxt (ecbs s) x) s" "valid (prv (ecbs s) x) s" using np dv by auto
    have "cut_main x (s2\<lparr>g_ptEventDelay := nxt (ecbs s) x\<rparr>) = Some s3"
      using False ne vv x(1) f2(1,2) by (simp add: fault_simps heap_simps s3_def h_def d_def l2)
    then show ?thesis using s1(1) x(1) s4(1) F1 f2(1) ne
      by (simp add: tick_step_def wr_valid rd_valid heap_simps s2_def [symmetric] l2)
  qed
  have "wkf (ecbs s4) = wkf (ecbs s3)" "sts (ecbs s4) = sts (ecbs s3)" "due (ecbs s4) = due (ecbs s3)"
    using links_only_fields [OF s4(4)] by auto
  moreover have "wkf (ecbs s3) = wkf (ecbs s2)" by (auto simp: s3_def fun_eq_iff wkf_def M)
  moreover have "due (ecbs s3) = due (ecbs s)" by (auto simp: s3_def h_def heap_simps fun_eq_iff f2)
  moreover have "sts (ecbs s3) = sts (ecbs s2)" by (simp add: s3_def M)
  ultimately show ?thesis using run s4(2,3) ks3 kframe_trans by (auto simp: f2)
qed

section \<open>The whole loop\<close>

lemma last_prio_insert:
  assumes "f x < f (last xs)" and "xs \<noteq> []"
  shows "last (prio_insert f x xs) = last xs"
proof -
  have "last xs \<in> set xs" "\<not> f (last xs) \<le> f x" using assms by (simp_all add: not_le)
  then have "dropWhile (\<lambda>y. f y \<le> f x) xs \<noteq> []" unfolding dropWhile_eq_Nil_conv by blast
  moreover from this have "last (dropWhile (\<lambda>y. f y \<le> f x) xs) = last xs"
    by (metis last_appendR takeWhile_dropWhile_id)
  ultimately show ?thesis by (auto simp: prio_insert_def ins_by_def)
qed

lemma kinv_distinct: "kinv s xs ds Q \<Longrightarrow> distinct (Q q) \<and> distinct ds"
  using kinvD(2) [of s xs ds Q] kinvD(3,4) [of s xs ds Q q]
  by (cases "hvalid q s") (auto simp: block_ok_def delay_ok_def dring_iff split: if_splits)

text \<open>
  \<open>D\<close>, the events due: a prefix of the delay queue, because it is sorted.  They become ready
  one after the other, leave the block queues, and find in \<open>wakeup_from\<close> the status they
  were blocked with, timeout bit included.
\<close>

lemma kinv_tick_expire:
  assumes "kinv s xs L Q" and "L \<noteq> []" and "\<And>y. y \<in> set L \<Longrightarrow> pri (ecbs s) y < pri (ecbs s) (last xs)"
  shows "\<exists>s'. tick_expire (hd L) s = Some s' \<and>
    kinv s' (fold (prio_insert (pri (ecbs s))) (takeWhile (\<lambda>y. due (ecbs s) y \<le> g_s64OsTicks s) L) xs)
      (dropWhile (\<lambda>y. due (ecbs s) y \<le> g_s64OsTicks s) L)
      (\<lambda>q. filter (\<lambda>y. y \<notin> set (takeWhile (\<lambda>y. due (ecbs s) y \<le> g_s64OsTicks s) L)) (Q q)) \<and> kframe s s' \<and>
    (\<forall>y. wkf (ecbs s') y =
      (if y \<in> set (takeWhile (\<lambda>y. due (ecbs s) y \<le> g_s64OsTicks s) L) then sts (ecbs s) y else wkf (ecbs s) y))"
  using assms
proof (induction L arbitrary: xs s Q)
  case (Cons x ds)
  let ?P = "\<lambda>y. due (ecbs s) y \<le> g_s64OsTicks s" and ?f = "pri (ecbs s)"
  have x: "valid x s" using kinvD(11) [OF Cons.prems(1)] by simp
  show ?case
  proof (cases "?P x")
    case False
    then show ?thesis using x Cons.prems(1) by (subst tick_expire.simps) (simp add: rd_valid heap_simps)
  next
    case True
    from kinv_tick_step [OF Cons.prems(1)] Cons.prems(3) obtain s1 where
      s1: "tick_step x s = Some s1" "kinv s1 (prio_insert ?f x xs) ds (\<lambda>q. remove1 x (Q q))" "kframe s s1"
        "wkf (ecbs s1) = (wkf (ecbs s))(x := sts (ecbs s) x)"
        "\<And>y. y \<noteq> x \<Longrightarrow> sts (ecbs s1) y = sts (ecbs s) y" "due (ecbs s1) = due (ecbs s)" by auto
    note F1 = kframe_fields [OF s1(3)] kframe_ecb(6) [OF s1(3)]
    have xd: "x \<notin> set ds" using kinv_distinct [OF Cons.prems(1)] by simp
    have rm: "remove1 x (Q q) = filter (\<lambda>y. y \<noteq> x) (Q q)" for q
      using kinv_distinct [OF Cons.prems(1)] by (simp add: distinct_remove1_removeAll removeAll_filter_not_eq) (metis (full_types))
    have step: "tick_expire x s = (if g_ptEventDelay s1 = NULL then Some s1 else tick_expire (g_ptEventDelay s1) s1)"
      using True x s1(1) by (subst tick_expire.simps) (simp add: rd_valid heap_simps)
    show ?thesis
    proof (cases "ds = []")
      case nil: True
      then have "g_ptEventDelay s1 = NULL" using kinvD(2) [OF s1(2)] by (simp add: delay_ok_def)
      then show ?thesis using nil True step s1(2-4) by (auto simp: rm)
    next
      case False
      have hd: "g_ptEventDelay s1 = hd ds" "hd ds \<in> set ds" using kinvD(2) [OF s1(2)] False by (auto simp: delay_ok_def)
      then have "g_ptEventDelay s1 \<noteq> NULL" using kinvD(11) [OF s1(2) hd(2)] vptrD by auto
      have "xs \<noteq> []" using ready_okD(7) [OF kinvD(1) [OF Cons.prems(1)]] .
      then have "last (prio_insert ?f x xs) = last xs" using Cons.prems(3) [of x] by (simp add: last_prio_insert)
      then have "\<And>y. y \<in> set ds \<Longrightarrow> pri (ecbs s1) y < pri (ecbs s1) (last (prio_insert ?f x xs))"
        using Cons.prems(3) F1 by simp
      from Cons.IH [OF s1(2) False this] obtain s2 where
        s2: "tick_expire (hd ds) s1 = Some s2"
          "kinv s2 (fold (prio_insert ?f) (takeWhile ?P ds) (prio_insert ?f x xs)) (dropWhile ?P ds)
             (\<lambda>q. filter (\<lambda>y. y \<notin> set (takeWhile ?P ds)) (remove1 x (Q q)))" "kframe s1 s2"
          "\<And>y. wkf (ecbs s2) y = (if y \<in> set (takeWhile ?P ds) then sts (ecbs s1) y else wkf (ecbs s1) y)"
        using s1(6) F1 by auto
      have xt: "x \<notin> set (takeWhile ?P ds)" using xd by (auto dest: set_takeWhileD)
      have "(\<lambda>q. filter (\<lambda>y. y \<notin> set (takeWhile ?P ds)) (remove1 x (Q q))) =
          (\<lambda>q. filter (\<lambda>y. y \<notin> set (takeWhile ?P (x # ds))) (Q q))"
        using True by (auto simp: rm fun_eq_iff intro!: filter_cong)
      then have "kinv s2 (fold (prio_insert ?f) (takeWhile ?P (x # ds)) xs) (dropWhile ?P (x # ds))
          (\<lambda>q. filter (\<lambda>y. y \<notin> set (takeWhile ?P (x # ds))) (Q q))"
        using s2(2) True by simp
      moreover have "wkf (ecbs s2) y = (if y \<in> set (takeWhile ?P (x # ds)) then sts (ecbs s) y else wkf (ecbs s) y)" for y
        using s2(4) [of y] True xt s1(4) s1(5) [of y] by (cases "y = x") auto
      ultimately show ?thesis
        using step hd \<open>g_ptEventDelay s1 \<noteq> NULL\<close> s2(1,3) kframe_trans [OF s1(3)] by auto
    qed
  qed
qed simp

section \<open>Round robin\<close>

lemma leaders_from_skip:
  assumes "\<And>z. z \<in> set zs \<Longrightarrow> f z = k" and "f n \<noteq> k"
  shows "leaders_from f k (zs @ n # rest) = n # leaders_from f (f n) rest"
  using assms by (induction zs) auto

text \<open>
  Taking the running event, first of its priority, out of the queue and putting it behind the
  last event of its priority is what \<open>tick_rotate\<close> does in one go.
\<close>

lemma tick_rotate_ready:
  assumes r: "ready s (as @ e # y # mid @ n # rest)" and e: "e = g_ptEventRunning s"
    and eq: "\<And>z. z \<in> set (y # mid) \<Longrightarrow> pri (ecbs s) z = pri (ecbs s) e" and n: "pri (ecbs s) e < pri (ecbs s) n"
    and lead: "as = [] \<or> pri (ecbs s) (last as) \<noteq> pri (ecbs s) e"
  shows "\<exists>h r'. tick_rotate s = Some (s\<lparr>ecbs := h, g_ptEventReady := r'\<rparr>) \<and>
    ready_ok (cfgEventLimit s) h r' (as @ y # mid @ e # n # rest) \<and>
    links_only (set (as @ e # y # mid @ n # rest)) (ecbs s) h"
proof -
  let ?h = "ecbs s" and ?f = "pri (ecbs s)" and ?xs = "as @ e # y # mid @ n # rest"
  note R = ready_okD [OF r]
  have d: "distinct ?xs" by (rule R(8))
  let ?L = "leaders_from ?f (?f n) rest"
  have fn: "?f n \<noteq> ?f e" using n by auto
  have "leaders_from ?f (?f e) ((y # mid) @ n # rest) = n # ?L"
    by (rule leaders_from_skip; rule eq fn; assumption?)
  then have L: "leaders ?f ?xs = leaders ?f as @ e # n # ?L" using leaders_here [OF lead] by simp
  have fy: "?f y = ?f e" by (rule eq) simp
  have "leaders_from ?f (?f y) (mid @ e # n # rest) = n # ?L"
  proof -
    have "leaders_from ?f (?f e) ((mid @ [e]) @ n # rest) = n # ?L"
      by (rule leaders_from_skip) (use eq fn in auto)
    then show ?thesis by (simp add: fy)
  qed
  then have L2: "leaders ?f (as @ y # mid @ e # n # rest) = leaders ?f as @ y # n # ?L"
    using leaders_here [of as ?f y "mid @ e # n # rest"] lead fy by simp
  note M = R(4) [unfolded L]
  let ?p = "mpv ?h e"
  have nn: "mnx ?h e = n" by (rule dring_next_mid [OF M])
  have pe: "?p \<noteq> e" using dring_proper [OF M] by simp
  have pin: "?p \<in> set (leaders ?f ?xs)" using dring_prev_in [OF R(4), of e] by (simp add: L)
  have Ls: "set (leaders ?f ?xs) \<subseteq> set ?xs" by (rule set_leaders)
  have yL: "y \<notin> set (leaders ?f as @ e # n # ?L)"
    using d set_leaders [of ?f as] set_leaders_from [of ?f "?f n" rest] by auto
  have py: "?p \<noteq> y" "n \<noteq> y" "n \<noteq> e" "y \<noteq> e" using pin yL L d by auto
  let ?w = "prv ?h e"
  have win: "?w \<in> set ?xs" using dring_prev_in [OF R(1), of e] by simp
  have ny: "nxt ?h e = y" by (rule dring_next_mid [OF R(1)])
  have we: "?w \<noteq> e" using dring_proper [OF R(1)] by simp
  have val: "valid e s" "valid y s" "valid n s" "valid ?p s" "valid ?w s" using R(6) pin Ls win by auto
  have cut: "dring ((nxt ?h)(?w := y)) ((prv ?h)(y := ?w)) ((as @ y # mid) @ n # rest)"
    using dring_delete_mid [OF R(1)] ny by simp
  define u where "u = last (y # mid)"
  have u: "((prv ?h)(y := ?w)) n = u"
  proof -
    have "(as @ y # mid) @ n # rest = (as @ butlast (y # mid)) @ u # n # rest"
      using append_butlast_last_id [of "y # mid"] unfolding u_def by (metis append_Cons append_Nil append_assoc list.distinct(1))
    then show ?thesis using cut dring_prev_mid by metis
  qed
  have uin: "u \<in> set (y # mid)" unfolding u_def by (rule last_in_set) simp
  then have uv: "valid u s" "u \<noteq> e" "u \<noteq> n" using R(6) d by auto
  have enin: "e \<notin> set ((as @ y # mid) @ n # rest)" using d by auto
  have main: "dring ((nxt ?h)(?w := y, e := n, u := e)) ((prv ?h)(y := ?w, e := u, n := e))
      ((as @ y # mid) @ e # n # rest)"
    using dring_insert_mid [OF cut enin] u by simp
  have sw: "dring ((mnx ?h)(?p := y, y := n)) ((mpv ?h)(y := ?p, n := y)) (leaders ?f as @ y # n # ?L)"
    using dring_swap [OF M, of y] yL pe nn by simp
  define h1 where "h1 = hput (\<lambda>x. x\<lparr>multi_previous := NULL\<rparr>) e (hput (\<lambda>x. x\<lparr>multi_next := NULL\<rparr>) e
    (hput (\<lambda>x. x\<lparr>multi_next := n\<rparr>) y (hput (\<lambda>x. x\<lparr>multi_previous := y\<rparr>) n
    (hput (\<lambda>x. x\<lparr>multi_previous := ?p\<rparr>) y (hput (\<lambda>x. x\<lparr>multi_next := y\<rparr>) ?p ?h)))))"
  define h2 where "h2 = hput (\<lambda>x. x\<lparr>ecb_previous := e\<rparr>) n (hput (\<lambda>x. x\<lparr>ecb_next := e\<rparr>) u
    (hput (\<lambda>x. x\<lparr>ecb_next := n\<rparr>) e (hput (\<lambda>x. x\<lparr>ecb_previous := u\<rparr>) e
    (hput (\<lambda>x. x\<lparr>ecb_previous := ?w\<rparr>) y (hput (\<lambda>x. x\<lparr>ecb_next := y\<rparr>) ?w h1)))))"
  define r' where "r' = (if g_ptEventReady s = e then y else g_ptEventReady s)"
  have h1f: "nxt h1 = nxt ?h" "prv h1 = prv ?h" "mnx h1 = (mnx ?h)(?p := y, y := n, e := NULL)"
    "mpv h1 = (mpv ?h)(y := ?p, n := y, e := NULL)" "pri h1 = ?f"
    using py pe by (auto simp: h1_def heap_simps fun_eq_iff)
  have h2f: "nxt h2 = (nxt ?h)(?w := y, e := n, u := e)" "prv h2 = (prv ?h)(y := ?w, e := u, n := e)"
    "mnx h2 = mnx h1" "mpv h2 = mpv h1" "pri h2 = ?f"
  proof -
    show "nxt h2 = (nxt ?h)(?w := y, e := n, u := e)" "prv h2 = (prv ?h)(y := ?w, e := u, n := e)"
      by (simp_all add: h2_def main.link_simps h1f(1,2))
    show "mnx h2 = mnx h1" "mpv h2 = mpv h1" "pri h2 = ?f"
      by (simp_all add: h2_def hput_keep h1f(5))
  qed
  have run: "tick_rotate s = Some (s\<lparr>ecbs := h2, g_ptEventReady := r'\<rparr>)"
  proof -
    define s1 where "s1 = s\<lparr>ecbs := h1, g_ptEventReady := r'\<rparr>"
    have b: "tick_rotate s = do {
       pv \<leftarrow> rd ecb_previous e s1; s \<leftarrow> set_next pv y s1;
       pv \<leftarrow> rd ecb_previous e s; s \<leftarrow> set_previous y pv s;
       pv \<leftarrow> rd ecb_previous n s; s \<leftarrow> set_previous e pv s;
       s \<leftarrow> set_next e n s; pv \<leftarrow> rd ecb_previous n s;
       s \<leftarrow> set_next pv e s; set_previous n e s }"
    proof (cases "g_ptEventReady s = e")
      case True
      then show ?thesis using val ny nn py pe unfolding tick_rotate_def s1_def h1_def r'_def e [symmetric]
        by (simp add: fault_simps heap_simps Let_def)
    next
      case False
      then show ?thesis using val ny nn py pe unfolding tick_rotate_def s1_def h1_def r'_def e [symmetric]
        by (simp add: fault_simps heap_simps Let_def)
    qed
    have pn: "((prv ?h)(y := ?w)) n = prv ?h n" using py by simp
    show ?thesis unfolding b using val uv we u py unfolding pn s1_def h2_def
      by (simp add: fault_simps heap_simps h1f)
  qed
  have hd: "r' = hd (as @ y # mid @ e # n # rest)"
    using R(2) d by (cases as) (auto simp: r'_def)
  have srt: "sorted (map ?f (as @ y # mid @ e # n # rest))"
  proof -
    have "map ?f mid = replicate (length mid) (?f e)" using eq by (simp add: list_eq_iff_nth_eq)
    then show ?thesis using R(3) fy by (auto simp: sorted_append)
  qed
  have Lm: "dring (mnx h2) (mpv h2) (leaders ?f as @ y # n # ?L)"
  proof -
    have "e \<notin> set (leaders ?f as @ y # n # ?L)"
      using d set_leaders [of ?f as] set_leaders_from [of ?f "?f n" rest] by auto
    then show ?thesis using sw by (simp add: h2f(3,4) h1f(3,4))
  qed
  have nul: "mnx h2 x = NULL" if "x \<in> set ?xs" "x \<notin> set (leaders ?f as @ y # n # ?L)" for x
    using that R(5) [of x] pin by (auto simp: h2f(3) h1f(3) L)
  have "ready_ok (cfgEventLimit s) h2 r' (as @ y # mid @ e # n # rest)"
    unfolding ready_ok_def h2f(5) L2 using main Lm hd srt nul R(6) by (auto simp: h2f(1,2))
  moreover have "links_only (set ?xs) ?h h2"
    unfolding h2_def h1_def using pin Ls win uin by (intro links_only_hput links_only_refl) auto
  ultimately show ?thesis using run by blast
qed

definition first_of :: "('p \<Rightarrow> 'k::linorder) \<Rightarrow> 'p \<Rightarrow> 'p list \<Rightarrow> bool" where
  "first_of f e xs \<longleftrightarrow> (\<exists>as bs. xs = as @ e # bs \<and> (\<forall>a \<in> set as. f a < f e))"

lemma first_of_hd: "xs \<noteq> [] \<Longrightarrow> first_of f (hd xs) xs"
  unfolding first_of_def by (intro exI [of _ "[]"] exI [of _ "tl xs"]) simp

lemma first_of_insert:
  assumes "first_of f e xs"
  shows "first_of f e (prio_insert f x xs)"
proof -
  let ?P = "\<lambda>y. f y \<le> f x"
  obtain as bs where xs: "xs = as @ e # bs" and as: "\<forall>a \<in> set as. f a < f e"
    using assms by (auto simp: first_of_def)
  show ?thesis
  proof (cases "f x < f e")
    case True
    then have e: "\<not> ?P e" by simp
    have "takeWhile ?P (as @ e # bs) = takeWhile ?P as" "dropWhile ?P (as @ e # bs) = dropWhile ?P as @ e # bs"
      using e by (induction as) auto
    then have "prio_insert f x xs = ins_by ?P x as @ e # bs" by (simp add: xs prio_insert_def ins_by_def)
    moreover have "\<forall>a \<in> set (ins_by ?P x as). f a < f e" using as True by simp
    ultimately show ?thesis unfolding first_of_def by blast
  next
    case False
    then have "\<forall>a \<in> set as. ?P a" "?P e" using as by (auto simp: not_less)
    then have "prio_insert f x xs = as @ e # ins_by ?P x bs"
      by (simp add: xs prio_insert_def ins_by_def takeWhile_append dropWhile_append)
    then show ?thesis using as unfolding first_of_def by blast
  qed
qed

lemma first_of_fold: "first_of f e xs \<Longrightarrow> first_of f e (fold (prio_insert f) D xs)"
  by (induction D arbitrary: xs) (auto simp: first_of_insert)

text \<open>The list after the round robin step, and when there is one.\<close>

definition rr_turn :: "u32 \<Rightarrow> s64 \<Rightarrow> ('p \<Rightarrow> u32) \<Rightarrow> 'p \<Rightarrow> 'p list \<Rightarrow> bool" where
  "rr_turn sl now f e xs \<longleftrightarrow> sl \<noteq> 0 \<and> word_of_int now mod sl = 0 \<and>
     list_ex (\<lambda>y. y \<noteq> e \<and> f y = f e) xs"

definition rr_list :: "u32 \<Rightarrow> s64 \<Rightarrow> ('p \<Rightarrow> u32) \<Rightarrow> 'p \<Rightarrow> 'p list \<Rightarrow> 'p list" where
  "rr_list sl now f e xs = (if rr_turn sl now f e xs then prio_insert f e (remove1 e xs) else xs)"

lemma kinv_round_robin:
  assumes K: "kinv s xs ds Q" and e: "e = g_ptEventRunning s" and f: "first_of (pri (ecbs s)) e xs"
    and low: "e = last xs \<or> pri (ecbs s) e < pri (ecbs s) (last xs)"
  shows "\<exists>s'. tick_round_robin s = Some s' \<and>
    kinv s' (rr_list (s_u32RRS_Slice s) (g_s64OsTicks s) (pri (ecbs s)) e xs) ds Q \<and> kframe s s' \<and>
    wkf (ecbs s') = wkf (ecbs s)"
proof -
  let ?h = "ecbs s" and ?f = "pri (ecbs s)" and ?sl = "s_u32RRS_Slice s"
  note R = ready_okD [OF kinvD(1) [OF K]]
  obtain as bs where xs: "xs = as @ e # bs" and as: "\<And>a. a \<in> set as \<Longrightarrow> ?f a < ?f e"
    using f by (auto simp: first_of_def)
  have ev: "valid e s" using R(6) xs by simp
  have nv: "valid (nxt ?h e) s" using dring_next_in [OF R(1), of e] R(6) xs by simp
  have d: "distinct xs" by (rule R(8))
  have turn: "?f (nxt ?h e) = ?f e \<and> nxt ?h e \<noteq> e \<longleftrightarrow> list_ex (\<lambda>y. y \<noteq> e \<and> ?f y = ?f e) xs"
  proof (cases bs)
    case Nil
    then have "nxt ?h e = hd xs" using R(1) xs dring_next_last [of "nxt ?h" "prv ?h" as e] by simp
    moreover have "?f z \<noteq> ?f e" if "z \<in> set as" for z using as [OF that] by simp
    ultimately show ?thesis using Nil xs by (cases as) (auto simp: list_ex_iff)
  next
    case (Cons y cs)
    then have n: "nxt ?h e = y" using R(1) xs dring_next_mid [of "nxt ?h" "prv ?h" as e y cs] by simp
    have ye: "y \<noteq> e" "?f e \<le> ?f y" using d R(3) xs Cons by (auto simp: sorted_append)
    have "?f y = ?f e" if "z \<in> set xs" "z \<noteq> e" "?f z = ?f e" for z
    proof -
      have "z \<in> set (y # cs)" using that xs Cons as by force
      then have "?f y \<le> ?f z" using R(3) xs Cons by (auto simp: sorted_append)
      then show ?thesis using that ye by simp
    qed
    then show ?thesis using n ye xs Cons by (auto simp: list_ex_iff)
  qed
  have go: "tick_round_robin s = (if rr_turn ?sl (g_s64OsTicks s) ?f e xs then tick_rotate s else Some s)"
  proof -
    have "tick_round_robin s = (if ?sl \<noteq> 0 \<and> ?f e = ?f (nxt ?h e) \<and> e \<noteq> nxt ?h e \<and>
        word_of_int (g_s64OsTicks s) mod ?sl = 0 then tick_rotate s else Some s)"
      using ev nv unfolding tick_round_robin_def e [symmetric] by (simp add: rd_valid heap_simps)
    moreover have "(?sl \<noteq> 0 \<and> ?f e = ?f (nxt ?h e) \<and> e \<noteq> nxt ?h e \<and>
        word_of_int (g_s64OsTicks s) mod ?sl = 0) = rr_turn ?sl (g_s64OsTicks s) ?f e xs"
      unfolding rr_turn_def turn [symmetric] by argo
    ultimately show ?thesis by simp
  qed
  show ?thesis
  proof (cases "rr_turn ?sl (g_s64OsTicks s) ?f e xs")
    case False
    then show ?thesis using go K by (simp add: rr_list_def)
  next
    case True
    then obtain z where z: "z \<in> set xs" "z \<noteq> e" "?f z = ?f e" by (auto simp: rr_turn_def list_ex_iff)
    then have zb: "z \<in> set bs" using xs as by force
    then have bne: "bs \<noteq> []" and lst: "last xs = last bs" using xs by auto
    have "last bs \<in> set bs" using bne by simp
    then have "last bs \<noteq> e" using d xs by auto
    then have lt: "?f e < ?f (last bs)" using low lst by simp
    let ?P = "\<lambda>y. ?f y \<le> ?f e"
    have "dropWhile ?P bs \<noteq> []" using lt \<open>last bs \<in> set bs\<close> unfolding dropWhile_eq_Nil_conv by (meson not_le)
    then obtain n rest where nr: "dropWhile ?P bs = n # rest" by (cases "dropWhile ?P bs") auto
    have fn: "?f e < ?f n" using hd_dropWhile [of ?P bs] nr by simp
    have ge: "?f e \<le> ?f b" if "b \<in> set bs" for b using R(3) xs that by (auto simp: sorted_append)
    have eqs: "?f b = ?f e" if "b \<in> set (takeWhile ?P bs)" for b
      using that ge [of b] by (auto dest!: set_takeWhileD)
    have "z \<in> set (takeWhile ?P bs)"
    proof (rule ccontr)
      assume "z \<notin> set (takeWhile ?P bs)"
      then have "z \<in> set (n # rest)" using zb nr takeWhile_dropWhile_id [of ?P bs] by (metis Un_iff set_append)
      moreover have "sorted (map ?f (takeWhile ?P bs @ n # rest))"
        using R(3) xs nr takeWhile_dropWhile_id [of ?P bs] by (auto simp: sorted_append)
      ultimately have "?f n \<le> ?f z" by (auto simp: sorted_append)
      then show False using fn z(3) by simp
    qed
    then obtain y mid where ym: "takeWhile ?P bs = y # mid" by (cases "takeWhile ?P bs") auto
    have bs: "bs = y # mid @ n # rest" using ym nr takeWhile_dropWhile_id [of ?P bs] by simp
    have lead: "as = [] \<or> ?f (last as) \<noteq> ?f e" using as [of "last as"] by auto
    have r: "ready s (as @ e # y # mid @ n # rest)" using kinvD(1) [OF K] xs bs by simp
    have eqs': "?f b = ?f e" if "b \<in> set (y # mid)" for b using eqs [of b] that unfolding ym by simp
    obtain h r' where
      rot: "tick_rotate s = Some (s\<lparr>ecbs := h, g_ptEventReady := r'\<rparr>)"
      and rk: "ready_ok (cfgEventLimit s) h r' (as @ y # mid @ e # n # rest)"
      and l: "links_only (set (as @ e # y # mid @ n # rest)) ?h h"
      using tick_rotate_ready [OF r e eqs' fn lead] by blast
    have new: "rr_list ?sl (g_s64OsTicks s) ?f e xs = as @ y # mid @ e # n # rest"
    proof -
      have "e \<notin> set as" using d xs by simp
      then have rm: "remove1 e xs = (as @ y # mid) @ n # rest" by (simp add: xs bs remove1_append)
      have "?P b" if "b \<in> set (as @ y # mid)" for b
        using that less_imp_le [OF as, of b] eq_refl [OF eqs', of b] by auto
      then have "takeWhile ?P ((as @ y # mid) @ n # rest) = as @ y # mid"
        "dropWhile ?P ((as @ y # mid) @ n # rest) = n # rest"
        using fn by (auto simp: takeWhile_append dropWhile_append simp del: append_assoc)
      then show ?thesis using True unfolding rr_list_def rm prio_insert_def ins_by_def by simp
    qed
    have "kinv (s\<lparr>ecbs := h, g_ptEventReady := r'\<rparr>) (as @ y # mid @ e # n # rest) ds Q"
    proof (rule kinv_ready_step [OF K l _ _ rk])
      show "set (as @ e # y # mid @ n # rest) \<inter> set ds = {}" using kinvD(5) [OF K] xs bs by simp
      show "set (as @ e # y # mid @ n # rest) \<inter> set (Q q) = {}" for q
        using ready_not_blocked [OF K] xs bs by auto
      show "set (as @ y # mid @ e # n # rest) \<inter> set ds = {}" using kinvD(5) [OF K] xs bs by auto
    qed (use kinvD(6,7) [OF K] xs bs in auto)
    then show ?thesis using go True rot new kframe_links(2) [OF l] links_only_fields(5) [OF l] by auto
  qed
qed

lemma last_fold_prio:
  assumes "\<And>y. y \<in> set D \<Longrightarrow> f y < f (last xs)" and "xs \<noteq> []"
  shows "last (fold (prio_insert f) D xs) = last xs"
  using assms
proof (induction D arbitrary: xs)
  case (Cons x D)
  have l: "last (prio_insert f x xs) = last xs" using Cons.prems by (simp add: last_prio_insert)
  have ne: "prio_insert f x xs \<noteq> []" by (simp add: prio_insert_def)
  show ?case using Cons.IH [of "prio_insert f x xs"] Cons.prems(1) l ne by simp
qed simp

text \<open>The loop of the tick with its test for an empty delay queue.\<close>

lemma kinv_tick_loop:
  assumes K: "kinv s xs ds Q" and low: "\<And>y. y \<in> set ds \<Longrightarrow> pri (ecbs s) y < pri (ecbs s) (last xs)"
  defines "D \<equiv> takeWhile (\<lambda>y. due (ecbs s) y \<le> g_s64OsTicks s) ds"
  shows "\<exists>s'. (if g_ptEventDelay s \<noteq> NULL then tick_expire (g_ptEventDelay s) s else Some s) = Some s' \<and>
    kinv s' (fold (prio_insert (pri (ecbs s))) D xs) (dropWhile (\<lambda>y. due (ecbs s) y \<le> g_s64OsTicks s) ds)
      (\<lambda>q. filter (\<lambda>y. y \<notin> set D) (Q q)) \<and> kframe s s' \<and> (\<forall>y \<in> set D. wkf (ecbs s') y = sts (ecbs s) y)"
proof (cases "ds = []")
  case True
  then show ?thesis using kinvD(2) [OF K] K by (simp add: delay_ok_def D_def)
next
  case False
  then have hd: "g_ptEventDelay s = hd ds" "hd ds \<in> set ds" using kinvD(2) [OF K] by (auto simp: delay_ok_def)
  then have "g_ptEventDelay s \<noteq> NULL" using kinvD(11) [OF K hd(2)] vptrD by auto
  then show ?thesis using kinv_tick_expire [OF K False] low hd by (auto simp: D_def)
qed

text \<open>The whole interrupt.\<close>

lemma IsrTick_effect:
  fixes n :: u32
  assumes "kinv s xs ds Q" and "g_ptEventRunning s = hd xs"
    and "\<forall>y \<in> set ds. pri (ecbs s) y < pri (ecbs s) (last xs)"
    and "hd xs = last xs \<or> pri (ecbs s) (hd xs) < pri (ecbs s) (last xs)"
  defines "now \<equiv> g_s64OsTicks s + uint n"
  defines "D \<equiv> takeWhile (\<lambda>y. due (ecbs s) y \<le> now) ds"
  shows "\<exists>s'. Djy_IsrTick n s = Some s' \<and>
    kinv s' (rr_list (s_u32RRS_Slice s) now (pri (ecbs s)) (hd xs) (fold (prio_insert (pri (ecbs s))) D xs))
      (dropWhile (\<lambda>y. due (ecbs s) y \<le> now) ds) (\<lambda>q. filter (\<lambda>y. y \<notin> set D) (Q q)) \<and>
    kframe (kcall_out Call_MaintainSysTime (s\<lparr>g_s64OsTicks := now\<rparr>)) s' \<and>
    (\<forall>y \<in> set D. wakeup_from (ecbs s' y) = event_status (ecbs s y))"
proof -
  let ?f = "pri (ecbs s)"
  define s0 where "s0 = kcall_out Call_MaintainSysTime (s\<lparr>g_s64OsTicks := now\<rparr>)"
  have K0: "kinv s0 xs ds Q" using assms(1) kinv_view [of s0 s] by (simp add: s0_def kcall_out_def)
  have e0: "ecbs s0 = ecbs s" "g_s64OsTicks s0 = now" "g_ptEventDelay s0 = g_ptEventDelay s" by (simp_all add: s0_def kcall_out_def)
  have xs: "xs \<noteq> []" using ready_okD(7) [OF kinvD(1) [OF assms(1)]] .
  from kinv_tick_loop [OF K0] assms(3) obtain s1 where
    s1: "(if g_ptEventDelay s0 \<noteq> NULL then tick_expire (g_ptEventDelay s0) s0 else Some s0) = Some s1"
      "kinv s1 (fold (prio_insert ?f) D xs) (dropWhile (\<lambda>y. due (ecbs s) y \<le> now) ds)
         (\<lambda>q. filter (\<lambda>y. y \<notin> set D) (Q q))" "kframe s0 s1" "\<And>y. y \<in> set D \<Longrightarrow> wkf (ecbs s1) y = sts (ecbs s) y"
    by (auto simp: e0 D_def)
  note F1 = kframe_fields [OF s1(3)] kframe_ecb(6) [OF s1(3)]
  have last: "last (fold (prio_insert ?f) D xs) = last xs"
    using assms(3) xs by (intro last_fold_prio) (auto simp: D_def dest: set_takeWhileD)
  have "first_of ?f (hd xs) (fold (prio_insert ?f) D xs)" by (intro first_of_fold first_of_hd xs)
  from kinv_round_robin [OF s1(2), of "hd xs"] this last assms(2,4) F1 obtain s2 where
    s2: "tick_round_robin s1 = Some s2" "kinv s2 (rr_list (s_u32RRS_Slice s) now ?f (hd xs) (fold (prio_insert ?f) D xs))
       (dropWhile (\<lambda>y. due (ecbs s) y \<le> now) ds) (\<lambda>q. filter (\<lambda>y. y \<notin> set D) (Q q))" "kframe s1 s2"
      "wkf (ecbs s2) = wkf (ecbs s1)"
    by (auto simp: s0_def kcall_out_def)
  have "kframe s0 s2" using s1(3) s2(3) kframe_trans by blast
  then have "kframe (kcall_out Call_MaintainSysTime (s\<lparr>g_s64OsTicks := now\<rparr>)) s2" by (simp add: s0_def)
  moreover have "Djy_IsrTick n s = do {
      s \<leftarrow> (if g_ptEventDelay s0 \<noteq> NULL then tick_expire (g_ptEventDelay s0) s0 else Some s0);
      tick_round_robin s }"
    unfolding Djy_IsrTick_def Let_def now_def [symmetric] s0_def [symmetric] ..
  then have "Djy_IsrTick n s = Some s2" using s1(1) s2(1) by simp
  moreover have "wakeup_from (ecbs s2 y) = event_status (ecbs s y)" if "y \<in> set D" for y
    using s1(4) [OF that] fun_cong [OF s2(4), of y] by (simp add: wkf_def sts_def)
  ultimately show ?thesis using s2(2) by auto
qed

end
