(* ===== verification/Samples.thy ===== *)
theory Samples
  imports Tick
begin

text \<open>
  A concrete kernel state on which the theorems are applied.  Four events: the service event
  0 (priority 250), the running event 1 and the ready event 3 (priority 100), and event 2
  (priority 60), blocked on semaphore 0 with a timeout that ends at tick 5.  Semaphore 1 has two
  lamps.  Event 1 owns mutex 0.
\<close>

definition sample_ecb :: "nat \<Rightarrow> EventECB" where
  "sample_ecb i = \<lparr>
     ecb_next = (if i = 1 then Ecb 3 else if i = 3 then Ecb 0 else if i = 0 then Ecb 1 else Ecb 2),
     ecb_previous = (if i = 1 then Ecb 0 else if i = 3 then Ecb 1 else if i = 0 then Ecb 3 else Ecb 2),
     multi_next = (if i = 1 then Ecb 0 else if i = 0 then Ecb 1 else if i = 2 then Ecb 2 else NULL),
     multi_previous = (if i = 1 then Ecb 0 else if i = 0 then Ecb 1 else if i = 2 then Ecb 2 else NULL),
     ecb_vm = Some i, param1 = 0, param2 = 0, ecb_sync = NULL,
     sync_head = (if i = 2 then H_Semp 0 else NULLH), EventStartTime = 0, consumed_time = 0,
     consumed_time_second = 0, consumed_time_record = 0, delay_start_tick = 0,
     delay_end_tick = (if i = 2 then 5 else 0), error_no = 0, event_result = 0, wait_mem_size = 0,
     wakeup_from = 0,
     event_status = (if i = 2 then CN_STS_WAIT_SEMP + CN_STS_SYNC_TIMEOUT else CN_STS_EVENT_READY),
     prio_base = (if i = 0 then 250 else if i = 2 then 60 else 100),
     prio = (if i = 0 then 250 else if i = 2 then 60 else 100),
     evtt_id = CN_EVTT_ID_BASE + (if i = 0 then 0 else 1), sync_counter = 0, event_id = of_nat i,
     local_memory = 0\<rparr>"

definition sample_evtt :: "nat \<Rightarrow> EventType" where
  "sample_evtt i = \<lparr>correlative = (if i = 0 then EN_CORRELATIVE else EN_INDEPENDENCE), registered = True,
     inuse = True, deleting = False, my_free_vm = None, SchHook = 0, evtt_name = [],
     default_prio = (if i = 0 then 250 else 100), events = 1, vpus_res = 0, vpus_limit = 8, vpus = 1,
     thread_routine = 0, stack_size = 512, pop_times = 0, mark_event = NULL, done_sync = NULL,
     pop_sync = NULL\<rparr>"

definition sample :: kst where
  "sample = \<lparr>ecbs = (\<lambda>p. case p of Ecb i \<Rightarrow> sample_ecb i | _ \<Rightarrow> sample_ecb 9),
     evtts = sample_evtt, vms = (\<lambda>i. Some \<lparr>vm_next = None, vm_stack_size = 512\<rparr>),
     semps = (\<lambda>i. \<lparr>sync_order = CN_BLOCK_PRIO, lamps_limit = 3,
                lamp_counter = (if i = 1 then 2 else 0), semp_sync = (if i = 0 then Ecb 2 else NULL)\<rparr>),
     mutexes = (\<lambda>i. if i = 0 then \<lparr>enable = 1, owner = Ecb 1, mutex_sync = NULL\<rparr>
                  else \<lparr>enable = 0, owner = NULL, mutex_sync = NULL\<rparr>),
     s_ptEventFree = NULL, g_ptEventReady = Ecb 1, g_ptEventRunning = Ecb 1, g_ptEventDelay = Ecb 2,
     s_ptMemSync = NULL, s_u32RRS_Slice = 1, g_s64RunningStartTime = 0, g_s64OsTicks = 3,
     g_bScheduleEnable = True, g_bMultiEventStarted = True, nest_asyn_signal = 0,
     en_asyn_signal_counter = 0, asyn_signal_open = True, cfgEventLimit = 4, cfgEvttLimit = 2,
     cfgTickUs = 1000, systime = 0, vm_supply = [], kcalls = []\<rparr>"

definition sample_ready :: "eptr list" where
  "sample_ready = [Ecb 1, Ecb 3, Ecb 0]"

definition sample_blocks :: "headp \<Rightarrow> eptr list" where
  "sample_blocks q = (if q = H_Semp 0 then [Ecb 2] else [])"

lemmas field_defs = nxt_def prv_def mnx_def mpv_def pri_def sts_def shd_def due_def wkf_def

lemma sample_fields [simp]:
  "cfgEventLimit sample = 4" "cfgEvttLimit sample = 2" "g_ptEventReady sample = Ecb 1"
  "g_ptEventRunning sample = Ecb 1" "g_ptEventDelay sample = Ecb 2" "g_s64OsTicks sample = 3"
  "s_u32RRS_Slice sample = 1" "cfgTickUs sample = 1000" "nest_asyn_signal sample = 0"
  "en_asyn_signal_counter sample = 0" "g_bScheduleEnable sample"
  "ecbs sample (Ecb i) = sample_ecb i" "evtts sample i = sample_evtt i"
  "semps sample i = \<lparr>sync_order = CN_BLOCK_PRIO, lamps_limit = 3, lamp_counter = (if i = 1 then 2 else 0),
     semp_sync = (if i = 0 then Ecb 2 else NULL)\<rparr>"
  "mutexes sample i = (if i = 0 then \<lparr>enable = 1, owner = Ecb 1, mutex_sync = NULL\<rparr>
     else \<lparr>enable = 0, owner = NULL, mutex_sync = NULL\<rparr>)"
  by (simp_all add: sample_def)

lemma sample_kinv: "kinv sample sample_ready [Ecb 2] sample_blocks"
proof -
  have r: "ready sample sample_ready"
    by (auto simp: ready_ok_def sample_ready_def dring_Cons field_defs sample_ecb_def)
  have d: "delay_ok 4 (ecbs sample) (Ecb 2) [Ecb 2]"
    by (simp add: delay_ok_def dring_single field_defs sample_ecb_def)
  have q: "if hvalid q sample then block_ok 4 (ecbs sample) q (hdval q sample) (sample_blocks q)
      else sample_blocks q = []" for q
    by (cases q) (auto simp: hvalid_def hdval_def block_ok_def sample_blocks_def dring_single field_defs
        sample_ecb_def sample_def sample_evtt_def)
  have s: "set sample_ready \<inter> set [Ecb 2] = {}"
    "\<forall>x \<in> set sample_ready. shd (ecbs sample) x = NULLH \<and> sts (ecbs sample) x = CN_STS_EVENT_READY"
    "\<forall>x \<in> set [Ecb 2]. shd (ecbs sample) x = NULLH \<or> x \<in> set (sample_blocks (shd (ecbs sample) x))"
    "\<forall>q. \<forall>x \<in> set (sample_blocks q). has_flag (sts (ecbs sample) x) CN_STS_SYNC_TIMEOUT \<longleftrightarrow> x \<in> set [Ecb 2]"
    by (auto simp: sample_ready_def sample_blocks_def field_defs sample_ecb_def has_flag_def)
  show ?thesis unfolding kinv_def using r d q s by simp
qed

end
