(* ===== verification/Event.thy ===== *)
theory Event
  imports Sched
begin

text \<open>
  Event types and events (\<open>djyos/core/djyos.c\<close>): registration, initialisation, the delays,
  the synchronisation calls, \<open>Djy_EventPop\<close> and the end of an event.
\<close>

section \<open>Event types\<close>

text \<open>
  \<open>Stack\<close>: the block that the port's \<open>__CreateStaticThread\<close> makes out of the caller's memory,
  with the stack size it computes.
\<close>

definition CreateStaticThread :: "nat \<times> u32 \<Rightarrow> kst \<Rightarrow> nat option \<times> kst" where
  "CreateStaticThread Stack s =
     (Some (fst Stack), s\<lparr>vms := (vms s)(fst Stack \<mapsto> \<lparr>vm_next = None, vm_stack_size = snd Stack\<rparr>)\<rparr>)"

definition registered_name :: "string \<Rightarrow> nat \<Rightarrow> kst \<Rightarrow> bool" where
  "registered_name name i s \<longleftrightarrow> registered (evtts s i) \<and> evtt_name (evtts s i) = name"

text \<open>\<open>NULL_func\<close>.\<close>

definition NULL_func :: nat where
  "NULL_func = 0"

definition evtt_id_of :: "nat \<Rightarrow> u16" where
  "evtt_id_of i = of_nat i OR CN_EVTT_ID_MASK"

text \<open>
  \<open>strcat(ExpStr, evtt_name)\<close> onto a text of \<open>used\<close> bytes in the local array \<open>char ExpStr[64]\<close>:
  a type without a name, or one whose name does not fit, is an invalid access.
\<close>

definition ExpStr_fits :: "nat \<Rightarrow> string option \<Rightarrow> bool" where
  "ExpStr_fits used name = (case name of None \<Rightarrow> False | Some n \<Rightarrow> used + length n < 64)"

definition evtt_reject :: "u32 \<Rightarrow> kst \<Rightarrow> (u16 \<times> kst) option" where
  "evtt_reject err s = do {
     s \<leftarrow> Djy_SaveLastError err s;
     s \<leftarrow> Int_RestoreAsynSignal s;
     Some (CN_EVTT_ID_INVALID, s) }"

definition Djy_EvttRegist :: "enEventRelation \<Rightarrow> u32 \<Rightarrow> u16 \<Rightarrow> u16 \<Rightarrow> nat \<Rightarrow> (nat \<times> u32) option
    \<Rightarrow> u32 \<Rightarrow> string option \<Rightarrow> kst \<Rightarrow> (u16 \<times> kst) option" where
  "Djy_EvttRegist relation dprio res limit routine Stack StackSize name s =
     (if dprio \<ge> CN_PRIO_SYS_SERVICE \<or> dprio = 0 then do {
        s \<leftarrow> Djy_SaveLastError EN_KNL_INVALID_PRIO s;
        Some (CN_EVTT_ID_INVALID, s) }
      else
        let s = Int_SaveAsynSignal s in
        case List.find (\<lambda>i. \<not> registered (evtts s i)) [0..<cfgEvttLimit s] of
          None \<Rightarrow>
            if \<not> ExpStr_fits 20 name then None
            else evtt_reject EN_KNL_ETCB_EXHAUSTED (kcall_out (Call_Exp_Throw CN_EXP_TYPE_ETCB_EXHAUSTED) s)
        | Some i \<Rightarrow>
            if (case name of None \<Rightarrow> False
                | Some n \<Rightarrow> list_ex (\<lambda>j. registered_name n j s) [0..<cfgEvttLimit s])
            then evtt_reject EN_KNL_EVTT_HOMONYMY s
            else do {
              s \<leftarrow> wrt (\<lambda>t. t\<lparr>evtt_name := (case name of None \<Rightarrow> [] | Some n \<Rightarrow> take 31 n),
                       default_prio := dprio, events := 0, vpus_limit := limit,
                       vpus_res := (if relation = EN_INDEPENDENCE
                                    then if res = 0 \<and> dprio < 0x80 then 1 else res else 0),
                       SchHook := NULL_func, thread_routine := routine, stack_size := StackSize,
                       mark_event := NULL, done_sync := NULL, pop_sync := NULL, vpus := 0\<rparr>) i s;
              (ok, s) \<leftarrow> (case Stack of
                  Some st \<Rightarrow> let (v, s) = CreateStaticThread st s
                             in map_option (Pair True) (wrt (\<lambda>t. t\<lparr>my_free_vm := v\<rparr>) i s)
                | None \<Rightarrow>
                    if dprio < 0x80 then do {
                      (v, temp, s) \<leftarrow> CreateThread i s;
                      s \<leftarrow> wrt (\<lambda>t. t\<lparr>my_free_vm := v\<rparr>) i s;
                      if v = None then
                        if \<not> ExpStr_fits 24 name then None
                        else Some (False, kcall_out (Call_Exp_Throw CN_EXP_TYPE_MEM_EVTT) s)
                      else map_option (Pair True) (wrt (\<lambda>t. t\<lparr>vpus := 1\<rparr>) i s) }
                    else map_option (Pair True) (wrt (\<lambda>t. t\<lparr>my_free_vm := None\<rparr>) i s));
              if \<not> ok then evtt_reject EN_MEM_TRIED s
              else do {
                s \<leftarrow> wrt (\<lambda>t. t\<lparr>correlative := relation, registered := True, inuse := False,
                                  deleting := False, pop_times := 0\<rparr>) i s;
                s \<leftarrow> Int_RestoreAsynSignal s;
                Some (evtt_id_of i, s) } })"

text \<open>
  \<open>EvttID - CN_EVTT_ID_BASE >= gc_u32CfgEvttLimit\<close> is computed in 32 bits: an id below the
  base is a huge index and is refused.
\<close>

definition Djy_RegisterHook :: "u16 \<Rightarrow> nat \<Rightarrow> kst \<Rightarrow> (bool \<times> kst) option" where
  "Djy_RegisterHook EvttID HookFunc s = do {
     let i = unat (ucast EvttID - ucast CN_EVTT_ID_BASE :: u32);
     if i \<ge> cfgEvttLimit s then Some (False, s)
     else do {
       s \<leftarrow> wrt (\<lambda>t. t\<lparr>SchHook := HookFunc\<rparr>) i s;
       Some (True, s) } }"

definition Djy_GetEvttId :: "string option \<Rightarrow> kst \<Rightarrow> u16" where
  "Djy_GetEvttId name s = (case name of
       None \<Rightarrow> CN_EVTT_ID_INVALID
     | Some n \<Rightarrow> (case List.find (\<lambda>i. registered_name n i s) [0..<cfgEvttLimit s] of
           None \<Rightarrow> CN_EVTT_ID_INVALID
         | Some i \<Rightarrow> evtt_id_of i))"

text \<open>Releasing the idle threads of an event type.\<close>

partial_function (option) free_vms :: "nat option \<Rightarrow> kst \<Rightarrow> kst option" where
  "free_vms next_vm s = (case next_vm of
       None \<Rightarrow> Some s
     | Some v \<Rightarrow> do {
         n \<leftarrow> rdv vm_next (Some v) s;
         free_vms n (kcall_out (Call_free v) (s\<lparr>vms := (vms s)(v := None)\<rparr>)) })"

text \<open>
  The loop of \<open>Djy_EvttUnregist\<close> over \<open>pop_sync\<close>; its end is recognised by comparing with
  \<open>done_sync\<close>, as in the code.
\<close>

partial_function (option) unregist_wake :: "nat \<Rightarrow> eptr \<Rightarrow> kst \<Rightarrow> kst option" where
  "unregist_wake i pl_ecb s = (if pl_ecb = NULL then Some s else do {
     s \<leftarrow> resume_timeout pl_ecb s;
     s \<leftarrow> wake_up CN_WF_EVTT_DELETED pl_ecb s;
     mn \<leftarrow> rd multi_next pl_ecb s;
     d \<leftarrow> rdt done_sync i s;
     s \<leftarrow> (if mn = d then wrt (\<lambda>t. t\<lparr>pop_sync := NULL\<rparr>) i s else Some s);
     s \<leftarrow> Djy_EventReady pl_ecb s;
     unregist_wake i (if mn = d then NULL else mn) s })"

definition unregister_type :: "nat \<Rightarrow> kst \<Rightarrow> kst option" where
  "unregister_type i s = do {
     v \<leftarrow> rdt my_free_vm i s;
     s \<leftarrow> wrt (\<lambda>t. t\<lparr>registered := False, evtt_name := []\<rparr>) i s;
     free_vms v s }"

definition Djy_EvttUnregist :: "u16 \<Rightarrow> kst \<Rightarrow> (bool \<times> kst) option" where
  "Djy_EvttUnregist et_id s =
     (if evtt_index et_id \<ge> cfgEvttLimit s then Some (False, s)
      else do {
        let i = evtt_index et_id;
        let s = Int_SaveAsynSignal s;
        result \<leftarrow> rdt registered i s;
        p \<leftarrow> rdt pop_sync i s;
        s \<leftarrow> unregist_wake i p s;
        u \<leftarrow> rdt inuse i s;
        s \<leftarrow> (if u then wrt (\<lambda>t. t\<lparr>deleting := True\<rparr>) i s else unregister_type i s);
        s \<leftarrow> Int_RestoreAsynSignal s;
        Some (result, s) })"

section \<open>Initialisation and start\<close>

definition cn_sys_event :: EventECB where
  "cn_sys_event = \<lparr>ecb_next = NULL, ecb_previous = NULL, multi_next = NULL, multi_previous = NULL,
     ecb_vm = None, param1 = 0, param2 = 0, ecb_sync = NULL, sync_head = NULLH, EventStartTime = 0,
     consumed_time = 0, consumed_time_second = 0, consumed_time_record = 0, delay_start_tick = 0,
     delay_end_tick = 0, error_no = EN_KNL_NO_ERROR, event_result = 0, wait_mem_size = 0,
     wakeup_from = CN_WF_EVENT_NORUN, event_status = CN_STS_EVENT_READY,
     prio_base = CN_PRIO_SYS_SERVICE, prio = CN_PRIO_SYS_SERVICE, evtt_id = CN_EVTT_ID_BASE,
     sync_counter = 0, event_id = 0, local_memory = 0\<rparr>"

definition init_ecb :: "nat \<Rightarrow> kst \<Rightarrow> kst option" where
  "init_ecb i s = wr (\<lambda>e. e\<lparr>
     ecb_next := (if i = cfgEventLimit s - 1 then NULL else Ecb (i + 1)),
     ecb_previous := FREE_ANCHOR, event_id := of_nat i, evtt_id := CN_EVENT_ID_INVALID\<rparr>) (Ecb i) s"

text \<open>
  The two tables have been allocated; \<open>routine\<close> is the address of \<open>__Djy_Service\<close>, \<open>IdleStack\<close>
  the thread the port makes of the allocated stack.
\<close>

definition Djy_InitSys :: "nat \<Rightarrow> u32 \<Rightarrow> nat \<times> u32 \<Rightarrow> kst \<Rightarrow> kst option" where
  "Djy_InitSys routine IdleStackSize IdleStack s = do {
     let s = s\<lparr>g_ptEventDelay := NULL\<rparr>;
     s \<leftarrow> for_each [1..<cfgEvttLimit s] (wrt (\<lambda>t. t\<lparr>registered := False\<rparr>)) s;
     s \<leftarrow> for_each [1..<cfgEventLimit s] init_ecb s;
     let s = s\<lparr>s_ptEventFree := Ecb 1, g_ptEventReady := Ecb 0, g_ptEventRunning := Ecb 0\<rparr>;
     s \<leftarrow> wrt (\<lambda>t. t\<lparr>correlative := EN_CORRELATIVE, registered := True, inuse := True,
              deleting := False, my_free_vm := None, SchHook := NULL_func, evtt_name := ''sys_idle'',
              default_prio := CN_PRIO_SYS_SERVICE, events := 1, vpus_res := 0, vpus_limit := 1,
              vpus := 1, thread_routine := routine, stack_size := IdleStackSize,
              mark_event := Ecb 0, done_sync := NULL, pop_sync := NULL\<rparr>) 0 s;
     let (vm, s) = CreateStaticThread IdleStack s;
     if vm = None then wrt (\<lambda>t. t\<lparr>vpus := 0\<rparr>) 0 s
     else wr (\<lambda>e. cn_sys_event\<lparr>ecb_vm := vm, ecb_next := Ecb 0, ecb_previous := Ecb 0,
                    multi_next := Ecb 0, multi_previous := Ecb 0\<rparr>) (Ecb 0) s }"

definition Djy_StartOs :: "kst \<Rightarrow> kst option" where
  "Djy_StartOs s = do {
     let s = Int_ResetAsynSignal s;
     let s = kcall_out Call_InitTick s;
     s \<leftarrow> Djy_SelectEventToRun s;
     let s = s\<lparr>g_ptEventRunning := g_ptEventReady s, g_bScheduleEnable := True,
               g_bMultiEventStarted := True\<rparr>;
     let s = Int_HalfEnableAsynSignal s;
     v \<leftarrow> rd ecb_vm (g_ptEventRunning s) s;
     Some (Int_ContactAsynSignal (kcall_out (Call_start_thread v) s)) }"

section \<open>Delays\<close>

definition Djy_DelayUs :: "u32 \<Rightarrow> kst \<Rightarrow> kst" where
  "Djy_DelayUs time s = kcall_out (Call_DelayUs time) s"

definition Djy_EventDelay :: "u32 \<Rightarrow> kst \<Rightarrow> ((u32, unit) call \<times> kst) option" where
  "Djy_EventDelay u32l_uS s =
     (if \<not> Djy_QuerySch s then Some (Return u32l_uS, Djy_DelayUs u32l_uS s)
      else do {
        let s = Int_SaveAsynSignal s;
        let run = g_ptEventRunning s;
        if u32l_uS = 0 then do {
          k \<leftarrow> rd prio run s;
          nx \<leftarrow> rd ecb_next run s;
          nk \<leftarrow> rd prio nx s;
          if k = nk \<and> run \<noteq> nx then do {
            s \<leftarrow> wr (\<lambda>e. e\<lparr>delay_start_tick := DjyGetSysTick s\<rparr>) run s;
            s \<leftarrow> Djy_CutReadyEvent run s;
            s \<leftarrow> Djy_EventReady run s;
            s \<leftarrow> Int_RestoreAsynSignal s;
            Some (Block (), s) }
          else do { s \<leftarrow> Int_RestoreAsynSignal s; Some (Return 0, s) } }
        else do {
          s \<leftarrow> set_delay u32l_uS s;
          s \<leftarrow> Djy_CutReadyEvent run s;
          s \<leftarrow> wr (\<lambda>e. e\<lparr>event_status := CN_STS_EVENT_DELAY\<rparr>) run s;
          s \<leftarrow> delay_insert s;
          s \<leftarrow> Int_RestoreAsynSignal s;
          Some (Block (), s) } })"

definition Djy_EventDelay_resume :: "kst \<Rightarrow> u32 option" where
  "Djy_EventDelay_resume s = do {
     t \<leftarrow> rd delay_start_tick (g_ptEventRunning s) s;
     Some (word_of_int ((DjyGetSysTick s - t) * uint (cfgTickUs s))) }"

definition Djy_EventDelayTo :: "s64 \<Rightarrow> kst \<Rightarrow> ((u32, unit) call \<times> kst) option" where
  "Djy_EventDelayTo s64l_uS s =
     (if \<not> Djy_QuerySch s
      then Some (Return 0, Djy_DelayUs (word_of_int (s64l_uS - kernel_time s)) s)
      else do {
        let s = Int_SaveAsynSignal s;
        let run = g_ptEventRunning s;
        let t = us_to_ticks s s64l_uS;
        s \<leftarrow> wr (\<lambda>e. e\<lparr>delay_start_tick := DjyGetSysTick s, delay_end_tick := t\<rparr>) run s;
        if t \<le> DjyGetSysTick s then do { s \<leftarrow> Int_RestoreAsynSignal s; Some (Return 0, s) }
        else do {
          s \<leftarrow> Djy_CutReadyEvent run s;
          s \<leftarrow> wr (\<lambda>e. e\<lparr>event_status := CN_STS_EVENT_DELAY\<rparr>) run s;
          s \<leftarrow> delay_insert s;
          s \<leftarrow> Int_RestoreAsynSignal s;
          Some (Block (), s) } })"

end
