(* ===== verification/EvPop.thy ===== *)
theory EvPop
  imports Event
begin

text \<open>
  Synchronisation with events and event types, \<open>Djy_EventPop\<close>, and the end of an event
  (\<open>Djy_EventSessionComplete\<close>, \<open>Djy_EventComplete\<close>, \<open>Djy_EventExit\<close>) of
  \<open>djyos/core/djyos.c\<close>, and the small queries at the end of that file.  A call that blocks
  is split at \<open>Int_RestoreAsynSignal\<close>: what follows is the definition \<open>..._resume\<close>, evaluated
  in the state in which the caller runs again.
\<close>

section \<open>Waiting\<close>

definition ecb_sync_head :: "eptr \<Rightarrow> headp" where
  "ecb_sync_head p = (case p of Ecb i \<Rightarrow> H_Sync i | _ \<Rightarrow> NULLH)"

definition Djy_WaitEventCompleted :: "u16 \<Rightarrow> u32 \<Rightarrow> kst \<Rightarrow> ((u32, unit) call \<times> kst) option" where
  "Djy_WaitEventCompleted ev_id timeout s = do {
     let pl_ecb = ecb_at ev_id;
     let run = g_ptEventRunning s;
     my_id \<leftarrow> rd event_id run s;
     if ev_id = my_id then Some (Return (ucast CN_EVENT_ID_INVALID), s)
     else if \<not> Djy_QuerySch s then Some (Return EN_KNL_CANT_SCHED, s)
     else if timeout = 0 then Some (Return CN_SYNC_TIMEOUT, s)
     else do {
       let s = Int_SaveAsynSignal s;
       pv \<leftarrow> rd ecb_previous pl_ecb s;
       if pv = FREE_ANCHOR then do {
         s \<leftarrow> Int_RestoreAsynSignal s;
         Some (Return EN_KNL_EVENT_FREE, s) }
       else do {
         s \<leftarrow> Djy_CutReadyEvent run s;
         s \<leftarrow> clear_main run s;
         s \<leftarrow> wr (\<lambda>e. e\<lparr>sync_head := ecb_sync_head pl_ecb\<rparr>) run s;
         q \<leftarrow> rd ecb_sync pl_ecb s;
         s \<leftarrow> (if q \<noteq> NULL then ins_multi run q s
              else do {
                s \<leftarrow> wr (\<lambda>e. e\<lparr>ecb_sync := run\<rparr>) pl_ecb s;
                self_multi run s });
         s \<leftarrow> block_status timeout CN_STS_WAIT_EVENT_DONE s;
         s \<leftarrow> Int_RestoreAsynSignal s;
         Some (Block (), s) } } }"

text \<open>The tail that \<open>Djy_WaitEventCompleted\<close> and \<open>Djy_WaitEvttCompleted\<close> share.\<close>

definition wait_result :: "kst \<Rightarrow> u32 option" where
  "wait_result s = do {
     w \<leftarrow> rd wakeup_from (g_ptEventRunning s) s;
     Some (if has_flag w CN_STS_SYNC_TIMEOUT then CN_SYNC_TIMEOUT
           else if has_flag w CN_STS_EVENT_EXP_EXIT then EN_KNL_EVENT_SYNC_EXIT
           else CN_SYNC_SUCCESS) }"

text \<open>Queueing the running event by its counter, ties in front.\<close>

definition counter_insert :: "headp \<Rightarrow> u16 \<Rightarrow> kst \<Rightarrow> kst option" where
  "counter_insert q n s = do {
     let run = g_ptEventRunning s;
     s \<leftarrow> Djy_CutReadyEvent run s;
     s \<leftarrow> clear_main run s;
     s \<leftarrow> wr (\<lambda>e. e\<lparr>sync_counter := n, sync_head := q\<rparr>) run s;
     h \<leftarrow> rd_head q s;
     if h \<noteq> NULL then do {
       pl_ecb \<leftarrow> ring_search multi_next (\<lambda>e. sync_counter e < n) h h s;
       s \<leftarrow> ins_multi run pl_ecb s;
       h \<leftarrow> rd_head q s;
       c \<leftarrow> rd sync_counter h s;
       if c > n then wr_head q run s else Some s }
     else do {
       s \<leftarrow> wr_head q run s;
       self_multi run s } }"

definition Djy_WaitEvttCompleted :: "u16 \<Rightarrow> u16 \<Rightarrow> u32 \<Rightarrow> kst \<Rightarrow> ((u32, unit) call \<times> kst) option" where
  "Djy_WaitEvttCompleted et_id done_times timeout s = do {
     let i = evtt_index et_id;
     if i \<ge> cfgEvttLimit s then Some (Return EN_KNL_EVTTID_LIMIT, s)
     else if \<not> Djy_QuerySch s then Some (Return EN_KNL_CANT_SCHED, s)
     else if timeout = 0 then Some (Return CN_SYNC_TIMEOUT, s)
     else do {
       let s = Int_SaveAsynSignal s;
       if \<not> registered (evtts s i) \<or> deleting (evtts s i) then do {
         s \<leftarrow> Int_RestoreAsynSignal s;
         Some (Return EN_KNL_EVTT_FREE, s) }
       else do {
         s \<leftarrow> counter_insert (H_DoneSync i) done_times s;
         s \<leftarrow> block_status timeout CN_STS_WAIT_EVTT_DONE s;
         s \<leftarrow> Int_RestoreAsynSignal s;
         Some (Block (), s) } } }"

text \<open>
  \<open>base_times\<close> is \<open>NULL\<close> or the count to start from; the result is paired with what the call
  stores back.  \<open>popt\<close> has 32 bits, the counter it is stored in has 16.
\<close>

definition Djy_WaitEvttPop :: "u16 \<Rightarrow> u32 option \<Rightarrow> u32 \<Rightarrow> kst \<Rightarrow> ((u32 \<times> u32 option, unit) call \<times> kst) option" where
  "Djy_WaitEvttPop et_id base_times timeout s = do {
     let i = evtt_index et_id;
     if i \<ge> cfgEvttLimit s then Some (Return (EN_KNL_EVTTID_LIMIT, base_times), s)
     else if \<not> Djy_QuerySch s then Some (Return (CN_SYNC_ERROR, base_times), s)
     else if timeout = 0 then Some (Return (CN_SYNC_TIMEOUT, base_times), s)
     else do {
       let s = Int_SaveAsynSignal s;
       if \<not> registered (evtts s i) \<or> deleting (evtts s i) then do {
         s \<leftarrow> Int_RestoreAsynSignal s;
         Some (Return (CN_SYNC_ERROR, base_times), s) }
       else do {
         let popt = (case base_times of Some b \<Rightarrow> b - pop_times (evtts s i) + 1 | None \<Rightarrow> 1);
         if popt \<ge> 0x80000000 \<or> popt = 0 then do {
           let b = map_option (\<lambda>_. pop_times (evtts s i)) base_times;
           s \<leftarrow> Int_RestoreAsynSignal s;
           Some (Return (CN_SYNC_SUCCESS, b), s) }
         else do {
           s \<leftarrow> counter_insert (H_PopSync i) (ucast popt) s;
           s \<leftarrow> block_status timeout CN_STS_WAIT_EVTT_POP s;
           s \<leftarrow> Int_RestoreAsynSignal s;
           Some (Block (), s) } } } }"

definition Djy_WaitEvttPop_resume :: "u16 \<Rightarrow> u32 option \<Rightarrow> kst \<Rightarrow> (u32 \<times> u32 option) option" where
  "Djy_WaitEvttPop_resume et_id base_times s = do {
     n \<leftarrow> rdt pop_times (evtt_index et_id) s;
     w \<leftarrow> rd wakeup_from (g_ptEventRunning s) s;
     Some (if has_flag w CN_STS_SYNC_TIMEOUT then CN_SYNC_TIMEOUT else CN_SYNC_SUCCESS,
           map_option (\<lambda>_. n) base_times) }"

section \<open>Popping an event\<close>

text \<open>
  An event leaves the queue \<open>q\<close> of its type and becomes ready; the result is the next event
  to look at.  The head pointer is written only when the queue becomes empty.
\<close>

definition sync_release :: "headp \<Rightarrow> u32 \<Rightarrow> eptr \<Rightarrow> kst \<Rightarrow> (eptr \<times> kst) option" where
  "sync_release q why pl_ecb s = do {
     s \<leftarrow> wr (\<lambda>e. e\<lparr>sync_head := NULLH\<rparr>) pl_ecb s;
     s \<leftarrow> resume_timeout pl_ecb s;
     s \<leftarrow> wake_up why pl_ecb s;
     mn \<leftarrow> rd multi_next pl_ecb s;
     if mn = pl_ecb then do {
       s \<leftarrow> wr_head q NULL s;
       s \<leftarrow> Djy_EventReady pl_ecb s;
       Some (NULL, s) }
     else do {
       pv \<leftarrow> rd multi_previous pl_ecb s;
       s \<leftarrow> set_multi_next pv mn s;
       n2 \<leftarrow> rd multi_next pl_ecb s;
       p2 \<leftarrow> rd multi_previous pl_ecb s;
       s \<leftarrow> set_multi_previous n2 p2 s;
       s \<leftarrow> Djy_EventReady pl_ecb s;
       Some (mn, s) } }"

definition pop_step :: "nat \<Rightarrow> u16 \<Rightarrow> eptr \<Rightarrow> kst \<Rightarrow> (eptr \<times> kst) option" where
  "pop_step i hybrid pl_ecb s = do {
     cor \<leftarrow> rdt correlative i s;
     ev \<leftarrow> rd event_id pl_ecb s;
     ty \<leftarrow> rd evtt_id pl_ecb s;
     mn \<leftarrow> rd multi_next pl_ecb s;
     if cor = EN_CORRELATIVE \<or> ev = hybrid \<or> evtt_id_of i \<noteq> ty then do {
       c \<leftarrow> rd sync_counter pl_ecb s;
       if c \<le> 1 then sync_release (H_PopSync i) CN_STS_WAIT_EVTT_POP pl_ecb s
       else do {
         s \<leftarrow> wr (\<lambda>e. e\<lparr>sync_counter := sync_counter e - 1\<rparr>) pl_ecb s;
         Some (mn, s) } }
     else Some (mn, s) }"

partial_function (option) pop_sync_loop :: "nat \<Rightarrow> u16 \<Rightarrow> eptr \<Rightarrow> kst \<Rightarrow> kst option" where
  "pop_sync_loop i hybrid pl_ecb s = do {
     r \<leftarrow> pop_step i hybrid pl_ecb s;
     p \<leftarrow> rdt pop_sync i (snd r);
     if fst r \<noteq> p then pop_sync_loop i hybrid (fst r) (snd r) else Some (snd r) }"

text \<open>A control block from the free list becomes an event of type \<open>i\<close>.\<close>

definition new_event :: "nat \<Rightarrow> u32 \<Rightarrow> u32 \<Rightarrow> u32 \<Rightarrow> kst \<Rightarrow> (eptr \<times> kst) option" where
  "new_event i p1 p2 pr s = do {
     let pl_ecb = s_ptEventFree s;
     nx \<leftarrow> rd ecb_next pl_ecb s;
     let s = s\<lparr>s_ptEventFree := nx\<rparr>;
     s \<leftarrow> wrt (\<lambda>t. t\<lparr>events := events t + 1\<rparr>) i s;
     dp \<leftarrow> rdt default_prio i s;
     let k = (if pr \<noteq> 0 then pr else dp);
     s \<leftarrow> wr (\<lambda>e. e\<lparr>ecb_next := NULL, ecb_previous := NULL, multi_next := NULL,
            multi_previous := NULL, ecb_vm := None, param1 := p1, param2 := p2, ecb_sync := NULL,
            sync_head := NULLH, EventStartTime := kernel_time s, consumed_time := 0,
            consumed_time_second := 0, consumed_time_record := 0, delay_start_tick := 0,
            delay_end_tick := 0, error_no := 0, wait_mem_size := 0,
            wakeup_from := CN_WF_EVENT_NORUN, event_status := CN_STS_EVENT_READY,
            evtt_id := evtt_id_of i, sync_counter := 0, local_memory := 0,
            prio := k, prio_base := k\<rparr>) pl_ecb s;
     s \<leftarrow> wrt (\<lambda>t. t\<lparr>inuse := True\<rparr>) i s;
     c \<leftarrow> rdt correlative i s;
     s \<leftarrow> (if c = EN_CORRELATIVE then wrt (\<lambda>t. t\<lparr>mark_event := pl_ecb\<rparr>) i s else Some s);
     s \<leftarrow> Djy_EventReady pl_ecb s;
     Some (pl_ecb, s) }"

text \<open>
  The result of \<open>Djy_EventPop\<close> is the returned id and what is stored in \<open>*pop_result\<close>, if
  anything.
\<close>

type_synonym pop_ret = "u16 \<times> u32 option"

definition pop_fail :: "u32 \<Rightarrow> kst \<Rightarrow> ((pop_ret, u16) call \<times> kst) option" where
  "pop_fail err s = do {
     s \<leftarrow> Djy_SaveLastError err s;
     Some (Return (CN_EVENT_ID_INVALID, Some err), s) }"

definition pop_finish :: "nat \<Rightarrow> u32 \<Rightarrow> eptr \<Rightarrow> kst \<Rightarrow> ((pop_ret, u16) call \<times> kst) option" where
  "pop_finish i timeout pl_ecb s = do {
     ret \<leftarrow> rd event_id pl_ecb s;
     s \<leftarrow> wrt (\<lambda>t. t\<lparr>pop_times := pop_times t + 1\<rparr>) i s;
     s \<leftarrow> (if timeout \<noteq> 0
          then Djy_AddRunningToBlock (ecb_sync_head pl_ecb) CN_BLOCK_FIFO timeout CN_STS_WAIT_EVENT_DONE s
          else Some s);
     s \<leftarrow> Int_RestoreAsynSignal s;
     Some (if timeout \<noteq> 0 then Block ret else Return (ret, None), s) }"

definition pop_abort :: "u32 \<Rightarrow> kst \<Rightarrow> ((pop_ret, u16) call \<times> kst) option" where
  "pop_abort err s = do {
     r \<leftarrow> pop_fail err s;
     s \<leftarrow> Int_RestoreAsynSignal (snd r);
     Some (fst r, s) }"

definition Djy_EventPop :: "u16 \<Rightarrow> u32 \<Rightarrow> u32 \<Rightarrow> u32 \<Rightarrow> u32 \<Rightarrow> kst \<Rightarrow> ((pop_ret, u16) call \<times> kst) option" where
  "Djy_EventPop hybrid timeout PopPrarm1 PopPrarm2 pr s =
     (if hybrid \<ge> CN_EVTT_ID_BASE \<and> evtt_index hybrid \<ge> cfgEvttLimit s then pop_fail EN_KNL_EVTTID_LIMIT s
      else if hybrid < CN_EVTT_ID_BASE \<and> unat hybrid \<ge> cfgEventLimit s then pop_fail EN_KNL_EVENT_FREE s
      else do {
        i \<leftarrow> (if hybrid \<ge> CN_EVTT_ID_BASE then Some (evtt_index hybrid)
             else map_option evtt_index (rd evtt_id (ecb_at hybrid) s));
        if timeout \<noteq> 0 \<and> \<not> Djy_QuerySch s then pop_fail EN_KNL_CANT_SCHED s
        else do {
          reg \<leftarrow> rdt registered i s;
          del \<leftarrow> rdt deleting i s;
          if \<not> reg \<or> del then pop_fail EN_KNL_EVTT_UNREGISTER s
          else if pr \<ge> CN_PRIO_SYS_SERVICE then pop_fail EN_KNL_INVALID_PRIO s
          else do {
            let s = Int_SaveAsynSignal s;
            p \<leftarrow> rdt pop_sync i s;
            s \<leftarrow> (if p \<noteq> NULL then pop_sync_loop i hybrid p s else Some s);
            u \<leftarrow> rdt inuse i s;
            cor \<leftarrow> rdt correlative i s;
            if \<not> u \<or> (cor = EN_INDEPENDENCE \<and> hybrid AND CN_EVTT_ID_MASK \<noteq> 0) then do {
              v \<leftarrow> rdt vpus i s;
              lim \<leftarrow> rdt vpus_limit i s;
              if s_ptEventFree s = NULL
              then pop_abort EN_KNL_ECB_EXHAUSTED (kcall_out (Call_Exp_Throw CN_EXP_TYPE_ECB_EXHAUSTED) s)
              else if cor = EN_INDEPENDENCE \<and> v > lim then pop_abort EN_KNL_VPU_OVER s
              else do {
                r \<leftarrow> new_event i PopPrarm1 PopPrarm2 pr s;
                pop_finish i timeout (fst r) (snd r) } }
            else do {
              m \<leftarrow> rdt mark_event i s;
              let pl_ecb = (if cor = EN_INDEPENDENCE then ecb_at hybrid else m);
              s \<leftarrow> wr (\<lambda>e. e\<lparr>param1 := PopPrarm1, param2 := PopPrarm2\<rparr>) pl_ecb s;
              pop_finish i timeout pl_ecb s } } } })"

definition Djy_EventPop_resume :: "u16 \<Rightarrow> kst \<Rightarrow> (pop_ret \<times> kst) option" where
  "Djy_EventPop_resume ret s = do {
     w \<leftarrow> rd wakeup_from (g_ptEventRunning s) s;
     s \<leftarrow> Int_RestoreAsynSignal s;
     Some ((ret, Some (if has_flag w CN_STS_SYNC_TIMEOUT then CN_SYNC_TIMEOUT
                       else if has_flag w CN_STS_EVENT_EXP_EXIT then CN_STS_EVENT_EXP_EXIT
                       else CN_SYNC_SUCCESS)), s) }"

section \<open>The end of an event\<close>

text \<open>
  Waking every event of a queue: the ring is opened at its end and walked to \<open>NULL\<close>.
\<close>

partial_function (option) wake_chain :: "u32 \<Rightarrow> u32 \<Rightarrow> eptr \<Rightarrow> kst \<Rightarrow> kst option" where
  "wake_chain result why pl_ecb s = do {
     s \<leftarrow> wr (\<lambda>e. e\<lparr>sync_head := NULLH, event_result := result\<rparr>) pl_ecb s;
     s \<leftarrow> resume_timeout pl_ecb s;
     s \<leftarrow> wake_up why pl_ecb s;
     event_temp \<leftarrow> rd multi_next pl_ecb s;
     s \<leftarrow> Djy_EventReady pl_ecb s;
     if event_temp = NULL then Some s else wake_chain result why event_temp s }"

definition wake_sync :: "u32 \<Rightarrow> u32 \<Rightarrow> eptr \<Rightarrow> kst \<Rightarrow> kst option" where
  "wake_sync result why sync s =
     (if sync = NULL then Some s
      else do {
        pv \<leftarrow> rd multi_previous sync s;
        s \<leftarrow> set_multi_next pv NULL s;
        wake_chain result why sync s })"

definition Djy_ActiveEventSyncExp :: "eptr \<Rightarrow> kst \<Rightarrow> kst option" where
  "Djy_ActiveEventSyncExp sync s = wake_sync 0 CN_STS_EVENT_EXP_EXIT sync s"

definition Djy_EventSessionComplete :: "u32 \<Rightarrow> kst \<Rightarrow> kst option" where
  "Djy_EventSessionComplete result s = do {
     let s = Int_SaveAsynSignal s;
     q \<leftarrow> rd ecb_sync (g_ptEventRunning s) s;
     s \<leftarrow> wake_sync result CN_STS_WAIT_EVENT_DONE q s;
     s \<leftarrow> wr (\<lambda>e. e\<lparr>ecb_sync := NULL\<rparr>) (g_ptEventRunning s) s;
     Int_RestoreAsynSignal s }"

definition done_step :: "nat \<Rightarrow> u32 \<Rightarrow> eptr \<Rightarrow> kst \<Rightarrow> (eptr \<times> kst) option" where
  "done_step i why pl_ecb s = do {
     c \<leftarrow> rd sync_counter pl_ecb s;
     v \<leftarrow> rdt vpus i s;
     if c = 1 \<or> (c = 0 \<and> v = 1) then sync_release (H_DoneSync i) why pl_ecb s
     else do {
       s \<leftarrow> (if c \<noteq> 0 then wr (\<lambda>e. e\<lparr>sync_counter := sync_counter e - 1\<rparr>) pl_ecb s else Some s);
       mn \<leftarrow> rd multi_next pl_ecb s;
       Some (mn, s) } }"

text \<open>One turn around the queue (\<open>do ... while(pl_ecb != pl_evtt->done_sync)\<close>).\<close>

partial_function (option) done_round :: "nat \<Rightarrow> u32 \<Rightarrow> eptr \<Rightarrow> kst \<Rightarrow> (eptr \<times> kst) option" where
  "done_round i why pl_ecb s = do {
     r \<leftarrow> done_step i why pl_ecb s;
     d \<leftarrow> rdt done_sync i (snd r);
     if fst r \<noteq> d then done_round i why (fst r) (snd r) else Some r }"

text \<open>\<open>Djy_EventComplete\<close> repeats the turn while events are left; \<open>Djy_EventExit\<close> does not.\<close>

partial_function (option) done_loop :: "nat \<Rightarrow> u32 \<Rightarrow> eptr \<Rightarrow> kst \<Rightarrow> kst option" where
  "done_loop i why pl_ecb s =
     (if pl_ecb = NULL then Some s
      else do {
        r \<leftarrow> done_round i why pl_ecb s;
        done_loop i why (fst r) (snd r) })"

datatype vm_fate = CN_KEEP | CN_DELETE | CN_DELETED

text \<open>What becomes of the thread, and whether the type stays in use.\<close>

definition thread_fate :: "nat \<Rightarrow> kst \<Rightarrow> (vm_fate \<times> kst) option" where
  "thread_fate i s = do {
     cor \<leftarrow> rdt correlative i s; dp \<leftarrow> rdt default_prio i s;
     ev \<leftarrow> rdt events i s; v \<leftarrow> rdt vpus i s; res \<leftarrow> rdt vpus_res i s;
     if cor = EN_CORRELATIVE then do {
       s \<leftarrow> wrt (\<lambda>t. t\<lparr>inuse := False\<rparr>) i s;
       Some (if dp < 0x80 then CN_KEEP else CN_DELETE, s) }
     else if ev \<ge> v then Some (CN_KEEP, s)
     else if v \<le> res then Some (CN_KEEP, s)
     else if v = 1 then do {
       s \<leftarrow> wrt (\<lambda>t. t\<lparr>inuse := False\<rparr>) i s;
       Some (if dp < 0x80 then CN_KEEP else CN_DELETE, s) }
     else Some (CN_DELETE, s) }"

text \<open>The control block of the running event returns to the free list.\<close>

definition free_running_ecb :: "kst \<Rightarrow> kst option" where
  "free_running_ecb s = do {
     let run = g_ptEventRunning s;
     m \<leftarrow> rd local_memory run s;
     ev \<leftarrow> rd event_id run s;
     let s = (if m \<noteq> 0 then kcall_out (Call_M_CleanUp ev) s else s);
     s \<leftarrow> Djy_CutReadyEvent run s;
     s \<leftarrow> wr (\<lambda>e. e\<lparr>ecb_previous := FREE_ANCHOR, ecb_next := s_ptEventFree s,
                     evtt_id := CN_EVTT_ID_INVALID,
                     event_id := (case run of Ecb j \<Rightarrow> of_nat j | _ \<Rightarrow> ev)\<rparr>) run s;
     Some (s\<lparr>s_ptEventFree := run\<rparr>) }"

definition switch_in :: "kst \<Rightarrow> kst option" where
  "switch_in s = do {
     let s = s\<lparr>g_ptEventRunning := g_ptEventReady s\<rparr>;
     s \<leftarrow> call_SchHook (g_ptEventRunning s) EN_SWITCH_IN s;
     Some (Int_HalfEnableAsynSignal (s\<lparr>g_s64RunningStartTime := kernel_time s\<rparr>)) }"

definition turn_to :: "kst \<Rightarrow> kst option" where
  "turn_to s = do {
     s \<leftarrow> switch_in s;
     v \<leftarrow> rd ecb_vm (g_ptEventRunning s) s;
     Some (Int_ContactAsynSignal (kcall_out (Call_turnto_context v) s)) }"

definition reset_switch :: "nat \<Rightarrow> eptr \<Rightarrow> kst \<Rightarrow> kst option" where
  "reset_switch i pl_ecb s = do {
     hk \<leftarrow> rdt SchHook i s;
     s \<leftarrow> switch_in (kcall_out (Call_SchHook hk EN_SWITCH_OUT) s);
     f \<leftarrow> rdt thread_routine i s;
     nv \<leftarrow> rd ecb_vm (g_ptEventRunning s) s;
     ov \<leftarrow> rd ecb_vm pl_ecb s;
     Some (Int_ContactAsynSignal (kcall_out (Call_reset_switch f nv ov) s)) }"

text \<open>The thread goes to the first event of the type that waits for one.\<close>

definition hand_over :: "nat \<Rightarrow> eptr \<Rightarrow> kst \<Rightarrow> kst option" where
  "hand_over i pl_ecb s = do {
     pv \<leftarrow> rd ecb_previous pl_ecb s;
     s \<leftarrow> (if pv = pl_ecb then wrt (\<lambda>t. t\<lparr>mark_event := NULL\<rparr>) i s
          else do {
            nx \<leftarrow> rd ecb_next pl_ecb s;
            s \<leftarrow> set_next pv nx s;
            nx \<leftarrow> rd ecb_next pl_ecb s; pv \<leftarrow> rd ecb_previous pl_ecb s;
            s \<leftarrow> set_previous nx pv s;
            nx \<leftarrow> rd ecb_next pl_ecb s;
            wrt (\<lambda>t. t\<lparr>mark_event := nx\<rparr>) i s });
     s \<leftarrow> Djy_CutEcbFromSync pl_ecb s;
     v \<leftarrow> rd ecb_vm (g_ptEventRunning s) s;
     s \<leftarrow> wr (\<lambda>e. e\<lparr>ecb_vm := v\<rparr>) pl_ecb s;
     Djy_EventReady pl_ecb s }"

definition finish_thread :: "nat \<Rightarrow> vm_fate \<Rightarrow> kst \<Rightarrow> kst option" where
  "finish_thread i vm_final s = do {
     u \<leftarrow> rdt inuse i s;
     del \<leftarrow> rdt deleting i s;
     let gone = (\<not> u \<and> del);
     s \<leftarrow> (if gone then unregister_type i s else Some s);
     let vm_final = (if gone then CN_DELETED else vm_final);
     s \<leftarrow> Djy_SelectEventToRun s;
     let run = g_ptEventRunning s;
     v \<leftarrow> rd ecb_vm run s;
     case vm_final of
       CN_DELETE \<Rightarrow> do {
         let s = (case v of Some j \<Rightarrow> kcall_out (Call_free j) (s\<lparr>vms := (vms s)(j := None)\<rparr>) | None \<Rightarrow> s);
         s \<leftarrow> wrt (\<lambda>t. t\<lparr>vpus := vpus t - 1\<rparr>) i s;
         turn_to s }
     | CN_KEEP \<Rightarrow> do {
         cor \<leftarrow> rdt correlative i s;
         m \<leftarrow> rdt mark_event i s;
         s \<leftarrow> (if cor = EN_INDEPENDENCE \<and> m \<noteq> NULL then hand_over i m s
              else do {
                fv \<leftarrow> rdt my_free_vm i s;
                s \<leftarrow> wrv (\<lambda>x. x\<lparr>vm_next := fv\<rparr>) v s;
                wrt (\<lambda>t. t\<lparr>my_free_vm := v\<rparr>) i s });
         reset_switch i run s }
     | CN_DELETED \<Rightarrow> turn_to s }"

definition Djy_EventComplete :: "u32 \<Rightarrow> kst \<Rightarrow> kst option" where
  "Djy_EventComplete result s = do {
     w \<leftarrow> rd evtt_id (g_ptEventRunning s) s;
     let i = evtt_index w;
     let s = Int_ResetAsynSignal s;
     q \<leftarrow> rd ecb_sync (g_ptEventRunning s) s;
     s \<leftarrow> wake_sync result CN_STS_WAIT_EVENT_DONE q s;
     d \<leftarrow> rdt done_sync i s;
     s \<leftarrow> done_loop i CN_STS_WAIT_EVTT_DONE d s;
     s \<leftarrow> free_running_ecb s;
     s \<leftarrow> wrt (\<lambda>t. t\<lparr>events := events t - 1\<rparr>) i s;
     (fate, s) \<leftarrow> thread_fate i s;
     finish_thread i fate s }"

text \<open>
  \<open>Djy_EventExit\<close> looks its event type up after \<open>evtt_id\<close> has been set to the invalid id, as the
  code does: the index is \<open>0xBFFF\<close>.
\<close>

definition Djy_EventExit :: "kst \<Rightarrow> kst option" where
  "Djy_EventExit s = do {
     let s = Int_ResetAsynSignal (kcall_out (Call_Exp_Throw CN_EXP_TYPE_EVENT_EXIT) s);
     q \<leftarrow> rd ecb_sync (g_ptEventRunning s) s;
     s \<leftarrow> Djy_ActiveEventSyncExp q s;
     s \<leftarrow> free_running_ecb s;
     w \<leftarrow> rd evtt_id (g_ptEventRunning s) s;
     let i = evtt_index w;
     s \<leftarrow> wrt (\<lambda>t. t\<lparr>events := events t - 1\<rparr>) i s;
     d \<leftarrow> rdt done_sync i s;
     s \<leftarrow> (if d \<noteq> NULL then map_option snd (done_round i CN_STS_EVENT_EXP_EXIT d s) else Some s);
     (fate, s) \<leftarrow> thread_fate i s;
     finish_thread i fate s }"

text \<open>\<open>__Djy_VmEngine\<close>: the thread routine is a parameter.\<close>

definition Djy_VmEngine :: "(kst \<Rightarrow> (u32 \<times> kst) option) \<Rightarrow> kst \<Rightarrow> kst option" where
  "Djy_VmEngine routine s = do { (r, s) \<leftarrow> routine s; Djy_EventComplete r s }"

section \<open>Queries\<close>

definition Djy_GetEvttPopTimes :: "u16 \<Rightarrow> kst \<Rightarrow> u32 option" where
  "Djy_GetEvttPopTimes et_id s = rdt pop_times (evtt_index et_id) s"

definition Djy_GetEventResult :: "kst \<Rightarrow> u32 option" where
  "Djy_GetEventResult s = rd event_result (g_ptEventRunning s) s"

definition Djy_GetEventPara :: "kst \<Rightarrow> (u32 \<times> u32) option" where
  "Djy_GetEventPara s = do {
     a \<leftarrow> rd param1 (g_ptEventRunning s) s;
     b \<leftarrow> rd param2 (g_ptEventRunning s) s;
     Some (a, b) }"

definition Djy_MyEvttId :: "kst \<Rightarrow> u16 option" where
  "Djy_MyEvttId s = (if Int_GetRunLevel s > 0 then Some CN_EVTT_ID_ASYN
     else rd evtt_id (g_ptEventRunning s) s)"

definition Djy_MyEventId :: "kst \<Rightarrow> u16 option" where
  "Djy_MyEventId s = (if Int_GetRunLevel s > 0 then Some CN_EVENT_ID_ASYN
     else rd event_id (g_ptEventRunning s) s)"

definition Djy_WakeUpFrom :: "kst \<Rightarrow> u32 option" where
  "Djy_WakeUpFrom s = rd wakeup_from (g_ptEventRunning s) s"

record EventInfo =
  info_EventStartTime :: s64
  info_consumed_time :: s64
  info_error_no :: u32

definition Djy_GetEventInfo :: "u16 \<Rightarrow> kst \<Rightarrow> EventInfo option" where
  "Djy_GetEventInfo ev_id s =
     (if unat ev_id \<ge> cfgEventLimit s then None
      else let e = ecbs s (ecb_at ev_id)
           in Some \<lparr>info_EventStartTime = EventStartTime e, info_consumed_time = consumed_time e,
                    info_error_no = error_no e\<rparr>)"

text \<open>\<open>strncpy(dest, evtt_name, len)\<close>: at most \<open>len\<close> characters, padded with zeros.\<close>

definition Djy_GetEvttName :: "u16 \<Rightarrow> u32 \<Rightarrow> kst \<Rightarrow> string option" where
  "Djy_GetEvttName et_id len s =
     (if len = 0 \<or> evtt_index et_id \<ge> cfgEvttLimit s then None
      else let n = evtt_name (evtts s (evtt_index et_id))
           in Some (take (unat len) n @ replicate (unat len - length n) (CHR 0x00)))"

end
