(* ===== verification/Lock.thy ===== *)
theory Lock
  imports EvPop Queues
begin

text \<open>
  Semaphores and mutexes, \<open>djyos/lock/lock.c\<close>.  A control block is addressed by a number;
  \<open>None\<close> is the null pointer.  The object tree (\<open>OBJ_AddChild\<close>, \<open>OBJ_Del\<close>) and the release
  of a block to \<open>g_ptLockPool\<close> are recorded calls; what \<open>Mb_Malloc\<close> answers is an argument of
  the two creating functions.
\<close>

section \<open>Semaphores\<close>

definition upd_semp :: "nat \<Rightarrow> (SemaphoreLCB \<Rightarrow> SemaphoreLCB) \<Rightarrow> kst \<Rightarrow> kst" where
  "upd_semp i f s = s\<lparr>semps := (semps s)(i := f (semps s i))\<rparr>"

definition init_semp :: "nat \<Rightarrow> u32 \<Rightarrow> u32 \<Rightarrow> u32 \<Rightarrow> kst \<Rightarrow> kst" where
  "init_semp i limit init_lamp order s =
     kcall_out (Call_OBJ_AddChild (H_Semp i))
       (upd_semp i (\<lambda>_. \<lparr>sync_order = order, lamps_limit = limit, lamp_counter = init_lamp,
                        semp_sync = NULL\<rparr>) s)"

definition Lock_SempCreate :: "nat option \<Rightarrow> u32 \<Rightarrow> u32 \<Rightarrow> u32 \<Rightarrow> kst \<Rightarrow> nat option \<times> kst" where
  "Lock_SempCreate mem limit init_lamp order s =
     (if init_lamp > limit then (None, s)
      else case mem of
          None \<Rightarrow> (None, s)
        | Some i \<Rightarrow> (Some i, init_semp i limit init_lamp order s))"

definition Lock_SempCreate_s :: "nat option \<Rightarrow> u32 \<Rightarrow> u32 \<Rightarrow> u32 \<Rightarrow> kst \<Rightarrow> nat option \<times> kst" where
  "Lock_SempCreate_s semp limit init_lamp order s = (case semp of
       None \<Rightarrow> (None, s)
     | Some i \<Rightarrow> (Some i, init_semp i limit init_lamp order s))"

definition Lock_SempPost :: "nat option \<Rightarrow> kst \<Rightarrow> kst option" where
  "Lock_SempPost semp s = (case semp of None \<Rightarrow> Some s | Some i \<Rightarrow> do {
     let s = Int_SaveAsynSignal s;
     let m = semps s i;
     s \<leftarrow> (if semp_sync m = NULL then
            Some (if lamps_limit m = CN_LIMIT_UINT32 then
                    if lamp_counter m \<noteq> CN_LIMIT_UINT32
                    then upd_semp i (\<lambda>m. m\<lparr>lamp_counter := lamp_counter m + 1\<rparr>) s else s
                  else if lamp_counter m < lamps_limit m
                    then upd_semp i (\<lambda>m. m\<lparr>lamp_counter := lamp_counter m + 1\<rparr>) s else s)
          else do {
            let event = semp_sync m;
            s \<leftarrow> take_first (H_Semp i) event s;
            s \<leftarrow> resume_timeout event s;
            s \<leftarrow> wake_up CN_STS_WAIT_SEMP event s;
            Djy_EventReady event s });
     Int_RestoreAsynSignal s })"

definition Lock_SempPend :: "nat option \<Rightarrow> u32 \<Rightarrow> kst \<Rightarrow> ((bool, unit) call \<times> kst) option" where
  "Lock_SempPend semp timeout s = (case semp of
       None \<Rightarrow> do {
         s \<leftarrow> wr (\<lambda>e. e\<lparr>error_no := EN_LOCK_PARA_ERROR\<rparr>) (g_ptEventRunning s) s;
         Some (Return False, s) }
     | Some i \<Rightarrow> do {
         let sch = Djy_QuerySch s;
         let s = Int_SaveAsynSignal s;
         let m = semps s i;
         let lamp = (lamps_limit m = CN_LIMIT_UINT32 \<or> lamp_counter m > 0);
         let s = (if lamp_counter m \<noteq> 0 then upd_semp i (\<lambda>m. m\<lparr>lamp_counter := lamp_counter m - 1\<rparr>) s else s);
         if lamp then do { s \<leftarrow> Int_RestoreAsynSignal s; Some (Return True, s) }
         else if \<not> sch \<or> timeout = 0 then do { s \<leftarrow> Int_RestoreAsynSignal s; Some (Return False, s) }
         else do {
           s \<leftarrow> Djy_AddRunningToBlock (H_Semp i) (sync_order m) timeout CN_STS_WAIT_SEMP s;
           s \<leftarrow> Int_RestoreAsynSignal s;
           Some (Block (), s) } })"

text \<open>The result of a call that has blocked, for semaphores and mutexes.\<close>

definition pend_resume :: "kst \<Rightarrow> bool option" where
  "pend_resume s = do {
     w \<leftarrow> rd wakeup_from (g_ptEventRunning s) s;
     Some (\<not> has_flag w CN_STS_SYNC_TIMEOUT) }"

definition Lock_SempDelete_s :: "nat option \<Rightarrow> kst \<Rightarrow> (bool \<times> kst) option" where
  "Lock_SempDelete_s semp s = (case semp of None \<Rightarrow> Some (False, s) | Some i \<Rightarrow> do {
     let s = Int_SaveAsynSignal s;
     let result = (semp_sync (semps s i) = NULL);
     let s = (if result then kcall_out (Call_OBJ_Del (H_Semp i)) s else s);
     s \<leftarrow> Int_RestoreAsynSignal s;
     Some (result, s) })"

definition Lock_SempDelete :: "nat option \<Rightarrow> kst \<Rightarrow> (bool \<times> kst) option" where
  "Lock_SempDelete semp s = (case semp of None \<Rightarrow> Some (False, s) | Some i \<Rightarrow> do {
     let s = Int_SaveAsynSignal s;
     let result = (semp_sync (semps s i) = NULL);
     let s = (if result then kcall_out (Call_Mb_Free (H_Semp i)) (kcall_out (Call_OBJ_Del (H_Semp i)) s) else s);
     s \<leftarrow> Int_RestoreAsynSignal s;
     Some (result, s) })"

definition Lock_SempQueryCapacital :: "nat option \<Rightarrow> kst \<Rightarrow> u32" where
  "Lock_SempQueryCapacital semp s = (case semp of None \<Rightarrow> 0 | Some i \<Rightarrow> lamps_limit (semps s i))"

definition Lock_SempQueryFree :: "nat option \<Rightarrow> kst \<Rightarrow> u32" where
  "Lock_SempQueryFree semp s = (case semp of None \<Rightarrow> 0 | Some i \<Rightarrow> lamp_counter (semps s i))"

definition Lock_SempCheckBlock :: "nat option \<Rightarrow> kst \<Rightarrow> bool" where
  "Lock_SempCheckBlock semp s = (case semp of None \<Rightarrow> False | Some i \<Rightarrow> semp_sync (semps s i) \<noteq> NULL)"

definition Lock_SempSetSyncSort :: "nat option \<Rightarrow> u32 \<Rightarrow> kst \<Rightarrow> kst" where
  "Lock_SempSetSyncSort semp order s = (case semp of None \<Rightarrow> s
     | Some i \<Rightarrow> upd_semp i (\<lambda>m. m\<lparr>sync_order := order\<rparr>) s)"

section \<open>Mutexes\<close>

definition upd_mutex :: "nat \<Rightarrow> (MutexLCB \<Rightarrow> MutexLCB) \<Rightarrow> kst \<Rightarrow> kst" where
  "upd_mutex i f s = s\<lparr>mutexes := (mutexes s)(i := f (mutexes s i))\<rparr>"

definition init_mutex :: "nat \<Rightarrow> kst \<Rightarrow> kst" where
  "init_mutex i s = kcall_out (Call_OBJ_AddChild (H_Mutex i))
     (upd_mutex i (\<lambda>_. \<lparr>enable = 0, owner = NULL, mutex_sync = NULL\<rparr>) s)"

definition Lock_MutexCreate :: "nat option \<Rightarrow> kst \<Rightarrow> nat option \<times> kst" where
  "Lock_MutexCreate mem s = (case mem of None \<Rightarrow> (None, s) | Some i \<Rightarrow> (Some i, init_mutex i s))"

definition Lock_MutexCreate_s :: "nat option \<Rightarrow> kst \<Rightarrow> nat option \<times> kst" where
  "Lock_MutexCreate_s mutex s = (case mutex of None \<Rightarrow> (None, s) | Some i \<Rightarrow> (Some i, init_mutex i s))"

definition Lock_MutexPost :: "nat option \<Rightarrow> kst \<Rightarrow> kst option" where
  "Lock_MutexPost mutex s = (case mutex of None \<Rightarrow> Some s | Some i \<Rightarrow>
     if Int_GetRunLevel s > 0 then
       Some (if enable (mutexes s i) = -1 then upd_mutex i (\<lambda>m. m\<lparr>enable := 0\<rparr>) s else s)
     else if enable (mutexes s i) = -1 then Some s
     else if owner (mutexes s i) \<noteq> g_ptEventRunning s then Some s
     else do {
       let s = Int_SaveAsynSignal s;
       let s = (if enable (mutexes s i) > 0 then upd_mutex i (\<lambda>m. m\<lparr>enable := enable m - 1\<rparr>) s else s);
       s \<leftarrow> (if enable (mutexes s i) = 0 then
              if mutex_sync (mutexes s i) = NULL
              then Some (upd_mutex i (\<lambda>m. m\<lparr>owner := NULL\<rparr>) s)
              else do {
                let event = mutex_sync (mutexes s i);
                let s = upd_mutex i (\<lambda>m. m\<lparr>owner := event, enable := 1\<rparr>) s;
                s \<leftarrow> take_first (H_Mutex i) event s;
                s \<leftarrow> resume_timeout event s;
                s \<leftarrow> wake_up CN_STS_WAIT_MUTEX event s;
                (_, s) \<leftarrow> Djy_RestorePrio s;
                Djy_EventReady event s }
            else Some s);
       Int_RestoreAsynSignal s })"

definition Lock_MutexPend :: "nat option \<Rightarrow> u32 \<Rightarrow> kst \<Rightarrow> ((bool, unit) call \<times> kst) option" where
  "Lock_MutexPend mutex timeout s = (case mutex of
       None \<Rightarrow> do {
         s \<leftarrow> (if Int_GetRunLevel s = 0
              then wr (\<lambda>e. e\<lparr>error_no := EN_LOCK_PARA_ERROR\<rparr>) (g_ptEventRunning s) s else Some s);
         Some (Return False, s) }
     | Some i \<Rightarrow>
         if Int_GetRunLevel s > 0 then
           if enable (mutexes s i) = 0 then Some (Return True, upd_mutex i (\<lambda>m. m\<lparr>enable := -1\<rparr>) s)
           else do {
             s \<leftarrow> wr (\<lambda>e. e\<lparr>error_no := EN_LOCK_BLOCK_IN_INT\<rparr>) (g_ptEventRunning s) s;
             Some (Return False, s) }
         else if enable (mutexes s i) = -1 then Some (Return False, s)
         else if g_ptEventRunning s = owner (mutexes s i)
         then Some (Return True, upd_mutex i (\<lambda>m. m\<lparr>enable := enable m + 1\<rparr>) s)
         else do {
           let sch = Djy_QuerySch s;
           let s = Int_SaveAsynSignal s;
           let lamp = (enable (mutexes s i) = 0);
           let s = (if lamp then upd_mutex i (\<lambda>m. m\<lparr>enable := 1, owner := g_ptEventRunning s\<rparr>) s else s);
           if lamp then do { s \<leftarrow> Int_RestoreAsynSignal s; Some (Return True, s) }
           else if \<not> sch \<or> timeout = 0 then do { s \<leftarrow> Int_RestoreAsynSignal s; Some (Return False, s) }
           else do {
             s \<leftarrow> Djy_AddRunningToBlock (H_Mutex i) CN_BLOCK_PRIO timeout CN_STS_WAIT_MUTEX s;
             ev \<leftarrow> rd event_id (owner (mutexes s i)) s;
             (_, s) \<leftarrow> Djy_RaiseTempPrio ev s;
             s \<leftarrow> Int_RestoreAsynSignal s;
             Some (Block (), s) } })"

definition Lock_MutexDelete_s :: "nat option \<Rightarrow> kst \<Rightarrow> (bool \<times> kst) option" where
  "Lock_MutexDelete_s mutex s = (case mutex of None \<Rightarrow> Some (False, s) | Some i \<Rightarrow> do {
     let s = Int_SaveAsynSignal s;
     let result = (mutex_sync (mutexes s i) = NULL);
     let s = (if result then kcall_out (Call_OBJ_Del (H_Mutex i)) s else s);
     s \<leftarrow> Int_RestoreAsynSignal s;
     Some (result, s) })"

definition Lock_MutexDelete :: "nat option \<Rightarrow> kst \<Rightarrow> (bool \<times> kst) option" where
  "Lock_MutexDelete mutex s = (case mutex of None \<Rightarrow> Some (False, s) | Some i \<Rightarrow> do {
     let s = Int_SaveAsynSignal s;
     let result = (mutex_sync (mutexes s i) = NULL);
     let s = (if result then kcall_out (Call_Mb_Free (H_Mutex i)) (kcall_out (Call_OBJ_Del (H_Mutex i)) s) else s);
     s \<leftarrow> Int_RestoreAsynSignal s;
     Some (result, s) })"

definition Lock_MutexQuery :: "nat option \<Rightarrow> kst \<Rightarrow> bool" where
  "Lock_MutexQuery mutex s = (case mutex of None \<Rightarrow> False | Some i \<Rightarrow> enable (mutexes s i) = 0)"

definition Lock_MutexCheckBlock :: "nat option \<Rightarrow> kst \<Rightarrow> bool" where
  "Lock_MutexCheckBlock mutex s = (case mutex of None \<Rightarrow> False | Some i \<Rightarrow> mutex_sync (mutexes s i) \<noteq> NULL)"

definition Lock_MutexGetOwner :: "nat option \<Rightarrow> kst \<Rightarrow> u16 option" where
  "Lock_MutexGetOwner mutex s = (case mutex of
       None \<Rightarrow> Some CN_EVENT_ID_INVALID
     | Some i \<Rightarrow> if owner (mutexes s i) \<noteq> NULL then rd event_id (owner (mutexes s i)) s
                 else Some CN_EVENT_ID_INVALID)"

end
