(* ===== verification/KernelProps.thy ===== *)
theory KernelProps
  imports Samples Lock
begin

text \<open>The properties of the kernel's scheduler, queues and locks.\<close>

section \<open>The tick\<close>

text \<open>
  C3: the tick interrupt.  Let \<open>D\<close> be the events of the delay queue that are due at the new
  time, in the order of the queue.  \<open>Djy_IsrTick\<close> returns; exactly the events of \<open>D\<close> leave the
  delay queue, each also leaves the block queue it waits in, and they become ready one after the
  other, each behind the events of its priority; each finds in \<open>wakeup_from\<close> the status it was
  blocked with.  When the time slice is over and another ready event has the priority of the
  running one, the running event goes behind the last of them.  The system time is kept going by
  one call of \<open>__DjyMaintainSysTime\<close>.
\<close>

theorem IsrTick_wakes_due:
  fixes n :: u32
  assumes "kinv s xs ds Q" and "g_ptEventRunning s = hd xs"
    and "\<forall>y \<in> set ds. pri (ecbs s) y < pri (ecbs s) (last xs)"
    and "hd xs = last xs \<or> pri (ecbs s) (hd xs) < pri (ecbs s) (last xs)"
  defines "now \<equiv> g_s64OsTicks s + uint n"
  defines "D \<equiv> takeWhile (\<lambda>y. due (ecbs s) y \<le> now) ds"
  shows "\<exists>s'. Djy_IsrTick n s = Some s' \<and>
    kinv s' (rr_list (s_u32RRS_Slice s) now (pri (ecbs s)) (hd xs) (fold (prio_insert (pri (ecbs s))) D xs))
      (dropWhile (\<lambda>y. due (ecbs s) y \<le> now) ds) (\<lambda>q. filter (\<lambda>y. y \<notin> set D) (Q q)) \<and>
    g_s64OsTicks s' = now \<and> g_ptEventRunning s' = g_ptEventRunning s \<and> kcalls s' = kcalls s @ [Call_MaintainSysTime] \<and>
    (\<forall>y \<in> set D. wakeup_from (ecbs s' y) = event_status (ecbs s y))"
  using IsrTick_effect [OF assms(1-4), of n] kframe_fields(1,2,11) unfolding D_def now_def by (fastforce simp: kcall_out_def)

lemma sample_hd_last: "hd sample_ready = Ecb 1" "last sample_ready = Ecb 0"
  by (simp_all add: sample_ready_def)

theorem IsrTick_wakes_due_witness:
  "\<exists>s'. Djy_IsrTick 2 sample = Some s' \<and> kinv s' [Ecb 2, Ecb 3, Ecb 1, Ecb 0] [] (\<lambda>q. []) \<and>
     wakeup_from (ecbs s' (Ecb 2)) = CN_STS_WAIT_SEMP + CN_STS_SYNC_TIMEOUT"
proof -
  have 1: "\<forall>y \<in> set [Ecb 2]. pri (ecbs sample) y < pri (ecbs sample) (last sample_ready)"
    by (simp add: sample_ready_def field_defs sample_ecb_def)
  have 2: "hd sample_ready = last sample_ready \<or>
      pri (ecbs sample) (hd sample_ready) < pri (ecbs sample) (last sample_ready)"
    by (simp add: sample_ready_def field_defs sample_ecb_def)
  have b: "(\<lambda>q. filter (\<lambda>y. y \<noteq> Ecb 2) (sample_blocks q)) = (\<lambda>q. [])"
    by (simp add: sample_blocks_def fun_eq_iff)
  show ?thesis
    using IsrTick_wakes_due [OF sample_kinv _ 1 2, of 2]
    by (auto simp: sample_hd_last b field_defs sample_ecb_def prio_insert_def ins_by_def sample_ready_def
        rr_list_def rr_turn_def)
qed

end
