(* ===== verification/Critical.thy ===== *)
theory Critical
  imports Samples Lock
begin

text \<open>
  Critical sections: what \<open>Int_SaveAsynSignal\<close> \<dots> \<open>Int_RestoreAsynSignal\<close> around an operation
  on the queues amounts to.  On leaving the outermost section the processor goes to the head of
  the ready queue; inside a nested one nothing is switched.
\<close>

text \<open>An event the processor can be given to.\<close>

definition able :: "eptr \<Rightarrow> kst \<Rightarrow> bool" where
  "able p s \<longleftrightarrow> typed p s \<and> ecb_vm (ecbs s p) \<noteq> None"

lemma kframe_able: "kframe s s' \<Longrightarrow> able p s' = able p s"
  by (simp add: able_def typed_def kframe_fields kframe_ecb)

lemma kfix_able: "kfix s s' \<Longrightarrow> able p s' = able p s"
  by (simp add: kfix_def able_def typed_def)

lemma able_hd_insert:
  assumes "\<forall>x \<in> insert e (set xs). able x s"
  shows "able (hd (prio_insert f e xs)) s"
proof -
  have "prio_insert f e xs \<noteq> []" by (auto simp: prio_insert_def ins_by_def)
  then have "hd (prio_insert f e xs) \<in> insert e (set xs)" using hd_in_set [of "prio_insert f e xs"] by simp
  then show ?thesis using assms by blast
qed

lemma Save_qview [simp]: "qview (Int_SaveAsynSignal s) = qview s"
  by (simp add: Int_SaveAsynSignal_def Int_CutAsynSignal_def Let_def)

lemma Save_fields [simp]:
  "ecbs (Int_SaveAsynSignal s) = ecbs s" "semps (Int_SaveAsynSignal s) = semps s"
  "evtts (Int_SaveAsynSignal s) = evtts s"
  "mutexes (Int_SaveAsynSignal s) = mutexes s" "g_ptEventRunning (Int_SaveAsynSignal s) = g_ptEventRunning s"
  "cfgEventLimit (Int_SaveAsynSignal s) = cfgEventLimit s" "cfgEvttLimit (Int_SaveAsynSignal s) = cfgEvttLimit s"
  "nest_asyn_signal (Int_SaveAsynSignal s) = nest_asyn_signal s"
  "s_ptMemSync (Int_SaveAsynSignal s) = s_ptMemSync s" "s_ptEventFree (Int_SaveAsynSignal s) = s_ptEventFree s"
  "g_s64OsTicks (Int_SaveAsynSignal s) = g_s64OsTicks s" "cfgTickUs (Int_SaveAsynSignal s) = cfgTickUs s"
  by (simp_all add: Int_SaveAsynSignal_def Int_CutAsynSignal_def Let_def)

lemma Save_able [simp]: "able p (Int_SaveAsynSignal s) = able p s" "hvalid q (Int_SaveAsynSignal s) = hvalid q s"
  "hdval q (Int_SaveAsynSignal s) = hdval q s" "us_to_ticks (Int_SaveAsynSignal s) = us_to_ticks s"
  by (auto simp: able_def typed_def hvalid_def hdval_def us_to_ticks_def fun_eq_iff split: headp.split)

lemma Save_kinv [simp]: "kinv (Int_SaveAsynSignal s) xs ds Q = kinv s xs ds Q"
  by (rule kinv_view) simp

text \<open>
  A section entered from a thread with the scheduling lock open.  Leaving the outermost section
  is the only place where a thread loses the processor.
\<close>

definition outermost :: "kst \<Rightarrow> bool" where
  "outermost s \<longleftrightarrow> nest_asyn_signal s = 0 \<and> en_asyn_signal_counter s = 0"

text \<open>The state after leaving a section that was entered in \<open>s\<close> and did its work up to \<open>s1\<close>.\<close>

definition left_section :: "kst \<Rightarrow> kst \<Rightarrow> eptr list \<Rightarrow> kst \<Rightarrow> bool" where
  "left_section s s1 xs s' \<longleftrightarrow> qview s' = qview s1 \<and> semps s' = semps s1 \<and> mutexes s' = mutexes s1 \<and>
     wkf (ecbs s') = wkf (ecbs s1) \<and> kfix s1 s' \<and>
     g_ptEventRunning s' = (if outermost s then hd xs else g_ptEventRunning s1) \<and>
     (outermost s \<longrightarrow> asyn_signal_open s' \<and> g_bScheduleEnable s' \<and> en_asyn_signal_counter s' = 0)"

lemma left_section_kinv: "left_section s s1 zs s' \<Longrightarrow> kinv s' xs ds Q = kinv s1 xs ds Q"
  by (rule kinv_view) (simp add: left_section_def)

lemma leave_section:
  assumes K: "kinv s1 xs ds Q" and a: "able (hd xs) s1" "able (g_ptEventRunning s1) s1"
    and f: "nest_asyn_signal s1 = nest_asyn_signal s"
      "en_asyn_signal_counter s1 = en_asyn_signal_counter (Int_SaveAsynSignal s)"
  shows "\<exists>s'. Int_RestoreAsynSignal s1 = Some s' \<and> left_section s s1 xs s'"
proof -
  have hd: "g_ptEventReady s1 = hd xs" using ready_okD(2) [OF kinvD(1) [OF K]] .
  then have "runnable s1" using a by (simp add: runnable_def able_def)
  from Restore_cases [OF this] obtain s' where R: "Int_RestoreAsynSignal s1 = Some s'" "qview s' = qview s1"
      "semps s' = semps s1" "mutexes s' = mutexes s1" "wkf (ecbs s') = wkf (ecbs s1)" "kfix s1 s'"
    and c: "if nest_asyn_signal s1 \<noteq> 0 then s' = s1
     else if en_asyn_signal_counter s1 \<le> 1
     then g_ptEventRunning s' = g_ptEventReady s1 \<and> en_asyn_signal_counter s' = 0 \<and>
       g_bScheduleEnable s' \<and> asyn_signal_open s'
     else g_ptEventRunning s' = g_ptEventRunning s1 \<and>
       en_asyn_signal_counter s' = en_asyn_signal_counter s1 - 1 \<and> \<not> g_bScheduleEnable s' \<and>
       \<not> asyn_signal_open s'" by blast
  have "en_asyn_signal_counter s1 \<le> 1 \<longleftrightarrow> en_asyn_signal_counter s = 0" if "nest_asyn_signal s = 0"
  proof -
    have inc: "w + 1 \<le> (1::u32) \<longleftrightarrow> w = 0" if "w \<noteq> CN_LIMIT_UCPU" for w :: u32
    proof -
      have "unat w \<noteq> 2 ^ 32 - 1" using that by (simp add: word_unat_eq_iff)
      moreover have "unat w < 2 ^ 32" using unsigned_less [of w, where 'a = nat] by simp
      ultimately have "unat w + 1 < 2 ^ 32" by linarith
      then show ?thesis by (auto simp: word_le_nat_alt unat_word_ariths word_unat_eq_iff)
    qed
    have "\<not> (CN_LIMIT_UCPU :: u32) \<le> 1" by (simp add: word_le_nat_alt)
    then show ?thesis using that inc by (auto simp: f Int_SaveAsynSignal_def Int_CutAsynSignal_def Let_def)
  qed
  then show ?thesis using R c hd f(1) by (auto simp: left_section_def outermost_def split: if_splits)
qed

text \<open>
  \<open>in_section s s1\<close>: between \<open>Int_SaveAsynSignal\<close> in \<open>s\<close> and the matching restore.
  \<open>switched s s' xs ds Q\<close>: the section entered in \<open>s\<close> has been left in \<open>s'\<close> with these queues.
\<close>

definition in_section :: "kst \<Rightarrow> kst \<Rightarrow> bool" where
  "in_section s s1 \<longleftrightarrow> kfix s s1 \<and> g_ptEventRunning s1 = g_ptEventRunning s \<and>
     en_asyn_signal_counter s1 = en_asyn_signal_counter (Int_SaveAsynSignal s)"

definition lock_data :: "kst \<Rightarrow> kst \<Rightarrow> bool" where
  "lock_data s s' \<longleftrightarrow> (\<forall>i. lamp_counter (semps s' i) = lamp_counter (semps s i) \<and>
     lamps_limit (semps s' i) = lamps_limit (semps s i) \<and> sync_order (semps s' i) = sync_order (semps s i) \<and>
     enable (mutexes s' i) = enable (mutexes s i) \<and> owner (mutexes s' i) = owner (mutexes s i))"

lemma lock_data_kframe: "kframe s s' \<Longrightarrow> lock_data s s'"
  by (simp add: lock_data_def kframe_locks)

lemma lock_data_same [simp]: "semps s' = semps s \<Longrightarrow> mutexes s' = mutexes s \<Longrightarrow> lock_data s s'"
  by (simp add: lock_data_def)

lemma lock_data_trans [trans]: "lock_data s s' \<Longrightarrow> lock_data s' s'' \<Longrightarrow> lock_data s s''"
  by (simp add: lock_data_def)

definition switched :: "kst \<Rightarrow> kst \<Rightarrow> eptr list \<Rightarrow> eptr list \<Rightarrow> (headp \<Rightarrow> eptr list) \<Rightarrow> bool" where
  "switched s s' xs ds Q \<longleftrightarrow> kinv s' xs ds Q \<and> kfix s s' \<and>
     g_ptEventRunning s' = (if outermost s then hd xs else g_ptEventRunning s) \<and>
     (outermost s \<longrightarrow> outermost s' \<and> asyn_signal_open s' \<and> g_bScheduleEnable s')"

lemma kfix_Save [simp]: "kfix s (Int_SaveAsynSignal s)"
  by (simp add: Int_SaveAsynSignal_def Int_CutAsynSignal_def Let_def)

lemma in_section_Save [simp]: "in_section s (Int_SaveAsynSignal s)"
  by (simp add: in_section_def)

lemma in_section_kframe:
  assumes "in_section s s1" and "kframe s1 s2"
  shows "in_section s s2"
  using assms kfix_trans [OF _ kframe_kfix [OF assms(2)], of s] kframe_fields [OF assms(2)]
  by (simp add: in_section_def)

lemma in_section_able: "in_section s s1 \<Longrightarrow> able p s1 = able p s"
  by (simp add: in_section_def kfix_able)

lemma leave_switched:
  assumes K: "kinv s1 xs ds Q" and i: "in_section s s1"
    and a: "able (hd xs) s" "able (g_ptEventRunning s) s"
  shows "\<exists>s'. Int_RestoreAsynSignal s1 = Some s' \<and> switched s s' xs ds Q \<and> semps s' = semps s1 \<and>
    mutexes s' = mutexes s1 \<and> wkf (ecbs s') = wkf (ecbs s1) \<and> pri (ecbs s') = pri (ecbs s1) \<and>
    due (ecbs s') = due (ecbs s1) \<and> sts (ecbs s') = sts (ecbs s1)"
proof -
  note ab = in_section_able [OF i]
  have n: "nest_asyn_signal s1 = nest_asyn_signal s" using i by (simp add: in_section_def kfix_def)
  have ind: "en_asyn_signal_counter s1 = en_asyn_signal_counter (Int_SaveAsynSignal s)"
    "g_ptEventRunning s1 = g_ptEventRunning s" "kfix s s1" using i by (simp_all add: in_section_def)
  from leave_section [OF K _ _ n ind(1)] a obtain s' where
    s': "Int_RestoreAsynSignal s1 = Some s'" "left_section s s1 xs s'" by (auto simp: ab ind)
  have "kfix s s'" using ind(3) s'(2) kfix_trans by (auto simp: left_section_def)
  moreover from this have "outermost s \<longrightarrow> outermost s'"
    using s'(2) by (auto simp: left_section_def outermost_def kfix_def)
  moreover have "kinv s' xs ds Q" using left_section_kinv [OF s'(2)] K by blast
  ultimately have "switched s s' xs ds Q" using s'(2) ind(2) by (simp add: switched_def left_section_def)
  then show ?thesis using s' by (auto simp: left_section_def qview_def)
qed

lemma hd_remove_mid: "hd (as @ y # bs) \<in> set (as @ x # y # bs)"
  by (cases as) auto

section \<open>An event in no queue\<close>

text \<open>The queues depend on the control blocks of their members only.\<close>

lemma ready_ok_agree:
  assumes "\<And>p. p \<in> set xs \<Longrightarrow> h' p = h p"
  shows "ready_ok n h' r xs = ready_ok n h r xs"
proof -
  have p: "pri h' x = pri h x" if "x \<in> set xs" for x using assms [OF that] by (simp add: pri_def)
  then have L: "leaders (pri h') xs = leaders (pri h) xs" by (rule leaders_cong)
  have m: "map (pri h') xs = map (pri h) xs" using p by (rule map_cong [OF refl])
  have "dring (nxt h') (prv h') xs = dring (nxt h) (prv h) xs"
    using assms by (intro dring_cong) (simp_all add: nxt_def prv_def)
  moreover have "dring (mnx h') (mpv h') (leaders (pri h) xs) = dring (mnx h) (mpv h) (leaders (pri h) xs)"
    using assms set_leaders [of "pri h" xs] by (intro dring_cong) (auto simp: mnx_def mpv_def subset_eq)
  moreover have "mnx h' x = mnx h x" if "x \<in> set xs" for x using assms [OF that] by (simp add: mnx_def)
  ultimately show ?thesis unfolding ready_ok_def L m by auto
qed

lemma delay_ok_agree:
  assumes "\<And>p. p \<in> set ds \<Longrightarrow> h' p = h p"
  shows "delay_ok n h' d ds = delay_ok n h d ds"
proof -
  have m: "map (due h') ds = map (due h) ds" by (rule map_cong [OF refl]) (simp add: assms due_def)
  have "dring (nxt h') (prv h') ds = dring (nxt h) (prv h) ds"
    using assms by (intro dring_cong) (simp_all add: nxt_def prv_def)
  then show ?thesis unfolding delay_ok_def m by simp
qed

lemma block_ok_agree:
  assumes "\<And>p. p \<in> set bs \<Longrightarrow> h' p = h p"
  shows "block_ok n h' q v bs = block_ok n h q v bs"
proof -
  have "dring (mnx h') (mpv h') bs = dring (mnx h) (mpv h) bs"
    using assms by (intro dring_cong) (simp_all add: mnx_def mpv_def)
  moreover have "shd h' x = shd h x" if "x \<in> set bs" for x using assms [OF that] by (simp add: shd_def)
  ultimately show ?thesis by (simp add: block_ok_def)
qed

lemma kinv_loose:
  assumes K: "kinv s xs ds Q" and e: "loose e s xs ds"
    and f: "\<And>x. sync_head (f x) = sync_head x" "\<And>x. ecb_sync (f x) = ecb_sync x"
  shows "kinv (s\<lparr>ecbs := hput f e (ecbs s)\<rparr>) xs ds Q" and "loose e (s\<lparr>ecbs := hput f e (ecbs s)\<rparr>) xs ds"
proof -
  let ?h = "hput f e (ecbs s)"
  have nb: "e \<notin> set (Q q)" for q using loose_not_blocked [OF K] e by (simp add: loose_def)
  have o: "?h p = ecbs s p" if "p \<noteq> e" for p using that by (simp add: hput_def)
  have x: "p \<noteq> e" if "p \<in> set xs \<or> p \<in> set ds \<or> p \<in> set (Q q)" for p q
    using that e nb by (auto simp: loose_def)
  have sh: "shd ?h = shd (ecbs s)" by (auto simp: shd_def hput_def f(1))
  have st: "sts ?h p = sts (ecbs s) p" if "p \<noteq> e" for p using o [OF that] by (simp add: sts_def)
  have hd: "hdval q (s\<lparr>ecbs := ?h\<rparr>) = hdval q s" for q by (simp add: hdval_hput f(2))
  have r: "ready_ok n ?h r xs = ready_ok n (ecbs s) r xs" for n r by (rule ready_ok_agree) (use o x in blast)
  have d: "delay_ok n ?h v ds = delay_ok n (ecbs s) v ds" for n v by (rule delay_ok_agree) (use o x in blast)
  have b: "block_ok n ?h q v (Q q) = block_ok n (ecbs s) q v (Q q)" for n q v
    by (rule block_ok_agree) (use o x in blast)
  have xst: "sts ?h p = sts (ecbs s) p" if "p \<in> set xs \<or> p \<in> set (Q q)" for p q using that st x by blast
  have "\<forall>p \<in> set xs. shd ?h p = NULLH \<and> sts ?h p = CN_STS_EVENT_READY"
    using kinvD(6,7) [OF K] xst by (simp add: sh)
  moreover have "\<forall>q. \<forall>p \<in> set (Q q). has_flag (sts ?h p) CN_STS_SYNC_TIMEOUT \<longleftrightarrow> p \<in> set ds"
    using kinvD(9) [OF K] xst by metis
  ultimately show "kinv (s\<lparr>ecbs := ?h\<rparr>) xs ds Q"
    using kinvD(1-5,8) [OF K] unfolding kinv_def by (simp add: r d b hd sh)
  show "loose e (s\<lparr>ecbs := ?h\<rparr>) xs ds" using e by (simp add: loose_def sh)
qed

lemma kinv_clear_main:
  assumes K: "kinv s xs ds Q" and e: "loose e s xs ds"
  shows "\<exists>s'. clear_main e s = Some s' \<and> kinv s' xs ds Q \<and> loose e s' xs ds \<and> kframe s s' \<and>
    links_only {e} (ecbs s) (ecbs s') \<and> g_ptEventDelay s' = g_ptEventDelay s"
proof -
  define s1 where "s1 = s\<lparr>ecbs := hput (\<lambda>x. x\<lparr>ecb_next := NULL\<rparr>) e (ecbs s)\<rparr>"
  define s2 where "s2 = s1\<lparr>ecbs := hput (\<lambda>x. x\<lparr>ecb_previous := NULL\<rparr>) e (ecbs s1)\<rparr>"
  have 1: "kinv s1 xs ds Q" "loose e s1 xs ds" using kinv_loose [OF K e] by (auto simp: s1_def)
  have 2: "kinv s2 xs ds Q" "loose e s2 xs ds" using kinv_loose [OF 1] by (auto simp: s2_def)
  have l: "links_only {e} (ecbs s) (ecbs s2)" unfolding s2_def s1_def by (simp add: links_only_hput)
  moreover have "clear_main e s = Some s2" using e by (simp add: s2_def s1_def loose_def fault_simps)
  moreover have "kframe s s2" using kframe_links(1) [OF l] by (simp add: s2_def s1_def)
  ultimately show ?thesis using 2 by (auto simp: s2_def s1_def)
qed

section \<open>The sample\<close>

lemma sample_able [simp]: "able (Ecb i) sample \<longleftrightarrow> i < 4"
  by (auto simp: able_def typed_def sample_ecb_def evtt_index_def)

lemma sample_outermost [simp]: "outermost sample"
  by (simp add: outermost_def)

lemma sample_fields_pri [simp]:
  "pri (ecbs sample) (Ecb i) = (if i = 0 then 250 else if i = 2 then 60 else 100)"
  "due (ecbs sample) (Ecb i) = (if i = 2 then 5 else 0)"
  by (simp_all add: pri_def due_def sample_ecb_def)

lemma sample_blocks_fields [simp]:
  "sample_blocks (H_Semp 0) = [Ecb 2]" "sample_blocks(H_Semp 0 := []) = (\<lambda>q. [])"
  by (auto simp: sample_blocks_def)

end
