(* ===== verification/LockOps.thy ===== *)
theory LockOps
  imports Critical
begin

text \<open>
  The effect of the operations of \<open>djyos/lock/lock.c\<close> on the kernel's queues, one lemma per
  outcome.  Each says which lists the ready, delay and block queues hold afterwards
  (\<open>switched\<close>), and what becomes of the counters.
\<close>

section \<open>Semaphores\<close>

lemma SempPost_unfold:
  assumes "semp_sync (semps s i) \<noteq> NULL"
  shows "Lock_SempPost (Some i) s = do {
    s1 \<leftarrow> do { s1 \<leftarrow> take_first (H_Semp i) (semp_sync (semps s i)) (Int_SaveAsynSignal s);
            wake_ready CN_STS_WAIT_SEMP (semp_sync (semps s i)) s1 };
    Int_RestoreAsynSignal s1 }"
  using assms by (simp add: Lock_SempPost_def wake_ready_def Let_def)

lemma semp_head: "kinv s xs ds Q \<Longrightarrow> semp_sync (semps s i) = (if Q (H_Semp i) = [] then NULL else hd (Q (H_Semp i)))"
  using kinvD(3) [of s xs ds Q "H_Semp i"] by (auto simp: hvalid_def hdval_def block_ok_def)

lemma block_head_valid: "kinv s xs ds Q \<Longrightarrow> Q q = e # bs \<Longrightarrow> valid e s"
  using kinvD(10) [of s xs ds Q e q] by simp

lemma qview_upd_semp:
  "(\<And>m. semp_sync (f m) = semp_sync m) \<Longrightarrow> qview (upd_semp i f s) = qview s"
  by (auto simp: qview_def upd_semp_def hdval_def hvalid_def fun_eq_iff split: headp.split)

lemma in_section_upd_semp [simp]: "in_section s (upd_semp i f s1) = in_section s s1"
  by (simp add: in_section_def upd_semp_def)

lemma upd_semp_fields [simp]:
  "semps (upd_semp i f s) = (semps s)(i := f (semps s i))" "ecbs (upd_semp i f s) = ecbs s"
  by (simp_all add: upd_semp_def)

lemma SempPost_wake:
  assumes K: "kinv s xs ds Q" and Q: "Q (H_Semp i) = e # bs"
    and k: "pri (ecbs s) e < pri (ecbs s) (last xs)"
    and able: "able (g_ptEventRunning s) s" "\<forall>x \<in> insert e (set xs). able x s"
  shows "\<exists>s'. Lock_SempPost (Some i) s = Some s' \<and>
    switched s s' (prio_insert (pri (ecbs s)) e xs) (remove1 e ds) (Q(H_Semp i := bs)) \<and>
    wakeup_from (ecbs s' e) = CN_STS_WAIT_SEMP \<and> pri (ecbs s') = pri (ecbs s) \<and>
    (\<forall>j. lamp_counter (semps s' j) = lamp_counter (semps s j))"
proof -
  let ?s = "Int_SaveAsynSignal s" and ?xs = "prio_insert (pri (ecbs s)) e xs"
  have e: "semp_sync (semps s i) = e" using semp_head [OF K, of i] Q by simp
  have eN: "e \<noteq> NULL" using block_head_valid [OF K Q] by (auto dest: vptrD)
  have "hvalid (H_Semp i) ?s" by (simp add: hvalid_def)
  with kinv_wake_first [of ?s xs ds Q _ e bs CN_STS_WAIT_SEMP] K Q k obtain s1 where
    s1: "(do { s \<leftarrow> take_first (H_Semp i) e ?s; wake_ready CN_STS_WAIT_SEMP e s }) = Some s1"
      "kinv s1 ?xs (remove1 e ds) (Q(H_Semp i := bs))" "kframe ?s s1"
      "wakeup_from (ecbs s1 e) = CN_STS_WAIT_SEMP" by auto
  have "in_section s s1" using in_section_kframe [OF in_section_Save s1(3)] .
  from leave_switched [OF s1(2) this able_hd_insert [OF able(2)] able(1)] obtain s' where
    s': "Int_RestoreAsynSignal s1 = Some s'" "switched s s' ?xs (remove1 e ds) (Q(H_Semp i := bs))"
      "semps s' = semps s1" "wkf (ecbs s') = wkf (ecbs s1)" "pri (ecbs s') = pri (ecbs s1)" by blast
  have "wakeup_from (ecbs s' e) = wakeup_from (ecbs s1 e)" using fun_cong [OF s'(4), of e] by (simp add: wkf_def)
  then show ?thesis
    using s1 s' e eN kframe_locks [OF s1(3)] kframe_ecb(6) [OF s1(3)] by (auto simp: SempPost_unfold)
qed

text \<open>Without a waiter the lamps are counted, up to the limit.\<close>

definition lamps_after_post :: "SemaphoreLCB \<Rightarrow> u32" where
  "lamps_after_post m = (if lamp_counter m < lamps_limit m then lamp_counter m + 1 else lamp_counter m)"

lemma below_limit: "x < 0xFFFFFFFF \<longleftrightarrow> x \<noteq> 0xFFFFFFFF" for x :: u32
  using unsigned_less [of x, where 'a = nat] by (auto simp: word_less_nat_alt word_unat_eq_iff)

lemma SempPost_count:
  assumes K: "kinv s xs ds Q" and Q: "Q (H_Semp i) = []"
    and able: "able (g_ptEventRunning s) s" "able (hd xs) s"
  shows "\<exists>s'. Lock_SempPost (Some i) s = Some s' \<and> switched s s' xs ds Q \<and> pri (ecbs s') = pri (ecbs s) \<and>
    semps s' = (semps s)(i := (semps s i)\<lparr>lamp_counter := lamps_after_post (semps s i)\<rparr>)"
proof -
  let ?m = "semps s i"
  define s1 where "s1 = upd_semp i (\<lambda>m. m\<lparr>lamp_counter := lamps_after_post m\<rparr>) (Int_SaveAsynSignal s)"
  have same: "upd_semp i (\<lambda>m. m\<lparr>lamp_counter := lamps_after_post m\<rparr>) t = t"
    if "\<not> lamp_counter (semps t i) < lamps_limit (semps t i)" for t
    using that by (simp add: upd_semp_def lamps_after_post_def)
  have inc: "upd_semp i (\<lambda>m. m\<lparr>lamp_counter := lamps_after_post m\<rparr>) t = upd_semp i (\<lambda>m. m\<lparr>lamp_counter := lamp_counter m + 1\<rparr>) t"
    if "lamp_counter (semps t i) < lamps_limit (semps t i)" for t
    using that by (simp add: upd_semp_def lamps_after_post_def)
  have "semp_sync ?m = NULL" using semp_head [OF K, of i] Q by simp
  then have run: "Lock_SempPost (Some i) s = Int_RestoreAsynSignal s1"
    using same [of "Int_SaveAsynSignal s"] inc [of "Int_SaveAsynSignal s"]
    by (auto simp: Lock_SempPost_def s1_def Let_def below_limit)
  have "qview s1 = qview s" by (simp add: s1_def qview_upd_semp)
  then have "kinv s1 xs ds Q" using K kinv_view by blast
  from leave_switched [OF this _ able(2,1)] obtain s' where
    "Int_RestoreAsynSignal s1 = Some s'" "switched s s' xs ds Q" "semps s' = semps s1"
    "pri (ecbs s') = pri (ecbs s1)" by (auto simp: s1_def)
  then show ?thesis using run by (auto simp: s1_def)
qed

lemma SempPend_now:
  fixes i :: nat and timeout :: u32
  assumes K: "kinv s xs ds Q" and able: "able (hd xs) s" "able (g_ptEventRunning s) s"
  defines "m \<equiv> semps s i"
  defines "ok \<equiv> lamps_limit m = CN_LIMIT_UINT32 \<or> lamp_counter m > 0"
  assumes now: "ok \<or> \<not> g_bScheduleEnable s \<or> timeout = 0"
  shows "\<exists>s'. Lock_SempPend (Some i) timeout s = Some (Return ok, s') \<and> switched s s' xs ds Q \<and>
    pri (ecbs s') = pri (ecbs s) \<and>
    semps s' = (semps s)(i := m\<lparr>lamp_counter := if lamp_counter m \<noteq> 0 then lamp_counter m - 1 else 0\<rparr>)"
proof -
  define s1 where "s1 = (if lamp_counter m \<noteq> 0
     then upd_semp i (\<lambda>m. m\<lparr>lamp_counter := lamp_counter m - 1\<rparr>) (Int_SaveAsynSignal s) else Int_SaveAsynSignal s)"
  have "qview s1 = qview s" by (simp add: s1_def qview_upd_semp)
  then have K1: "kinv s1 xs ds Q" using K kinv_view by blast
  have "in_section s s1" by (simp add: s1_def)
  from leave_switched [OF K1 this able] obtain s' where s': "Int_RestoreAsynSignal s1 = Some s'"
    "switched s s' xs ds Q" "semps s' = semps s1" "pri (ecbs s') = pri (ecbs s1)" by blast
  have "Lock_SempPend (Some i) timeout s = Some (Return ok, s')"
    using now s'(1) by (auto simp: Lock_SempPend_def s1_def m_def ok_def Let_def Djy_QuerySch_def)
  moreover have "semps s1 = (semps s)(i := m\<lparr>lamp_counter := if lamp_counter m \<noteq> 0 then lamp_counter m - 1 else 0\<rparr>)"
    by (auto simp: s1_def m_def)
  ultimately show ?thesis using s' by (auto simp: s1_def)
qed

text \<open>Blocking in the queue of a lock.\<close>

lemma block_and_leave:
  assumes K: "kinv s (as @ g_ptEventRunning s # y # bs) ds Q" and q: "hvalid q s"
    and st: "\<not> has_flag Status CN_STS_SYNC_TIMEOUT" "has_flag (Status + CN_STS_SYNC_TIMEOUT) CN_STS_SYNC_TIMEOUT"
    and t: "t = g_s64OsTicks s + us_to_ticks s (uint timeout)"
  shows "\<exists>s1. Djy_AddRunningToBlock q Qsort timeout Status (Int_SaveAsynSignal s) = Some s1 \<and>
    kframe (Int_SaveAsynSignal s) s1 \<and> in_section s s1 \<and>
    sts (ecbs s1) (g_ptEventRunning s) = (if timeout = CN_TIMEOUT_FOREVER then Status else Status + CN_STS_SYNC_TIMEOUT) \<and>
    kinv s1 (as @ y # bs)
      (if timeout = CN_TIMEOUT_FOREVER then ds else ins_by (\<lambda>y. due (ecbs s) y \<le> t) (g_ptEventRunning s) ds)
      (Q(q := ins_by (queue_before Qsort (ecbs s) (g_ptEventRunning s)) (g_ptEventRunning s) (Q q)))"
proof -
  let ?s = "Int_SaveAsynSignal s"
  have K0: "kinv ?s (as @ g_ptEventRunning ?s # y # bs) ds Q" using K by simp
  have hv: "hvalid q ?s" and tt: "t = g_s64OsTicks ?s + us_to_ticks ?s (uint timeout)" using q t by simp_all
  from kinv_AddRunningToBlock [OF K0 refl hv st tt, of Qsort, unfolded Save_fields] show ?thesis
    using in_section_kframe [OF in_section_Save] by auto
qed

lemma SempPend_block:
  fixes i :: nat and timeout :: u32
  assumes K: "kinv s (as @ g_ptEventRunning s # y # bs) ds Q"
    and able: "\<forall>x \<in> set (as @ g_ptEventRunning s # y # bs). able x s"
    and no: "lamps_limit (semps s i) \<noteq> CN_LIMIT_UINT32" "lamp_counter (semps s i) = 0"
    and sch: "g_bScheduleEnable s" "timeout \<noteq> 0"
  defines "t \<equiv> g_s64OsTicks s + us_to_ticks s (uint timeout)"
  shows "\<exists>s'. Lock_SempPend (Some i) timeout s = Some (Block (), s') \<and>
    switched s s' (as @ y # bs)
      (if timeout = CN_TIMEOUT_FOREVER then ds
       else ins_by (\<lambda>y. due (ecbs s) y \<le> t) (g_ptEventRunning s) ds)
      (Q(H_Semp i := ins_by (queue_before (sync_order (semps s i)) (ecbs s) (g_ptEventRunning s))
                       (g_ptEventRunning s) (Q (H_Semp i)))) \<and>
    pri (ecbs s') = pri (ecbs s) \<and> (\<forall>j. lamp_counter (semps s' j) = lamp_counter (semps s j)) \<and>
    sts (ecbs s') (g_ptEventRunning s) =
      (if timeout = CN_TIMEOUT_FOREVER then CN_STS_WAIT_SEMP else CN_STS_WAIT_SEMP + CN_STS_SYNC_TIMEOUT)"
proof -
  have flag: "\<not> has_flag CN_STS_WAIT_SEMP CN_STS_SYNC_TIMEOUT"
    "has_flag (CN_STS_WAIT_SEMP + CN_STS_SYNC_TIMEOUT) CN_STS_SYNC_TIMEOUT" by (simp_all add: has_flag_def)
  have hv: "hvalid (H_Semp i) s" by (simp add: hvalid_def)
  from block_and_leave [OF K hv flag t_def [THEN meta_eq_to_obj_eq], of "sync_order (semps s i)"]
  obtain s1 where s1: "Djy_AddRunningToBlock (H_Semp i) (sync_order (semps s i)) timeout CN_STS_WAIT_SEMP
      (Int_SaveAsynSignal s) = Some s1" "kframe (Int_SaveAsynSignal s) s1" "in_section s s1"
    "sts (ecbs s1) (g_ptEventRunning s) = (if timeout = CN_TIMEOUT_FOREVER then CN_STS_WAIT_SEMP else CN_STS_WAIT_SEMP + CN_STS_SYNC_TIMEOUT)"
    "kinv s1 (as @ y # bs)
      (if timeout = CN_TIMEOUT_FOREVER then ds else ins_by (\<lambda>y. due (ecbs s) y \<le> t) (g_ptEventRunning s) ds)
      (Q(H_Semp i := ins_by (queue_before (sync_order (semps s i)) (ecbs s) (g_ptEventRunning s))
                       (g_ptEventRunning s) (Q (H_Semp i))))" by blast
  have "able (hd (as @ y # bs)) s" "able (g_ptEventRunning s) s"
    using bspec [OF able hd_remove_mid] able by simp_all
  from leave_switched [OF s1(5,3) this] obtain s' where s': "Int_RestoreAsynSignal s1 = Some s'"
    "semps s' = semps s1" "pri (ecbs s') = pri (ecbs s1)" "sts (ecbs s') = sts (ecbs s1)"
    "switched s s' (as @ y # bs)
      (if timeout = CN_TIMEOUT_FOREVER then ds else ins_by (\<lambda>y. due (ecbs s) y \<le> t) (g_ptEventRunning s) ds)
      (Q(H_Semp i := ins_by (queue_before (sync_order (semps s i)) (ecbs s) (g_ptEventRunning s))
                       (g_ptEventRunning s) (Q (H_Semp i))))" by blast
  have "Lock_SempPend (Some i) timeout s = Some (Block (), s')"
    using s1(1) s'(1) no sch by (simp add: Lock_SempPend_def Let_def Djy_QuerySch_def)
  then show ?thesis using s' s1(4) kframe_locks [OF s1(2)] kframe_ecb(6) [OF s1(2)] by auto
qed

end
