(* ===== verification/LockProps.thy ===== *)
theory LockProps
  imports LockOps
begin

text \<open>The properties of the semaphores and mutexes of \<open>djyos/lock/lock.c\<close>.\<close>

section \<open>Semaphores\<close>

text \<open>
  C4: posting a semaphore somebody waits for.  The first waiter leaves the semaphore's queue
  and, if its wait had a limit, the delay queue; it becomes ready behind the events of its
  priority and finds \<open>CN_STS_WAIT_SEMP\<close> in \<open>wakeup_from\<close>; the lamp is handed over, not counted.
  The processor goes to the highest priority, unless the caller had closed the scheduling lock.
\<close>

theorem SempPost_wakes_first:
  assumes K: "kinv s xs ds Q" and Q: "Q (H_Semp i) = e # bs"
    and k: "pri (ecbs s) e < pri (ecbs s) (last xs)"
    and able: "able (g_ptEventRunning s) s" "\<forall>x \<in> insert e (set xs). able x s"
  shows "\<exists>s'. Lock_SempPost (Some i) s = Some s' \<and>
    kinv s' (prio_insert (pri (ecbs s)) e xs) (remove1 e ds) (Q(H_Semp i := bs)) \<and>
    wakeup_from (ecbs s' e) = CN_STS_WAIT_SEMP \<and>
    lamp_counter (semps s' i) = lamp_counter (semps s i) \<and>
    g_ptEventRunning s' = (if outermost s then hd (prio_insert (pri (ecbs s)) e xs) else g_ptEventRunning s)"
  using SempPost_wake [OF K Q k able] by (auto simp: switched_def)

theorem SempPost_wakes_first_witness:
  "\<exists>s'. Lock_SempPost (Some 0) sample = Some s' \<and> kinv s' [Ecb 2, Ecb 1, Ecb 3, Ecb 0] [] (\<lambda>q. []) \<and>
     g_ptEventRunning s' = Ecb 2"
  using SempPost_wakes_first [OF sample_kinv, of 0 "Ecb 2" "[]"]
  by (auto simp: sample_ready_def prio_insert_def ins_by_def)

text \<open>
  C5: the calls of \<open>Lock_SempPend\<close> that do not block.  With a lamp (or an unlimited semaphore) the
  call returns true and one lamp less is left; without a lamp, when no waiting is asked for or
  scheduling is forbidden, it returns false and takes nothing.  No queue changes.
\<close>

theorem SempPend_immediate:
  fixes i :: nat and timeout :: u32
  assumes K: "kinv s xs ds Q" and able: "able (hd xs) s" "able (g_ptEventRunning s) s"
  defines "m \<equiv> semps s i"
  defines "ok \<equiv> lamps_limit m = CN_LIMIT_UINT32 \<or> lamp_counter m > 0"
  assumes now: "ok \<or> \<not> g_bScheduleEnable s \<or> timeout = 0"
  shows "\<exists>s'. Lock_SempPend (Some i) timeout s = Some (Return ok, s') \<and> kinv s' xs ds Q \<and>
    lamp_counter (semps s' i) = (if lamp_counter m \<noteq> 0 then lamp_counter m - 1 else 0) \<and>
    (\<forall>j. j \<noteq> i \<longrightarrow> semps s' j = semps s j) \<and>
    g_ptEventRunning s' = (if outermost s then hd xs else g_ptEventRunning s)"
  using SempPend_now [OF K able now [unfolded ok_def m_def]]
  by (auto simp: switched_def ok_def m_def)

theorem SempPend_immediate_witness:
  "\<exists>s'. Lock_SempPend (Some 1) 0 sample = Some (Return True, s') \<and> lamp_counter (semps s' 1) = 1"
  using SempPend_immediate [OF sample_kinv, of 1 0] by (auto simp: sample_ready_def)

text \<open>
  C6: waiting for a lamp.  Without a lamp the running event leaves the ready queue and goes into
  the semaphore's queue: with \<open>CN_BLOCK_PRIO\<close> behind every waiter of its priority or a higher
  one, otherwise at the end.  A limited wait is entered in the delay queue at its time.  The
  processor goes to the highest priority that is left.
\<close>

theorem SempPend_blocks:
  fixes i :: nat and timeout :: u32
  assumes K: "kinv s (as @ g_ptEventRunning s # y # bs) ds Q"
    and able: "\<forall>x \<in> set (as @ g_ptEventRunning s # y # bs). able x s"
    and no: "lamps_limit (semps s i) \<noteq> CN_LIMIT_UINT32" "lamp_counter (semps s i) = 0"
    and sch: "outermost s" "g_bScheduleEnable s" "timeout \<noteq> 0"
  defines "t \<equiv> g_s64OsTicks s + us_to_ticks s (uint timeout)"
  shows "\<exists>s'. Lock_SempPend (Some i) timeout s = Some (Block (), s') \<and>
    kinv s' (as @ y # bs)
      (if timeout = CN_TIMEOUT_FOREVER then ds
       else ins_by (\<lambda>y. due (ecbs s) y \<le> t) (g_ptEventRunning s) ds)
      (Q(H_Semp i := ins_by (queue_before (sync_order (semps s i)) (ecbs s) (g_ptEventRunning s))
                       (g_ptEventRunning s) (Q (H_Semp i)))) \<and>
    lamp_counter (semps s' i) = 0 \<and> g_ptEventRunning s' = hd (as @ [y])"
proof -
  have "hd (as @ y # bs) = hd (as @ [y])" by (cases as) auto
  then show ?thesis
    using SempPend_block [OF K able no sch(2,3)] no(2) sch(1) unfolding t_def by (auto simp: switched_def)
qed

theorem SempPend_blocks_witness:
  "\<exists>s'. Lock_SempPend (Some 0) 10000 sample = Some (Block (), s') \<and>
     kinv s' [Ecb 3, Ecb 0] [Ecb 2, Ecb 1] (sample_blocks(H_Semp 0 := [Ecb 2, Ecb 1])) \<and>
     g_ptEventRunning s' = Ecb 3"
proof -
  have K: "kinv sample ([] @ g_ptEventRunning sample # Ecb 3 # [Ecb 0]) [Ecb 2] sample_blocks"
    using sample_kinv by (simp add: sample_ready_def)
  show ?thesis
    using SempPend_blocks [OF K, of 0 10000]
    by (auto simp: ins_by_def us_to_ticks_def queue_before_def)
qed

end
