(* ===== verification/Bytes.thy ===== *)
theory Bytes
  imports Prelude
begin

text \<open>
  Blocks of memory as byte lists, for the components that copy data: \<open>memcpy\<close> with its bounds
  (an access outside a block is \<open>None\<close>), the loops that look for a byte or a string, and the
  contract of a byte queue that the ring and the line buffer share.
\<close>

section \<open>Copying\<close>

definition mem_get :: "nat \<Rightarrow> nat \<Rightarrow> u8 list \<Rightarrow> u8 list option" where
  "mem_get off n b = (if off + n \<le> length b then Some (take n (drop off b)) else None)"

definition mem_put :: "nat \<Rightarrow> u8 list \<Rightarrow> u8 list \<Rightarrow> u8 list option" where
  "mem_put off d b =
     (if off + length d \<le> length b then Some (take off b @ d @ drop (off + length d) b) else None)"

text \<open>\<open>memcpy(dst + doff, src + soff, n)\<close>: the new content of \<open>dst\<close>.\<close>

definition memcpy :: "u8 list \<Rightarrow> nat \<Rightarrow> u8 list \<Rightarrow> nat \<Rightarrow> nat \<Rightarrow> u8 list option" where
  "memcpy dst doff src soff n = do { d \<leftarrow> mem_get soff n src; mem_put doff d dst }"

lemma mem_put_nth:
  "mem_put off d b = Some b' \<Longrightarrow> i < length b \<Longrightarrow>
   b' ! i = (if off \<le> i \<and> i < off + length d then d ! (i - off) else b ! i)"
  by (auto simp: mem_put_def nth_append min_def split: if_splits)

lemma memcpy_Some:
  "soff + n \<le> length src \<Longrightarrow> doff + n \<le> length dst \<Longrightarrow>
   memcpy dst doff src soff n = Some (take doff dst @ take n (drop soff src) @ drop (doff + n) dst)"
  by (simp add: memcpy_def mem_get_def mem_put_def min_absorb2 add_ac)

lemma memcpy_nth:
  assumes "memcpy dst doff src soff n = Some b'" and "i < length dst"
  shows "b' ! i = (if doff \<le> i \<and> i < doff + n then src ! (soff + (i - doff)) else dst ! i)"
  using assms by (auto simp: memcpy_def mem_get_def mem_put_def nth_append min_def split: if_splits Option.bind_splits)

lemma memcpy_length: "memcpy dst doff src soff n = Some b' \<Longrightarrow> length b' = length dst"
  by (auto simp: memcpy_def mem_get_def mem_put_def split: if_splits Option.bind_splits)

section \<open>32-bit lengths and offsets\<close>

lemma u32_add: "unat a + unat b < 4294967296 \<Longrightarrow> unat (a + b :: u32) = unat a + unat b"
  by (simp add: unat_word_ariths)

lemma u32_sub: "b \<le> a \<Longrightarrow> unat (a - b :: u32) = unat a - unat b"
  by (simp add: unat_sub word_le_nat_alt)

lemma unat_of_nat_u32: "n < 4294967296 \<Longrightarrow> unat (of_nat n :: u32) = n"
  by (simp add: unat_of_nat take_bit_nat_eq_self)

lemmas u32_le = word_le_nat_alt word_less_nat_alt

lemma mod_once: "(a::nat) < 2 * m \<Longrightarrow> a mod m = (if a < m then a else a - m)"
  by (auto simp: mod_if le_mod_geq)

text \<open>
  Storing \<open>n\<close> bytes at \<open>off\<close> in a pool of \<open>m\<close> bytes, in one piece or, past the end, in two.
\<close>

definition cyclic_store :: "nat \<Rightarrow> nat \<Rightarrow> u8 list \<Rightarrow> u8 list \<Rightarrow> u8 list option" where
  "cyclic_store off n d b =
     (if off + n > length b then do {
        c \<leftarrow> memcpy b off d 0 (length b - off);
        memcpy c 0 d (length b - off) (n - (length b - off)) }
      else memcpy b off d 0 n)"

lemma cyclic_store_Some:
  assumes "off \<le> length b" and "n \<le> length b" and "n \<le> length d"
  shows "\<exists>b'. cyclic_store off n d b = Some b' \<and> length b' = length b \<and>
    (\<forall>j < length b. b' ! ((off + j) mod length b) = (if j < n then d ! j else b ! ((off + j) mod length b)))"
proof (cases "off + n > length b")
  case True
  let ?m = "length b" and ?p = "length b - off"
  obtain b1 where b1: "memcpy b off d 0 ?p = Some b1" using assms True by (simp add: memcpy_Some)
  have l1: "length b1 = ?m" by (rule memcpy_length [OF b1])
  obtain b2 where b2: "memcpy b1 0 d ?p (n - ?p) = Some b2" using assms True l1 by (simp add: memcpy_Some)
  have l2: "length b2 = ?m" using memcpy_length [OF b2] l1 by simp
  have "b2 ! ((off + j) mod ?m) = (if j < n then d ! j else b ! ((off + j) mod ?m))" if "j < ?m" for j
    using that assms True memcpy_nth [OF b2] memcpy_nth [OF b1]
    by (auto simp: l1 mod_once)
  then show ?thesis using True b1 b2 l2 by (simp add: cyclic_store_def)
next
  case False
  then obtain b1 where b1: "memcpy b off d 0 n = Some b1" using assms by (simp add: memcpy_Some)
  have "b1 ! ((off + j) mod length b) = (if j < n then d ! j else b ! ((off + j) mod length b))"
    if "j < length b" for j
    using that assms False memcpy_nth [OF b1] by (auto simp: mod_once)
  then show ?thesis using False b1 memcpy_length [OF b1] by (simp add: cyclic_store_def)
qed

text \<open>Reading them back into a block \<open>dst\<close>.\<close>

definition cyclic_load :: "nat \<Rightarrow> nat \<Rightarrow> u8 list \<Rightarrow> u8 list \<Rightarrow> u8 list option" where
  "cyclic_load off n b dst =
     (if off + n > length b then do {
        d \<leftarrow> memcpy dst 0 b off (length b - off);
        memcpy d (length b - off) b 0 (n - (length b - off)) }
      else memcpy dst 0 b off n)"

lemma cyclic_load_Some:
  assumes "off \<le> length b" and "n \<le> length b" and "n \<le> length dst"
  shows "cyclic_load off n b dst = Some (map (\<lambda>i. b ! ((off + i) mod length b)) [0..<n] @ drop n dst)"
proof (cases "off + n > length b")
  case True
  let ?p = "length b - off"
  obtain d1 where d1: "memcpy dst 0 b off ?p = Some d1" using assms True by (simp add: memcpy_Some)
  have l1: "length d1 = length dst" by (rule memcpy_length [OF d1])
  obtain d2 where d2: "memcpy d1 ?p b 0 (n - ?p) = Some d2" using assms True l1 by (simp add: memcpy_Some)
  have l2: "length d2 = length dst" using memcpy_length [OF d2] l1 by simp
  have "d2 = map (\<lambda>i. b ! ((off + i) mod length b)) [0..<n] @ drop n dst"
    using assms True memcpy_nth [OF d2] memcpy_nth [OF d1]
    by (intro nth_equalityI) (auto simp: l1 l2 mod_once nth_append add_ac)
  then show ?thesis using True d1 d2 by (simp add: cyclic_load_def)
next
  case False
  then obtain d1 where d1: "memcpy dst 0 b off n = Some d1" using assms by (simp add: memcpy_Some)
  have "d1 = map (\<lambda>i. b ! ((off + i) mod length b)) [0..<n] @ drop n dst"
    using assms False memcpy_nth [OF d1] memcpy_length [OF d1]
    by (intro nth_equalityI) (auto simp: mod_once nth_append)
  then show ?thesis using False d1 by (simp add: cyclic_load_def)
qed

section \<open>Searching\<close>

text \<open>\<open>CN_LIMIT_UINT32\<close>, what a search returns that finds nothing.\<close>

abbreviation (input) "CN_NOT_FOUND \<equiv> (0xFFFFFFFF :: u32)"

text \<open>
  \<open>for(; cond(i); i++) if(test(i)) return i;\<close> with a 32-bit \<open>i\<close>: where the loop stopped and
  whether the test held there.
\<close>

partial_function (option) scan_loop ::
    "(u32 \<Rightarrow> bool) \<Rightarrow> (u32 \<Rightarrow> bool option) \<Rightarrow> u32 \<Rightarrow> (u32 \<times> bool) option" where
  "scan_loop cond test i =
     (if \<not> cond i then Some (i, False)
      else do { r \<leftarrow> test i; if r then Some (i, True) else scan_loop cond test (i + 1) })"

text \<open>\<open>for(j=0; j<n; j++) if(buf[i+j] != str[so+j]) next = true;\<close> and the value of \<open>!next\<close>.\<close>

definition bytes_match :: "u8 list \<Rightarrow> u32 \<Rightarrow> u8 list \<Rightarrow> u32 \<Rightarrow> u32 \<Rightarrow> bool option" where
  "bytes_match buf i str so n = do {
     a \<leftarrow> mem_get (unat i) (unat n) buf;
     b \<leftarrow> mem_get (unat so) (unat n) str;
     Some (a = b) }"

definition byte_is :: "u8 list \<Rightarrow> u8 \<Rightarrow> u32 \<Rightarrow> bool option" where
  "byte_is buf c i = (if unat i < length buf then Some (buf ! unat i = c) else None)"

lemma scan_loop_stop: "\<not> cond i \<Longrightarrow> scan_loop cond test i = Some (i, False)"
  by (subst scan_loop.simps) simp

lemma scan_loop_finds:
  assumes "i \<le> e" and "\<And>j. i \<le> j \<Longrightarrow> j < e \<Longrightarrow> test j = Some (P j)"
    and cond: "\<And>j. j \<le> e \<Longrightarrow> cond j \<longleftrightarrow> j < e"
  shows "scan_loop cond test i =
    (case List.find P (map of_nat [unat i ..< unat e]) of None \<Rightarrow> Some (e, False) | Some j \<Rightarrow> Some (j, True))"
  using assms(1,2)
proof (induction "unat e - unat i" arbitrary: i)
  case 0
  then have "i = e" by (simp add: u32_le word_unat_eq_iff)
  then show ?case by (subst scan_loop.simps) (simp add: cond)
next
  case (Suc n)
  then have lt: "i < e" by (metis Suc_neq_Zero diff_self_eq_0 le_neq_trans)
  then have u: "unat (i + 1) = unat i + 1" "i + 1 \<le> e"
    using unsigned_less [of e, where 'a = nat] by (auto simp: u32_le unat_word_ariths)
  have l: "[unat i ..< unat e] = unat i # [unat (i + 1) ..< unat e]"
    using lt by (simp add: u upt_conv_Cons word_less_nat_alt)
  have IH: "scan_loop cond test (i + 1) = (case List.find P (map of_nat [unat (i + 1) ..< unat e]) of
      None \<Rightarrow> Some (e, False) | Some j \<Rightarrow> Some (j, True))"
  proof (rule Suc.hyps(1) [OF _ u(2)])
    show "n = unat e - unat (i + 1)" using Suc.hyps(2) u by simp
    show "test j = Some (P j)" if "i + 1 \<le> j" "j < e" for j
      using Suc.prems(2) [of j] that u(1) by (simp add: word_le_nat_alt)
  qed
  have "test i = Some (P i)" "cond i" using Suc.prems(2) [of i] lt cond [of i] by simp_all
  then show ?case using IH l by (subst scan_loop.simps) simp
qed

text \<open>Where a byte first occurs in a list.\<close>

definition first_at :: "u8 \<Rightarrow> u8 list \<Rightarrow> u32" where
  "first_at c xs = (if c \<in> set xs then of_nat (length (takeWhile (\<lambda>x. x \<noteq> c) xs)) else CN_NOT_FOUND)"

text \<open>Where a string first occurs in a list.\<close>

definition first_match :: "u8 list \<Rightarrow> u8 list \<Rightarrow> u32" where
  "first_match str xs =
     (if length xs < length str then CN_NOT_FOUND
      else case List.find (\<lambda>i. take (length str) (drop i xs) = str) [0 ..< Suc (length xs - length str)] of
          None \<Rightarrow> CN_NOT_FOUND | Some i \<Rightarrow> of_nat i)"

lemma find_map: "List.find P (map f xs) = map_option f (List.find (\<lambda>x. P (f x)) xs)"
  by (induction xs) auto

text \<open>A loop over the cells \<open>a \<le> i < b\<close> of the pool.\<close>

lemma scan_pool:
  assumes "a \<le> b" and "unat b \<le> length buf"
  defines "xs \<equiv> take (unat b - unat a) (drop (unat a) buf)"
  shows "scan_loop (\<lambda>i. i < b) (byte_is buf c) a = Some
    (if c \<in> set xs then (a + of_nat (length (takeWhile (\<lambda>x. x \<noteq> c) xs)), True) else (b, False))"
  using assms(1) unfolding xs_def
proof (induction "unat b - unat a" arbitrary: a)
  case 0
  then have "a = b" by (simp add: u32_le word_unat_eq_iff)
  then show ?case by (subst scan_loop.simps) simp
next
  case (Suc n)
  then have lt: "a < b" by (metis Suc_neq_Zero diff_self_eq_0 le_neq_trans)
  have u: "unat (a + 1) = unat a + 1"
    using lt unsigned_less [of b, where 'a = nat] u32_add [of a 1] by (simp add: u32_le)
  have le: "a + 1 \<le> b" using lt u by (simp add: u32_le)
  have a: "unat a < length buf" using lt assms(2) by (simp add: u32_le)
  have x: "take (unat b - unat a) (drop (unat a) buf) =
      buf ! unat a # take (unat b - unat (a + 1)) (drop (unat (a + 1)) buf)"
    using a Suc.hyps(2) by (simp add: u Cons_nth_drop_Suc [symmetric] take_Suc_conv_app_nth take_Cons')
  have IH: "scan_loop (\<lambda>i. i < b) (byte_is buf c) (a + 1) = Some
    (let xs = take (unat b - unat (a + 1)) (drop (unat (a + 1)) buf)
     in if c \<in> set xs then (a + 1 + of_nat (length (takeWhile (\<lambda>x. x \<noteq> c) xs)), True) else (b, False))"
    using Suc.hyps(1) [OF _ le] Suc.hyps(2) u by (simp add: Let_def)
  show ?case unfolding x
    by (subst scan_loop.simps) (use lt a IH in \<open>auto simp: byte_is_def Let_def\<close>)
qed

section \<open>The contract of a byte queue\<close>

text \<open>
  \<open>cap\<close>: how many bytes fit; \<open>content\<close>: the bytes in it, in the order they will be read.  A
  writer stores as much as fits, a reader gets as much as there is.
\<close>

locale byte_queue =
  fixes ok :: "'r \<Rightarrow> bool" and cap :: "'r \<Rightarrow> nat" and content :: "'r \<Rightarrow> u8 list"
    and put :: "'r \<Rightarrow> u8 list \<Rightarrow> (nat \<times> 'r) option"
    and readable :: "'r \<Rightarrow> nat \<Rightarrow> bool"
    and get :: "'r \<Rightarrow> nat \<Rightarrow> (u8 list \<times> 'r) option"
  assumes fits: "ok r \<Longrightarrow> length (content r) \<le> cap r"
    and put_law: "ok r \<Longrightarrow> length d < 2 ^ 32 \<Longrightarrow>
      \<exists>r'. put r d = Some (min (cap r - length (content r)) (length d), r') \<and> ok r' \<and> cap r' = cap r \<and>
        content r' = content r @ take (cap r - length (content r)) d"
    and get_law: "ok r \<Longrightarrow> readable r n \<Longrightarrow>
      \<exists>r'. get r n = Some (take n (content r), r') \<and> ok r' \<and> cap r' = cap r \<and> content r' = drop n (content r)"
begin

text \<open>Writing one list after the other.\<close>

lemma put_all:
  assumes "ok r" and "length (content r) + length (concat ds) \<le> cap r" and "cap r < 2 ^ 32"
  shows "\<exists>r'. for_each ds (\<lambda>d r. map_option snd (put r d)) r = Some r' \<and> ok r' \<and> cap r' = cap r \<and>
    content r' = content r @ concat ds"
  using assms
proof (induction ds arbitrary: r)
  case (Cons d ds)
  then have "length d < 2 ^ 32" by simp
  with put_law Cons.prems(1) obtain r1 where
    r1: "put r d = Some (min (cap r - length (content r)) (length d), r1)" "ok r1" "cap r1 = cap r"
      "content r1 = content r @ take (cap r - length (content r)) d" by blast
  have "content r1 = content r @ d" using r1(4) Cons.prems(2) by simp
  with Cons.IH [of r1] r1 Cons.prems show ?case by (auto simp: add.assoc)
qed simp

text \<open>What was put in is got back in order, whatever the writes were cut into.\<close>

lemma put_get:
  assumes "ok r" and "content r = []" and "length (concat ds) \<le> cap r" and "cap r < 2 ^ 32"
    and "\<And>r'. ok r' \<Longrightarrow> content r' = concat ds \<Longrightarrow> readable r' (length (concat ds))"
  shows "\<exists>r' r''. for_each ds (\<lambda>d r. map_option snd (put r d)) r = Some r' \<and> content r' = concat ds \<and>
    get r' (length (concat ds)) = Some (concat ds, r'') \<and> ok r'' \<and> content r'' = []"
proof -
  obtain r' where r': "for_each ds (\<lambda>d r. map_option snd (put r d)) r = Some r'" "ok r'" "content r' = concat ds"
    using put_all [of r ds] assms by auto
  then show ?thesis using get_law [of r' "length (concat ds)"] assms(5) by auto
qed

end

end
