(* ===== verification/RingBuffer.thy ===== *)
theory RingBuffer
  imports Bytes
begin

text \<open>
  The ring buffer \<open>component/buffer/ring.c\<close>.  The byte pool is the list \<open>rbuf\<close>; a call that
  takes a pointer to bytes takes the block it points into.  Offsets and lengths are 32-bit
  words, as in the code.  \<open>char\<close> is unsigned, as on the processors the system runs on.
\<close>

record RingBuf =
  rlen :: u32
  offset_read :: u32
  offset_write :: u32
  max_len :: u32
  rbuf :: "u8 list"

definition Ring_Init :: "u8 list \<Rightarrow> u32 \<Rightarrow> RingBuf" where
  "Ring_Init buf len = \<lparr>rlen = 0, offset_read = 0, offset_write = 0, max_len = len, rbuf = buf\<rparr>"

definition Ring_Capacity :: "RingBuf \<Rightarrow> u32" where
  "Ring_Capacity ring = max_len ring"

definition Ring_GetBuf :: "RingBuf \<Rightarrow> u8 list" where
  "Ring_GetBuf ring = rbuf ring"

definition Ring_Write :: "RingBuf \<Rightarrow> u8 list \<Rightarrow> u32 \<Rightarrow> (u32 \<times> RingBuf) option" where
  "Ring_Write ring buffer len = (
     let wr_len = max_len ring - rlen ring in
     if wr_len = 0 then Some (0, ring)
     else let wr_len = (if wr_len > len then len else wr_len) in do {
       ring \<leftarrow> (if offset_write ring + wr_len > max_len ring then do {
                let partial = max_len ring - offset_write ring;
                b \<leftarrow> memcpy (rbuf ring) (unat (offset_write ring)) buffer 0 (unat partial);
                b \<leftarrow> memcpy b 0 buffer (unat partial) (unat (wr_len - partial));
                Some (ring\<lparr>rbuf := b, offset_write := wr_len - partial\<rparr>) }
              else do {
                b \<leftarrow> memcpy (rbuf ring) (unat (offset_write ring)) buffer 0 (unat wr_len);
                Some (ring\<lparr>rbuf := b, offset_write := offset_write ring + wr_len\<rparr>) });
       Some (wr_len, ring\<lparr>rlen := rlen ring + wr_len\<rparr>) })"

definition Ring_PseudoWrite :: "RingBuf \<Rightarrow> u32 \<Rightarrow> u32 \<times> RingBuf" where
  "Ring_PseudoWrite ring len = (
     let wr_len = max_len ring - rlen ring in
     if wr_len = 0 then (0, ring)
     else let wr_len = (if wr_len > len then len else wr_len);
              ring = (if offset_write ring + wr_len > max_len ring
                then let partial = max_len ring - offset_write ring
                     in ring\<lparr>offset_write := wr_len - partial\<rparr>
                else ring\<lparr>offset_write := offset_write ring + wr_len\<rparr>)
          in (wr_len, ring\<lparr>rlen := rlen ring + wr_len\<rparr>))"

text \<open>The bytes are copied into the block \<open>buffer\<close>.\<close>

definition Ring_Read :: "RingBuf \<Rightarrow> u8 list \<Rightarrow> u32 \<Rightarrow> (u32 \<times> u8 list \<times> RingBuf) option" where
  "Ring_Read ring buffer len = do {
     let wr_len = (if rlen ring < len then rlen ring else len);
     (buffer, ring) \<leftarrow> (if offset_read ring + wr_len > max_len ring then do {
              let partial = max_len ring - offset_read ring;
              d \<leftarrow> memcpy buffer 0 (rbuf ring) (unat (offset_read ring)) (unat partial);
              d \<leftarrow> memcpy d (unat partial) (rbuf ring) 0 (unat (wr_len - partial));
              Some (d, ring\<lparr>offset_read := wr_len - partial\<rparr>) }
            else do {
              d \<leftarrow> memcpy buffer 0 (rbuf ring) (unat (offset_read ring)) (unat wr_len);
              Some (d, ring\<lparr>offset_read := offset_read ring + wr_len\<rparr>) });
     Some (wr_len, buffer, ring\<lparr>rlen := rlen ring - wr_len\<rparr>) }"

definition Ring_Check :: "RingBuf \<Rightarrow> u32" where
  "Ring_Check ring = rlen ring"

definition Ring_IsEmpty :: "RingBuf \<Rightarrow> bool" where
  "Ring_IsEmpty ring \<longleftrightarrow> rlen ring = 0"

definition Ring_IsFull :: "RingBuf \<Rightarrow> bool" where
  "Ring_IsFull ring \<longleftrightarrow> rlen ring = max_len ring"

definition Ring_Flush :: "RingBuf \<Rightarrow> RingBuf" where
  "Ring_Flush ring = ring\<lparr>rlen := 0, offset_write := 0, offset_read := 0\<rparr>"

definition Ring_PseudoRead :: "RingBuf \<Rightarrow> u32 \<Rightarrow> u32 \<times> RingBuf" where
  "Ring_PseudoRead ring len = (
     let result = (if rlen ring < len then rlen ring else len);
         ring = (if offset_read ring + result > max_len ring
           then ring\<lparr>offset_read := result + offset_read ring - max_len ring\<rparr>
           else ring\<lparr>offset_read := offset_read ring + result\<rparr>)
     in (result, ring\<lparr>rlen := rlen ring - result\<rparr>))"

text \<open>\<open>buf\<close> is \<open>None\<close> for a null pointer.\<close>

definition Ring_RecedeRead :: "RingBuf \<Rightarrow> u32 \<Rightarrow> u8 list option \<Rightarrow> (u32 \<times> RingBuf) option" where
  "Ring_RecedeRead ring len buf = do {
     let result = (if max_len ring - rlen ring > len then len else max_len ring - rlen ring);
     ring \<leftarrow> (if offset_read ring < result then do {
              let ring = ring\<lparr>offset_read := max_len ring - (result - offset_read ring)\<rparr>;
              let offset = len - result;
              case buf of None \<Rightarrow> Some ring
              | Some d \<Rightarrow> do {
                  b \<leftarrow> memcpy (rbuf ring) (unat (offset_read ring)) d (unat offset)
                         (unat (max_len ring - offset_read ring));
                  let offset = offset + (max_len ring - offset_read ring);
                  b \<leftarrow> memcpy b 0 d (unat offset) (unat (result - max_len ring - offset_read ring));
                  Some (ring\<lparr>rbuf := b\<rparr>) } }
            else do {
              let ring = ring\<lparr>offset_read := offset_read ring - result\<rparr>;
              case buf of None \<Rightarrow> Some ring
              | Some d \<Rightarrow> do {
                  b \<leftarrow> memcpy (rbuf ring) (unat (offset_read ring)) d (unat (len - result)) (unat result);
                  Some (ring\<lparr>rbuf := b\<rparr>) } });
     Some (result, ring\<lparr>rlen := rlen ring + result\<rparr>) }"

definition Ring_SkipTail :: "RingBuf \<Rightarrow> u32 \<Rightarrow> u32 \<times> RingBuf" where
  "Ring_SkipTail ring n =
     (if rlen ring > n then
        let result = n;
            ring = (if offset_write ring < result
              then ring\<lparr>offset_write := max_len ring - (result - offset_write ring)\<rparr>
              else ring\<lparr>offset_write := offset_write ring - result\<rparr>)
        in (result, ring\<lparr>rlen := rlen ring - result\<rparr>)
      else (rlen ring, Ring_Flush ring))"

definition Ring_Clean :: "RingBuf \<Rightarrow> RingBuf" where
  "Ring_Clean ring = ring\<lparr>offset_write := 0, offset_read := 0, rlen := 0\<rparr>"

definition Ring_SearchCh :: "RingBuf \<Rightarrow> u8 \<Rightarrow> u32 option" where
  "Ring_SearchCh ring c = do {
     let buf = rbuf ring;
     if offset_read ring > offset_write ring then do {
       (i, found) \<leftarrow> scan_loop (\<lambda>i. i < max_len ring) (byte_is buf c) (offset_read ring);
       if found then Some (i - offset_read ring)
       else do {
         (i, found) \<leftarrow> scan_loop (\<lambda>i. i < offset_write ring) (byte_is buf c) 0;
         Some (if found then i - offset_read ring + max_len ring else CN_NOT_FOUND) } }
     else do {
       (i, found) \<leftarrow> scan_loop (\<lambda>i. i < offset_write ring) (byte_is buf c) (offset_read ring);
       Some (if found then i - offset_read ring else CN_NOT_FOUND) } }"

text \<open>A string that begins at the end of the pool and goes on at its start.\<close>

definition Ring_match_wrap :: "RingBuf \<Rightarrow> u8 list \<Rightarrow> u32 \<Rightarrow> u32 \<Rightarrow> bool option" where
  "Ring_match_wrap ring str str_len i = do {
     let end_n = max_len ring - i;
     let start = str_len - end_n;
     m \<leftarrow> bytes_match (rbuf ring) i str 0 end_n;
     if m then bytes_match (rbuf ring) 0 str start start else Some False }"

definition Ring_SearchStr :: "RingBuf \<Rightarrow> u8 list \<Rightarrow> u32 \<Rightarrow> u32 option" where
  "Ring_SearchStr ring str str_len =
     (if rlen ring < str_len then Some CN_NOT_FOUND
      else let at = (\<lambda>i. bytes_match (rbuf ring) i str 0 str_len) in
        if offset_read ring \<le> offset_write ring then do {
          (i, found) \<leftarrow> scan_loop (\<lambda>i. i \<le> offset_write ring - str_len) at (offset_read ring);
          Some (if found then i - offset_read ring else CN_NOT_FOUND) }
        else do {
          (i, found) \<leftarrow> scan_loop (\<lambda>i. i \<le> max_len ring - str_len) at (offset_read ring);
          if found then Some (i - offset_read ring)
          else if offset_write ring \<ge> str_len then do {
            (i, found) \<leftarrow> scan_loop (\<lambda>i. i < max_len ring) (Ring_match_wrap ring str str_len) i;
            if found then Some (i - offset_read ring)
            else do {
              (i, found) \<leftarrow> scan_loop (\<lambda>i. i < offset_write ring - str_len) at 0;
              Some (if found then i - offset_read ring else CN_NOT_FOUND) } }
          else do {
            (i, found) \<leftarrow> scan_loop (\<lambda>i. i < offset_read ring + rlen ring - str_len)
                            (Ring_match_wrap ring str str_len) i;
            Some (if found then i - offset_read ring else CN_NOT_FOUND) } })"

section \<open>The ring as a byte queue\<close>

definition ring_ok :: "RingBuf \<Rightarrow> bool" where
  "ring_ok r \<longleftrightarrow> length (rbuf r) = unat (max_len r) \<and> unat (max_len r) < 2 ^ 31 \<and>
     offset_read r \<le> max_len r \<and> offset_write r \<le> max_len r \<and> rlen r \<le> max_len r \<and>
     (unat (offset_read r) + unat (rlen r)) mod unat (max_len r) = unat (offset_write r) mod unat (max_len r) \<and>
     (rlen r = 0 \<longrightarrow> offset_read r = 0 \<longrightarrow> offset_write r = max_len r \<longrightarrow> max_len r = 0)"

definition ring_at :: "RingBuf \<Rightarrow> nat \<Rightarrow> u8" where
  "ring_at r i = rbuf r ! ((unat (offset_read r) + i) mod unat (max_len r))"

definition ring_content :: "RingBuf \<Rightarrow> u8 list" where
  "ring_content r = map (ring_at r) [0..<unat (rlen r)]"

lemma ring_content_length [simp]: "length (ring_content r) = unat (rlen r)"
  by (simp add: ring_content_def)

lemma ring_okD:
  assumes "ring_ok r"
  shows "length (rbuf r) = unat (max_len r)" and "unat (max_len r) < 2147483648"
    and "unat (offset_read r) \<le> unat (max_len r)" and "unat (offset_write r) \<le> unat (max_len r)"
    and "unat (rlen r) \<le> unat (max_len r)" and "offset_read r \<le> max_len r" and "offset_write r \<le> max_len r"
    and "rlen r \<le> max_len r"
    and "(unat (offset_read r) + unat (rlen r)) mod unat (max_len r) = unat (offset_write r) mod unat (max_len r)"
    and "rlen r = 0 \<Longrightarrow> offset_read r = 0 \<Longrightarrow> offset_write r = max_len r \<Longrightarrow> max_len r = 0"
  using assms by (simp_all add: ring_ok_def u32_le)

lemma Ring_Init_ok: "length b = unat n \<Longrightarrow> unat n < 2 ^ 31 \<Longrightarrow> ring_ok (Ring_Init b n) \<and> ring_content (Ring_Init b n) = []"
  by (simp add: ring_ok_def Ring_Init_def ring_content_def)

text \<open>The copy of \<open>Ring_Write\<close>, with its two branches, is a cyclic store.\<close>

lemma Ring_Write_store:
  assumes ok: "ring_ok r" and wn: "unat w \<le> unat (max_len r)"
  shows "(if offset_write r + w > max_len r then do {
            let partial = max_len r - offset_write r;
            b \<leftarrow> memcpy (rbuf r) (unat (offset_write r)) d 0 (unat partial);
            b \<leftarrow> memcpy b 0 d (unat partial) (unat (w - partial));
            Some (r\<lparr>rbuf := b, offset_write := w - partial\<rparr>) }
          else do {
            b \<leftarrow> memcpy (rbuf r) (unat (offset_write r)) d 0 (unat w);
            Some (r\<lparr>rbuf := b, offset_write := offset_write r + w\<rparr>) }) =
    map_option (\<lambda>b. r\<lparr>rbuf := b, offset_write :=
        of_nat (if unat (offset_write r) + unat w > unat (max_len r)
                then unat (offset_write r) + unat w - unat (max_len r) else unat (offset_write r) + unat w)\<rparr>)
      (cyclic_store (unat (offset_write r)) (unat w) d (rbuf r))"
proof -
  note R = ring_okD [OF ok]
  have s: "unat (offset_write r + w) = unat (offset_write r) + unat w" by (rule u32_add) (use R wn in linarith)
  have p: "unat (max_len r - offset_write r) = unat (max_len r) - unat (offset_write r)" by (rule u32_sub [OF R(7)])
  have q: "unat (w - (max_len r - offset_write r)) = unat w - (unat (max_len r) - unat (offset_write r))"
    if "unat (max_len r) < unat (offset_write r) + unat w"
    by (subst u32_sub) (use that p R in \<open>simp_all add: u32_le\<close>)
  have o: "w - (max_len r - offset_write r) = of_nat (unat (offset_write r) + unat w - unat (max_len r))"
    if "unat (max_len r) < unat (offset_write r) + unat w"
  proof -
    have "w - (max_len r - offset_write r) = of_nat (unat (w - (max_len r - offset_write r)))" by simp
    also have "unat (w - (max_len r - offset_write r)) = unat (offset_write r) + unat w - unat (max_len r)"
      using q [OF that] R(4) by simp
    finally show ?thesis .
  qed
  have c: "max_len r < offset_write r + w \<longleftrightarrow> unat (max_len r) < unat (offset_write r) + unat w"
    by (simp add: u32_le s)
  have e: "offset_write r + w = of_nat (unat (offset_write r) + unat w)" by simp
  show ?thesis
  proof (cases "unat (max_len r) < unat (offset_write r) + unat w")
    case True
    show ?thesis unfolding c cyclic_store_def R(1) Let_def if_P [OF True] q [OF True]
      unfolding p o [OF True]
      by (auto split: Option.bind_splits)
  next
    case False
    show ?thesis unfolding c cyclic_store_def R(1) Let_def if_not_P [OF False]
      unfolding e by (auto split: Option.bind_splits)
  qed
qed

lemma Ring_Write_content:
  assumes ok: "ring_ok r" and d: "unat n \<le> length d"
  defines "k \<equiv> min (unat (max_len r) - unat (rlen r)) (unat n)"
  shows "\<exists>w r'. Ring_Write r d n = Some (w, r') \<and> unat w = k \<and> ring_ok r' \<and> max_len r' = max_len r \<and>
    ring_content r' = ring_content r @ take k d"
proof (cases "max_len r = rlen r")
  case True
  then show ?thesis using ok by (simp add: Ring_Write_def k_def)
next
  case False
  note R = ring_okD [OF ok]
  let ?m = "unat (max_len r)" and ?ow = "unat (offset_write r)" and ?l = "unat (rlen r)"
  define w where "w = (if max_len r - rlen r > n then n else max_len r - rlen r)"
  have w: "unat w = k" using u32_sub [OF R(8)] by (auto simp: w_def k_def u32_le)
  have km: "k \<le> ?m" "?l + k \<le> ?m" using R(5) by (auto simp: k_def)
  have kd: "k \<le> length d" using d by (simp add: k_def)
  from cyclic_store_Some [of ?ow "rbuf r" k d, unfolded R(1), OF R(4) km(1) kd] obtain b where
    b: "cyclic_store ?ow k d (rbuf r) = Some b" "length b = ?m"
      "\<And>j. j < ?m \<Longrightarrow> b ! ((?ow + j) mod ?m) = (if j < k then d ! j else rbuf r ! ((?ow + j) mod ?m))"
    by blast
  define o' where "o' = (if ?ow + k > ?m then ?ow + k - ?m else ?ow + k)"
  define r' where "r' = r\<lparr>rbuf := b, offset_write := of_nat o', rlen := rlen r + w\<rparr>"
  have ne: "max_len r - rlen r \<noteq> 0" using False by simp
  have run: "Ring_Write r d n = Some (w, r')"
    using Ring_Write_store [OF ok, of w d] km b(1) ne
    by (simp add: Ring_Write_def w_def [symmetric] w r'_def o'_def Let_def)
  have o': "o' \<le> ?m" "unat (of_nat o' :: u32) = o'"
    using R(2,4) km by (auto simp: o'_def unat_of_nat)
  have l': "unat (rlen r + w) = ?l + k" using u32_add [of "rlen r" w] w km R(2) by simp
  have om: "o' mod ?m = (?ow + k) mod ?m" by (simp add: o'_def le_mod_geq)
  have pos: "(unat (offset_read r) + i) mod ?m = (?ow + (i - ?l)) mod ?m" if "?l \<le> i" for i
  proof -
    have "unat (offset_read r) + i = (unat (offset_read r) + ?l) + (i - ?l)" using that by simp
    then have "(unat (offset_read r) + i) mod ?m = ((unat (offset_read r) + ?l) mod ?m + (i - ?l)) mod ?m"
      by (simp only: mod_add_left_eq)
    then show ?thesis by (simp only: R(9) mod_add_left_eq)
  qed
  have edge: "max_len r = 0" if z: "rlen r + w = 0" "offset_read r = 0" "of_nat o' = max_len r"
  proof -
    have "?l = 0" "k = 0" using l' z(1) by simp_all
    then show ?thesis using R(4,10) z(2,3) by (simp add: o'_def unat_eq_0)
  qed
  have ok': "ring_ok r'" using ok R(2) b(2) o' l' km edge pos [of "?l + k"]
    by (simp add: ring_ok_def r'_def u32_le om)
  have at: "ring_at r' i = (ring_content r @ take k d) ! i" if i: "i < ?l + k" for i
  proof (cases "i < ?l")
    case True
    let ?j = "?m - ?l + i"
    have "(?ow + ?j) mod ?m = (unat (offset_read r) + i) mod ?m"
    proof -
      have "(?ow + ?j) mod ?m = ((unat (offset_read r) + ?l) mod ?m + ?j) mod ?m"
        by (simp only: R(9) mod_add_left_eq)
      also have "\<dots> = (unat (offset_read r) + ?l + ?j) mod ?m" by (simp only: mod_add_left_eq)
      also have "unat (offset_read r) + ?l + ?j = unat (offset_read r) + i + ?m" using R(5) by simp
      finally show ?thesis by simp
    qed
    moreover have "?j < ?m" "\<not> ?j < k" using True km R(5) by simp_all
    ultimately have "b ! ((unat (offset_read r) + i) mod ?m) = rbuf r ! ((unat (offset_read r) + i) mod ?m)"
      using b(3) [of ?j] by (simp only: if_False)
    then show ?thesis using True by (simp add: ring_at_def r'_def nth_append ring_content_def)
  next
    case False
    then have j: "i - ?l < ?m" "i - ?l < k" "(unat (offset_read r) + i) mod ?m = (?ow + (i - ?l)) mod ?m"
      using i km pos [of i] by simp_all
    have "b ! ((unat (offset_read r) + i) mod ?m) = d ! (i - ?l)"
      unfolding j(3) using b(3) [OF j(1)] j(2) by (simp only: if_True)
    then show ?thesis using False j(2) by (simp add: ring_at_def r'_def nth_append)
  qed
  have "unat (rlen r') = ?l + k" using l' by (simp add: r'_def)
  with at have "ring_content r' = ring_content r @ take k d"
    using kd by (intro nth_equalityI) (simp_all add: min_absorb2, simp add: ring_content_def)
  then show ?thesis using run w ok' by (auto simp: r'_def)
qed

text \<open>Taking bytes out moves the read offset and keeps the rest.\<close>

definition ring_skip :: "nat \<Rightarrow> RingBuf \<Rightarrow> RingBuf" where
  "ring_skip k r = r\<lparr>offset_read := of_nat (if unat (offset_read r) + k > unat (max_len r)
       then unat (offset_read r) + k - unat (max_len r) else unat (offset_read r) + k),
     rlen := of_nat (unat (rlen r) - k)\<rparr>"

lemma ring_skip_content:
  assumes ok: "ring_ok r" and k: "k \<le> unat (rlen r)"
  shows "ring_ok (ring_skip k r)" and "ring_content (ring_skip k r) = drop k (ring_content r)"
    and "max_len (ring_skip k r) = max_len r" and "ring_at (ring_skip k r) i = ring_at r (k + i)"
proof -
  note R = ring_okD [OF ok]
  let ?m = "unat (max_len r)" and ?r = "unat (offset_read r)" and ?l = "unat (rlen r)"
  define o' where "o' = (if ?r + k > ?m then ?r + k - ?m else ?r + k)"
  have o': "o' \<le> ?m" "unat (of_nat o' :: u32) = o'"
    using R(2,3,5) k by (auto simp: o'_def unat_of_nat)
  have l': "unat (of_nat (?l - k) :: u32) = ?l - k" using R(2,5) by (simp add: unat_of_nat)
  have om: "(o' + i) mod ?m = (?r + k + i) mod ?m" for i
  proof -
    have "o' mod ?m = (?r + k) mod ?m" by (simp add: o'_def le_mod_geq)
    then show ?thesis by (metis mod_add_left_eq)
  qed
  have sk: "offset_read (ring_skip k r) = of_nat o'" "rlen (ring_skip k r) = of_nat (?l - k)"
    "max_len (ring_skip k r) = max_len r" "rbuf (ring_skip k r) = rbuf r"
    "offset_write (ring_skip k r) = offset_write r" by (simp_all add: ring_skip_def o'_def)
  show "max_len (ring_skip k r) = max_len r" by (rule sk)
  have "(o' + (?l - k)) mod ?m = (?r + ?l) mod ?m" using om [of "?l - k"] k by simp
  moreover have "max_len r = 0"
    if z: "of_nat (?l - k) = (0::u32)" "of_nat o' = (0::u32)" "offset_write r = max_len r"
  proof -
    have "?l - k = 0" "o' = 0" using z(1,2) l' o'(2) by simp_all
    then have "offset_read r = 0" "rlen r = 0" using k by (auto simp: o'_def unat_eq_0 split: if_splits)
    then show ?thesis using R(10) z(3) by simp
  qed
  ultimately show "ring_ok (ring_skip k r)"
    using ok R(2,5,9) o' l' by (simp add: ring_ok_def sk u32_le)
  show "ring_at (ring_skip k r) i = ring_at r (k + i)"
    using o' om [of i] by (simp add: ring_at_def sk add.assoc)
  show "ring_content (ring_skip k r) = drop k (ring_content r)"
  proof (rule nth_equalityI)
    show "length (ring_content (ring_skip k r)) = length (drop k (ring_content r))" by (simp add: sk l')
    show "ring_content (ring_skip k r) ! i = drop k (ring_content r) ! i"
      if "i < length (ring_content (ring_skip k r))" for i
      using that l' o' om [of i] by (simp add: ring_content_def ring_at_def sk add.assoc)
  qed
qed

lemma ring_skip_eqs:
  assumes ok: "ring_ok r" and w: "unat w \<le> unat (rlen r)"
  shows "offset_read r + w > max_len r \<longleftrightarrow> unat (offset_read r) + unat w > unat (max_len r)"
    and "offset_read r + w = of_nat (unat (offset_read r) + unat w)"
    and "unat (offset_read r) + unat w > unat (max_len r) \<Longrightarrow>
      w - (max_len r - offset_read r) = of_nat (unat (offset_read r) + unat w - unat (max_len r))"
    and "unat (offset_read r) + unat w > unat (max_len r) \<Longrightarrow>
      unat (w - (max_len r - offset_read r)) = unat w - (unat (max_len r) - unat (offset_read r))"
    and "unat (max_len r - offset_read r) = unat (max_len r) - unat (offset_read r)"
    and "rlen r - w = of_nat (unat (rlen r) - unat w)"
proof -
  note R = ring_okD [OF ok]
  have s: "unat (offset_read r + w) = unat (offset_read r) + unat w" by (rule u32_add) (use R w in linarith)
  show p: "unat (max_len r - offset_read r) = unat (max_len r) - unat (offset_read r)" by (rule u32_sub [OF R(6)])
  show "offset_read r + w > max_len r \<longleftrightarrow> unat (offset_read r) + unat w > unat (max_len r)"
    by (simp add: u32_le s)
  show "offset_read r + w = of_nat (unat (offset_read r) + unat w)" by simp
  show q: "unat (w - (max_len r - offset_read r)) = unat w - (unat (max_len r) - unat (offset_read r))"
    if "unat (offset_read r) + unat w > unat (max_len r)"
    by (subst u32_sub) (use that p R in \<open>simp_all add: u32_le\<close>)
  show "w - (max_len r - offset_read r) = of_nat (unat (offset_read r) + unat w - unat (max_len r))"
    if "unat (offset_read r) + unat w > unat (max_len r)"
  proof -
    have "w - (max_len r - offset_read r) = of_nat (unat (w - (max_len r - offset_read r)))" by simp
    also have "unat (w - (max_len r - offset_read r)) = unat (offset_read r) + unat w - unat (max_len r)"
      using q [OF that] R(3) by simp
    finally show ?thesis .
  qed
  have "rlen r - w = of_nat (unat (rlen r - w))" by simp
  then show "rlen r - w = of_nat (unat (rlen r) - unat w)" using u32_sub [of w "rlen r"] w by (simp add: u32_le)
qed

lemma Ring_Read_content:
  assumes ok: "ring_ok r" and d: "unat n \<le> length dst"
  defines "k \<equiv> min (unat (rlen r)) (unat n)"
  shows "\<exists>w. Ring_Read r dst n = Some (w, take k (ring_content r) @ drop k dst, ring_skip k r) \<and> unat w = k"
proof -
  note R = ring_okD [OF ok]
  let ?m = "unat (max_len r)" and ?r = "unat (offset_read r)"
  define w where "w = (if rlen r < n then rlen r else n)"
  have w: "unat w = k" by (auto simp: w_def k_def u32_le)
  have wl: "unat w \<le> unat (rlen r)" by (simp add: w k_def)
  note S = ring_skip_eqs [OF ok wl]
  have "cyclic_load ?r k (rbuf r) dst = Some (map (\<lambda>i. rbuf r ! ((?r + i) mod ?m)) [0..<k] @ drop k dst)"
    using cyclic_load_Some [of ?r "rbuf r" k dst] R d by (simp add: k_def)
  moreover have "map (\<lambda>i. rbuf r ! ((?r + i) mod ?m)) [0..<k] = take k (ring_content r)"
    by (simp add: ring_content_def ring_at_def take_map k_def)
  ultimately have load: "cyclic_load ?r (unat w) (rbuf r) dst = Some (take k (ring_content r) @ drop k dst)"
    by (simp add: w)
  have "Ring_Read r dst n = Some (w, take k (ring_content r) @ drop k dst, ring_skip k r)"
  proof (cases "?r + unat w > ?m")
    case True
    obtain d1 where d1: "memcpy dst 0 (rbuf r) ?r (?m - ?r) = Some d1"
      "memcpy d1 (?m - ?r) (rbuf r) 0 (unat w - (?m - ?r)) = Some (take k (ring_content r) @ drop k dst)"
      using load True by (auto simp: cyclic_load_def R(1) split: Option.bind_splits)
    show ?thesis unfolding Ring_Read_def Let_def w_def [symmetric] S(1) S(4) [OF True] if_P [OF True] S(5) S(6)
      unfolding S(3) [OF True] by (simp add: d1 ring_skip_def True w [symmetric] S(6))
  next
    case False
    have "memcpy dst 0 (rbuf r) ?r (unat w) = Some (take k (ring_content r) @ drop k dst)"
      using load False by (simp add: cyclic_load_def R(1))
    then show ?thesis unfolding Ring_Read_def Let_def w_def [symmetric] S(1) if_not_P [OF False] S(6)
      unfolding S(2) using False by (simp add: ring_skip_def w [symmetric] S(6))
  qed
  then show ?thesis using w by blast
qed

lemma Ring_PseudoRead_content:
  fixes n :: u32
  assumes ok: "ring_ok r"
  defines "k \<equiv> min (unat (rlen r)) (unat n)"
  shows "\<exists>w. Ring_PseudoRead r n = (w, ring_skip k r) \<and> unat w = k"
proof -
  define w where "w = (if rlen r < n then rlen r else n)"
  have w: "unat w = k" by (auto simp: w_def k_def u32_le)
  have wl: "unat w \<le> unat (rlen r)" by (simp add: w k_def)
  note S = ring_skip_eqs [OF ok wl] and R = ring_okD [OF ok]
  have e: "w + offset_read r - max_len r = w - (max_len r - offset_read r)" by simp
  have "Ring_PseudoRead r n = (w, ring_skip k r)"
    unfolding Ring_PseudoRead_def Let_def w_def [symmetric] S(1) e ring_skip_def w [symmetric]
    by (cases "unat (max_len r) < unat (offset_read r) + unat w") (simp_all only: if_True if_False S(3), simp_all add: S(6))
  then show ?thesis using w by blast
qed

text \<open>\<open>Ring_SkipTail\<close> takes the newest bytes back.\<close>

lemma ring_back:
  fixes m o' k :: nat
  assumes "(a + l) mod m = o' mod m" and "k \<le> l" and "k \<le> m" and "o' \<le> m"
  shows "(a + (l - k)) mod m = (if o' < k then m - (k - o') else o' - k) mod m"
proof -
  have "(a + l + (m - k)) mod m = (o' + (m - k)) mod m" using assms(1) by (rule mod_add_cong) simp
  moreover have "a + l + (m - k) = a + (l - k) + m" using assms(2,3) by simp
  moreover have "o' + (m - k) = (if o' < k then m - (k - o') else o' - k + m)" using assms(3) by auto
  ultimately have "(a + (l - k) + m) mod m = (if o' < k then m - (k - o') else o' - k + m) mod m" by (simp only:)
  then show ?thesis by (cases "o' < k") (simp_all only: if_True if_False mod_add_self2)
qed

lemma Ring_SkipTail_content:
  assumes ok: "ring_ok r"
  shows "\<exists>w r'. Ring_SkipTail r n = (w, r') \<and> unat w = min (unat (rlen r)) (unat n) \<and> ring_ok r' \<and>
    max_len r' = max_len r \<and> ring_content r' = take (unat (rlen r) - unat n) (ring_content r)"
proof (cases "rlen r > n")
  case False
  then show ?thesis using ok
    by (simp add: Ring_SkipTail_def Ring_Flush_def ring_ok_def ring_content_def u32_le)
next
  case True
  note R = ring_okD [OF ok]
  let ?m = "unat (max_len r)" and ?o = "unat (offset_write r)" and ?l = "unat (rlen r)"
  have nl: "unat n < ?l" using True by (simp add: u32_le)
  define o' where "o' = (if offset_write r < n then max_len r - (n - offset_write r) else offset_write r - n)"
  define r' where "r' = r\<lparr>offset_write := o', rlen := rlen r - n\<rparr>"
  have run: "Ring_SkipTail r n = (n, r')" using True by (simp add: Ring_SkipTail_def r'_def o'_def)
  have o': "unat o' = (if ?o < unat n then ?m - (unat n - ?o) else ?o - unat n)"
  proof (cases "offset_write r < n")
    case lt: True
    have "unat (n - offset_write r) = unat n - ?o" by (rule u32_sub) (use lt in simp)
    then show ?thesis using lt nl R(5) u32_sub [of "n - offset_write r" "max_len r"]
      by (simp add: o'_def u32_le)
  next
    case ge: False
    then have "unat (offset_write r - n) = ?o - unat n" by (intro u32_sub) simp
    then show ?thesis using ge by (auto simp: o'_def u32_le)
  qed
  have l': "unat (rlen r - n) = ?l - unat n" by (rule u32_sub) (use True in simp)
  have "(unat (offset_read r) + (?l - unat n)) mod ?m = unat o' mod ?m"
    unfolding o' using ring_back [OF R(9), of "unat n"] nl R(4,5) by simp
  then have "ring_ok r'" using ok nl R(4,5) o' by (auto simp: ring_ok_def r'_def u32_le l')
  moreover have "ring_content r' = take (?l - unat n) (ring_content r)"
    by (simp add: ring_content_def r'_def l' take_map ring_at_def [abs_def])
  ultimately show ?thesis using run nl by (auto simp: r'_def)
qed

text \<open>\<open>Ring_RecedeRead\<close> without new data brings read bytes back.\<close>

lemma Ring_RecedeRead_content:
  assumes ok: "ring_ok r"
  shows "\<exists>w r'. Ring_RecedeRead r n None = Some (w, r') \<and> unat w = min (unat (max_len r) - unat (rlen r)) (unat n) \<and>
    ring_ok r' \<and> max_len r' = max_len r \<and> ring_content r = drop (unat w) (ring_content r') \<and>
    unat (rlen r') = unat (rlen r) + unat w \<and> (\<forall>i. ring_at r' (unat w + i) = ring_at r i)"
proof -
  note R = ring_okD [OF ok]
  let ?m = "unat (max_len r)" and ?o = "unat (offset_read r)" and ?l = "unat (rlen r)"
  define w where "w = (if max_len r - rlen r > n then n else max_len r - rlen r)"
  have w: "unat w = min (?m - ?l) (unat n)" using u32_sub [OF R(8)] by (auto simp: w_def u32_le)
  define o' where "o' = (if offset_read r < w then max_len r - (w - offset_read r) else offset_read r - w)"
  define r' where "r' = r\<lparr>offset_read := o', rlen := rlen r + w\<rparr>"
  have run: "Ring_RecedeRead r n None = Some (w, r')"
    by (simp add: Ring_RecedeRead_def Let_def w_def [symmetric] r'_def o'_def)
  have o': "unat o' = (if ?o < unat w then ?m - (unat w - ?o) else ?o - unat w)"
  proof (cases "offset_read r < w")
    case lt: True
    have "unat (w - offset_read r) = unat w - ?o" by (rule u32_sub) (use lt in simp)
    then show ?thesis using lt w R(5) u32_sub [of "w - offset_read r" "max_len r"]
      by (simp add: o'_def u32_le)
  next
    case ge: False
    then have "unat (offset_read r - w) = ?o - unat w" by (intro u32_sub) simp
    then show ?thesis using ge by (auto simp: o'_def u32_le)
  qed
  have l': "unat (rlen r + w) = ?l + unat w" by (rule u32_add) (use w R in simp)
  have wm: "unat w \<le> ?m" using w by simp
  have rot: "(unat o' + unat w + i) mod ?m = (?o + i) mod ?m" for i
  proof -
    have "(unat o' + unat w) mod ?m = ?o mod ?m" unfolding o' using wm R(3) by auto
    then show ?thesis by (rule mod_add_cong) simp
  qed
  have "(unat o' + (?l + unat w)) mod ?m = unat (offset_write r) mod ?m"
    using rot [of ?l] R(9) by (simp add: add_ac)
  moreover have "unat o' \<le> ?m" "?l + unat w \<le> ?m" using wm R(3,5) w unfolding o' by auto
  moreover have "max_len r = 0" if z: "rlen r + w = 0" "o' = 0" "offset_write r = max_len r"
  proof -
    have "?l = 0" "unat w = 0" using l' z(1) by simp_all
    then have "rlen r = 0" "offset_read r = 0" using o' z(2) by (simp_all add: unat_eq_0)
    then show ?thesis using R(10) z(3) by simp
  qed
  ultimately have "ring_ok r'" using ok by (simp add: ring_ok_def r'_def u32_le l')
  moreover have "ring_content r = drop (unat w) (ring_content r')"
    using rot by (intro nth_equalityI) (simp_all add: ring_content_def ring_at_def r'_def l' add.assoc)
  moreover have "ring_at r' (unat w + i) = ring_at r i" for i
    using rot [of i] by (simp add: ring_at_def r'_def add.assoc)
  ultimately show ?thesis using run w l' by (auto simp: r'_def)
qed

lemma ring_at_period: "ring_at r (unat (max_len r) + i) = ring_at r i"
  by (simp add: ring_at_def add.left_commute)

section \<open>Searching a character\<close>

lemma ring_length_pieces:
  assumes ok: "ring_ok r" and nf: "rlen r < max_len r"
  shows "unat (rlen r) = (if offset_read r \<le> offset_write r then unat (offset_write r) - unat (offset_read r)
     else unat (max_len r) - unat (offset_read r) + unat (offset_write r))"
proof -
  note R = ring_okD [OF ok]
  have l: "unat (rlen r) < unat (max_len r)" using nf by (simp add: u32_le)
  have "unat (rlen r) \<noteq> 0 \<or> unat (offset_read r) \<noteq> 0 \<or> unat (offset_write r) \<noteq> unat (max_len r)"
    using R(10) l by (auto simp: word_unat_eq_iff)
  moreover have "(unat (offset_read r) + unat (rlen r)) mod unat (max_len r) =
      (if unat (offset_read r) + unat (rlen r) < unat (max_len r) then unat (offset_read r) + unat (rlen r)
       else unat (offset_read r) + unat (rlen r) - unat (max_len r))"
    using l R(3) by (intro mod_once) simp
  moreover have "unat (offset_write r) mod unat (max_len r) =
      (if unat (offset_write r) < unat (max_len r) then unat (offset_write r) else 0)"
    using R(4) by (auto simp: le_less)
  ultimately show ?thesis using R(3,4,9) l by (auto simp: u32_le split: if_splits)
qed

lemma ring_content_pieces:
  assumes ok: "ring_ok r" and nf: "rlen r < max_len r"
  shows "ring_content r = (if offset_read r \<le> offset_write r
     then take (unat (offset_write r) - unat (offset_read r)) (drop (unat (offset_read r)) (rbuf r))
     else drop (unat (offset_read r)) (rbuf r) @ take (unat (offset_write r)) (rbuf r))"
proof -
  note R = ring_okD(1-5) [OF ok]
  have i: "ring_at r i = (if i < unat (max_len r) - unat (offset_read r)
      then rbuf r ! (unat (offset_read r) + i) else rbuf r ! (i - (unat (max_len r) - unat (offset_read r))))"
    if "i < unat (max_len r)" for i
    using that R(3) mod_once [of "unat (offset_read r) + i" "unat (max_len r)"]
    by (auto simp: ring_at_def less_diff_conv2 add.commute)
  show ?thesis
  proof (cases "offset_read r \<le> offset_write r")
    case True
    then have l: "unat (rlen r) = unat (offset_write r) - unat (offset_read r)"
      using ring_length_pieces [OF assms] by simp
    show ?thesis
    proof (rule nth_equalityI)
      fix k assume "k < length (ring_content r)"
      then have "k < unat (max_len r)" "k < unat (max_len r) - unat (offset_read r)"
        "k < unat (offset_write r) - unat (offset_read r)" using l R(4) by simp_all
      then show "ring_content r ! k = (if offset_read r \<le> offset_write r
          then take (unat (offset_write r) - unat (offset_read r)) (drop (unat (offset_read r)) (rbuf r))
          else drop (unat (offset_read r)) (rbuf r) @ take (unat (offset_write r)) (rbuf r)) ! k"
        using True R i [of k] by (simp add: l ring_content_def)
    qed (use True R in \<open>simp add: l\<close>)
  next
    case False
    then have l: "unat (rlen r) = unat (max_len r) - unat (offset_read r) + unat (offset_write r)"
      using ring_length_pieces [OF assms] by simp
    have b: "\<not> offset_read r \<le> offset_write r" "unat (offset_write r) \<le> length (rbuf r)" using False R by simp_all
    show ?thesis
    proof (rule nth_equalityI)
      fix k assume k: "k < length (ring_content r)"
      then have "k < unat (max_len r)" using R(5) by simp
      then show "ring_content r ! k = (if offset_read r \<le> offset_write r
          then take (unat (offset_write r) - unat (offset_read r)) (drop (unat (offset_read r)) (rbuf r))
          else drop (unat (offset_read r)) (rbuf r) @ take (unat (offset_write r)) (rbuf r)) ! k"
        using b R i [of k] k by (auto simp: l ring_content_def nth_append)
    qed (use b R in \<open>simp add: l\<close>)
  qed
qed

lemma Ring_SearchCh_content:
  assumes ok: "ring_ok r" and nf: "rlen r < max_len r"
  shows "Ring_SearchCh r c = Some (first_at c (ring_content r))"
proof -
  note R = ring_okD [OF ok]
  show ?thesis
  proof (cases "offset_read r \<le> offset_write r")
    case True
    then show ?thesis
      using scan_pool [of "offset_read r" "offset_write r" "rbuf r" c] R(1,4)
      by (simp add: Ring_SearchCh_def ring_content_pieces [OF assms] first_at_def not_le [symmetric])
  next
    case False
    have e: "unat (max_len r) - unat (offset_read r) = length (drop (unat (offset_read r)) (rbuf r))" using R(1) by simp
    have o: "of_nat (length (drop (unat (offset_read r)) (rbuf r))) = max_len r - offset_read r"
      unfolding e [symmetric] using R(3) by (simp add: of_nat_diff)
    show ?thesis
      using False scan_pool [of "offset_read r" "max_len r" "rbuf r" c] scan_pool [of 0 "offset_write r" "rbuf r" c] R(1,4,6) o
      by (auto simp: Ring_SearchCh_def ring_content_pieces [OF assms] first_at_def takeWhile_append not_le)
  qed
qed

section \<open>The ring meets the contract\<close>

definition Ring_put :: "RingBuf \<Rightarrow> u8 list \<Rightarrow> (nat \<times> RingBuf) option" where
  "Ring_put r d = map_option (\<lambda>(w, r'). (unat w, r')) (Ring_Write r d (of_nat (length d)))"

definition Ring_get :: "RingBuf \<Rightarrow> nat \<Rightarrow> (u8 list \<times> RingBuf) option" where
  "Ring_get r n = map_option (\<lambda>(w, d, r'). (take (unat w) d, r')) (Ring_Read r (replicate n 0) (of_nat n))"

interpretation rq: byte_queue ring_ok "\<lambda>r. unat (max_len r)" ring_content
  Ring_put
  "\<lambda>r n. n < 2 ^ 32"
  Ring_get
proof unfold_locales
  fix r :: RingBuf and d :: "u8 list" and n :: nat
  assume ok: "ring_ok r"
  note R = ring_okD [OF ok]
  show "length (ring_content r) \<le> unat (max_len r)" using R by simp
  show "\<exists>r'. Ring_put r d =
        Some (min (unat (max_len r) - length (ring_content r)) (length d), r') \<and> ring_ok r' \<and>
        unat (max_len r') = unat (max_len r) \<and>
        ring_content r' = ring_content r @ take (unat (max_len r) - length (ring_content r)) d"
    if "length d < 2 ^ 32"
  proof -
    have u: "unat (of_nat (length d) :: u32) = length d" using that by (simp add: unat_of_nat)
    obtain w r' where w: "Ring_Write r d (of_nat (length d)) = Some (w, r')"
        "unat w = min (unat (max_len r) - unat (rlen r)) (length d)" "ring_ok r'" "max_len r' = max_len r"
        "ring_content r' = ring_content r @ take (min (unat (max_len r) - unat (rlen r)) (length d)) d"
      using Ring_Write_content [OF ok, of "of_nat (length d)" d] u by auto
    have "take (min x (length d)) d = take x d" for x by (simp add: min_def)
    then show ?thesis using w by (simp add: Ring_put_def)
  qed
  show "\<exists>r'. Ring_get r n =
        Some (take n (ring_content r), r') \<and> ring_ok r' \<and> unat (max_len r') = unat (max_len r) \<and>
        ring_content r' = drop n (ring_content r)"
    if "n < 2 ^ 32"
  proof -
    have u: "unat (of_nat n :: u32) = n" using that by (simp add: unat_of_nat)
    let ?k = "min (unat (rlen r)) n"
    obtain w where w: "Ring_Read r (replicate n 0) (of_nat n) =
        Some (w, take ?k (ring_content r) @ drop ?k (replicate n 0), ring_skip ?k r)" "unat w = ?k"
      using Ring_Read_content [OF ok, of "of_nat n" "replicate n 0"] u by auto
    have "take ?k (ring_content r) = take n (ring_content r)" "drop ?k (ring_content r) = drop n (ring_content r)"
      by (simp_all add: min_def)
    then show ?thesis using w ring_skip_content [OF ok, of ?k] by (simp add: Ring_get_def)
  qed
qed

end
