(* ===== verification/LineBuffer.thy ===== *)
theory LineBuffer
  imports Bytes
begin

text \<open>
  The linear buffer \<open>component/buffer/line.c\<close>: bytes are added at the end and taken out all at
  once.
\<close>

record LineBuf =
  current :: u32
  limit :: u32
  lbuf :: "u8 list"

definition Line_Init :: "u8 list \<Rightarrow> u32 \<Rightarrow> LineBuf" where
  "Line_Init buf len = \<lparr>current = 0, limit = len, lbuf = buf\<rparr>"

definition Line_Capacity :: "LineBuf \<Rightarrow> u32" where
  "Line_Capacity line = limit line"

definition Line_SkipTail :: "LineBuf \<Rightarrow> u32 \<Rightarrow> u32 \<times> LineBuf" where
  "Line_SkipTail line len =
     (if current line > len then (len, line\<lparr>current := current line - len\<rparr>)
      else (current line, line\<lparr>current := 0\<rparr>))"

definition Line_Write :: "LineBuf \<Rightarrow> u8 list \<Rightarrow> u32 \<Rightarrow> (u32 \<times> LineBuf) option" where
  "Line_Write line buffer len = (
     let wr_len = limit line - current line in
     if wr_len = 0 then Some (0, line)
     else let wr_len = (if wr_len > len then len else wr_len) in do {
       b \<leftarrow> memcpy (lbuf line) (unat (current line)) buffer 0 (unat wr_len);
       Some (wr_len, line\<lparr>lbuf := b, current := current line + wr_len\<rparr>) })"

definition Line_Read :: "LineBuf \<Rightarrow> u8 list \<Rightarrow> (u32 \<times> u8 list \<times> LineBuf) option" where
  "Line_Read line buffer = do {
     let wr_len = current line;
     d \<leftarrow> memcpy buffer 0 (lbuf line) 0 (unat wr_len);
     Some (wr_len, d, line\<lparr>current := 0\<rparr>) }"

definition Line_GetBuf :: "LineBuf \<Rightarrow> u8 list" where
  "Line_GetBuf line = lbuf line"

definition Line_Check :: "LineBuf \<Rightarrow> u32" where
  "Line_Check line = current line"

definition Line_IsEmpty :: "LineBuf \<Rightarrow> bool" where
  "Line_IsEmpty line \<longleftrightarrow> current line = 0"

definition Line_IsFull :: "LineBuf \<Rightarrow> bool" where
  "Line_IsFull line \<longleftrightarrow> current line = limit line"

definition Line_Flush :: "LineBuf \<Rightarrow> LineBuf" where
  "Line_Flush line = line\<lparr>current := 0\<rparr>"

definition Line_SearchCh :: "LineBuf \<Rightarrow> u8 \<Rightarrow> u32 option" where
  "Line_SearchCh line c = do {
     (i, found) \<leftarrow> scan_loop (\<lambda>i. i < current line) (byte_is (lbuf line) c) 0;
     Some (if found then i else CN_NOT_FOUND) }"

definition Line_SearchStr :: "LineBuf \<Rightarrow> u8 list \<Rightarrow> u32 \<Rightarrow> u32 option" where
  "Line_SearchStr line str str_len =
     (if current line < str_len then Some CN_NOT_FOUND
      else do {
        (i, found) \<leftarrow> scan_loop (\<lambda>i. i \<le> current line - str_len)
                        (\<lambda>i. bytes_match (lbuf line) i str 0 str_len) 0;
        Some (if found then i else CN_NOT_FOUND) })"

section \<open>The buffer as a byte queue\<close>

definition line_ok :: "LineBuf \<Rightarrow> bool" where
  "line_ok b \<longleftrightarrow> length (lbuf b) = unat (limit b) \<and> current b \<le> limit b"

definition line_content :: "LineBuf \<Rightarrow> u8 list" where
  "line_content b = take (unat (current b)) (lbuf b)"

lemma line_okD:
  assumes "line_ok b"
  shows "length (lbuf b) = unat (limit b)" and "unat (current b) \<le> unat (limit b)"
    and "length (line_content b) = unat (current b)"
  using assms by (simp_all add: line_ok_def line_content_def u32_le)

lemma Line_Write_content:
  assumes ok: "line_ok b" and d: "unat n \<le> length d"
  defines "k \<equiv> min (unat (limit b) - unat (current b)) (unat n)"
  shows "\<exists>w b'. Line_Write b d n = Some (w, b') \<and> unat w = k \<and> line_ok b' \<and> limit b' = limit b \<and>
    line_content b' = line_content b @ take k d"
proof (cases "limit b = current b")
  case True
  then show ?thesis using ok by (simp add: Line_Write_def k_def)
next
  case False
  note L = line_okD [OF ok]
  define w where "w = (if limit b - current b > n then n else limit b - current b)"
  have w: "unat w = k" using u32_sub [of "current b" "limit b"] L(2) by (auto simp: w_def k_def u32_le)
  have km: "unat (current b) + k \<le> unat (limit b)" "k \<le> length d" using L(2) d by (auto simp: k_def)
  have c: "unat (current b + w) = unat (current b) + k"
    using u32_add [of "current b" w] w km unsigned_less [of "limit b", where 'a = nat] by simp
  define x where "x = take (unat (current b)) (lbuf b) @ take k d @ drop (unat (current b) + k) (lbuf b)"
  have "Line_Write b d n = Some (w, b\<lparr>lbuf := x, current := current b + w\<rparr>)"
    using False km L by (simp add: Line_Write_def w_def [symmetric] w memcpy_Some x_def)
  moreover have "line_ok (b\<lparr>lbuf := x, current := current b + w\<rparr>)"
    using km L by (simp add: line_ok_def u32_le c x_def)
  moreover have "line_content (b\<lparr>lbuf := x, current := current b + w\<rparr>) = line_content b @ take k d"
    using km L by (simp add: line_content_def c x_def)
  ultimately show ?thesis using w by auto
qed

lemma Line_Read_content:
  assumes "line_ok b" and "unat (current b) \<le> length dst"
  shows "Line_Read b dst = Some (current b, line_content b @ drop (unat (current b)) dst, b\<lparr>current := 0\<rparr>)"
  using assms line_okD [OF assms(1)] by (simp add: Line_Read_def memcpy_Some line_content_def Let_def)

lemma Line_SearchCh_content:
  assumes "line_ok b"
  shows "Line_SearchCh b c = Some (first_at c (line_content b))"
  using scan_pool [of 0 "current b" "lbuf b" c] line_okD [OF assms]
  by (simp add: Line_SearchCh_def first_at_def line_content_def)

lemma Line_SearchStr_content:
  assumes ok: "line_ok b" and n: "length str = unat n" and lim: "unat (limit b) < 4294967295"
  shows "Line_SearchStr b str n = Some (first_match str (line_content b))"
proof (cases "current b < n")
  case True
  then show ?thesis using line_okD [OF ok] n by (simp add: Line_SearchStr_def first_match_def u32_le)
next
  case False
  note L = line_okD [OF ok]
  define e where "e = current b - n + 1"
  have s: "unat (current b - n) = unat (current b) - unat n" by (rule u32_sub) (use False in simp)
  have e: "unat e = Suc (unat (current b) - unat n)"
    using u32_add [of "current b - n" 1] L(2) lim s by (simp add: e_def)
  let ?P = "\<lambda>i :: u32. take (unat n) (drop (unat i) (line_content b)) = str"
  have t: "bytes_match (lbuf b) i str 0 n = Some (?P i)" if "i < e" for i
  proof -
    have "unat i + unat n \<le> unat (current b)" using that e False by (simp add: u32_le)
    then show ?thesis using L n
      by (simp add: bytes_match_def mem_get_def line_content_def take_drop min_def)
  qed
  have c: "i \<le> current b - n \<longleftrightarrow> i < e" for i using e s by (simp add: u32_le less_Suc_eq_le)
  have f: "List.find ?P (map of_nat [0..<unat e]) =
    map_option of_nat (List.find (\<lambda>i. take (length str) (drop i (line_content b)) = str) [0..<unat e])"
  proof -
    have "unat (of_nat i :: u32) = i" if "i < unat e" for i
      using that unsigned_less [of e, where 'a = nat] by (simp add: unat_of_nat)
    then show ?thesis unfolding find_map n [symmetric]
      by (intro arg_cong [where f = "map_option of_nat"] find_cong) auto
  qed
  have "scan_loop (\<lambda>i. i \<le> current b - n) (\<lambda>i. bytes_match (lbuf b) i str 0 n) 0 =
     (case List.find ?P (map of_nat [0..<unat e]) of None \<Rightarrow> Some (e, False) | Some j \<Rightarrow> Some (j, True))"
    using scan_loop_finds [of 0 e "\<lambda>i. bytes_match (lbuf b) i str 0 n" ?P "\<lambda>i. i \<le> current b - n"] t c by simp
  moreover have "first_match str (line_content b) =
      (case List.find (\<lambda>i. take (length str) (drop i (line_content b)) = str) [0..<unat e] of
         None \<Rightarrow> CN_NOT_FOUND | Some i \<Rightarrow> of_nat i)"
    using False unfolding first_match_def L(3) n e [symmetric] u32_le by (simp only: if_False)
  ultimately show ?thesis using False
    unfolding Line_SearchStr_def f by (auto split: option.splits)
qed

text \<open>The line buffer meets the contract; a read takes everything and needs room for it.\<close>

definition Line_put :: "LineBuf \<Rightarrow> u8 list \<Rightarrow> (nat \<times> LineBuf) option" where
  "Line_put b d = map_option (\<lambda>(w, b'). (unat w, b')) (Line_Write b d (of_nat (length d)))"

definition Line_get :: "LineBuf \<Rightarrow> nat \<Rightarrow> (u8 list \<times> LineBuf) option" where
  "Line_get b n = map_option (\<lambda>(w, d, b'). (take (unat w) d, b')) (Line_Read b (replicate n 0))"

interpretation lq: byte_queue line_ok "\<lambda>b. unat (limit b)" line_content
  Line_put
  "\<lambda>b n. length (line_content b) \<le> n"
  Line_get
proof unfold_locales
  fix b :: LineBuf and d :: "u8 list" and n :: nat
  assume ok: "line_ok b"
  note L = line_okD [OF ok]
  show "length (line_content b) \<le> unat (limit b)" using L by simp
  show "\<exists>b'. Line_put b d =
        Some (min (unat (limit b) - length (line_content b)) (length d), b') \<and> line_ok b' \<and>
        unat (limit b') = unat (limit b) \<and>
        line_content b' = line_content b @ take (unat (limit b) - length (line_content b)) d"
    if "length d < 2 ^ 32"
  proof -
    have u: "unat (of_nat (length d) :: u32) = length d" using that by (simp add: unat_of_nat)
    obtain w b' where w: "Line_Write b d (of_nat (length d)) = Some (w, b')"
        "unat w = min (unat (limit b) - unat (current b)) (length d)" "line_ok b'" "limit b' = limit b"
        "line_content b' = line_content b @ take (min (unat (limit b) - unat (current b)) (length d)) d"
      using Line_Write_content [OF ok, of "of_nat (length d)" d] u by auto
    have "take (min x (length d)) d = take x d" for x by (simp add: min_def)
    then show ?thesis using w L(3) by (simp add: Line_put_def)
  qed
  show "\<exists>b'. Line_get b n =
        Some (take n (line_content b), b') \<and> line_ok b' \<and> unat (limit b') = unat (limit b) \<and>
        line_content b' = drop n (line_content b)"
    if "length (line_content b) \<le> n"
    using that Line_Read_content [OF ok, of "replicate n 0"] L by (simp add: Line_get_def line_ok_def line_content_def)
qed

end
