(* ===== verification/BufferProps.thy ===== *)
theory BufferProps
  imports RingBuffer LineBuffer
begin

text \<open>The properties of the ring and the line buffer.\<close>

section \<open>Samples\<close>

definition sample_ring :: RingBuf where
  "sample_ring = \<lparr>rlen = 2, offset_read = 3, offset_write = 1, max_len = 4, rbuf = [11, 12, 13, 14]\<rparr>"

lemma sample_ring_ok: "ring_ok sample_ring" "ring_content sample_ring = [14, 11]"
  by (simp_all add: ring_ok_def ring_content_def ring_at_def sample_ring_def upt_rec)

lemma sample_ring_fields [simp]:
  "rlen sample_ring = 2" "offset_read sample_ring = 3" "offset_write sample_ring = 1" "max_len sample_ring = 4"
  by (simp_all add: sample_ring_def)

section \<open>The ring buffer\<close>

text \<open>
  Writing into the ring.  \<open>Ring_Write\<close> stores the first bytes of the caller's block, as many
  as there is room for, behind the bytes that are in the ring, whether the copy runs past the
  end of the pool or not, and reports how many it stored.
\<close>

lemma Ring_Write_appends:
  assumes "ring_ok r" and "unat n \<le> length d"
  shows "\<exists>w r'. Ring_Write r d n = Some (w, r') \<and> ring_ok r' \<and>
    unat w = min (unat (max_len r) - length (ring_content r)) (unat n) \<and>
    ring_content r' = ring_content r @ take (unat w) d \<and> Ring_Capacity r' = Ring_Capacity r"
  using Ring_Write_content [OF assms] by (auto simp: Ring_Capacity_def)

lemma Ring_Write_appends_witness:
  "\<exists>w r'. Ring_Write sample_ring [1, 2, 3] 3 = Some (w, r') \<and> ring_content r' = [14, 11, 1, 2]"
  using Ring_Write_appends [OF sample_ring_ok(1), of 3 "[1, 2, 3]"] by (auto simp: sample_ring_ok(2))

text \<open>
  C36: the ring as a stream.  Blocks written one after the other into an empty ring that can hold
  them are read back as one stream with the same bytes in the same order, and the ring is empty
  again.
\<close>

theorem Ring_stream:
  assumes "ring_ok r" and "ring_content r = []" and "length (concat ds) \<le> unat (Ring_Capacity r)"
  shows "\<exists>r' r''. for_each ds (\<lambda>d r. map_option snd (Ring_put r d)) r = Some r' \<and>
    ring_content r' = concat ds \<and> Ring_get r' (length (concat ds)) = Some (concat ds, r'') \<and>
    ring_ok r'' \<and> ring_content r'' = []"
proof (rule rq.put_get [OF assms(1,2) assms(3) [unfolded Ring_Capacity_def]])
  show m: "unat (max_len r) < 2 ^ 32" using ring_okD(2) [OF assms(1)] by simp
  show "length (concat ds) < 2 ^ 32" by (rule le_less_trans [OF assms(3) [unfolded Ring_Capacity_def] m])
qed

theorem Ring_stream_witness:
  "\<exists>r' r''. for_each [[1, 2], [], [3]] (\<lambda>d r. map_option snd (Ring_put r d)) (Ring_Init [0, 0, 0, 0] 4) = Some r' \<and>
    Ring_get r' 3 = Some ([1, 2, 3], r'')"
proof -
  have i: "ring_ok (Ring_Init [0, 0, 0, 0] 4) \<and> ring_content (Ring_Init [0, 0, 0, 0] 4) = []"
    by (rule Ring_Init_ok) simp_all
  have l: "concat [[1, 2], [], [3 :: u8]] = [1, 2, 3]" "length [1, 2, 3 :: u8] = 3" by simp_all
  have "length (concat [[1, 2], [], [3 :: u8]]) \<le> unat (Ring_Capacity (Ring_Init [0, 0, 0, 0] 4))"
    by (simp add: Ring_Capacity_def Ring_Init_def)
  from Ring_stream [OF i [THEN conjunct1] i [THEN conjunct2] this] show ?thesis unfolding l by blast
qed

text \<open>Giving back bytes that were skipped, without new data.\<close>

lemma RecedeRead_skip:
  assumes ok: "ring_ok r" and k: "unat k \<le> length (ring_content r)"
  shows "\<exists>w r2. Ring_RecedeRead (ring_skip (unat k) r) k None = Some (w, r2) \<and> ring_content r2 = ring_content r"
proof -
  define s where "s = ring_skip (unat k) r"
  have kl: "unat k \<le> unat (rlen r)" using k by simp
  note S = ring_skip_content [OF ok kl, folded s_def] and R = ring_okD(5) [OF ok]
  have l: "unat (rlen s) = unat (rlen r) - unat k" using arg_cong [where f = length, OF S(2)] by simp
  then have "min (unat (max_len s) - unat (rlen s)) (unat k) = unat k" using kl R S(3) by simp
  with Ring_RecedeRead_content [OF S(1), of k] obtain w r2 where
    r2: "Ring_RecedeRead s k None = Some (w, r2)" "max_len r2 = max_len s"
      "unat (rlen r2) = unat (rlen s) + unat k" "\<And>i. ring_at r2 (unat k + i) = ring_at s i" by auto
  have at: "ring_at r2 i = ring_at r i" for i
  proof -
    let ?i = "unat (max_len r) - unat k + i"
    have e: "unat k + ?i = unat (max_len r) + i" using kl R by simp
    have "ring_at r2 i = ring_at r2 (unat k + ?i)" using ring_at_period [of r2 i] r2(2) S(3) by (simp only: e)
    also have "\<dots> = ring_at r (unat k + ?i)" by (simp only: r2(4) S(4))
    also have "\<dots> = ring_at r i" using ring_at_period [of r i] by (simp only: e)
    finally show ?thesis .
  qed
  have "unat (rlen r2) = unat (rlen r)" using r2(3) l kl by simp
  then have "ring_content r2 = ring_content r" by (simp add: ring_content_def at [abs_def])
  then show ?thesis using r2(1) by (auto simp: s_def)
qed

text \<open>
  C37: taking back.  \<open>Ring_SkipTail\<close> undoes a write that stored everything.  \<open>Ring_RecedeRead\<close> with
  a null buffer undoes a \<open>Ring_Read\<close> of bytes that the ring holds, which has put just these bytes
  at the start of the reader's buffer, and a \<open>Ring_PseudoRead\<close> of as many: the ring holds the same
  bytes as before.
\<close>

theorem Ring_undo:
  assumes ok: "ring_ok r" and n: "unat n = length d" "length (ring_content r) + length d \<le> unat (max_len r)"
    and k: "unat k \<le> length (ring_content r)" "unat k \<le> length dst"
  shows "(\<exists>w r1. Ring_Write r d n = Some (w, r1) \<and> ring_content (snd (Ring_SkipTail r1 n)) = ring_content r) \<and>
    (\<exists>w1 r1 w2 r2. Ring_Read r dst k = Some (w1, take (unat k) (ring_content r) @ drop (unat k) dst, r1) \<and>
      Ring_RecedeRead r1 k None = Some (w2, r2) \<and> ring_content r2 = ring_content r) \<and>
    (\<exists>w r2. Ring_RecedeRead (snd (Ring_PseudoRead r k)) k None = Some (w, r2) \<and> ring_content r2 = ring_content r)"
proof (intro conjI)
  obtain w r1 where w: "Ring_Write r d n = Some (w, r1)" "ring_ok r1" "ring_content r1 = ring_content r @ d"
    using Ring_Write_content [OF ok, of n d] n by auto
  have "ring_content (snd (Ring_SkipTail r1 n)) = take (length (ring_content r1) - unat n) (ring_content r1)"
    using Ring_SkipTail_content [OF w(2), of n] by auto
  then show "\<exists>w r1. Ring_Write r d n = Some (w, r1) \<and> ring_content (snd (Ring_SkipTail r1 n)) = ring_content r"
    using w n(1) by auto
  have m: "min (unat (rlen r)) (unat k) = unat k" using k(1) by simp
  show "\<exists>w1 r1 w2 r2. Ring_Read r dst k = Some (w1, take (unat k) (ring_content r) @ drop (unat k) dst, r1) \<and>
      Ring_RecedeRead r1 k None = Some (w2, r2) \<and> ring_content r2 = ring_content r"
    using Ring_Read_content [OF ok k(2)] RecedeRead_skip [OF ok k(1)] unfolding m by blast
  have "snd (Ring_PseudoRead r k) = ring_skip (unat k) r" using Ring_PseudoRead_content [OF ok, of k] m by auto
  then show "\<exists>w r2. Ring_RecedeRead (snd (Ring_PseudoRead r k)) k None = Some (w, r2) \<and> ring_content r2 = ring_content r"
    using RecedeRead_skip [OF ok k(1)] by simp
qed

theorem Ring_undo_witness:
  "(\<exists>w r1. Ring_Write sample_ring [7, 8] 2 = Some (w, r1) \<and> ring_content (snd (Ring_SkipTail r1 2)) = [14, 11]) \<and>
   (\<exists>w1 r1 w2 r2. Ring_Read sample_ring [0, 0] 1 = Some (w1, [14, 0], r1) \<and> Ring_RecedeRead r1 1 None = Some (w2, r2) \<and>
      ring_content r2 = [14, 11])"
  using Ring_undo [OF sample_ring_ok(1), of 2 "[7, 8]" 1 "[0, 0]"] by (simp add: sample_ring_ok(2))

text \<open>
  Searching a character in a ring that is not full gives the distance from the next byte to
  be read to its first occurrence, or \<open>CN_LIMIT_UINT32\<close> when it does not occur.
\<close>

lemma Ring_SearchCh_finds:
  assumes "ring_ok r" and "\<not> Ring_IsFull r"
  shows "Ring_SearchCh r c = Some (first_at c (ring_content r))"
proof -
  have "rlen r < max_len r" using assms ring_okD(8) [OF assms(1)] by (simp add: Ring_IsFull_def order_less_le)
  then show ?thesis by (rule Ring_SearchCh_content [OF assms(1)])
qed

lemma Ring_SearchCh_finds_witness: "Ring_SearchCh sample_ring 11 = Some 1"
  using Ring_SearchCh_finds [OF sample_ring_ok(1), of 11]
  by (simp add: sample_ring_ok(2) first_at_def Ring_IsFull_def)

text \<open>
  A full ring cannot be searched.  When the two offsets are equal, \<open>Ring_SearchCh\<close> answers
  \<open>CN_LIMIT_UINT32\<close> for every character, although the ring may hold \<open>max_len\<close> bytes.
\<close>

lemma Ring_SearchCh_full_misses:
  assumes "offset_read r = offset_write r"
  shows "Ring_SearchCh r c = Some CN_NOT_FOUND"
  using assms by (simp add: Ring_SearchCh_def) (subst scan_loop.simps, simp)

lemma Ring_SearchCh_full_misses_witness:
  "ring_ok \<lparr>rlen = 1, offset_read = 1, offset_write = 1, max_len = 1, rbuf = [5]\<rparr> \<and>
   ring_content \<lparr>rlen = 1, offset_read = 1, offset_write = 1, max_len = 1, rbuf = [5]\<rparr> = [5] \<and>
   Ring_SearchCh \<lparr>rlen = 1, offset_read = 1, offset_write = 1, max_len = 1, rbuf = [5]\<rparr> 5 = Some CN_NOT_FOUND"
  using Ring_SearchCh_full_misses [of "\<lparr>rlen = 1, offset_read = 1, offset_write = 1, max_len = 1, rbuf = [5]\<rparr>" 5]
  by (simp add: ring_ok_def ring_content_def ring_at_def)

text \<open>
  Giving data back across the end of the pool.  When the read offset has to pass the start of
  the pool, the length of the second copy of \<open>Ring_RecedeRead\<close> is computed as
  \<open>result - max_len - offset_read\<close>, which wraps around to a number far larger than the pool: the
  call makes an invalid access.
\<close>

lemma Ring_RecedeRead_wrap_invalid:
  assumes ok: "ring_ok r" and m: "unat (max_len r) < 2 ^ 30"
    and n: "unat n \<le> unat (max_len r) - unat (rlen r)" "offset_read r < n" "offset_read r \<noteq> 0 \<or> n \<noteq> max_len r"
  shows "Ring_RecedeRead r n (Some d) = None"
proof -
  note R = ring_okD [OF ok]
  let ?m = "unat (max_len r)" and ?o = "unat (offset_read r)"
  have w: "(if max_len r - rlen r > n then n else max_len r - rlen r) = n"
    using n(1) u32_sub [OF R(8)] by (auto simp: u32_le word_unat_eq_iff)
  define x where "x = n - max_len r - (max_len r - (n - offset_read r))"
  define k where "k = 2 * ?m + ?o - 2 * unat n"
  have nm: "unat n \<le> ?m" using n(1) by simp
  have k: "0 < k" "k \<le> 3 * ?m" using nm n(3) R(3) by (auto simp: k_def word_unat_eq_iff)
  have "x + of_nat k = 0" using nm by (simp add: x_def k_def of_nat_diff)
  have big: "?m < unat x"
  proof (rule ccontr)
    assume "\<not> ?m < unat x"
    then have s: "unat x + k < 4294967296" using m k(2) by simp
    then have "unat (of_nat k :: u32) = k" by (simp add: unat_of_nat)
    with s have "unat (x + of_nat k) = unat x + k" using u32_add [of x "of_nat k"] by simp
    with \<open>x + of_nat k = 0\<close> show False using k(1) by simp
  qed
  show ?thesis
    using n(2) big R(1)
    by (auto simp: Ring_RecedeRead_def Let_def w x_def memcpy_def mem_get_def mem_put_def split: Option.bind_split)
qed

lemma Ring_RecedeRead_wrap_invalid_witness:
  "Ring_RecedeRead \<lparr>rlen = 1, offset_read = 1, offset_write = 2, max_len = 4, rbuf = [1, 2, 3, 4]\<rparr> 2 (Some [9, 8]) = None"
  using Ring_RecedeRead_wrap_invalid
    [of "\<lparr>rlen = 1, offset_read = 1, offset_write = 2, max_len = 4, rbuf = [1, 2, 3, 4]\<rparr>" 2 "[9, 8]"]
  by (simp add: ring_ok_def)

text \<open>
  Searching a string in a ring whose content does not pass the end of the pool finds its
  first occurrence.
\<close>

lemma Ring_SearchStr_straight:
  assumes ok: "ring_ok r" and nf: "\<not> Ring_IsFull r" and st: "offset_read r \<le> offset_write r"
    and n: "length str = unat n"
  shows "Ring_SearchStr r str n = Some (first_match str (ring_content r))"
proof (cases "rlen r < n")
  case True
  then show ?thesis using n by (simp add: Ring_SearchStr_def first_match_def u32_le)
next
  case False
  note R = ring_okD [OF ok]
  have lt: "rlen r < max_len r" using nf R(8) by (simp add: Ring_IsFull_def order_less_le)
  have l: "unat (rlen r) = unat (offset_write r) - unat (offset_read r)" using ring_length_pieces [OF ok lt] st by simp
  define xs where "xs = ring_content r"
  have xs1: "xs = take (unat (rlen r)) (drop (unat (offset_read r)) (rbuf r))"
    using ring_content_pieces [OF ok lt] st by (simp add: xs_def l)
  have xs2: "length xs = unat (rlen r)" by (simp add: xs_def)
  define e where "e = offset_write r - n + 1"
  have nl: "unat n \<le> unat (rlen r)" "unat (offset_read r) + unat (rlen r) = unat (offset_write r)"
    using False l st by (simp_all add: u32_le)
  have s: "unat (offset_write r - n) = unat (offset_read r) + (unat (rlen r) - unat n)"
    using nl by (subst u32_sub) (simp_all add: u32_le)
  have e: "unat e = unat (offset_read r) + Suc (unat (rlen r) - unat n)"
    using u32_add [of "offset_write r - n" 1] s nl R(2,4) by (simp add: e_def)
  let ?P = "\<lambda>i :: u32. take (unat n) (drop (unat i - unat (offset_read r)) xs) = str"
  let ?Q = "\<lambda>i. take (length str) (drop i xs) = str"
  have t: "bytes_match (rbuf r) i str 0 n = Some (?P i)" if "offset_read r \<le> i" "i < e" for i
  proof -
    have b: "unat (offset_read r) \<le> unat i" "unat i + unat n \<le> unat (offset_write r)"
      using that e nl by (simp_all add: u32_le)
    then have "take (unat n) (drop (unat i - unat (offset_read r)) xs) = take (unat n) (drop (unat i) (rbuf r))"
      using nl by (simp add: xs1 drop_take take_take min_absorb1)
    then show ?thesis using b R(1,4) n by (simp add: bytes_match_def mem_get_def)
  qed
  have c: "i \<le> offset_write r - n \<longleftrightarrow> i < e" for i using e s by (simp add: u32_le less_Suc_eq_le)
  have up: "[unat (offset_read r) ..< unat e] = map (\<lambda>i. i + unat (offset_read r)) [0..<Suc (unat (rlen r) - unat n)]"
    unfolding e by (simp add: map_add_upt add.commute del: upt_Suc)
  have u: "unat (of_nat (i + unat (offset_read r)) :: u32) = i + unat (offset_read r)"
    if "i < Suc (unat (rlen r) - unat n)" for i
    by (rule unat_of_nat_u32) (use that e unsigned_less [of e, where 'a = nat] in simp)
  have f: "List.find ?P (map of_nat [unat (offset_read r) ..< unat e]) =
    map_option (\<lambda>i. of_nat (i + unat (offset_read r))) (List.find ?Q [0..<Suc (unat (rlen r) - unat n)])"
  proof -
    have "List.find (\<lambda>i. ?P (of_nat (i + unat (offset_read r)))) [0..<Suc (unat (rlen r) - unat n)] =
        List.find ?Q [0..<Suc (unat (rlen r) - unat n)]"
    proof (rule find_cong [OF refl])
      fix i assume "i \<in> set [0..<Suc (unat (rlen r) - unat n)]"
      then have i: "i < Suc (unat (rlen r) - unat n)" by (simp only: set_upt atLeastLessThan_iff)
      show "?P (of_nat (i + unat (offset_read r))) \<longleftrightarrow> ?Q i" by (simp only: u [OF i] add_diff_cancel_right' n)
    qed
    then show ?thesis unfolding up find_map option.map_comp comp_def by (simp only:)
  qed
  have sc: "scan_loop (\<lambda>i. i \<le> offset_write r - n) (\<lambda>i. bytes_match (rbuf r) i str 0 n) (offset_read r) =
     (case List.find ?P (map of_nat [unat (offset_read r) ..< unat e]) of None \<Rightarrow> Some (e, False) | Some j \<Rightarrow> Some (j, True))"
    by (rule scan_loop_finds [OF _ t]) (use e c in \<open>auto simp: u32_le\<close>)
  have fm: "first_match str xs = (case List.find ?Q [0..<Suc (unat (rlen r) - unat n)] of None \<Rightarrow> CN_NOT_FOUND | Some i \<Rightarrow> of_nat i)"
    using nl(1) unfolding first_match_def xs2 n by simp
  show ?thesis unfolding xs_def [symmetric] fm Ring_SearchStr_def Let_def
    using False st by (simp add: sc f del: upt_Suc split: option.split)
qed

lemma Ring_SearchStr_straight_witness:
  "Ring_SearchStr \<lparr>rlen = 3, offset_read = 1, offset_write = 4, max_len = 4, rbuf = [1, 2, 3, 4]\<rparr> [3, 4] 2 = Some 1"
  using Ring_SearchStr_straight
    [of "\<lparr>rlen = 3, offset_read = 1, offset_write = 4, max_len = 4, rbuf = [1, 2, 3, 4]\<rparr>" "[3, 4]" 2]
  by (simp add: ring_ok_def Ring_IsFull_def first_match_def ring_content_def ring_at_def upt_rec)

text \<open>
  A string that passes the end of the pool.  The ring holds 1, 2, 3, of which 3 is stored at
  the start of the pool; \<open>Ring_SearchStr\<close> does not find the string 1, 2, 3, which is its whole
  content.
\<close>

lemma Ring_SearchStr_wrap_misses:
  "ring_ok \<lparr>rlen = 3, offset_read = 2, offset_write = 1, max_len = 4, rbuf = [3, 0, 1, 2]\<rparr> \<and>
   ring_content \<lparr>rlen = 3, offset_read = 2, offset_write = 1, max_len = 4, rbuf = [3, 0, 1, 2]\<rparr> = [1, 2, 3] \<and>
   Ring_SearchStr \<lparr>rlen = 3, offset_read = 2, offset_write = 1, max_len = 4, rbuf = [3, 0, 1, 2]\<rparr> [1, 2, 3] 3 = Some CN_NOT_FOUND"
  by (simp add: ring_ok_def ring_content_def ring_at_def upt_rec Ring_SearchStr_def scan_loop_stop Let_def u32_le)

section \<open>The line buffer\<close>

text \<open>
  The line buffer as a stream: blocks written one after the other are read back as one, and
  the buffer is empty again.
\<close>

lemma Line_stream:
  assumes "line_ok b" and "line_content b = []" and "length (concat ds) \<le> unat (Line_Capacity b)"
  shows "\<exists>b' b''. for_each ds (\<lambda>d b. map_option snd (Line_put b d)) b = Some b' \<and>
    line_content b' = concat ds \<and> Line_get b' (length (concat ds)) = Some (concat ds, b'') \<and>
    line_ok b'' \<and> line_content b'' = []"
proof (rule lq.put_get [OF assms(1,2) assms(3) [unfolded Line_Capacity_def]])
  show "unat (limit b) < 2 ^ 32" using unsigned_less [of "limit b", where 'a = nat] by simp
qed simp

lemma Line_stream_witness:
  "\<exists>b' b''. for_each [[1], [2, 3]] (\<lambda>d b. map_option snd (Line_put b d)) (Line_Init [0, 0, 0] 3) = Some b' \<and>
    Line_get b' 3 = Some ([1, 2, 3], b'')"
proof -
  have l: "concat [[1], [2, 3 :: u8]] = [1, 2, 3]" "length [1, 2, 3 :: u8] = 3" by simp_all
  have "line_ok (Line_Init [0, 0, 0] 3)" "line_content (Line_Init [0, 0, 0] 3) = []"
    "length (concat [[1], [2, 3 :: u8]]) \<le> unat (Line_Capacity (Line_Init [0, 0, 0] 3))"
    by (simp_all add: Line_Capacity_def Line_Init_def line_ok_def line_content_def)
  from Line_stream [OF this] show ?thesis unfolding l by blast
qed

text \<open>
  Searching the line buffer: the place of the first occurrence of a character and of a
  string, or \<open>CN_LIMIT_UINT32\<close>.
\<close>

lemma Line_search:
  assumes "line_ok b" and "length str = unat n" and "unat (limit b) < 4294967295"
  shows "Line_SearchCh b c = Some (first_at c (line_content b)) \<and>
    Line_SearchStr b str n = Some (first_match str (line_content b))"
  using Line_SearchCh_content Line_SearchStr_content assms by blast

lemma Line_search_witness:
  "Line_SearchStr \<lparr>current = 3, limit = 4, lbuf = [5, 6, 7, 0]\<rparr> [6, 7] 2 = Some 1"
  using Line_search [of "\<lparr>current = 3, limit = 4, lbuf = [5, 6, 7, 0]\<rparr>" "[6, 7]" 2 0]
  by (simp add: line_ok_def first_match_def line_content_def upt_rec)

end
