(* ===== verification/IntLine.thy ===== *)
theory IntLine
  imports EvPop
begin

text \<open>
  Interrupt lines: \<open>djyos/int/int.c\<close>, its port \<open>core/int_hard.c\<close> for the cortex-m4 and the tick
  exception of \<open>core/hard-exp.c\<close>.  The table \<open>tg_pIntLineTable\<close> holds addresses of blocks that
  \<open>malloc\<close> gave; a released block is \<open>None\<close> in \<open>line_mem\<close>, so that following a stale address is
  \<open>None\<close>.  The registers of the interrupt controller are words in which writing ones to
  \<open>setena\<close>/\<open>clrena\<close> sets or clears bits, as the controller does.  \<open>CN_INT_LINE_LAST\<close> is a macro
  of the board and a field here.  What an ISR does is an argument of the engines.
\<close>

record IntLine =
  ISR :: "nat option"
  sync_event :: eptr
  en_counter :: u32
  int_type :: u32
  clear_type :: u32
  enable_nest :: bool
  my_evtt_id :: u16
  line_prio :: u32
  line_para :: u32

record irqst =
  kern :: kst
  tg_pIntLineTable :: "nat \<Rightarrow> nat option"
  line_mem :: "nat \<Rightarrow> IntLine option"
  property_bitmap :: "nat \<Rightarrow> u32"
  enable_bitmap :: "nat \<Rightarrow> u32"
  nest_real :: u32
  en_trunk_counter :: u32
  trunk_open :: bool
  nvic_ena :: "nat \<Rightarrow> u32"
  nvic_pend :: "nat \<Rightarrow> u32"
  nvic_pri :: "nat \<Rightarrow> u32"
  vect_real :: "nat \<Rightarrow> bool"
  int_line_last :: u32
  line_supply :: "nat option list"
  scb_CCR :: u32
  faults_open :: bool

abbreviation (input) "CN_ASYN_SIGNAL \<equiv> (0 :: u32)"
abbreviation (input) "CN_REAL \<equiv> (1 :: u32)"
abbreviation (input) "CN_INT_CLEAR_AUTO \<equiv> (0 :: u32)"
abbreviation (input) "CN_INT_CLEAR_USER \<equiv> (1 :: u32)"

text \<open>\<open>1 << (ufl_line % CN_CPU_BITS)\<close> and \<open>ufl_line / CN_CPU_BITS\<close>.\<close>

definition line_bit :: "u32 \<Rightarrow> u32" where
  "line_bit l = push_bit (unat l mod 32) 1"

definition line_word :: "u32 \<Rightarrow> nat" where
  "line_word l = unat l div 32"

definition set_line :: "(nat \<Rightarrow> u32) \<Rightarrow> u32 \<Rightarrow> nat \<Rightarrow> u32" where
  "set_line m l = m(line_word l := m (line_word l) OR line_bit l)"

definition clr_line :: "(nat \<Rightarrow> u32) \<Rightarrow> u32 \<Rightarrow> nat \<Rightarrow> u32" where
  "clr_line m l = m(line_word l := m (line_word l) AND NOT (line_bit l))"

definition line_on :: "(nat \<Rightarrow> u32) \<Rightarrow> u32 \<Rightarrow> bool" where
  "line_on m l \<longleftrightarrow> m (line_word l) AND line_bit l \<noteq> 0"

text \<open>\<open>(ufl_line > CN_INT_LINE_LAST) || (tg_pIntLineTable[ufl_line] == NULL)\<close>.\<close>

definition no_line :: "u32 \<Rightarrow> irqst \<Rightarrow> bool" where
  "no_line l s \<longleftrightarrow> l > int_line_last s \<or> tg_pIntLineTable s (unat l) = None"

text \<open>Reading and writing a control block, and the block of a line.\<close>

definition rdp :: "(IntLine \<Rightarrow> 'a) \<Rightarrow> nat \<Rightarrow> irqst \<Rightarrow> 'a option" where
  "rdp f p s = map_option f (line_mem s p)"

definition wrp :: "(IntLine \<Rightarrow> IntLine) \<Rightarrow> nat \<Rightarrow> irqst \<Rightarrow> irqst option" where
  "wrp f p s = do { x \<leftarrow> line_mem s p; Some (s\<lparr>line_mem := (line_mem s)(p \<mapsto> f x)\<rparr>) }"

definition the_line :: "u32 \<Rightarrow> irqst \<Rightarrow> nat option" where
  "the_line l s = (if l > int_line_last s then None else tg_pIntLineTable s (unat l))"

definition rdl :: "(IntLine \<Rightarrow> 'a) \<Rightarrow> u32 \<Rightarrow> irqst \<Rightarrow> 'a option" where
  "rdl f l s = do { p \<leftarrow> the_line l s; rdp f p s }"

definition wrl :: "(IntLine \<Rightarrow> IntLine) \<Rightarrow> u32 \<Rightarrow> irqst \<Rightarrow> irqst option" where
  "wrl f l s = do { p \<leftarrow> the_line l s; wrp f p s }"

text \<open>A kernel operation.\<close>

definition in_kern :: "(kst \<Rightarrow> kst option) \<Rightarrow> irqst \<Rightarrow> irqst option" where
  "in_kern f s = do { k \<leftarrow> f (kern s); Some (s\<lparr>kern := k\<rparr>) }"

section \<open>The controller\<close>

definition Int_ContactTrunk :: "irqst \<Rightarrow> irqst" where
  "Int_ContactTrunk s = s\<lparr>trunk_open := True\<rparr>"

definition Int_CutTrunk :: "irqst \<Rightarrow> irqst" where
  "Int_CutTrunk s = s\<lparr>trunk_open := False\<rparr>"

definition Int_ContactLine :: "u32 \<Rightarrow> irqst \<Rightarrow> bool \<times> irqst" where
  "Int_ContactLine l s =
     (if no_line l s then (False, s) else (True, s\<lparr>nvic_ena := set_line (nvic_ena s) l\<rparr>))"

definition Int_CutLine :: "u32 \<Rightarrow> irqst \<Rightarrow> bool \<times> irqst" where
  "Int_CutLine l s =
     (if no_line l s then (False, s) else (True, s\<lparr>nvic_ena := clr_line (nvic_ena s) l\<rparr>))"

definition Int_ClearLine :: "u32 \<Rightarrow> irqst \<Rightarrow> bool \<times> irqst" where
  "Int_ClearLine l s =
     (if no_line l s then (False, s) else (True, s\<lparr>nvic_pend := clr_line (nvic_pend s) l\<rparr>))"

definition Int_TapLine :: "u32 \<Rightarrow> irqst \<Rightarrow> bool \<times> irqst" where
  "Int_TapLine l s =
     (if no_line l s then (False, s) else (True, s\<lparr>nvic_pend := set_line (nvic_pend s) l\<rparr>))"

text \<open>\<open>CN_INT_BITS_WORDS\<close>, and a loop that stores one value in the first words of a register.\<close>

definition int_bits_words :: "irqst \<Rightarrow> nat" where
  "int_bits_words s = (unat (int_line_last s) + 32) div 32"

definition Int_ClearAllLine :: "irqst \<Rightarrow> irqst" where
  "Int_ClearAllLine s = s\<lparr>nvic_pend := (\<lambda>k. if k < int_bits_words s then nvic_pend s k AND NOT 0xFFFFFFFF else nvic_pend s k)\<rparr>"

definition Int_QueryLine :: "u32 \<Rightarrow> irqst \<Rightarrow> bool \<times> irqst" where
  "Int_QueryLine l s =
     (if no_line l s then (False, s)
      else if line_on (nvic_pend s) l then (True, s\<lparr>nvic_pend := clr_line (nvic_pend s) l\<rparr>)
      else (False, s))"

definition Int_SettoAsynSignal :: "u32 \<Rightarrow> irqst \<Rightarrow> (bool \<times> irqst) option" where
  "Int_SettoAsynSignal l s =
     (if no_line l s then Some (False, s)
      else do {
        s \<leftarrow> wrl (\<lambda>x. x\<lparr>int_type := CN_ASYN_SIGNAL\<rparr>) l s;
        Some (True, s\<lparr>property_bitmap := clr_line (property_bitmap s) l,
          vect_real := (vect_real s)(unat l := False), nvic_pri := (nvic_pri s)(unat l := 0xff)\<rparr>) })"

text \<open>\<open>cn_real_prio_default\<close> belongs to the board.\<close>

definition Int_SettoReal :: "u32 \<Rightarrow> u32 \<Rightarrow> irqst \<Rightarrow> (bool \<times> irqst) option" where
  "Int_SettoReal dflt l s =
     (if no_line l s then Some (False, s)
      else do {
        e \<leftarrow> rdl sync_event l s;
        if e \<noteq> NULL then Some (False, s)
        else do {
          s \<leftarrow> wrl (\<lambda>x. x\<lparr>int_type := CN_REAL\<rparr>) l s;
          Some (True, s\<lparr>property_bitmap := set_line (property_bitmap s) l,
            vect_real := (vect_real s)(unat l := True), nvic_pri := (nvic_pri s)(unat l := dflt)\<rparr>) } })"

definition Int_EnableNest :: "u32 \<Rightarrow> irqst \<Rightarrow> (bool \<times> irqst) option" where
  "Int_EnableNest l s =
     (if no_line l s then Some (False, s)
      else if \<not> line_on (property_bitmap s) l then Some (False, s)
      else do { s \<leftarrow> wrl (\<lambda>x. x\<lparr>enable_nest := True\<rparr>) l s; Some (True, s) })"

definition Int_DisableNest :: "u32 \<Rightarrow> irqst \<Rightarrow> irqst option" where
  "Int_DisableNest l s =
     (if no_line l s then Some s else wrl (\<lambda>x. x\<lparr>enable_nest := False\<rparr>) l s)"

definition Int_SetPrio :: "u32 \<Rightarrow> u32 \<Rightarrow> irqst \<Rightarrow> (bool \<times> irqst) option" where
  "Int_SetPrio l p s =
     (if no_line l s then Some (False, s)
      else do {
        t \<leftarrow> rdl int_type l s;
        if t = CN_ASYN_SIGNAL then Some (False, s)
        else do {
          s \<leftarrow> wrl (\<lambda>x. x\<lparr>line_prio := p\<rparr>) l s;
          Some (True, s\<lparr>nvic_pri := (nvic_pri s)(unat l := p AND 0xff)\<rparr>) } })"

definition Int_Init :: "irqst \<Rightarrow> irqst" where
  "Int_Init s =
     (let s = Int_ClearAllLine (Int_CutTrunk s);
          s = s\<lparr>scb_CCR := scb_CCR s OR push_bit 1 1\<rparr>;
          line = (\<lambda>k. k \<le> unat (int_line_last s));
          word = (\<lambda>k. k < int_bits_words s);
          s = s\<lparr>tg_pIntLineTable := (\<lambda>k. if line k then None else tg_pIntLineTable s k),
                vect_real := (\<lambda>k. if line k then False else vect_real s k),
                nvic_pri := (\<lambda>k. if line k then 0xff else nvic_pri s k)\<rparr>;
          s = s\<lparr>nvic_ena := (\<lambda>k. if word k then nvic_ena s k AND NOT 0xFFFFFFFF else nvic_ena s k),
                nvic_pend := (\<lambda>k. if word k then nvic_pend s k AND NOT 0xFFFFFFFF else nvic_pend s k),
                property_bitmap := (\<lambda>k. if word k then 0 else property_bitmap s k),
                enable_bitmap := (\<lambda>k. if word k then 0 else enable_bitmap s k)\<rparr>;
          s = s\<lparr>kern := (kern s)\<lparr>nest_asyn_signal := 0, en_asyn_signal_counter := 1\<rparr>, nest_real := 0\<rparr>;
          s = s\<lparr>kern := Int_CutAsynSignal (kern s), en_trunk_counter := 0\<rparr>
      in (Int_ContactTrunk s)\<lparr>faults_open := True\<rparr>)"

section \<open>Lines\<close>

definition Int_SaveAsynLine :: "u32 \<Rightarrow> irqst \<Rightarrow> (bool \<times> irqst) option" where
  "Int_SaveAsynLine l s =
     (if no_line l s \<or> nest_real s \<noteq> 0 then Some (False, s)
      else do {
        t \<leftarrow> rdl int_type l s;
        if t = CN_REAL then Some (False, s)
        else do {
          let s = snd (Int_CutLine l s);
          s \<leftarrow> wrl (\<lambda>x. if en_counter x \<noteq> CN_LIMIT_UCPU then x\<lparr>en_counter := en_counter x + 1\<rparr> else x) l s;
          Some (True, s\<lparr>enable_bitmap := clr_line (enable_bitmap s) l\<rparr>) } })"

definition Int_SaveRealLine :: "u32 \<Rightarrow> irqst \<Rightarrow> (bool \<times> irqst) option" where
  "Int_SaveRealLine l s =
     (if no_line l s then Some (False, s)
      else do {
        t \<leftarrow> rdl int_type l s;
        if t = CN_ASYN_SIGNAL then Some (False, s)
        else do {
          let s = snd (Int_CutLine l s);
          s \<leftarrow> wrl (\<lambda>x. if en_counter x \<noteq> CN_LIMIT_UCPU then x\<lparr>en_counter := en_counter x + 1\<rparr> else x) l s;
          Some (True, s\<lparr>enable_bitmap := clr_line (enable_bitmap s) l\<rparr>) } })"

text \<open>The common end of the two restoring operations.\<close>

definition restore_line :: "u32 \<Rightarrow> irqst \<Rightarrow> (bool \<times> irqst) option" where
  "restore_line l s = do {
     s \<leftarrow> wrl (\<lambda>x. if en_counter x \<noteq> 0 then x\<lparr>en_counter := en_counter x - 1\<rparr> else x) l s;
     c \<leftarrow> rdl en_counter l s;
     Some (True, if c = 0
       then snd (Int_ContactLine l (s\<lparr>enable_bitmap := set_line (enable_bitmap s) l\<rparr>)) else s) }"

definition Int_RestoreAsynLine :: "u32 \<Rightarrow> irqst \<Rightarrow> (bool \<times> irqst) option" where
  "Int_RestoreAsynLine l s =
     (if no_line l s \<or> nest_real s \<noteq> 0 then Some (False, s)
      else do {
        t \<leftarrow> rdl int_type l s;
        if t = CN_REAL then Some (False, s) else restore_line l s })"

definition Int_RestoreRealLine :: "u32 \<Rightarrow> irqst \<Rightarrow> (bool \<times> irqst) option" where
  "Int_RestoreRealLine l s =
     (if no_line l s then Some (False, s)
      else do {
        t \<leftarrow> rdl int_type l s;
        if t = CN_ASYN_SIGNAL then Some (False, s) else restore_line l s })"

text \<open>The common ends of the disabling and enabling operations.\<close>

definition disable_line :: "u32 \<Rightarrow> irqst \<Rightarrow> (bool \<times> irqst) option" where
  "disable_line l s = do {
     let s = snd (Int_CutLine l s);
     s \<leftarrow> wrl (\<lambda>x. x\<lparr>en_counter := 1\<rparr>) l s;
     Some (True, s\<lparr>enable_bitmap := clr_line (enable_bitmap s) l\<rparr>) }"

definition enable_line :: "u32 \<Rightarrow> irqst \<Rightarrow> (bool \<times> irqst) option" where
  "enable_line l s = do {
     s \<leftarrow> wrl (\<lambda>x. x\<lparr>en_counter := 0\<rparr>) l s;
     Some (True, snd (Int_ContactLine l (s\<lparr>enable_bitmap := set_line (enable_bitmap s) l\<rparr>))) }"

definition Int_DisableAsynLine :: "u32 \<Rightarrow> irqst \<Rightarrow> (bool \<times> irqst) option" where
  "Int_DisableAsynLine l s =
     (if no_line l s \<or> nest_real s \<noteq> 0 then Some (False, s)
      else do {
        t \<leftarrow> rdl int_type l s;
        if t = CN_REAL then Some (False, s) else disable_line l s })"

definition Int_DisableRealLine :: "u32 \<Rightarrow> irqst \<Rightarrow> (bool \<times> irqst) option" where
  "Int_DisableRealLine l s =
     (if no_line l s then Some (False, s)
      else do {
        t \<leftarrow> rdl int_type l s;
        if t = CN_ASYN_SIGNAL then Some (False, s) else disable_line l s })"

definition Int_EnableAsynLine :: "u32 \<Rightarrow> irqst \<Rightarrow> (bool \<times> irqst) option" where
  "Int_EnableAsynLine l s =
     (if no_line l s \<or> nest_real s \<noteq> 0 then Some (False, s)
      else do {
        t \<leftarrow> rdl int_type l s;
        if t = CN_REAL then Some (False, s) else enable_line l s })"

definition Int_EnableRealLine :: "u32 \<Rightarrow> irqst \<Rightarrow> (bool \<times> irqst) option" where
  "Int_EnableRealLine l s =
     (if no_line l s then Some (False, s)
      else do {
        t \<leftarrow> rdl int_type l s;
        if t = CN_ASYN_SIGNAL then Some (False, s) else enable_line l s })"

definition Int_CheckLine :: "u32 \<Rightarrow> irqst \<Rightarrow> bool option" where
  "Int_CheckLine l s =
     (if no_line l s then Some False else map_option (\<lambda>c. c = 0) (rdl en_counter l s))"

definition Int_SetClearType :: "u32 \<Rightarrow> u32 \<Rightarrow> irqst \<Rightarrow> (bool \<times> irqst) option" where
  "Int_SetClearType l c s =
     (if no_line l s then Some (False, s)
      else do {
        t \<leftarrow> rdl int_type l s;
        if t = CN_REAL then Some (False, s)
        else do { s \<leftarrow> wrl (\<lambda>x. x\<lparr>clear_type := c\<rparr>) l s; Some (True, s) } })"

definition Int_IsrConnect :: "u32 \<Rightarrow> nat option \<Rightarrow> irqst \<Rightarrow> irqst option" where
  "Int_IsrConnect l f s = (if no_line l s then Some s else wrl (\<lambda>x. x\<lparr>ISR := f\<rparr>) l s)"

definition Int_SetIsrPara :: "u32 \<Rightarrow> u32 \<Rightarrow> irqst \<Rightarrow> irqst option" where
  "Int_SetIsrPara l p s = (if no_line l s then Some s else wrl (\<lambda>x. x\<lparr>line_para := p\<rparr>) l s)"

definition Int_EvttConnect :: "u32 \<Rightarrow> u16 \<Rightarrow> irqst \<Rightarrow> (bool \<times> irqst) option" where
  "Int_EvttConnect l evtt s =
     (if no_line l s then Some (False, s)
      else do {
        t \<leftarrow> rdl int_type l s;
        if t \<noteq> CN_ASYN_SIGNAL then Some (False, s)
        else do { s \<leftarrow> wrl (\<lambda>x. x\<lparr>my_evtt_id := evtt\<rparr>) l s; Some (True, s) } })"

definition Int_IsrDisConnect :: "u32 \<Rightarrow> irqst \<Rightarrow> irqst option" where
  "Int_IsrDisConnect l s = (if no_line l s then Some s else wrl (\<lambda>x. x\<lparr>ISR := None\<rparr>) l s)"

definition Int_EvttDisConnect :: "u32 \<Rightarrow> irqst \<Rightarrow> irqst option" where
  "Int_EvttDisConnect l s =
     (if no_line l s then Some s else wrl (\<lambda>x. x\<lparr>my_evtt_id := CN_EVTT_ID_INVALID\<rparr>) l s)"

text \<open>The block \<open>malloc\<close> answers with is the next of \<open>line_supply\<close>; \<open>NULL_func\<close> is function 0.\<close>

definition Int_Register :: "u32 \<Rightarrow> irqst \<Rightarrow> bool \<times> irqst" where
  "Int_Register l s =
     (if l > int_line_last s then (False, s)
      else if tg_pIntLineTable s (unat l) \<noteq> None then (True, s)
      else case line_supply s of
          Some p # r \<Rightarrow> (True, s\<lparr>line_supply := r,
            line_mem := (line_mem s)(p \<mapsto> \<lparr>ISR = Some 0, sync_event = NULL, en_counter = 1,
              int_type = CN_ASYN_SIGNAL, clear_type = CN_INT_CLEAR_AUTO, enable_nest = False,
              my_evtt_id = CN_EVTT_ID_INVALID, line_prio = 0, line_para = l\<rparr>),
            tg_pIntLineTable := (tg_pIntLineTable s)(unat l \<mapsto> p)\<rparr>)
        | _ \<Rightarrow> (False, s\<lparr>line_supply := tl (line_supply s)\<rparr>))"

definition Int_UnRegister :: "u32 \<Rightarrow> irqst \<Rightarrow> (bool \<times> irqst) option" where
  "Int_UnRegister l s =
     (if l > int_line_last s then Some (False, s)
      else case tg_pIntLineTable s (unat l) of
          None \<Rightarrow> Some (False, s)
        | Some p \<Rightarrow> if line_mem s p = None then None
                    else Some (True, s\<lparr>line_mem := (line_mem s)(p := None)\<rparr>))"

section \<open>Waiting for an interrupt\<close>

text \<open>The running event leaves the ready queue and waits for the line.\<close>

definition sync_block :: "kst \<Rightarrow> kst option" where
  "sync_block s = do {
     let run = g_ptEventRunning s;
     s \<leftarrow> Djy_CutReadyEvent run s;
     s \<leftarrow> clear_main run s;
     wr (\<lambda>e. e\<lparr>event_status := CN_STS_WAIT_ASYN_SIGNAL\<rparr>) run s }"

definition sync_wait :: "u32 \<Rightarrow> irqst \<Rightarrow> irqst option" where
  "sync_wait l s = do {
     s \<leftarrow> in_kern sync_block s;
     s \<leftarrow> wrl (\<lambda>x. x\<lparr>sync_event := g_ptEventRunning (kern s)\<rparr>) l s;
     (_, s) \<leftarrow> Int_EnableAsynLine l s;
     in_kern Int_RestoreAsynSignal s }"

definition Int_AsynSignalSync :: "u32 \<Rightarrow> irqst \<Rightarrow> ((bool, unit) call \<times> irqst) option" where
  "Int_AsynSignalSync l s =
     (if no_line l s then Some (Return False, s)
      else if \<not> Djy_QuerySch (kern s) then do {
        s \<leftarrow> in_kern (Djy_SaveLastError EN_KNL_CANT_SCHED) s;
        Some (Return False, s) }
      else do {
        let s = s\<lparr>kern := Int_SaveAsynSignal (kern s)\<rparr>;
        t \<leftarrow> rdl int_type l s;
        e \<leftarrow> rdl sync_event l s;
        if t = CN_REAL \<or> e \<noteq> NULL then do {
          s \<leftarrow> in_kern Int_RestoreAsynSignal s;
          Some (Return False, s) }
        else do {
          let (came, s) = Int_QueryLine l s;
          if came then do {
            s \<leftarrow> in_kern Int_RestoreAsynSignal (snd (Int_ClearLine l s));
            Some (Return True, s) }
          else do { s \<leftarrow> sync_wait l s; Some (Block (), s) } } })"

definition Int_AsynSignalSync_resume :: "u32 \<Rightarrow> irqst \<Rightarrow> (bool \<times> irqst) option" where
  "Int_AsynSignalSync_resume l s = do {
     (_, s) \<leftarrow> Int_DisableAsynLine l s;
     s \<leftarrow> in_kern (\<lambda>k. wr (\<lambda>e. e\<lparr>wakeup_from := CN_STS_WAIT_ASYN_SIGNAL,
             event_status := CN_STS_EVENT_READY\<rparr>) (g_ptEventRunning k) k) s;
     Some (True, s) }"

section \<open>The engines\<close>

text \<open>
  \<open>isr f para s\<close>: what the service routine with address \<open>f\<close> does and returns.  \<open>junk\<close> is the
  value of the variable \<open>isr_result\<close>, which the asynchronous engine does not initialise when a
  line has no service routine.
\<close>

type_synonym isr_fun = "nat \<Rightarrow> u32 \<Rightarrow> irqst \<Rightarrow> (u32 \<times> irqst) option"

definition Int_EngineReal :: "isr_fun \<Rightarrow> u32 \<Rightarrow> irqst \<Rightarrow> irqst option" where
  "Int_EngineReal isr l s = do {
     let s = s\<lparr>nest_real := nest_real s + 1\<rparr>;
     ptIntLine \<leftarrow> the_line l s;
     n \<leftarrow> rdp enable_nest ptIntLine s;
     let s = (if \<not> n then Int_CutTrunk s else s);
     f \<leftarrow> rdp ISR ptIntLine s;
     p \<leftarrow> rdp line_para ptIntLine s;
     s \<leftarrow> (case f of None \<Rightarrow> Some s | Some g \<Rightarrow> map_option snd (isr g p s));
     n \<leftarrow> rdp enable_nest ptIntLine s;
     let s = (if \<not> n then Int_ContactTrunk s else s);
     Some (s\<lparr>nest_real := nest_real s - 1\<rparr>) }"

text \<open>What the engine does after the service routine.\<close>

definition engine_sync :: "nat \<Rightarrow> u32 \<Rightarrow> irqst \<Rightarrow> irqst option" where
  "engine_sync ptIntLine isr_result s = do {
     event \<leftarrow> rdp sync_event ptIntLine s;
     if event \<noteq> NULL then do {
       s \<leftarrow> in_kern (wr (\<lambda>e. e\<lparr>event_result := isr_result\<rparr>) event) s;
       s \<leftarrow> in_kern (Djy_EventReady event) s;
       wrp (\<lambda>x. x\<lparr>sync_event := NULL\<rparr>) ptIntLine s }
     else Some s }"

definition engine_leave :: "kst \<Rightarrow> kst option" where
  "engine_leave s = do {
     s \<leftarrow> (if g_ptEventReady s \<noteq> g_ptEventRunning s then Djy_ScheduleAsynSignal s else Some s);
     Some (s\<lparr>g_bScheduleEnable := True\<rparr>) }"

text \<open>The acknowledgement and the service routine.\<close>

definition engine_isr :: "isr_fun \<Rightarrow> u32 \<Rightarrow> u32 \<Rightarrow> nat \<Rightarrow> irqst \<Rightarrow> (u32 \<times> irqst) option" where
  "engine_isr isr junk l ptIntLine s = do {
     c \<leftarrow> rdp clear_type ptIntLine s;
     let s = (if c = CN_INT_CLEAR_AUTO then snd (Int_ClearLine l s) else s);
     f \<leftarrow> rdp ISR ptIntLine s;
     p \<leftarrow> rdp line_para ptIntLine s;
     case f of
         None \<Rightarrow> Some (junk, if c = CN_INT_CLEAR_USER then snd (Int_ClearLine l s) else s)
       | Some g \<Rightarrow> isr g p s }"

definition Int_EngineAsynSignal :: "isr_fun \<Rightarrow> u32 \<Rightarrow> u32 \<Rightarrow> irqst \<Rightarrow> irqst option" where
  "Int_EngineAsynSignal isr junk l s = do {
     let s = s\<lparr>kern := (kern s)\<lparr>g_bScheduleEnable := False\<rparr>\<rparr>;
     ptIntLine \<leftarrow> the_line l s;
     let s = s\<lparr>kern := (kern s)\<lparr>nest_asyn_signal := 1\<rparr>\<rparr>;
     (isr_result, s) \<leftarrow> engine_isr isr junk l ptIntLine s;
     s \<leftarrow> engine_sync ptIntLine isr_result s;
     evtt \<leftarrow> rdp my_evtt_id ptIntLine s;
     s \<leftarrow> (if evtt \<noteq> CN_EVTT_ID_INVALID
          then in_kern (\<lambda>k. map_option snd (Djy_EventPop evtt 0 isr_result l 0 k)) s else Some s);
     in_kern (\<lambda>k. engine_leave (k\<lparr>nest_asyn_signal := 0\<rparr>)) s }"

text \<open>The tick exception; \<open>user_systick\<close> is \<open>Djy_IsrTick\<close> (\<open>__DjyInitTick\<close>).\<close>

definition Exp_SystickTickHandler :: "kst \<Rightarrow> kst option" where
  "Exp_SystickTickHandler s = do {
     let s = s\<lparr>g_bScheduleEnable := False, en_asyn_signal_counter := 1, nest_asyn_signal := 1\<rparr>;
     s \<leftarrow> Djy_IsrTick 1 s;
     engine_leave (s\<lparr>nest_asyn_signal := 0, en_asyn_signal_counter := 0\<rparr>) }"

end
