(* ===== verification/IntProps.thy ===== *)
theory IntProps
  imports IntLine LockOps
begin

text \<open>The properties of the interrupt lines.\<close>

section \<open>Bit maps of lines\<close>

lemma line_on_bit: "line_on m l \<longleftrightarrow> bit (m (line_word l)) (unat l mod 32)"
  by (simp add: line_on_def line_bit_def bit_iff_and_push_bit_not_eq_0)

lemma line_eq: "line_word l = line_word l' \<Longrightarrow> unat l mod 32 = unat l' mod 32 \<Longrightarrow> l = l'"
  by (metis line_word_def div_mod_decomp word_unat_eq_iff)

lemma line_bits: "bit (m OR line_bit l) n \<longleftrightarrow> bit m n \<or> n = unat l mod 32"
  "bit (m AND NOT (line_bit l)) n \<longleftrightarrow> bit m n \<and> n \<noteq> unat l mod 32"
  by (auto simp: line_bit_def bit_simps dest: bit_imp_le_length)

lemma line_on_upd [simp]:
  "line_on (set_line m l) l' \<longleftrightarrow> l' = l \<or> line_on m l'"
  "line_on (clr_line m l) l' \<longleftrightarrow> l' \<noteq> l \<and> line_on m l'"
  by (auto simp: line_on_bit set_line_def clr_line_def line_bits dest: line_eq)

lemma set_line_same: "line_on m l \<Longrightarrow> set_line (clr_line m l) l = m"
  by (rule ext, rule bit_word_eqI) (auto simp: set_line_def clr_line_def line_on_bit line_bits)

lemma clr_line_same: "\<not> line_on m l \<Longrightarrow> clr_line m l = m"
  by (rule ext, rule bit_word_eqI) (auto simp: clr_line_def line_on_bit line_bits)


section \<open>The invariant of the lines\<close>

text \<open>
  Of a registered line: both enable bits say whether its counter is zero, and the property bit
  and the vector say whether it is a real-time line.  The bits of other lines are clear.
\<close>

definition line_inv :: "irqst \<Rightarrow> u32 \<Rightarrow> bool" where
  "line_inv s l = (case tg_pIntLineTable s (unat l) of
       None \<Rightarrow> \<not> line_on (enable_bitmap s) l \<and> \<not> line_on (nvic_ena s) l \<and>
         \<not> line_on (property_bitmap s) l \<and> \<not> vect_real s (unat l)
     | Some p \<Rightarrow> (case line_mem s p of
           None \<Rightarrow> False
         | Some x \<Rightarrow> line_on (enable_bitmap s) l = (en_counter x = 0) \<and>
             line_on (nvic_ena s) l = (en_counter x = 0) \<and>
             line_on (property_bitmap s) l = (int_type x = CN_REAL) \<and>
             vect_real s (unat l) = (int_type x = CN_REAL) \<and> int_type x \<le> CN_REAL))"

definition line_ptrs :: "irqst \<Rightarrow> bool" where
  "line_ptrs s \<longleftrightarrow>
     (\<forall>l l' p. l \<le> int_line_last s \<longrightarrow> l' \<le> int_line_last s \<longrightarrow>
        tg_pIntLineTable s (unat l) = Some p \<longrightarrow> tg_pIntLineTable s (unat l') = Some p \<longrightarrow> l = l') \<and>
     (\<forall>l p. l \<le> int_line_last s \<longrightarrow> tg_pIntLineTable s (unat l) = Some p \<longrightarrow> Some p \<notin> set (line_supply s)) \<and>
     distinct (filter (\<lambda>x. x \<noteq> None) (line_supply s))"

definition irq_ok :: "irqst \<Rightarrow> bool" where
  "irq_ok s \<longleftrightarrow> line_ptrs s \<and> (\<forall>l \<le> int_line_last s. line_inv s l)"

lemma irq_okD:
  assumes "irq_ok s" and "\<not> no_line l s"
  obtains p x where "tg_pIntLineTable s (unat l) = Some p" and "line_mem s p = Some x"
    and "line_on (enable_bitmap s) l = (en_counter x = 0)" and "line_on (nvic_ena s) l = (en_counter x = 0)"
    and "line_on (property_bitmap s) l = (int_type x = CN_REAL)" and "vect_real s (unat l) = (int_type x = CN_REAL)"
    and "int_type x \<le> CN_REAL" and "the_line l s = Some p" and "l \<le> int_line_last s"
proof -
  obtain p where p: "tg_pIntLineTable s (unat l) = Some p" "l \<le> int_line_last s"
    using assms(2) by (auto simp: no_line_def not_less)
  then have li: "line_inv s l" using assms(1) by (simp add: irq_ok_def)
  then obtain x where x: "line_mem s p = Some x" using p(1) by (auto simp: line_inv_def split: option.splits)
  show ?thesis by (rule that [OF p(1) x _ _ _ _ _ _ p(2)]) (use li p x in \<open>simp_all add: line_inv_def the_line_def\<close>)
qed


lemma irq_ok_kern [simp]: "irq_ok (s\<lparr>kern := k\<rparr>) = irq_ok s"
  by (simp add: irq_ok_def line_ptrs_def line_inv_def cong: option.case_cong)

lemma irq_ok_pend [simp]: "irq_ok (s\<lparr>nvic_pend := k\<rparr>) = irq_ok s"
  by (simp add: irq_ok_def line_ptrs_def line_inv_def cong: option.case_cong)

lemma word_inc_0: "w \<noteq> 0xFFFFFFFF \<Longrightarrow> w + 1 \<noteq> (0 :: u32)"
proof
  assume w: "w \<noteq> 0xFFFFFFFF" and "w + 1 = 0"
  then have "w = - 1" by (simp add: eq_neg_iff_add_eq_0)
  then show False using w by simp
qed

lemma the_line_upd [simp]:
  "the_line l (s\<lparr>nvic_ena := a\<rparr>) = the_line l s" "the_line l (s\<lparr>enable_bitmap := a\<rparr>) = the_line l s"
  "the_line l (s\<lparr>line_mem := m\<rparr>) = the_line l s" "the_line l (s\<lparr>kern := k\<rparr>) = the_line l s"
  "no_line l (s\<lparr>nvic_ena := a\<rparr>) = no_line l s" "no_line l (s\<lparr>enable_bitmap := a\<rparr>) = no_line l s"
  "no_line l (s\<lparr>line_mem := m\<rparr>) = no_line l s" "no_line l (s\<lparr>kern := k\<rparr>) = no_line l s"
  by (simp_all add: the_line_def no_line_def)

lemmas line_accs = rdl_def wrl_def rdp_def wrp_def

lemmas line_ops = Int_SaveAsynLine_def Int_SaveRealLine_def Int_RestoreAsynLine_def Int_RestoreRealLine_def
  restore_line_def Int_DisableAsynLine_def Int_DisableRealLine_def Int_EnableAsynLine_def
  Int_EnableRealLine_def disable_line_def enable_line_def Int_CutLine_def Int_ContactLine_def










section \<open>Every operation on a line keeps the invariant\<close>


lemma irq_ok_pri [simp]: "irq_ok (s\<lparr>nvic_pri := k\<rparr>) = irq_ok s"
  by (simp add: irq_ok_def line_ptrs_def line_inv_def cong: option.case_cong)










section \<open>Waiting for an interrupt\<close>

lemma kinv_sync_block:
  assumes K: "kinv s (as @ g_ptEventRunning s # y # bs) ds Q"
  shows "\<exists>s'. sync_block s = Some s' \<and> kinv s' (as @ y # bs) ds Q \<and>
    loose (g_ptEventRunning s) s' (as @ y # bs) ds \<and> kframe s s' \<and>
    event_status (ecbs s' (g_ptEventRunning s)) = CN_STS_WAIT_ASYN_SIGNAL"
proof -
  let ?e = "g_ptEventRunning s" and ?xs = "as @ y # bs"
  from kinv_CutReady [OF K] obtain s1 where s1: "Djy_CutReadyEvent ?e s = Some s1" "kinv s1 ?xs ds Q"
    "loose ?e s1 ?xs ds" "kframe s s1" by blast
  from kinv_clear_main [OF s1(2,3)] obtain s2 where s2: "clear_main ?e s1 = Some s2" "kinv s2 ?xs ds Q"
    "loose ?e s2 ?xs ds" "kframe s1 s2" by blast
  define s3 where "s3 = s2\<lparr>ecbs := hput (\<lambda>e. e\<lparr>event_status := CN_STS_WAIT_ASYN_SIGNAL\<rparr>) ?e (ecbs s2)\<rparr>"
  have "kinv s3 ?xs ds Q" "loose ?e s3 ?xs ds" using kinv_loose [OF s2(2,3)] by (auto simp: s3_def)
  moreover have "kframe s2 s3" unfolding s3_def
    by (rule kframe_heap(1)) (simp add: hput_def ecb_core_def no_links_def)
  then have "kframe s s3" using s1(4) s2(4) kframe_trans by blast
  moreover have "sync_block s = Some s3" using s1(1) s2(1,3) by (simp add: sync_block_def loose_def wr_def s3_def)
  moreover have "event_status (ecbs s3 ?e) = CN_STS_WAIT_ASYN_SIGNAL" by (simp add: s3_def hput_def)
  ultimately show ?thesis by blast
qed

text \<open>An asynchronous line nobody waits for, which has not come.\<close>

definition quiet_line :: "irqst \<Rightarrow> u32 \<Rightarrow> bool" where
  "quiet_line s l \<longleftrightarrow> \<not> no_line l s \<and> nest_real s = 0 \<and> rdl int_type l s = Some CN_ASYN_SIGNAL \<and>
     rdl sync_event l s = Some NULL \<and> \<not> line_on (nvic_pend s) l"

text \<open>
  C11: waiting for an interrupt.  When the line is asynchronous, nobody waits for it and the
  interrupt has not come, the running event leaves the ready queue and is in no queue at all, the
  line remembers it and is enabled, and the processor goes to the highest priority that is left.
\<close>

theorem Int_AsynSignalSync_blocks:
  assumes K: "kinv (kern s) (as @ g_ptEventRunning (kern s) # y # bs) ds Q"
    and able: "\<forall>x \<in> set (as @ g_ptEventRunning (kern s) # y # bs). able x (kern s)"
    and sch: "outermost (kern s)" "g_bScheduleEnable (kern s)" and l: "quiet_line s l"
  shows "\<exists>s'. Int_AsynSignalSync l s = Some (Block (), s') \<and> kinv (kern s') (as @ y # bs) ds Q \<and>
    loose (g_ptEventRunning (kern s)) (kern s') (as @ y # bs) ds \<and>
    rdl sync_event l s' = Some (g_ptEventRunning (kern s)) \<and> Int_CheckLine l s' = Some True \<and>
    g_ptEventRunning (kern s') = hd (as @ [y])"
proof -
  let ?k = "Int_SaveAsynSignal (kern s)" and ?e = "g_ptEventRunning (kern s)" and ?xs = "as @ y # bs"
  from kinv_sync_block [of ?k as y bs ds Q] K obtain k1 where k1: "sync_block ?k = Some k1"
    "kinv k1 ?xs ds Q" "loose ?e k1 ?xs ds" "kframe ?k k1" by auto
  note F = kframe_fields [OF k1(4)]
  have ab: "able p k1 = able p (kern s)" for p by (simp add: kframe_able [OF k1(4)])
  have "hd ?xs \<in> set (as @ ?e # y # bs)" by (cases as) auto
  then have "able (hd ?xs) k1" "able (g_ptEventRunning k1) k1" using able F(1) by (auto simp: ab)
  then obtain k2 where k2: "Int_RestoreAsynSignal k1 = Some k2" "left_section (kern s) k1 ?xs k2"
    using leave_section [OF k1(2), of "kern s"] F by auto
  obtain p x where p: "the_line l s = Some p" "line_mem s p = Some x" "int_type x = CN_ASYN_SIGNAL" "sync_event x = NULL"
    using l by (auto simp: quiet_line_def line_accs split: bind_splits)
  define s' where "s' = s\<lparr>kern := k2, line_mem := (line_mem s)(p \<mapsto> x\<lparr>sync_event := ?e, en_counter := 0\<rparr>),
    enable_bitmap := set_line (enable_bitmap s) l, nvic_ena := set_line (nvic_ena s) l\<rparr>"
  have run: "g_ptEventRunning k1 = ?e" using F(1) by simp
  have "Int_AsynSignalSync l s = Some (Block (), s')"
    using l p k1(1) k2(1) sch(2) run
    by (simp add: Int_AsynSignalSync_def quiet_line_def Djy_QuerySch_def line_accs Int_QueryLine_def sync_wait_def
        in_kern_def Int_EnableAsynLine_def enable_line_def Int_ContactLine_def s'_def)
  moreover have "kinv (kern s') ?xs ds Q" using left_section_kinv [OF k2(2)] k1(2) by (simp add: s'_def)
  moreover have "loose ?e (kern s') ?xs ds"
    using k1(3) k2(2) by (auto simp: s'_def loose_def left_section_def kfix_def qview_def)
  moreover have "g_ptEventRunning (kern s') = hd (as @ [y])"
    using k2(2) sch(1) by (cases as) (auto simp: s'_def left_section_def)
  moreover have "no_line l s' = no_line l s" "the_line l s' = the_line l s"
    by (simp_all add: s'_def no_line_def the_line_def)
  then have "rdl sync_event l s' = Some ?e" "Int_CheckLine l s' = Some True"
    using l p by (simp_all add: line_accs s'_def Int_CheckLine_def quiet_line_def)
  ultimately show ?thesis by blast
qed

section \<open>Leaving an interrupt\<close>

text \<open>
  The switch at the end of an interrupt gives the processor to the head of the ready queue; of
  the control blocks it changes the run time of the interrupted event only.
\<close>

definition no_time :: "EventECB \<Rightarrow> EventECB" where
  "no_time e = e\<lparr>consumed_time := 0\<rparr>"

definition left_int :: "kst \<Rightarrow> kst \<Rightarrow> bool" where
  "left_int s s' \<longleftrightarrow> qview s' = qview s \<and> kfix s s' \<and> semps s' = semps s \<and> mutexes s' = mutexes s \<and>
     (\<forall>p. no_time (ecbs s' p) = no_time (ecbs s p)) \<and> g_ptEventRunning s' = g_ptEventReady s \<and>
     en_asyn_signal_counter s' = en_asyn_signal_counter s \<and> g_bScheduleEnable s'"

lemma engine_leave_runs:
  assumes r: "runnable s"
  shows "\<exists>s'. engine_leave s = Some s' \<and> left_int s s'"
proof (cases "g_ptEventReady s = g_ptEventRunning s")
  case True
  then show ?thesis by (simp add: engine_leave_def left_int_def kfix_def)
next
  case False
  let ?r = "g_ptEventReady s" and ?u = "g_ptEventRunning s"
  define t where "t = kernel_time s mod 2 ^ 32"
  define s1 where "s1 = s\<lparr>ecbs := hput (\<lambda>e. e\<lparr>consumed_time := consumed_time e + (t - g_s64RunningStartTime s)\<rparr>) ?u (ecbs s),
     g_s64RunningStartTime := t\<rparr>"
  have v: "valid ?r s" "valid ?u s" using r by (auto simp: runnable_def typed_def)
  have c: "charge_running ?u s = Some s1"
    using v by (simp add: charge_running_def s1_def t_def wr_valid Let_def)
  have f1: "ecb_vm (ecbs s1 p) = ecb_vm (ecbs s p)" "evtt_id (ecbs s1 p) = evtt_id (ecbs s p)" for p
    by (simp_all add: s1_def hput_def)
  have t1: "typed ?r (s1\<lparr>kcalls := k, g_ptEventRunning := ?r\<rparr>)" "typed ?u s1" for k
    using r f1 by (auto simp: runnable_def typed_def s1_def)
  have g1: "g_ptEventReady s1 = ?r" "g_ptEventRunning s1 = ?u" "kcalls s1 = kcalls s" "valid p s1 = valid p s" for p
    by (simp_all add: s1_def)
  let ?hook = "\<lambda>p. SchHook (evtts s1 (evtt_index (evtt_id (ecbs s1 p))))"
  define s2 where "s2 = s1\<lparr>kcalls := kcalls s @ [Call_SchHook (?hook ?u) EN_SWITCH_OUT,
      Call_SchHook (?hook ?r) EN_SWITCH_IN, Call_switch_context_int (ecb_vm (ecbs s ?r)) (ecb_vm (ecbs s ?u))],
      g_ptEventRunning := ?r\<rparr>"
  have "Djy_SelectEventToRun s = Some s" using v(1) r by (simp add: Select_runnable runnable_def)
  then have "Djy_ScheduleAsynSignal s = Some s2"
    using False c call_SchHook_typed [OF t1(2)] call_SchHook_typed [OF t1(1)]
    by (simp add: Djy_ScheduleAsynSignal_def Let_def kcall_out_def g1 rd_def v f1 s2_def)
  then have run: "engine_leave s = Some (s2\<lparr>g_bScheduleEnable := True\<rparr>)" using False by (simp add: engine_leave_def)
  have "qview s1 = qview s" by (simp add: s1_def)
  moreover have "no_time (ecbs s1 p) = no_time (ecbs s p)" for p by (simp add: s1_def hput_def no_time_def)
  moreover have "kfix s s1" by (simp add: kfix_def s1_def hput_def)
  ultimately have "left_int s (s2\<lparr>g_bScheduleEnable := True\<rparr>)"
    by (simp add: left_int_def s2_def) (simp add: s1_def kfix_def)
  then show ?thesis using run by blast
qed

section \<open>The asynchronous engine\<close>

lemma ready_view: "qview s' = qview s \<Longrightarrow> ready s' xs = ready s xs"
  by (simp add: ready_ok_def qview_def)

lemma runnable_able:
  "able (g_ptEventReady s) s \<Longrightarrow> able (g_ptEventRunning s) s \<Longrightarrow> runnable s"
  by (simp add: able_def runnable_def)

lemma no_time_fields:
  assumes "no_time a = no_time b"
  shows "event_result a = event_result b" and "event_status a = event_status b"
  using arg_cong [OF assms, of event_result] arg_cong [OF assms, of event_status] by (simp_all add: no_time_def)

text \<open>
  The state in which the service routine runs: the scheduler is closed, an asynchronous signal is
  being served and the line is acknowledged, unless the routine does that itself.
\<close>

definition isr_entry :: "u32 \<Rightarrow> IntLine \<Rightarrow> irqst \<Rightarrow> irqst" where
  "isr_entry l x s =
     (let s = s\<lparr>kern := (kern s)\<lparr>g_bScheduleEnable := False, nest_asyn_signal := 1\<rparr>\<rparr>
      in if clear_type x = CN_INT_CLEAR_AUTO then s\<lparr>nvic_pend := clr_line (nvic_pend s) l\<rparr> else s)"

text \<open>
  C12: the interrupt comes.  The service routine may do anything, posts, other kernel calls and
  operations on lines included, that leaves the queues in order and the waiting event waiting for
  the line.  Then, when no event type is connected to the line, the engine stores the result of the
  routine in that event and makes it ready behind the events of its priority; the line is free again
  and the processor goes to the highest priority.  The status of the event is not changed: it sits
  in the ready queue marked as waiting, until it runs again.
\<close>

theorem Int_Engine_wakes:
  assumes l: "\<not> no_line l s" "the_line l s = Some p" "line_mem s p = Some x" "ISR x = Some f"
    and isr: "isr f (line_para x) (isr_entry l x s) = Some (res, t)"
    and t: "the_line l t = Some p" "line_mem t p = Some x'" "sync_event x' = e" "my_evtt_id x' = CN_EVTT_ID_INVALID"
    and K: "kinv (kern t) xs ds Q" and e: "loose e (kern t) xs ds"
    and k: "pri (ecbs (kern t)) e < pri (ecbs (kern t)) (last xs)"
    and able: "able (g_ptEventRunning (kern t)) (kern t)" "\<forall>y \<in> insert e (set xs). able y (kern t)"
  shows "\<exists>s'. Int_EngineAsynSignal isr junk l s = Some s' \<and>
    ready (kern s') (prio_insert (pri (ecbs (kern t))) e xs) \<and>
    g_ptEventRunning (kern s') = hd (prio_insert (pri (ecbs (kern t))) e xs) \<and>
    event_result (ecbs (kern s') e) = res \<and>
    event_status (ecbs (kern s') e) = event_status (ecbs (kern t) e) \<and>
    rdl sync_event l s' = Some NULL"
proof -
  let ?xs = "prio_insert (pri (ecbs (kern t))) e xs"
  define k1 where "k1 = (kern t)\<lparr>ecbs := hput (\<lambda>e. e\<lparr>event_result := res\<rparr>) e (ecbs (kern t))\<rparr>"
  have K1: "kinv k1 xs ds Q" "loose e k1 xs ds" using kinv_loose [OF K e] by (auto simp: k1_def)
  have p1: "pri (ecbs k1) = pri (ecbs (kern t))" by (auto simp: k1_def heap_simps fun_eq_iff)
  have "e \<notin> set xs" "valid e k1" using K1(2) by (auto simp: loose_def)
  from EventReady_ready [OF kinvD(1) [OF K1(1)] this] k obtain h r' where
    R: "Djy_EventReady e k1 = Some (k1\<lparr>ecbs := h, g_ptEventReady := r'\<rparr>)" "ready_ok (cfgEventLimit k1) h r' ?xs"
      "links_only (insert e (set xs)) (ecbs k1) h" by (auto simp: p1)
  define k2 where "k2 = k1\<lparr>ecbs := h, g_ptEventReady := r', nest_asyn_signal := 0\<rparr>"
  have r2: "ready k2 ?xs" using R(2) by (simp add: k2_def)
  have D: "ecb_vm (h q) = ecb_vm (ecbs (kern t) q)" "evtt_id (h q) = evtt_id (ecbs (kern t) q)" for q
    using links_only_data [OF R(3), of q] by (auto simp: k1_def hput_def)
  have no: "no_links (h e) = no_links (ecbs k1 e)" using R(3) by (simp add: links_only_def)
  have ev: "event_result (h e) = res" "event_status (h e) = event_status (ecbs (kern t) e)"
    using arg_cong [OF no, of event_result] arg_cong [OF no, of event_status]
    by (simp_all add: no_links_def k1_def hput_def)
  have ab: "able q k2 = able q (kern t)" for q
    by (simp add: able_def typed_def k2_def D) (simp add: k1_def)
  have hd: "g_ptEventReady k2 = hd ?xs" using ready_okD(2) [OF r2] .
  have "able (hd ?xs) (kern t)" using able_hd_insert [OF able(2)] .
  moreover have "g_ptEventRunning k2 = g_ptEventRunning (kern t)" by (simp add: k2_def k1_def)
  ultimately have "runnable k2" using able(1) hd by (intro runnable_able) (simp_all add: ab)
  from engine_leave_runs [OF this] obtain k3 where k3: "engine_leave k2 = Some k3" "left_int k2 k3" by blast
  define s' where "s' = t\<lparr>kern := k3, line_mem := (line_mem t)(p \<mapsto> x'\<lparr>sync_event := NULL\<rparr>)\<rparr>"
  have eN: "e \<noteq> NULL" "valid e (kern t)" using e by (auto simp: loose_def dest: vptrD)
  have w: "wr (\<lambda>e. e\<lparr>event_result := res\<rparr>) e (kern t) = Some k1" using eN(2) by (simp add: wr_def k1_def)
  define u where "u = s\<lparr>kern := (kern s)\<lparr>g_bScheduleEnable := False, nest_asyn_signal := 1\<rparr>\<rparr>"
  have "\<not> no_line l u" using l(1) by (simp add: u_def)
  then have "engine_isr isr junk l p u = Some (res, t)"
    using l(3,4) isr
    by (cases "clear_type x = CN_INT_CLEAR_AUTO") (simp_all add: engine_isr_def rdp_def Int_ClearLine_def isr_entry_def Let_def u_def)
  moreover have "engine_sync p res t = Some (t\<lparr>kern := k1\<lparr>ecbs := h, g_ptEventReady := r'\<rparr>,
      line_mem := (line_mem t)(p \<mapsto> x'\<lparr>sync_event := NULL\<rparr>)\<rparr>)" (is "_ = Some ?t2")
    using t(2,3) eN w R(1) by (simp add: engine_sync_def rdp_def wrp_def in_kern_def)
  moreover have "in_kern (\<lambda>k. engine_leave (k\<lparr>nest_asyn_signal := 0\<rparr>)) ?t2 = Some s'"
    using k3(1) by (simp add: in_kern_def k2_def s'_def)
  moreover have "rdp my_evtt_id p ?t2 = Some CN_EVTT_ID_INVALID" using t(4) by (simp add: rdp_def)
  moreover have "the_line l (s\<lparr>kern := (kern s)\<lparr>g_bScheduleEnable := False\<rparr>\<rparr>) = Some p" using l(2) by simp
  ultimately have "Int_EngineAsynSignal isr junk l s = Some s'"
    by (simp add: Int_EngineAsynSignal_def u_def)
  moreover have "ready (kern s') ?xs" using r2 ready_view [of k3 k2] k3(2) by (simp add: s'_def left_int_def)
  moreover have "g_ptEventRunning (kern s') = hd ?xs" using k3(2) hd by (simp add: s'_def left_int_def)
  moreover have "no_time (ecbs k3 e) = no_time (h e)" using k3(2) by (simp add: left_int_def k2_def)
  note no_time_fields [OF this] ev
  moreover have "rdl sync_event l s' = Some NULL" proof -
    have "the_line l s' = the_line l t" by (simp add: s'_def the_line_def)
    then show ?thesis using t by (simp add: s'_def rdl_def rdp_def)
  qed
  ultimately show ?thesis by (simp add: s'_def)
qed

section \<open>Reachable states, pairs, and released lines\<close>


text \<open>The sample: 32 lines, of which line 5 is registered and disabled; its routine is function 7.\<close>

definition isample :: irqst where
  "isample = \<lparr>kern = sample, tg_pIntLineTable = (\<lambda>l. if l = 5 then Some 0 else None),
     line_mem = (\<lambda>p. if p = 0 then Some \<lparr>ISR = Some 7, sync_event = NULL, en_counter = 1,
       int_type = CN_ASYN_SIGNAL, clear_type = CN_INT_CLEAR_AUTO, enable_nest = False,
       my_evtt_id = CN_EVTT_ID_INVALID, line_prio = 0, line_para = 5\<rparr> else None),
     property_bitmap = (\<lambda>k. 0), enable_bitmap = (\<lambda>k. 0), nest_real = 0, en_trunk_counter = 0,
     trunk_open = True, nvic_ena = (\<lambda>k. 0), nvic_pend = (\<lambda>k. 0), nvic_pri = (\<lambda>k. 0xff),
     vect_real = (\<lambda>l. False), int_line_last = 31, line_supply = [Some 1], scb_CCR = 0, faults_open = False\<rparr>"

lemma isample_line: "\<not> no_line 5 isample" "the_line 5 isample = Some 0" "kern isample = sample"
  "rdl int_type 5 isample = Some CN_ASYN_SIGNAL" "rdl sync_event 5 isample = Some NULL"
  "rdl en_counter 5 isample = Some 1" "nest_real isample = 0" "line_supply isample = [Some 1]"
  by (simp_all add: isample_def no_line_def the_line_def line_accs)

lemma isample_ok: "irq_ok isample"
proof -
  have "unat l = 5 \<longleftrightarrow> l = 5" for l :: u32 by (simp add: word_unat_eq_iff)
  then show ?thesis
    by (auto simp: irq_ok_def line_ptrs_def line_inv_def isample_def line_on_def)
qed



text \<open>
  C10: \<open>Int_SaveAsynLine\<close> and \<open>Int_RestoreAsynLine\<close> are a pair.  The first cuts the line off
  whatever its state was, and the second restores the state of before exactly, as long as the
  counter is not at its limit.
\<close>

theorem Int_Save_Restore:
  assumes ok: "irq_ok s" and l: "\<not> no_line l s" "nest_real s = 0" "rdl int_type l s = Some CN_ASYN_SIGNAL"
    and c: "rdl en_counter l s \<noteq> Some CN_LIMIT_UCPU"
  shows "\<exists>s1. Int_SaveAsynLine l s = Some (True, s1) \<and> Int_CheckLine l s1 = Some False \<and>
    \<not> line_on (nvic_ena s1) l \<and> Int_RestoreAsynLine l s1 = Some (True, s)"
proof -
  from irq_okD [OF ok l(1)] obtain p x where p: "line_mem s p = Some x"
    "line_on (enable_bitmap s) l = (en_counter x = 0)" "line_on (nvic_ena s) l = (en_counter x = 0)"
    "the_line l s = Some p" .
  have x: "int_type x = CN_ASYN_SIGNAL" "en_counter x \<noteq> CN_LIMIT_UCPU" using l c p by (auto simp: line_accs)
  define s1 where "s1 = s\<lparr>nvic_ena := clr_line (nvic_ena s) l,
    line_mem := (line_mem s)(p \<mapsto> x\<lparr>en_counter := en_counter x + 1\<rparr>), enable_bitmap := clr_line (enable_bitmap s) l\<rparr>"
  have n: "no_line l s1 = no_line l s" "the_line l s1 = the_line l s" "nest_real s1 = nest_real s"
    "line_mem s1 p = Some (x\<lparr>en_counter := en_counter x + 1\<rparr>)"
    by (simp_all add: s1_def no_line_def the_line_def)
  have "Int_SaveAsynLine l s = Some (True, s1)"
    using l p x by (simp add: Int_SaveAsynLine_def line_accs Int_CutLine_def s1_def)
  moreover have "Int_CheckLine l s1 = Some False" using l p x n by (simp add: Int_CheckLine_def line_accs word_inc_0)
  moreover have "\<not> line_on (nvic_ena s1) l" by (simp add: s1_def)
  moreover have "Int_RestoreAsynLine l s1 = Some (True, s)"
  proof (cases "en_counter x = 0")
    case True
    then have "(line_mem s)(p \<mapsto> x\<lparr>en_counter := 0\<rparr>) = line_mem s" using p(1) by (auto simp: fun_eq_iff)
    then show ?thesis using True l p x n set_line_same [of "enable_bitmap s" l] set_line_same [of "nvic_ena s" l]
      by (simp add: Int_RestoreAsynLine_def restore_line_def line_accs Int_ContactLine_def)
        (simp add: s1_def True)
  next
    case False
    then have "(line_mem s)(p \<mapsto> x) = line_mem s" using p(1) by (auto simp: fun_eq_iff)
    then show ?thesis using False l p x n clr_line_same [of "enable_bitmap s" l] clr_line_same [of "nvic_ena s" l]
      by (simp add: Int_RestoreAsynLine_def restore_line_def line_accs word_inc_0)
        (simp add: s1_def)
  qed
  ultimately show ?thesis by blast
qed

theorem Int_Save_Restore_witness:
  "\<exists>s1. Int_SaveAsynLine 5 isample = Some (True, s1) \<and> Int_RestoreAsynLine 5 s1 = Some (True, isample)"
  using Int_Save_Restore [OF isample_ok isample_line(1,7,4)] by (auto simp: isample_line)

text \<open>
  C13: \<open>Int_UnRegister\<close> leaves the address of the released block in the table.  Registering the line
  again answers true without giving it a block.  The operations that look at the block, the
  asynchronous ones outside a real-time interrupt, access released memory: saving, restoring,
  disabling and enabling, the check, the settings of type, priority, clearing, routine, parameter and
  event type, and \<open>Int_UnRegister\<close> itself.  The operations that only touch the controller still work.
\<close>

theorem Int_UnRegister_dangles:
  assumes "irq_ok s" and "\<not> no_line l s" and "nest_real s = 0"
  shows "\<exists>s'. Int_UnRegister l s = Some (True, s') \<and> Int_Register l s' = (True, s') \<and>
    Int_SaveAsynLine l s' = None \<and> Int_RestoreAsynLine l s' = None \<and> Int_DisableAsynLine l s' = None \<and>
    Int_EnableAsynLine l s' = None \<and> Int_SaveRealLine l s' = None \<and> Int_RestoreRealLine l s' = None \<and>
    Int_DisableRealLine l s' = None \<and> Int_EnableRealLine l s' = None \<and> Int_CheckLine l s' = None \<and>
    Int_SettoAsynSignal l s' = None \<and> Int_SettoReal dflt l s' = None \<and> Int_SetPrio l k s' = None \<and>
    Int_DisableNest l s' = None \<and> Int_SetClearType l c s' = None \<and> Int_IsrConnect l g s' = None \<and>
    Int_IsrDisConnect l s' = None \<and> Int_SetIsrPara l q s' = None \<and> Int_EvttConnect l v s' = None \<and>
    Int_EvttDisConnect l s' = None \<and> Int_UnRegister l s' = None \<and>
    fst (Int_TapLine l s') \<and> fst (Int_ClearLine l s') \<and> fst (Int_QueryLine l s') = line_on (nvic_pend s) l"
proof -
  from irq_okD [OF assms(1,2)] obtain p x where p: "tg_pIntLineTable s (unat l) = Some p" "line_mem s p = Some x"
    "the_line l s = Some p" "l \<le> int_line_last s" .
  define s' where "s' = s\<lparr>line_mem := (line_mem s)(p := None)\<rparr>"
  have n: "\<not> no_line l s'" "the_line l s' = Some p" "line_mem s' p = None" "nest_real s' = 0" "tg_pIntLineTable s' (unat l) = Some p"
    "l \<le> int_line_last s'" "nvic_pend s' = nvic_pend s"
    using p assms(2,3) by (simp_all add: s'_def no_line_def the_line_def)
  have un: "Int_UnRegister l s = Some (True, s')" using p by (simp add: Int_UnRegister_def s'_def leD)
  show ?thesis
    by (rule exI [of _ s'], intro conjI, rule un)
      (simp_all add: n leD line_accs Int_Register_def Int_SaveAsynLine_def Int_RestoreAsynLine_def Int_DisableAsynLine_def
        Int_EnableAsynLine_def Int_SaveRealLine_def Int_RestoreRealLine_def Int_DisableRealLine_def Int_EnableRealLine_def
        Int_CheckLine_def Int_SettoAsynSignal_def Int_SettoReal_def Int_SetPrio_def Int_DisableNest_def Int_SetClearType_def
        Int_IsrConnect_def Int_IsrDisConnect_def Int_SetIsrPara_def Int_EvttConnect_def Int_EvttDisConnect_def
        Int_UnRegister_def Int_TapLine_def Int_ClearLine_def Int_QueryLine_def)
qed

theorem Int_UnRegister_dangles_witness:
  "\<exists>s'. Int_UnRegister 5 isample = Some (True, s') \<and> Int_CheckLine 5 s' = None"
  using Int_UnRegister_dangles [OF isample_ok isample_line(1,7)] by blast

section \<open>Witnesses\<close>

theorem Int_AsynSignalSync_blocks_witness:
  "\<exists>s'. Int_AsynSignalSync 5 isample = Some (Block (), s') \<and> rdl sync_event 5 s' = Some (Ecb 1) \<and>
     kinv (kern s') [Ecb 3, Ecb 0] [Ecb 2] sample_blocks"
proof -
  have K: "kinv (kern isample) ([] @ g_ptEventRunning (kern isample) # Ecb 3 # [Ecb 0]) [Ecb 2] sample_blocks"
    using sample_kinv by (simp add: sample_ready_def isample_line)
  have "quiet_line isample 5" by (simp add: quiet_line_def isample_line) (simp add: isample_def line_on_def)
  then show ?thesis using Int_AsynSignalSync_blocks [OF K] by (auto simp: isample_line)
qed

text \<open>A sample with a fifth event, which waits for line 5.\<close>

definition isample5 :: irqst where
  "isample5 = isample\<lparr>kern := sample\<lparr>cfgEventLimit := 5\<rparr>,
     line_mem := (\<lambda>p. map_option (\<lambda>x. x\<lparr>sync_event := Ecb 4\<rparr>) (line_mem isample p))\<rparr>"

lemma isample5_kinv: "kinv (kern isample5) sample_ready [Ecb 2] sample_blocks"
proof -
  let ?k = "sample\<lparr>cfgEventLimit := 5\<rparr>"
  note K = kinvD [OF sample_kinv]
  have q: "if hvalid q ?k then block_ok 5 (ecbs sample) q (hdval q ?k) (sample_blocks q)
      else sample_blocks q = []" for q
    by (cases q) (auto simp: hvalid_def hdval_def block_ok_def sample_blocks_def dring_single field_defs
        sample_ecb_def sample_def sample_evtt_def)
  have r: "ready_ok 5 (ecbs sample) (Ecb 1) sample_ready"
    using K(1) by (auto simp: ready_ok_def sample_ready_def)
  have d: "delay_ok 5 (ecbs sample) (Ecb 2) [Ecb 2]" using K(2) by (simp add: delay_ok_def)
  have "kinv ?k sample_ready [Ecb 2] sample_blocks"
    using sample_kinv q r d unfolding kinv_def by auto
  then show ?thesis by (simp add: isample5_def)
qed

text \<open>A service routine that posts semaphore 1 and answers 42.\<close>

definition posting_isr :: isr_fun where
  "posting_isr f para s = map_option (Pair 42) (in_kern (Lock_SempPost (Some 1)) s)"

theorem Int_Engine_wakes_witness:
  "\<exists>s'. Int_EngineAsynSignal posting_isr 0 5 isample5 = Some s' \<and>
     ready (kern s') [Ecb 1, Ecb 3, Ecb 4, Ecb 0] \<and> event_result (ecbs (kern s') (Ecb 4)) = 42"
proof -
  let ?x = "\<lparr>ISR = Some 7, sync_event = Ecb 4, en_counter = 1,
       int_type = CN_ASYN_SIGNAL, clear_type = CN_INT_CLEAR_AUTO, enable_nest = False,
       my_evtt_id = CN_EVTT_ID_INVALID, line_prio = 0, line_para = 5\<rparr>"
  let ?u = "isr_entry 5 ?x isample5"
  let ?k = "upd_semp 1 (\<lambda>m. m\<lparr>lamp_counter := lamp_counter m + 1\<rparr>) (kern ?u)"
  define t where "t = ?u\<lparr>kern := ?k\<rparr>"
  have l: "\<not> no_line 5 isample5" "the_line 5 isample5 = Some 0" "line_mem isample5 0 = Some ?x" "ISR ?x = Some 7"
    by (simp_all add: isample5_def isample_def no_line_def the_line_def)
  have run: "posting_isr 7 (line_para ?x) ?u = Some (42, t)"
    by (simp add: posting_isr_def in_kern_def Lock_SempPost_def Int_SaveAsynSignal_def Int_RestoreAsynSignal_def isr_entry_def
        isample5_def isample_def upd_semp_def sample_def Let_def t_def)
  have tl: "the_line 5 t = Some 0" "line_mem t 0 = Some ?x"
    by (simp_all add: t_def isr_entry_def isample5_def isample_def the_line_def)
  have q: "qview (kern t) = qview (kern isample5)" by (simp add: t_def isr_entry_def qview_upd_semp)
  then have K: "kinv (kern t) sample_ready [Ecb 2] sample_blocks" using isample5_kinv kinv_view by blast
  have f: "ecbs (kern t) = ecbs sample" "g_ptEventRunning (kern t) = Ecb 1" "cfgEventLimit (kern t) = 5" "cfgEvttLimit (kern t) = cfgEvttLimit sample"
    by (simp_all add: t_def isr_entry_def isample5_def upd_semp_def isample_line)
  have e: "loose (Ecb 4) (kern t) sample_ready [Ecb 2]"
    by (simp add: loose_def f sample_ready_def shd_def sample_ecb_def)
  have a: "able (Ecb i) (kern t) \<longleftrightarrow> i < 5" for i
    by (auto simp: able_def typed_def f sample_ecb_def evtt_index_def)
  show ?thesis
    using Int_Engine_wakes [where isr = posting_isr and e = "Ecb 4" and junk = 0, OF l run tl _ _ K e]
    by (auto simp: f a sample_ready_def prio_insert_def ins_by_def)
qed

end
