(* ===== verification/EventOps.thy ===== *)
theory EventOps
  imports Critical
begin

text \<open>
  The effect of the operations of \<open>djyos.c\<close> on priorities and delays: \<open>Djy_SetEventPrio\<close>,
  \<open>Djy_EventDelay\<close> and their parts, one lemma per outcome.
\<close>

section \<open>A ready event gets another priority\<close>

lemma in_section_hput:
  assumes "in_section s s1" and "\<And>x. ecb_vm (f x) = ecb_vm x" "\<And>x. evtt_id (f x) = evtt_id x"
    and "\<And>x. event_id (f x) = event_id x"
  shows "in_section s (s1\<lparr>ecbs := hput f p (ecbs s1)\<rparr>)"
  using assms by (simp add: in_section_def kfix_def hput_def)

lemma kinv_requeue:
  assumes K: "kinv s (as @ e # y # bs) ds Q" and k: "k < pri (ecbs s) (last (y # bs))" and i: "in_section s0 s"
  shows "\<exists>s'. requeue e k s = Some s' \<and>
    kinv s' (prio_insert ((pri (ecbs s))(e := k)) e (as @ y # bs)) ds Q \<and> pri (ecbs s') = (pri (ecbs s))(e := k) \<and>
    in_section s0 s' \<and> lock_data s s' \<and> due (ecbs s') = due (ecbs s) \<and> sts (ecbs s') = sts (ecbs s) \<and>
    shd (ecbs s') = shd (ecbs s) \<and> wkf (ecbs s') = wkf (ecbs s)"
proof -
  let ?xs = "as @ y # bs"
  from kinv_CutReady [OF K] obtain s1 where s1: "Djy_CutReadyEvent e s = Some s1" "kinv s1 ?xs ds Q"
    "loose e s1 ?xs ds" "kframe s s1" "links_only UNIV (ecbs s) (ecbs s1)" by blast
  define s2 where "s2 = s1\<lparr>ecbs := hput (\<lambda>x. x\<lparr>prio := k\<rparr>) e (ecbs s1)\<rparr>"
  have K2: "kinv s2 ?xs ds Q" "loose e s2 ?xs ds" using kinv_loose [OF s1(2,3)] by (auto simp: s2_def)
  have p2: "pri (ecbs s2) = (pri (ecbs s))(e := k)"
    using kframe_ecb(6) [OF s1(4)] by (simp add: s2_def field_hput)
  have f2: "sts (ecbs s2) = sts (ecbs s)" "due (ecbs s2) = due (ecbs s)" "shd (ecbs s2) = shd (ecbs s)"
    "wkf (ecbs s2) = wkf (ecbs s)"
    using links_only_fields [OF s1(5)] by (auto simp: s2_def field_hput fun_eq_iff sts_def due_def shd_def wkf_def)
  have st: "sts (ecbs s2) e = CN_STS_EVENT_READY" using kinvD(7) [OF K, of e] by (simp add: f2)
  have "e \<notin> set ?xs" using K2(2) by (simp add: loose_def)
  then have "last ?xs \<noteq> e" by (metis append_is_Nil_conv last_in_set list.distinct(1))
  then have "pri (ecbs s2) e < pri (ecbs s2) (last ?xs)" using k by (simp add: p2)
  from kinv_EventReady [OF K2 st this] obtain s3 where s3: "Djy_EventReady e s2 = Some s3"
    "kinv s3 (prio_insert (pri (ecbs s2)) e ?xs) ds Q" "kframe s2 s3" "links_only UNIV (ecbs s2) (ecbs s3)" by blast
  have "in_section s0 s2" unfolding s2_def
    by (rule in_section_hput) (simp_all add: in_section_kframe [OF i s1(4)])
  from in_section_kframe [OF this s3(3)] have "in_section s0 s3" .
  moreover have "lock_data s1 s2" by (simp add: s2_def)
  then have "lock_data s s3" using lock_data_kframe [OF s1(4)] lock_data_kframe [OF s3(3)] lock_data_trans by blast
  moreover have "requeue e k s = Some s3"
    using s1(1) s3(1) K2(2) by (simp add: requeue_def wr_def s2_def loose_def)
  ultimately show ?thesis using s3(2) kframe_ecb(6) [OF s3(3)] p2 f2 links_only_fields [OF s3(4)] by auto
qed

lemma qview_base [simp]:
  "qview (s\<lparr>ecbs := hput (\<lambda>e. e\<lparr>prio_base := b\<rparr>) p h\<rparr>) = qview (s\<lparr>ecbs := h\<rparr>)"
  by (simp add: qview_def hput_keep hdval_hput) (simp add: fun_eq_iff shd_def due_def hput_def)

lemma SetEventPrio_unfold:
  assumes "new_prio < CN_PRIO_SYS_SERVICE" and "new_prio \<noteq> 0" and "unat ev < cfgEventLimit s"
  defines "s0 \<equiv> (Int_SaveAsynSignal s)\<lparr>ecbs := hput (\<lambda>e. e\<lparr>prio_base := new_prio\<rparr>) (ecb_at ev) (ecbs s)\<rparr>"
  shows "Djy_SetEventPrio ev new_prio s = do {
    s \<leftarrow> (if new_prio \<noteq> pri (ecbs s) (ecb_at ev) then change_prio (ecb_at ev) new_prio s0 else Some s0);
    s \<leftarrow> Int_RestoreAsynSignal s;
    Some (True, s) }" and "qview s0 = qview s" and "in_section s s0" and "lock_data s s0"
proof -
  have v: "valid (ecb_at ev) s" using assms(3) by (simp add: ecb_at_def)
  show "Djy_SetEventPrio ev new_prio s = do {
    s \<leftarrow> (if new_prio \<noteq> pri (ecbs s) (ecb_at ev) then change_prio (ecb_at ev) new_prio s0 else Some s0);
    s \<leftarrow> Int_RestoreAsynSignal s;
    Some (True, s) }"
    using assms(1) [unfolded not_le [symmetric]] assms v by (auto simp: Djy_SetEventPrio_def wr_def rd_def Let_def pri_def hput_def)
  have "(Int_SaveAsynSignal s)\<lparr>ecbs := ecbs s\<rparr> = Int_SaveAsynSignal s"
    using Save_fields(1) [of s] by (metis kst.surjective kst.update_convs(1))
  then show "qview s0 = qview s" unfolding s0_def qview_base by (simp only: Save_qview)
  show "in_section s s0" using in_section_hput [OF in_section_Save, of "\<lambda>e. e\<lparr>prio_base := new_prio\<rparr>" s "ecb_at ev"]
    by (simp add: s0_def)
  show "lock_data s s0" by (simp add: s0_def)
qed

lemma SetEventPrio_ready:
  assumes K: "kinv s (as @ e # y # bs) ds Q" and e: "e = ecb_at ev"
    and ok: "new_prio < CN_PRIO_SYS_SERVICE" "new_prio \<noteq> 0" and k: "new_prio < pri (ecbs s) (last (y # bs))"
    and able: "\<forall>x \<in> set (as @ e # y # bs). able x s" "able (g_ptEventRunning s) s"
  shows "\<exists>s'. Djy_SetEventPrio ev new_prio s = Some (True, s') \<and>
    switched s s' (if new_prio = pri (ecbs s) e then as @ e # y # bs
      else prio_insert ((pri (ecbs s))(e := new_prio)) e (as @ y # bs)) ds Q \<and>
    pri (ecbs s') = (pri (ecbs s))(e := new_prio) \<and> lock_data s s'"
proof -
  have "e \<in> set (as @ e # y # bs)" by simp
  from kinvD(12) [OF K this] have v: "unat ev < cfgEventLimit s" using e by (simp add: ecb_at_def)
  note U = SetEventPrio_unfold [OF ok v]
  define s0 where "s0 = (Int_SaveAsynSignal s)\<lparr>ecbs := hput (\<lambda>e. e\<lparr>prio_base := new_prio\<rparr>) (ecb_at ev) (ecbs s)\<rparr>"
  note U = U [folded s0_def]
  have K0: "kinv s0 (as @ e # y # bs) ds Q" using K kinv_view [OF U(2)] by blast
  have q: "pri (ecbs s0) = pri (ecbs s)" "sts (ecbs s0) = sts (ecbs s)" using U(2) by (simp_all add: qview_def)
  have ab: "able (hd xs) s" if "set xs = set (as @ e # y # bs)" for xs
    using able(1) that hd_in_set [of xs] by (cases xs) auto
  show ?thesis
  proof (cases "new_prio = pri (ecbs s) e")
    case True
    from leave_switched [OF K0 U(3) ab able(2)] obtain s' where s': "Int_RestoreAsynSignal s0 = Some s'"
      "switched s s' (as @ e # y # bs) ds Q" "semps s' = semps s0" "mutexes s' = mutexes s0"
      "pri (ecbs s') = pri (ecbs s0)" by auto
    have "lock_data s s'" using U(4) s'(3,4) by (simp add: lock_data_def)
    then show ?thesis using U(1) s' True e q by auto
  next
    case False
    have st: "event_status (ecbs s0 e) = CN_STS_EVENT_READY" "valid e s0"
      using kinvD(7) [OF K0, of e] kinvD(12) [OF K0, of e] by (auto simp: sts_def)
    from kinv_requeue [OF K0 _ U(3), of new_prio] k obtain s1 where s1: "requeue e new_prio s0 = Some s1"
      "kinv s1 (prio_insert ((pri (ecbs s))(e := new_prio)) e (as @ y # bs)) ds Q"
      "pri (ecbs s1) = (pri (ecbs s))(e := new_prio)" "in_section s s1" "lock_data s0 s1" by (auto simp: q)
    from leave_switched [OF s1(2,4) ab able(2)] obtain s' where s': "Int_RestoreAsynSignal s1 = Some s'"
      "switched s s' (prio_insert ((pri (ecbs s))(e := new_prio)) e (as @ y # bs)) ds Q"
      "semps s' = semps s1" "mutexes s' = mutexes s1" "pri (ecbs s') = pri (ecbs s1)" by auto
    have "lock_data s s'" using U(4) s1(5) s'(3,4) by (simp add: lock_data_def)
    moreover have "change_prio e new_prio s0 = Some s1" using s1(1) st by (simp add: change_prio_def rd_def)
    ultimately show ?thesis using U(1) s' s1(3) False e by auto
  qed
qed

text \<open>
  A blocked event is requeued only when its status has the bit \<open>CN_BLOCK_PRIO_SORT\<close>; otherwise
  its current priority stays what it was.
\<close>

lemma SetEventPrio_blocked:
  assumes K: "kinv s xs ds Q" and v: "unat ev < cfgEventLimit s"
    and ok: "new_prio < CN_PRIO_SYS_SERVICE" "new_prio \<noteq> 0"
    and st: "sts (ecbs s) (ecb_at ev) \<noteq> CN_STS_EVENT_READY" "\<not> has_flag (sts (ecbs s) (ecb_at ev)) CN_BLOCK_PRIO_SORT"
    and able: "able (hd xs) s" "able (g_ptEventRunning s) s"
  shows "\<exists>s'. Djy_SetEventPrio ev new_prio s = Some (True, s') \<and> switched s s' xs ds Q \<and>
    pri (ecbs s') = pri (ecbs s) \<and> lock_data s s'"
proof -
  note U = SetEventPrio_unfold [OF ok v]
  define s0 where "s0 = (Int_SaveAsynSignal s)\<lparr>ecbs := hput (\<lambda>e. e\<lparr>prio_base := new_prio\<rparr>) (ecb_at ev) (ecbs s)\<rparr>"
  note U = U [folded s0_def]
  have K0: "kinv s0 xs ds Q" using K kinv_view [OF U(2)] by blast
  have q: "pri (ecbs s0) = pri (ecbs s)" "sts (ecbs s0) = sts (ecbs s)" "cfgEventLimit s0 = cfgEventLimit s"
    using U(2) by (simp_all add: qview_def)
  have "change_prio (ecb_at ev) new_prio s0 = Some s0"
    using st v by (simp add: change_prio_def rd_def q ecb_at_def) (simp add: sts_def [symmetric] q ecb_at_def [symmetric])
  moreover from leave_switched [OF K0 U(3) able] obtain s' where s': "Int_RestoreAsynSignal s0 = Some s'"
      "switched s s' xs ds Q" "semps s' = semps s0" "mutexes s' = mutexes s0" "pri (ecbs s') = pri (ecbs s0)" by auto
  moreover have "lock_data s s'" using U(4) s'(3,4) by (simp add: lock_data_def)
  ultimately show ?thesis using U(1) q by auto
qed

section \<open>Delays\<close>

text \<open>The delay times of an event that is not in the delay queue do not matter.\<close>

lemma kinv_times:
  assumes K: "kinv s xs ds Q" and e: "e \<notin> set ds"
    and f: "\<And>x. f x = x\<lparr>delay_start_tick := a x, delay_end_tick := b x\<rparr>"
  shows "kinv (s\<lparr>ecbs := hput f e (ecbs s)\<rparr>) xs ds Q"
proof -
  let ?h = "hput f e (ecbs s)"
  have F: "nxt ?h = nxt (ecbs s)" "prv ?h = prv (ecbs s)" "mnx ?h = mnx (ecbs s)" "mpv ?h = mpv (ecbs s)"
    "pri ?h = pri (ecbs s)" "shd ?h = shd (ecbs s)" "sts ?h = sts (ecbs s)"
    by (auto simp: fun_eq_iff field_defs hput_def f)
  have hd: "hdval q (s\<lparr>ecbs := ?h\<rparr>) = hdval q s" for q by (simp add: hdval_hput f)
  have d: "delay_ok n ?h v ds = delay_ok n (ecbs s) v ds" for n v
    by (rule delay_ok_agree) (use e in \<open>auto simp: hput_def\<close>)
  have b: "block_ok n ?h q v bs = block_ok n (ecbs s) q v bs" for n q v bs by (simp add: block_ok_def F)
  have r: "ready_ok n ?h r xs = ready_ok n (ecbs s) r xs" for n r by (simp add: ready_ok_def F)
  show ?thesis using K unfolding kinv_def by (simp add: r d b hd F)
qed

text \<open>The running event, out of every queue, enters the delay queue.\<close>

lemma kinv_delay_insert:
  assumes K: "kinv s xs ds Q" and e: "loose (g_ptEventRunning s) s xs ds"
  shows "\<exists>s'. delay_insert s = Some s' \<and>
    kinv s' xs (ins_by (\<lambda>y. due (ecbs s) y \<le> due (ecbs s) (g_ptEventRunning s)) (g_ptEventRunning s) ds) Q \<and>
    kframe s s'"
proof -
  let ?e = "g_ptEventRunning s"
  have ev: "valid ?e s" "?e \<notin> set ds" "?e \<notin> set xs" "shd (ecbs s) ?e = NULLH" using e by (auto simp: loose_def)
  have nb: "?e \<notin> set (Q q)" for q by (rule loose_not_blocked [OF K ev(4)])
  let ?ds = "ins_by (\<lambda>y. due (ecbs s) y \<le> due (ecbs s) ?e) ?e ds"
  from delay_insert_delay [OF kinvD(2) [OF K] refl ev(1,2)] obtain h d where
    h: "delay_insert s = Some (s\<lparr>ecbs := h, g_ptEventDelay := d\<rparr>)" "delay_ok (cfgEventLimit s) h d ?ds"
      "main_only (insert ?e (set ds)) (ecbs s) h" by blast
  have "kinv (s\<lparr>ecbs := h, g_ptEventDelay := d\<rparr>) xs ?ds Q"
  proof (rule kinv_delay_step [OF K h(3) _ h(2)])
    show "insert ?e (set ds) \<inter> set xs = {}" "set xs \<inter> set ?ds = {}" using kinvD(5) [OF K] ev by auto
    show "shd (ecbs s) x = NULLH \<or> x \<in> set (Q (shd (ecbs s) x))" if "x \<in> set ?ds" for x
      using that kinvD(8) [OF K, of x] ev(4) by auto
    show "has_flag (sts (ecbs s) x) CN_STS_SYNC_TIMEOUT \<longleftrightarrow> x \<in> set ?ds" if "x \<in> set (Q q)" for q x
      using kinvD(9) [OF K that] nb that by auto
  qed
  then show ?thesis using h(1) kframe_main [OF h(3)] by blast
qed

lemma EventDelay_blocks:
  assumes K: "kinv s (as @ g_ptEventRunning s # y # bs) ds Q"
    and able: "\<forall>x \<in> set (as @ g_ptEventRunning s # y # bs). able x s"
    and sch: "g_bScheduleEnable s" "u \<noteq> 0"
  defines "t \<equiv> g_s64OsTicks s + us_to_ticks s (uint u)"
  shows "\<exists>s'. Djy_EventDelay u s = Some (Block (), s') \<and>
    switched s s' (as @ y # bs) (ins_by (\<lambda>y. due (ecbs s) y \<le> t) (g_ptEventRunning s) ds) Q \<and>
    pri (ecbs s') = pri (ecbs s) \<and> lock_data s s'"
proof -
  let ?e = "g_ptEventRunning s" and ?xs = "as @ y # bs" and ?s = "Int_SaveAsynSignal s"
  have ein: "?e \<in> set (as @ ?e # y # bs)" by simp
  have ed: "?e \<notin> set ds" using kinvD(5) [OF K] ein by blast
  have ev: "valid ?e s" using kinvD(12) [OF K ein] .
  define s0 where "s0 = ?s\<lparr>ecbs := hput (\<lambda>x. x\<lparr>delay_start_tick := g_s64OsTicks s, delay_end_tick := t\<rparr>) ?e (ecbs ?s)\<rparr>"
  have K0: "kinv s0 (as @ ?e # y # bs) ds Q" unfolding s0_def by (rule kinv_times [of ?s]) (use K ed in simp_all)
  have i0: "in_section s s0" unfolding s0_def by (rule in_section_hput) simp_all
  have p0: "pri (ecbs s0) = pri (ecbs s)" "due (ecbs s0) = (due (ecbs s))(?e := t)" "g_ptEventRunning s0 = ?e" "lock_data s s0"
    by (auto simp: s0_def fun_eq_iff pri_def due_def hput_def)
  from kinv_CutReady [OF K0] obtain s1 where s1: "Djy_CutReadyEvent ?e s0 = Some s1" "kinv s1 ?xs ds Q"
    "loose ?e s1 ?xs ds" "kframe s0 s1" "links_only UNIV (ecbs s0) (ecbs s1)" by blast
  define s2 where "s2 = s1\<lparr>ecbs := hput (\<lambda>x. x\<lparr>event_status := CN_STS_EVENT_DELAY\<rparr>) ?e (ecbs s1)\<rparr>"
  have r2: "g_ptEventRunning s2 = ?e" using kframe_fields(1) [OF s1(4)] p0 by (simp add: s2_def)
  have K2: "kinv s2 ?xs ds Q" "loose ?e s2 ?xs ds" using kinv_loose [OF s1(2,3)] by (auto simp: s2_def)
  have k2: "kframe s1 s2" unfolding s2_def by (rule kframe_heap(1)) (simp add: hput_def ecb_core_def no_links_def)
  have d2: "due (ecbs s2) = (due (ecbs s))(?e := t)"
    using links_only_fields(4) [OF s1(5)] p0(2) by (simp add: s2_def hput_keep) (simp add: fun_eq_iff due_def hput_def)
  from kinv_delay_insert [OF K2(1), unfolded r2, OF K2(2)] obtain s3 where s3: "delay_insert s2 = Some s3"
    "kinv s3 ?xs (ins_by (\<lambda>y. ((due (ecbs s))(?e := t)) y \<le> t) ?e ds) Q" "kframe s2 s3" by (auto simp: d2)
  have "ins_by (\<lambda>y. ((due (ecbs s))(?e := t)) y \<le> t) ?e ds = ins_by (\<lambda>y. due (ecbs s) y \<le> t) ?e ds"
    using ed unfolding ins_by_def
    by (intro arg_cong2 [where f = append] arg_cong2 [where f = Cons] takeWhile_cong dropWhile_cong) auto
  note K3 = s3(2) [unfolded this]
  have kf: "kframe s0 s3" using s1(4) k2 s3(3) kframe_trans by blast
  have "able (hd ?xs) s" "able ?e s" using bspec [OF able hd_remove_mid] able by simp_all
  from leave_switched [OF K3 in_section_kframe [OF i0 kf] this] obtain s' where
    s': "Int_RestoreAsynSignal s3 = Some s'" "switched s s' ?xs (ins_by (\<lambda>y. due (ecbs s) y \<le> t) ?e ds) Q"
      "semps s' = semps s3" "mutexes s' = mutexes s3" "pri (ecbs s') = pri (ecbs s3)" by blast
  have "set_delay u ?s = Some s0"
    using ev by (simp add: set_delay_def wr_def s0_def DjyGetSysTick_def t_def us_to_ticks_def)
  moreover have "wr (\<lambda>x. x\<lparr>event_status := CN_STS_EVENT_DELAY\<rparr>) ?e s1 = Some s2"
    using s1(3) by (simp add: wr_def s2_def loose_def)
  ultimately have "Djy_EventDelay u s = Some (Block (), s')"
    using sch s1(1) s3(1) s'(1) by (simp add: Djy_EventDelay_def Djy_QuerySch_def Let_def)
  moreover have "lock_data s s'"
    using p0(4) lock_data_kframe [OF kf] s'(3,4) by (simp add: lock_data_def)
  moreover have "pri (ecbs s') = pri (ecbs s)" using s'(5) kframe_ecb(6) [OF kf] p0(1) by simp
  ultimately show ?thesis using s'(2) by blast
qed

text \<open>\<open>Djy_EventDelay(0)\<close> gives way to the other ready events of the same priority.\<close>

lemma EventDelay_yield:
  assumes K: "kinv s (g_ptEventRunning s # y # bs) ds Q" and eq: "pri (ecbs s) y = pri (ecbs s) (g_ptEventRunning s)"
    and k: "pri (ecbs s) (g_ptEventRunning s) < pri (ecbs s) (last (y # bs))"
    and able: "\<forall>x \<in> set (g_ptEventRunning s # y # bs). able x s" and sch: "g_bScheduleEnable s"
  shows "\<exists>s'. Djy_EventDelay 0 s = Some (Block (), s') \<and>
    switched s s' (prio_insert (pri (ecbs s)) (g_ptEventRunning s) (y # bs)) ds Q \<and>
    pri (ecbs s') = pri (ecbs s) \<and> lock_data s s'"
proof -
  let ?e = "g_ptEventRunning s" and ?xs = "y # bs" and ?s = "Int_SaveAsynSignal s"
  have ein: "?e \<in> set (?e # y # bs)" by simp
  have ed: "?e \<notin> set ds" using kinvD(5) [OF K] ein by blast
  have ev: "valid ?e s" "valid y s" using kinvD(12) [OF K] by simp_all
  define s0 where "s0 = ?s\<lparr>ecbs := hput (\<lambda>x. x\<lparr>delay_start_tick := g_s64OsTicks s\<rparr>) ?e (ecbs ?s)\<rparr>"
  have "kinv (?s\<lparr>ecbs := hput (\<lambda>x. x\<lparr>delay_start_tick := g_s64OsTicks s, delay_end_tick := delay_end_tick x\<rparr>) ?e (ecbs ?s)\<rparr>)
      (?e # ?xs) ds Q"
    by (rule kinv_times [of ?s, where a = "\<lambda>_. g_s64OsTicks s" and b = delay_end_tick]) (use K ed in simp_all)
  then have K0: "kinv s0 ([] @ ?e # y # bs) ds Q" by (simp add: s0_def)
  have i0: "in_section s s0" unfolding s0_def by (rule in_section_hput) simp_all
  have p0: "pri (ecbs s0) = pri (ecbs s)" "g_ptEventRunning s0 = ?e" "lock_data s s0"
    by (auto simp: s0_def fun_eq_iff pri_def hput_def)
  from kinv_CutReady [OF K0] obtain s1 where s1: "Djy_CutReadyEvent ?e s0 = Some s1" "kinv s1 ?xs ds Q"
    "loose ?e s1 ?xs ds" "kframe s0 s1" "links_only UNIV (ecbs s0) (ecbs s1)" by auto
  have st: "sts (ecbs s1) ?e = CN_STS_EVENT_READY"
    using kinvD(7) [OF K0, of ?e] links_only_fields(2) [OF s1(5)] by simp
  have p1: "pri (ecbs s1) = pri (ecbs s)" using kframe_ecb(6) [OF s1(4)] p0 by simp
  have "pri (ecbs s1) ?e < pri (ecbs s1) (last ?xs)" using k by (simp add: p1)
  from kinv_EventReady [OF s1(2,3) st this] obtain s2 where s2: "Djy_EventReady ?e s1 = Some s2"
    "kinv s2 (prio_insert (pri (ecbs s)) ?e ?xs) ds Q" "kframe s1 s2" by (auto simp: p1)
  have kf: "kframe s0 s2" using s1(4) s2(3) kframe_trans by blast
  have "able (hd (prio_insert (pri (ecbs s)) ?e ?xs)) s" by (rule able_hd_insert) (use able in simp)
  from leave_switched [OF s2(2) in_section_kframe [OF i0 kf] this] able obtain s' where
    s': "Int_RestoreAsynSignal s2 = Some s'" "switched s s' (prio_insert (pri (ecbs s)) ?e ?xs) ds Q"
      "semps s' = semps s2" "mutexes s' = mutexes s2" "pri (ecbs s') = pri (ecbs s2)" by auto
  have "nxt (ecbs s) ?e = y" using ready_okD(1) [OF kinvD(1) [OF K]] by (simp add: dring_next)
  then have nx: "ecb_next (ecbs s ?e) = y" by (simp add: nxt_def)
  have "?e \<noteq> y" using ready_okD(8) [OF kinvD(1) [OF K]] by auto
  moreover have "wr (\<lambda>x. x\<lparr>delay_start_tick := g_s64OsTicks s\<rparr>) ?e ?s = Some s0" using ev by (simp add: wr_def s0_def)
  ultimately have "Djy_EventDelay 0 s = Some (Block (), s')"
    using sch s1(1) s2(1) s'(1) ev nx eq
    by (simp add: Djy_EventDelay_def Djy_QuerySch_def Let_def rd_def DjyGetSysTick_def pri_def)
  moreover have "lock_data s s'"
    using p0(3) lock_data_kframe [OF kf] s'(3,4) by (simp add: lock_data_def)
  moreover have "pri (ecbs s') = pri (ecbs s)" using s'(5) kframe_ecb(6) [OF kf] p0(1) by simp
  ultimately show ?thesis using s'(2) by blast
qed

lemma EventDelay_keep:
  assumes K: "kinv s xs ds Q" and r: "g_ptEventRunning s = hd xs" and able: "able (hd xs) s" and sch: "g_bScheduleEnable s"
    and no: "\<And>y bs. xs = hd xs # y # bs \<Longrightarrow> pri (ecbs s) y \<noteq> pri (ecbs s) (hd xs)"
  shows "\<exists>s'. Djy_EventDelay 0 s = Some (Return 0, s') \<and> switched s s' xs ds Q \<and>
    pri (ecbs s') = pri (ecbs s) \<and> lock_data s s'"
proof -
  let ?e = "g_ptEventRunning s" and ?s = "Int_SaveAsynSignal s"
  note R = ready_okD [OF kinvD(1) [OF K]]
  obtain es where xs: "xs = ?e # es" using R(7) r by (cases xs) auto
  have n: "nxt (ecbs s) ?e = hd (es @ [?e])" using R(1) unfolding xs by (rule dring_next)
  have "?e \<in> set xs" "hd (es @ [?e]) \<in> set xs" using xs by (cases es, auto)+
  then have v: "valid ?e s" "valid (hd (es @ [?e])) s" using R(6) by blast+
  have nx: "ecb_next (ecbs s ?e) = hd (es @ [?e])" using n by (simp add: nxt_def)
  have c: "\<not> (prio (ecbs s ?e) = prio (ecbs s (hd (es @ [?e]))) \<and> ?e \<noteq> hd (es @ [?e]))"
  proof (cases es)
    case (Cons y bs)
    have "xs = hd xs # y # bs" unfolding r [symmetric] Cons [symmetric] by (fact xs)
    from no [OF this] show ?thesis unfolding r [symmetric] by (simp add: pri_def Cons)
  qed simp
  have K0: "kinv ?s xs ds Q" using K by simp
  have ar: "able ?e s" unfolding r by (rule able)
  from leave_switched [OF K0 in_section_Save able ar] obtain s' where
    s': "Int_RestoreAsynSignal ?s = Some s'" "switched s s' xs ds Q" "semps s' = semps s"
      "mutexes s' = mutexes s" "pri (ecbs s') = pri (ecbs s)" unfolding Save_fields by blast
  have rd: "rd prio ?e ?s = Some (prio (ecbs s ?e))" "rd ecb_next ?e ?s = Some (hd (es @ [?e]))"
    "rd prio (hd (es @ [?e])) ?s = Some (prio (ecbs s (hd (es @ [?e]))))" using v nx by (simp_all add: rd_def)
  have "Djy_EventDelay 0 s = Some (Return 0, s')"
    unfolding Djy_EventDelay_def Let_def Save_fields(5) using sch rd c s'(1) by (auto simp: Djy_QuerySch_def)
  then show ?thesis using s' by auto
qed

end
