(* ===== verification/MutexOps.thy ===== *)
theory MutexOps
  imports LockOps EventOps
begin

text \<open>
  The effect of \<open>Lock_MutexPend\<close> and \<open>Lock_MutexPost\<close> on the kernel's queues.  Both call
  another operation with a critical section of its own (\<open>Djy_RaiseTempPrio\<close>,
  \<open>Djy_RestorePrio\<close>) inside theirs; a nested section never switches.
\<close>

section \<open>Nested sections\<close>

lemma nested_restore:
  assumes o: "outermost s0" and i: "in_section s0 s" and j: "in_section s s1"
  shows "\<exists>s'. Int_RestoreAsynSignal s1 = Some s' \<and> in_section s0 s' \<and> qview s' = qview s1 \<and>
    semps s' = semps s1 \<and> mutexes s' = mutexes s1 \<and> ecbs s' = ecbs s1"
proof -
  have n: "nest_asyn_signal s = 0" "en_asyn_signal_counter s = 1" "nest_asyn_signal s1 = 0"
    using o i j by (auto simp: outermost_def in_section_def kfix_def Int_SaveAsynSignal_def Int_CutAsynSignal_def Let_def)
  then have c: "en_asyn_signal_counter s1 = 2"
    using j by (simp add: in_section_def Int_SaveAsynSignal_def Int_CutAsynSignal_def Let_def)
  define s' where "s' = s1\<lparr>en_asyn_signal_counter := 1, asyn_signal_open := False, g_bScheduleEnable := False\<rparr>"
  have "Int_RestoreAsynSignal s1 = Some s'"
    using n c by (simp add: Int_RestoreAsynSignal_def Int_CutAsynSignal_def s'_def Let_def)
  moreover have "in_section s0 s'"
    using i j n(2) kfix_trans [of s0 s s1] by (simp add: in_section_def s'_def)
  ultimately show ?thesis by (simp add: s'_def)
qed

text \<open>Raising the priority of the owner of a mutex to that of the running event.\<close>

definition raised :: "('p \<Rightarrow> u32) \<Rightarrow> 'p \<Rightarrow> u32 \<Rightarrow> 'p list \<Rightarrow> 'p list" where
  "raised f e k xs = (if k < f e then prio_insert (f(e := k)) e (remove1 e xs) else xs)"

definition raised_pri :: "('p \<Rightarrow> u32) \<Rightarrow> 'p \<Rightarrow> u32 \<Rightarrow> 'p \<Rightarrow> u32" where
  "raised_pri f e k = (if k < f e then f(e := k) else f)"

lemma RaiseTempPrio_ready:
  assumes K: "kinv s (as @ e # y # bs) ds Q" and e: "e = ecb_at ev" and o: "outermost s0" and i: "in_section s0 s"
    and r: "valid (g_ptEventRunning s) s" and k: "pri (ecbs s) (g_ptEventRunning s) < pri (ecbs s) (last (y # bs))"
  shows "\<exists>s'. Djy_RaiseTempPrio ev s = Some (True, s') \<and> in_section s0 s' \<and> lock_data s s' \<and>
    kinv s' (raised (pri (ecbs s)) e (pri (ecbs s) (g_ptEventRunning s)) (as @ e # y # bs)) ds Q \<and>
    pri (ecbs s') = raised_pri (pri (ecbs s)) e (pri (ecbs s) (g_ptEventRunning s)) \<and>
    sts (ecbs s') = sts (ecbs s)"
proof -
  let ?s = "Int_SaveAsynSignal s" and ?k = "pri (ecbs s) (g_ptEventRunning s)"
  have "e \<in> set (as @ e # y # bs)" by simp
  then have v: "valid e s" and st: "sts (ecbs s) e = CN_STS_EVENT_READY" using kinvD(12,7) [OF K] by auto
  have ev: "unat ev < cfgEventLimit s" using v e by (simp add: ecb_at_def)
  have K0: "kinv ?s (as @ e # y # bs) ds Q" using K by simp
  have ne: "e \<notin> set as" using ready_okD(8) [OF kinvD(1) [OF K]] by simp
  have rm: "remove1 e (as @ e # y # bs) = as @ y # bs" using ne by (simp add: remove1_append)
  have unf: "Djy_RaiseTempPrio ev s = do {
      s \<leftarrow> (if ?k < pri (ecbs s) e then change_prio e ?k ?s else Some ?s);
      s \<leftarrow> Int_RestoreAsynSignal s; Some (True, s) }"
    using ev v r e by (simp add: Djy_RaiseTempPrio_def Let_def rd_def not_le pri_def)
  show ?thesis
  proof (cases "?k < pri (ecbs s) e")
    case True
    from kinv_requeue [OF K0 _ in_section_Save, of ?k] k obtain s1 where s1: "requeue e ?k ?s = Some s1"
      "kinv s1 (prio_insert ((pri (ecbs s))(e := ?k)) e (as @ y # bs)) ds Q"
      "pri (ecbs s1) = (pri (ecbs s))(e := ?k)" "in_section s s1" "lock_data ?s s1" "sts (ecbs s1) = sts (ecbs s)" by auto
    from nested_restore [OF o i s1(4)] obtain s' where s': "Int_RestoreAsynSignal s1 = Some s'" "in_section s0 s'"
      "qview s' = qview s1" "semps s' = semps s1" "mutexes s' = mutexes s1" "ecbs s' = ecbs s1" by blast
    have "change_prio e ?k ?s = Some s1" using s1(1) v st by (simp add: change_prio_def rd_def sts_def)
    moreover have "kinv s' (prio_insert ((pri (ecbs s))(e := ?k)) e (as @ y # bs)) ds Q"
      using kinv_view [OF s'(3)] s1(2) by blast
    moreover have "lock_data s s'" using s1(5) s'(4,5) by (simp add: lock_data_def)
    ultimately show ?thesis using unf True s' s1(3,6) rm by (simp add: raised_def raised_pri_def)
  next
    case False
    from nested_restore [OF o i in_section_Save] obtain s' where s': "Int_RestoreAsynSignal ?s = Some s'" "in_section s0 s'"
      "qview s' = qview ?s" "semps s' = semps ?s" "mutexes s' = mutexes ?s" "ecbs s' = ecbs ?s" by blast
    have "kinv s' (as @ e # y # bs) ds Q" using kinv_view [OF s'(3)] K0 by blast
    then show ?thesis using unf False s' by (auto simp: raised_def raised_pri_def)
  qed
qed

section \<open>Giving back the raised priority\<close>

definition restored :: "('p \<Rightarrow> u32) \<Rightarrow> 'p \<Rightarrow> u32 \<Rightarrow> 'p list \<Rightarrow> 'p list" where
  "restored f e b xs = (if f e = b then xs else prio_insert (f(e := b)) e (remove1 e xs))"

lemma insert_remove1: "e \<in> set xs \<Longrightarrow> insert e (set (remove1 e xs)) = set xs"
  by (induction xs) auto

lemma set_restored [simp]: "e \<in> set xs \<Longrightarrow> set (restored f e b xs) = set xs"
  by (simp add: restored_def insert_remove1)

lemma last_restored:
  assumes "distinct (as @ e # y # bs)" and "b < f (last (y # bs))"
  shows "last (restored f e b (as @ e # y # bs)) = last (y # bs)"
proof -
  have "e \<notin> set as" "last (as @ y # bs) \<noteq> e" using assms(1) by (auto split: if_splits)
  then show ?thesis using last_prio_insert [of "f(e := b)" e "as @ y # bs"] assms(2)
    by (cases bs) (auto simp: restored_def remove1_append)
qed

lemma RestorePrio_nested:
  assumes K: "kinv s (as @ g_ptEventRunning s # y # bs) ds Q" and o: "outermost s0" and i: "in_section s0 s"
    and b: "b = prio_base (ecbs s (g_ptEventRunning s))" and k: "b < pri (ecbs s) (last (y # bs))"
  shows "\<exists>s'. Djy_RestorePrio s = Some (True, s') \<and> in_section s0 s' \<and> lock_data s s' \<and>
    kinv s' (restored (pri (ecbs s)) (g_ptEventRunning s) b (as @ g_ptEventRunning s # y # bs)) ds Q \<and>
    pri (ecbs s') = (pri (ecbs s))(g_ptEventRunning s := b) \<and>
    sts (ecbs s') = sts (ecbs s) \<and> shd (ecbs s') = shd (ecbs s) \<and> wkf (ecbs s') = wkf (ecbs s)"
proof -
  let ?e = "g_ptEventRunning s" and ?s = "Int_SaveAsynSignal s"
  have "?e \<in> set (as @ ?e # y # bs)" by simp
  then have v: "valid ?e s" using kinvD(12) [OF K] by auto
  have K0: "kinv ?s (as @ ?e # y # bs) ds Q" using K by simp
  have ne: "?e \<notin> set as" using ready_okD(8) [OF kinvD(1) [OF K]] by simp
  have rm: "remove1 ?e (as @ ?e # y # bs) = as @ y # bs" using ne by (simp add: remove1_append)
  have unf: "Djy_RestorePrio s = do {
      s \<leftarrow> (if pri (ecbs s) ?e \<noteq> b then requeue ?e b ?s else Some ?s);
      s \<leftarrow> Int_RestoreAsynSignal s; Some (True, s) }"
    using v b by (simp add: Djy_RestorePrio_def Let_def rd_def pri_def)
  show ?thesis
  proof (cases "pri (ecbs s) ?e = b")
    case False
    from kinv_requeue [OF K0 _ in_section_Save, of b] k obtain s1 where s1: "requeue ?e b ?s = Some s1"
      "kinv s1 (prio_insert ((pri (ecbs s))(?e := b)) ?e (as @ y # bs)) ds Q"
      "pri (ecbs s1) = (pri (ecbs s))(?e := b)" "in_section s s1" "lock_data ?s s1"
      "sts (ecbs s1) = sts (ecbs s)" "shd (ecbs s1) = shd (ecbs s)" "wkf (ecbs s1) = wkf (ecbs s)" by auto
    from nested_restore [OF o i s1(4)] obtain s' where s': "Int_RestoreAsynSignal s1 = Some s'" "in_section s0 s'"
      "qview s' = qview s1" "semps s' = semps s1" "mutexes s' = mutexes s1" "ecbs s' = ecbs s1" by blast
    have "kinv s' (prio_insert ((pri (ecbs s))(?e := b)) ?e (as @ y # bs)) ds Q"
      using kinv_view [OF s'(3)] s1(2) by blast
    moreover have "lock_data s s'" using s1(5) s'(4,5) by (simp add: lock_data_def)
    ultimately show ?thesis using unf False s1 s' rm by (simp add: restored_def)
  next
    case True
    from nested_restore [OF o i in_section_Save] obtain s' where s': "Int_RestoreAsynSignal ?s = Some s'" "in_section s0 s'"
      "qview s' = qview ?s" "semps s' = semps ?s" "mutexes s' = mutexes ?s" "ecbs s' = ecbs ?s" by blast
    have "kinv s' (as @ ?e # y # bs) ds Q" using kinv_view [OF s'(3)] K0 by blast
    then show ?thesis using unf True s' by (auto simp: restored_def)
  qed
qed

section \<open>Mutexes\<close>

lemma mutex_head: "kinv s xs ds Q \<Longrightarrow> mutex_sync (mutexes s i) = (if Q (H_Mutex i) = [] then NULL else hd (Q (H_Mutex i)))"
  using kinvD(3) [of s xs ds Q "H_Mutex i"] by (auto simp: hvalid_def hdval_def block_ok_def)

lemma qview_upd_mutex:
  "(\<And>m. mutex_sync (f m) = mutex_sync m) \<Longrightarrow> qview (upd_mutex i f s) = qview s"
  by (auto simp: qview_def upd_mutex_def hdval_def hvalid_def fun_eq_iff split: headp.split)

lemma in_section_upd_mutex [simp]: "in_section s (upd_mutex i f s1) = in_section s s1"
  by (simp add: in_section_def upd_mutex_def)

lemma upd_mutex_fields [simp]:
  "mutexes (upd_mutex i f s) = (mutexes s)(i := f (mutexes s i))" "ecbs (upd_mutex i f s) = ecbs s"
  "semps (upd_mutex i f s) = semps s" "g_ptEventRunning (upd_mutex i f s) = g_ptEventRunning s"
  "cfgEventLimit (upd_mutex i f s) = cfgEventLimit s" "hvalid q (upd_mutex i f s) = hvalid q s"
  by (auto simp: upd_mutex_def hvalid_def split: headp.split)

text \<open>The calls of the owner that hand nothing over, and a request that finds the mutex free.\<close>

lemma MutexPost_keeps:
  assumes K: "kinv s xs ds Q" and n: "nest_asyn_signal s = 0" and own: "owner (mutexes s i) = g_ptEventRunning s"
    and en: "0 < enable (mutexes s i)" and no: "1 < enable (mutexes s i) \<or> Q (H_Mutex i) = []"
    and able: "able (g_ptEventRunning s) s" "able (hd xs) s"
  shows "\<exists>s'. Lock_MutexPost (Some i) s = Some s' \<and> switched s s' xs ds Q \<and> pri (ecbs s') = pri (ecbs s) \<and>
    mutexes s' = (mutexes s)(i := (mutexes s i)\<lparr>enable := enable (mutexes s i) - 1,
      owner := if enable (mutexes s i) = 1 then NULL else g_ptEventRunning s\<rparr>)"
proof -
  let ?m = "mutexes s i"
  define s1 where "s1 = upd_mutex i (\<lambda>m. m\<lparr>enable := enable ?m - 1,
    owner := if enable ?m = 1 then NULL else g_ptEventRunning s\<rparr>) (Int_SaveAsynSignal s)"
  have "mutex_sync ?m = NULL" if "enable ?m = 1" using mutex_head [OF K, of i] no that by simp
  moreover have "s1 = upd_mutex i (\<lambda>m. m\<lparr>enable := enable ?m - 1\<rparr>) (Int_SaveAsynSignal s)" if "enable ?m \<noteq> 1"
    unfolding s1_def upd_mutex_def using that own by (cases ?m) (simp add: fun_upd_def fun_eq_iff)
  ultimately have run: "Lock_MutexPost (Some i) s = Int_RestoreAsynSignal s1"
    using n own en by (auto simp: Lock_MutexPost_def Int_GetRunLevel_def s1_def upd_mutex_def Let_def)
  have "qview s1 = qview s" by (simp add: s1_def qview_upd_mutex)
  then have "kinv s1 xs ds Q" using K kinv_view by blast
  from leave_switched [OF this _ able(2,1)] obtain s' where
    "Int_RestoreAsynSignal s1 = Some s'" "switched s s' xs ds Q" "mutexes s' = mutexes s1"
    "pri (ecbs s') = pri (ecbs s1)" by (auto simp: s1_def)
  then show ?thesis using run by (auto simp: s1_def)
qed

lemma MutexPend_takes:
  assumes K: "kinv s xs ds Q" and n: "nest_asyn_signal s = 0" and free: "enable (mutexes s i) = 0"
    and own: "owner (mutexes s i) \<noteq> g_ptEventRunning s"
    and able: "able (g_ptEventRunning s) s" "able (hd xs) s"
  shows "\<exists>s'. Lock_MutexPend (Some i) timeout s = Some (Return True, s') \<and> switched s s' xs ds Q \<and>
    pri (ecbs s') = pri (ecbs s) \<and>
    mutexes s' = (mutexes s)(i := (mutexes s i)\<lparr>enable := 1, owner := g_ptEventRunning s\<rparr>)"
proof -
  define s1 where "s1 = upd_mutex i (\<lambda>m. m\<lparr>enable := 1, owner := g_ptEventRunning s\<rparr>) (Int_SaveAsynSignal s)"
  have "qview s1 = qview s" by (simp add: s1_def qview_upd_mutex)
  then have "kinv s1 xs ds Q" using K kinv_view by blast
  from leave_switched [OF this _ able(2,1)] obtain s' where s':
    "Int_RestoreAsynSignal s1 = Some s'" "switched s s' xs ds Q" "mutexes s' = mutexes s1"
    "pri (ecbs s') = pri (ecbs s1)" by (auto simp: s1_def)
  have "Lock_MutexPend (Some i) timeout s = Some (Return True, s')"
    using n free own s'(1) by (auto simp: Lock_MutexPend_def Int_GetRunLevel_def s1_def Let_def)
  then show ?thesis using s' by (auto simp: s1_def)
qed

text \<open>
  The hand-over: the first waiter leaves the mutex's queue and the delay queue and becomes the
  owner, the running event gets its own priority back, and the new owner becomes ready.
\<close>

definition handed :: "kst \<Rightarrow> eptr \<Rightarrow> eptr list \<Rightarrow> eptr list" where
  "handed s e xs = (let r = g_ptEventRunning s; b = prio_base (ecbs s r)
     in prio_insert ((pri (ecbs s))(r := b)) e (restored (pri (ecbs s)) r b xs))"

lemma MutexPost_unfold:
  assumes "nest_asyn_signal s = 0" "owner (mutexes s i) = g_ptEventRunning s" "enable (mutexes s i) = 1"
    and "mutex_sync (mutexes s i) = e" "e \<noteq> NULL"
  shows "Lock_MutexPost (Some i) s = do {
    s1 \<leftarrow> take_first (H_Mutex i) e (upd_mutex i (\<lambda>m. m\<lparr>owner := e, enable := 1\<rparr>) (Int_SaveAsynSignal s));
    s2 \<leftarrow> do { s \<leftarrow> resume_timeout e s1; wake_up CN_STS_WAIT_MUTEX e s };
    (_, s3) \<leftarrow> Djy_RestorePrio s2;
    s4 \<leftarrow> Djy_EventReady e s3;
    Int_RestoreAsynSignal s4 }"
proof -
  have "upd_mutex i (\<lambda>m. m\<lparr>owner := e, enable := 1\<rparr>) (upd_mutex i (\<lambda>m. m\<lparr>enable := enable m - 1\<rparr>) (Int_SaveAsynSignal s))
    = upd_mutex i (\<lambda>m. m\<lparr>owner := e, enable := 1\<rparr>) (Int_SaveAsynSignal s)"
    by (simp add: upd_mutex_def)
  then show ?thesis using assms by (simp add: Lock_MutexPost_def Int_GetRunLevel_def Let_def split_def)
qed

lemma MutexPost_hands:
  assumes K: "kinv s (g_ptEventRunning s # y # bs) ds Q" and Q: "Q (H_Mutex i) = e # cs" and o: "outermost s"
    and own: "owner (mutexes s i) = g_ptEventRunning s" "enable (mutexes s i) = 1"
    and k: "pri (ecbs s) e < pri (ecbs s) (last (y # bs))"
      "prio_base (ecbs s (g_ptEventRunning s)) < pri (ecbs s) (last (y # bs))"
    and able: "\<forall>x \<in> insert e (set (g_ptEventRunning s # y # bs)). able x s"
  shows "\<exists>s'. Lock_MutexPost (Some i) s = Some s' \<and>
    switched s s' (handed s e (g_ptEventRunning s # y # bs)) (remove1 e ds) (Q(H_Mutex i := cs)) \<and>
    owner (mutexes s' i) = e \<and> enable (mutexes s' i) = 1 \<and> wakeup_from (ecbs s' e) = CN_STS_WAIT_MUTEX \<and>
    pri (ecbs s') = (pri (ecbs s))(g_ptEventRunning s := prio_base (ecbs s (g_ptEventRunning s)))"
proof -
  let ?r = "g_ptEventRunning s" and ?f = "pri (ecbs s)" and ?Q = "Q(H_Mutex i := cs)"
  let ?b = "prio_base (ecbs s ?r)" and ?xs = "[] @ ?r # y # bs"
  have eq: "mutex_sync (mutexes s i) = e" using mutex_head [OF K, of i] Q by simp
  have ein: "e \<in> set (Q (H_Mutex i))" using Q by simp
  have eN: "e \<noteq> NULL" using block_head_valid [OF K Q] by (auto dest: vptrD)
  have ex: "e \<notin> set ?xs" using ready_not_blocked [OF K] ein by auto
  define s0 where "s0 = upd_mutex i (\<lambda>m. m\<lparr>owner := e, enable := 1\<rparr>) (Int_SaveAsynSignal s)"
  have "qview s0 = qview s" by (simp add: s0_def qview_upd_mutex)
  then have K0: "kinv s0 ?xs ds Q" using K kinv_view by (metis append_Nil)
  have f0: "ecbs s0 = ecbs s" "g_ptEventRunning s0 = ?r" "in_section s s0" "hvalid (H_Mutex i) s0"
    "cfgEventLimit s0 = cfgEventLimit s" by (simp_all add: s0_def hvalid_def)
  from kinv_take_first [OF K0 f0(4) Q] obtain s1 where
    s1: "take_first (H_Mutex i) e s0 = Some s1" "kinv s1 ?xs ds ?Q" "kframe s0 s1"
      "shd (ecbs s1) e = NULLH" "sts (ecbs s1) = sts (ecbs s)" by (auto simp: f0)
  have v1: "valid e s1" using kinvD(10) [OF K ein] kframe_fields [OF s1(3)] by (simp add: f0)
  have T: "has_flag (sts (ecbs s1) e) CN_STS_SYNC_TIMEOUT \<longleftrightarrow> e \<in> set ds" using kinvD(9) [OF K ein] s1(5) by simp
  from kinv_wake_loose [OF s1(2) v1 ex s1(4) T, of CN_STS_WAIT_MUTEX] obtain s2 where
    s2: "(do { s \<leftarrow> resume_timeout e s1; wake_up CN_STS_WAIT_MUTEX e s }) = Some s2" "kinv s2 ?xs (remove1 e ds) ?Q"
      "loose e s2 ?xs (remove1 e ds)" "sts (ecbs s2) e = CN_STS_EVENT_READY" "wakeup_from (ecbs s2 e) = CN_STS_WAIT_MUTEX"
      "kframe s1 s2" by blast
  have F: "kframe s0 s2" using s1(3) s2(6) by (rule kframe_trans)
  have f2: "pri (ecbs s2) = ?f" "g_ptEventRunning s2 = ?r" "prio_base (ecbs s2 ?r) = ?b"
    using kframe_fields [OF F] kframe_ecb [OF F] by (simp_all add: f0)
  from RestorePrio_nested [of s2 "[]" y bs, unfolded f2, OF s2(2) o in_section_kframe [OF f0(3) F] refl k(2)] obtain s3 where
    s3: "Djy_RestorePrio s2 = Some (True, s3)" "in_section s s3" "lock_data s2 s3"
      "kinv s3 (restored ?f ?r ?b ?xs) (remove1 e ds) ?Q" "pri (ecbs s3) = ?f(?r := ?b)"
      "sts (ecbs s3) = sts (ecbs s2)" "shd (ecbs s3) = shd (ecbs s2)" "wkf (ecbs s3) = wkf (ecbs s2)" by blast
  have d: "distinct ?xs" using ready_okD(8) [OF kinvD(1) [OF K]] by simp
  have lr: "last (restored ?f ?r ?b ?xs) = last (y # bs)"
    by (rule last_restored [OF d]) (use k(2) in simp)
  have rx: "set (restored ?f ?r ?b ?xs) = set ?xs" by (rule set_restored) simp
  have "loose e s3 (restored ?f ?r ?b ?xs) (remove1 e ds)"
    using s2(3) s3(2) f0(3) kframe_fields [OF F] unfolding loose_def rx by (simp add: s3(7) in_section_def kfix_def)
  moreover have "e \<noteq> ?r" "last (y # bs) \<noteq> ?r" using ex d last_in_set [of "y # bs"] by auto
  then have "pri (ecbs s3) e < pri (ecbs s3) (last (restored ?f ?r ?b ?xs))"
    using k(1) lr by (simp add: s3(5))
  ultimately obtain s4 where s4: "Djy_EventReady e s3 = Some s4"
    "kinv s4 (prio_insert (?f(?r := ?b)) e (restored ?f ?r ?b ?xs)) (remove1 e ds) ?Q" "kframe s3 s4"
    "links_only UNIV (ecbs s3) (ecbs s4)"
    using kinv_EventReady [OF s3(4), of e] s2(4) by (auto simp: s3(5,6))
  have "\<forall>x \<in> insert e (set (restored ?f ?r ?b ?xs)). able x s" using able unfolding rx by simp
  note ab = able_hd_insert [OF this]
  have "able ?r s" using able by simp
  from leave_switched [OF s4(2) in_section_kframe [OF s3(2) s4(3)] ab this] obtain s' where
    s': "Int_RestoreAsynSignal s4 = Some s'" "switched s s' (handed s e ?xs) (remove1 e ds) ?Q"
      "mutexes s' = mutexes s4" "wkf (ecbs s') = wkf (ecbs s4)" "pri (ecbs s') = pri (ecbs s4)"
    unfolding handed_def Let_def by blast
  obtain t where t: "resume_timeout e s1 = Some t" "wake_up CN_STS_WAIT_MUTEX e t = Some s2"
    using s2(1) by (auto split: bind_splits)
  have "Lock_MutexPost (Some i) s = Some s'"
    using MutexPost_unfold [OF _ own eq eN] o s1(1) t s3(1) s4(1) s'(1)
    by (simp add: s0_def [symmetric] outermost_def)
  moreover have "wkf (ecbs s') e = CN_STS_WAIT_MUTEX"
    using s'(4) s3(8) s2(5) links_only_data(1) [OF s4(4), of e] by (simp add: wkf_def fun_eq_iff)
  moreover have "owner (mutexes s' i) = e \<and> enable (mutexes s' i) = 1"
    using s'(3) s3(3) kframe_locks [OF s4(3)] kframe_locks [OF F] by (simp add: lock_data_def s0_def)
  moreover have "pri (ecbs s') = ?f(?r := ?b)" using s'(5) kframe_ecb(6) [OF s4(3)] s3(5) by simp
  ultimately show ?thesis using s'(2) by (auto simp: wkf_def)
qed

lemma set_raised [simp]: "e \<in> set xs \<Longrightarrow> set (raised f e k xs) = set xs"
  by (simp add: raised_def insert_remove1)

text \<open>
  A wait for a mutex.  The running event goes into the mutex's queue, sorted by priority, and the
  owner, when it is ready, runs with the priority of the event that waits, if that is higher.
\<close>

lemma MutexPend_block:
  fixes i :: nat and timeout :: u32
  assumes K: "kinv s (g_ptEventRunning s # ys) ds Q" and o: "outermost s"
    and ys: "ys = as @ own # z # cs" and own: "owner (mutexes s i) = own" "ecb_at (event_id (ecbs s own)) = own"
    and en: "0 < enable (mutexes s i)" and k: "pri (ecbs s) (g_ptEventRunning s) < pri (ecbs s) (last (z # cs))"
    and able: "\<forall>x \<in> set (g_ptEventRunning s # ys). able x s" and sch: "g_bScheduleEnable s" "timeout \<noteq> 0"
  defines "t \<equiv> g_s64OsTicks s + us_to_ticks s (uint timeout)"
  defines "ds' \<equiv> if timeout = CN_TIMEOUT_FOREVER then ds else ins_by (\<lambda>y. due (ecbs s) y \<le> t) (g_ptEventRunning s) ds"
  defines "Q' \<equiv> Q(H_Mutex i := ins_by (queue_before CN_BLOCK_PRIO (ecbs s) (g_ptEventRunning s)) (g_ptEventRunning s) (Q (H_Mutex i)))"
  shows "\<exists>s'. Lock_MutexPend (Some i) timeout s = Some (Block (), s') \<and>
    switched s s' (raised (pri (ecbs s)) own (pri (ecbs s) (g_ptEventRunning s)) ys) ds' Q' \<and>
    pri (ecbs s') = raised_pri (pri (ecbs s)) own (pri (ecbs s) (g_ptEventRunning s)) \<and>
    owner (mutexes s' i) = own \<and> enable (mutexes s' i) = enable (mutexes s i)"
proof -
  let ?r = "g_ptEventRunning s" and ?f = "pri (ecbs s)"
  have flag: "\<not> has_flag CN_STS_WAIT_MUTEX CN_STS_SYNC_TIMEOUT"
    "has_flag (CN_STS_WAIT_MUTEX + CN_STS_SYNC_TIMEOUT) CN_STS_SYNC_TIMEOUT" by (simp_all add: has_flag_def)
  have "ys \<noteq> []" using ys by simp
  then obtain y bs where yb: "ys = y # bs" by (meson neq_Nil_conv)
  have K0: "kinv s ([] @ ?r # y # bs) ds Q" using K yb by simp
  from block_and_leave [OF K0 _ flag t_def [THEN meta_eq_to_obj_eq], of "H_Mutex i" CN_BLOCK_PRIO]
  obtain s1 where s1: "Djy_AddRunningToBlock (H_Mutex i) CN_BLOCK_PRIO timeout CN_STS_WAIT_MUTEX (Int_SaveAsynSignal s) = Some s1"
    "kframe (Int_SaveAsynSignal s) s1" "in_section s s1" "kinv s1 (y # bs) ds' Q'"
    by (auto simp: hvalid_def ds'_def Q'_def)
  note F = kframe_fields [OF s1(2)] kframe_ecb [OF s1(2)] kframe_locks [OF s1(2)]
  have f1: "pri (ecbs s1) = ?f" "g_ptEventRunning s1 = ?r" "owner (mutexes s1 i) = own"
    "event_id (ecbs s1 own) = event_id (ecbs s own)" "enable (mutexes s1 i) = enable (mutexes s i)"
    using F own by simp_all
  have K1: "kinv s1 (as @ own # z # cs) ds' Q'" using s1(4) ys yb by simp
  have r1: "valid (g_ptEventRunning s1) s1" using kinvD(12) [OF K, of ?r] F by simp
  have own': "own = ecb_at (event_id (ecbs s own))" using own(2) by simp
  have k1: "pri (ecbs s1) (g_ptEventRunning s1) < pri (ecbs s1) (last (z # cs))" unfolding f1 by (rule k)
  from RaiseTempPrio_ready [OF K1 own' o s1(3) r1 k1, unfolded f1] obtain s2 where
    s2: "Djy_RaiseTempPrio (event_id (ecbs s own)) s1 = Some (True, s2)" "in_section s s2" "lock_data s1 s2"
      "kinv s2 (raised ?f own (?f ?r) (as @ own # z # cs)) ds' Q'" "pri (ecbs s2) = raised_pri ?f own (?f ?r)" by blast
  note K2 = s2(4) [folded ys]
  have "set (raised ?f own (?f ?r) ys) = set ys" by (rule set_raised) (simp add: ys)
  moreover have "raised ?f own (?f ?r) ys \<noteq> []" using ready_okD(7) [OF kinvD(1) [OF K2]] .
  ultimately have "hd (raised ?f own (?f ?r) ys) \<in> set ys" using hd_in_set by metis
  then have "able (hd (raised ?f own (?f ?r) ys)) s" "able ?r s" using able by simp_all
  from leave_switched [OF K2 s2(2) this] obtain s' where
    s': "Int_RestoreAsynSignal s2 = Some s'" "switched s s' (raised ?f own (?f ?r) ys) ds' Q'"
      "mutexes s' = mutexes s2" "pri (ecbs s') = pri (ecbs s2)" by blast
  have "own \<in> set ys" using ys by simp
  then have ne: "?r \<noteq> own" using ready_okD(8) [OF kinvD(1) [OF K]] by auto
  have "valid own s1" using kinvD(12) [OF K1, of own] by simp
  then have "rd event_id (owner (mutexes s1 i)) s1 = Some (event_id (ecbs s own))" by (simp add: rd_def f1)
  then have "Lock_MutexPend (Some i) timeout s = Some (Block (), s')"
    using o ne own(1) en sch s1(1) s2(1) s'(1)
    by (simp add: Lock_MutexPend_def Int_GetRunLevel_def outermost_def Djy_QuerySch_def Let_def)
  then show ?thesis using s' s2 f1 by (auto simp: lock_data_def)
qed

section \<open>Events whose status a step leaves alone\<close>

text \<open>A step keeps the running event and the status of every event but \<open>r\<close>.\<close>

definition keeps :: "eptr \<Rightarrow> kst \<Rightarrow> kst \<Rightarrow> bool" where
  "keeps r s t \<longleftrightarrow> (\<forall>x. x \<noteq> r \<longrightarrow> sts (ecbs t) x = sts (ecbs s) x) \<and> g_ptEventRunning t = g_ptEventRunning s"

definition leads :: "eptr \<Rightarrow> kst \<Rightarrow> kst option \<Rightarrow> bool" where
  "leads r s m \<longleftrightarrow> (\<forall>t. m = Some t \<longrightarrow> keeps r s t)"

named_theorems keeping "steps that keep the status of other events"

lemma keeps_refl [simp, keeping]: "keeps r s s"
  by (simp add: keeps_def)

lemma keeps_fields [simp]:
  "keeps r s (t\<lparr>g_ptEventReady := v\<rparr>) = keeps r s t" "keeps r s (t\<lparr>g_ptEventDelay := v\<rparr>) = keeps r s t"
  by (simp_all add: keeps_def)

lemma keeps_run: "keeps r s t \<Longrightarrow> g_ptEventRunning t = g_ptEventRunning s"
  by (simp add: keeps_def)

lemma leads_Some [keeping]: "keeps r s t \<Longrightarrow> leads r s (Some t)"
  by (simp add: leads_def)

lemma leads_None [keeping]: "leads r s None"
  by (simp add: leads_def)

lemma leads_if [keeping]: "leads r s a \<Longrightarrow> leads r s b \<Longrightarrow> leads r s (if c then a else b)"
  by simp

lemma leads_wr: "keeps r s t \<Longrightarrow> (\<And>e. p = r \<or> event_status (f e) = event_status e) \<Longrightarrow> leads r s (wr f p t)"
  by (auto simp: leads_def keeps_def wr_def sts_def hput_def)

lemma leads_read: "(\<And>v. leads r s (g v)) \<Longrightarrow> leads r s (Option.bind m g)"
  by (cases m) (simp_all add: leads_def)

lemma leads_state [keeping]:
  "leads r s m \<Longrightarrow> (\<And>t. keeps r s t \<Longrightarrow> leads r s (g t)) \<Longrightarrow> leads r s (Option.bind m g)"
  by (cases m) (simp_all add: leads_def)

lemma leads_links [keeping]:
  assumes "keeps r s t"
  shows "leads r s (set_next p v t)" "leads r s (set_previous p v t)"
    "leads r s (set_multi_next p v t)" "leads r s (set_multi_previous p v t)" "leads r s (wr_head q v t)"
proof -
  show "leads r s (set_next p v t)" "leads r s (set_previous p v t)"
    "leads r s (set_multi_next p v t)" "leads r s (set_multi_previous p v t)"
    unfolding set_next_def set_previous_def set_multi_next_def set_multi_previous_def
    by (rule leads_wr [OF assms], simp)+
  have "leads r s (wr (\<lambda>e. e\<lparr>ecb_sync := v\<rparr>) (Ecb i) t)" for i by (rule leads_wr [OF assms]) simp
  then show "leads r s (wr_head q v t)"
    using assms by (cases q) (auto simp: wr_head_def wrt_def leads_def keeps_def)
qed

lemma leads_queues [keeping]:
  assumes "keeps r s t"
  shows "leads r s (cut_main e t)" "leads r s (ins_main e y t)" "leads r s (ins_multi e y t)" "leads r s (self_multi e t)"
    "leads r s (clear_main e t)" "leads r s (self_main e t)" "leads r s (swap_multi e y t)" "leads r s (drop_multi e y t)"
  unfolding cut_main_def ins_main_def ins_multi_def self_multi_def clear_main_def self_main_def swap_multi_def drop_multi_def Let_def
  by (intro keeping leads_read assms | assumption)+

lemma leads_CutReadyEvent [keeping]: "keeps r s t \<Longrightarrow> leads r s (Djy_CutReadyEvent e t)"
  unfolding Djy_CutReadyEvent_def Let_def by (intro keeping leads_read | assumption | simp)+

lemma leads_block_queue [keeping]:
  assumes "keeps r s t" and "r = g_ptEventRunning s"
  shows "leads r s (block_queue q k t)"
  using assms keeps_run [OF assms(1)] unfolding block_queue_def Let_def
  by (intro keeping leads_read leads_wr | assumption | simp)+

lemma leads_block_status [keeping]:
  assumes "keeps r s t" and "r = g_ptEventRunning s"
  shows "leads r s (block_status timeout st t)"
  using assms keeps_run [OF assms(1)]
  unfolding block_status_def Djy_AddToDelay_def set_delay_def delay_insert_def Let_def
  by (intro keeping leads_read leads_wr | assumption | simp)+

lemma AddRunningToBlock_keeps:
  assumes "Djy_AddRunningToBlock q k timeout st s = Some t" and "x \<noteq> g_ptEventRunning s"
  shows "sts (ecbs t) x = sts (ecbs s) x"
proof -
  have "leads (g_ptEventRunning s) s (Djy_AddRunningToBlock q k timeout st s)"
    unfolding Djy_AddRunningToBlock_def Let_def by (intro keeping leads_read leads_wr | assumption | simp)+
  then show ?thesis using assms by (simp add: leads_def keeps_def)
qed

section \<open>An owner that is blocked itself\<close>

text \<open>
  An owner that is not ready and whose status lacks the mark of a sorted queue keeps its priority.
\<close>

definition held_back :: "kst \<Rightarrow> eptr \<Rightarrow> bool" where
  "held_back s e \<longleftrightarrow> valid e s \<and> sts (ecbs s) e \<noteq> CN_STS_EVENT_READY \<and> \<not> has_flag (sts (ecbs s) e) CN_BLOCK_PRIO_SORT"

lemma RaiseTempPrio_held_back:
  assumes K: "kinv s xs ds Q" and e: "e = ecb_at ev" and h: "held_back s e" and o: "outermost s0" and i: "in_section s0 s"
    and r: "valid (g_ptEventRunning s) s"
  shows "\<exists>s'. Djy_RaiseTempPrio ev s = Some (True, s') \<and> in_section s0 s' \<and> lock_data s s' \<and> kinv s' xs ds Q \<and> ecbs s' = ecbs s"
proof -
  let ?s = "Int_SaveAsynSignal s" and ?k = "pri (ecbs s) (g_ptEventRunning s)"
  have v: "valid e s" and st: "sts (ecbs s) e \<noteq> CN_STS_EVENT_READY" "\<not> has_flag (sts (ecbs s) e) CN_BLOCK_PRIO_SORT"
    using h by (simp_all add: held_back_def)
  have ev: "unat ev < cfgEventLimit s" using v e by (simp add: ecb_at_def)
  have "change_prio e ?k ?s = Some ?s" using v st by (simp add: change_prio_def rd_def sts_def)
  then have unf: "Djy_RaiseTempPrio ev s = do { s \<leftarrow> Int_RestoreAsynSignal ?s; Some (True, s) }"
    using ev v r e by (simp add: Djy_RaiseTempPrio_def Let_def rd_def not_le pri_def)
  from nested_restore [OF o i in_section_Save] obtain s' where s': "Int_RestoreAsynSignal ?s = Some s'" "in_section s0 s'"
    "qview s' = qview ?s" "semps s' = semps ?s" "mutexes s' = mutexes ?s" "ecbs s' = ecbs ?s" by blast
  have "kinv ?s xs ds Q" using K by simp
  then have "kinv s' xs ds Q" using kinv_view [OF s'(3)] by blast
  then show ?thesis using unf s' by auto
qed

lemma MutexPend_block_held_back:
  fixes i :: nat and timeout :: u32
  assumes K: "kinv s (g_ptEventRunning s # y # bs) ds Q" and o: "outermost s"
    and own: "owner (mutexes s i) = own" "ecb_at (event_id (ecbs s own)) = own" "held_back s own" "own \<noteq> g_ptEventRunning s"
    and en: "0 < enable (mutexes s i)"
    and able: "\<forall>x \<in> set (g_ptEventRunning s # y # bs). able x s" and sch: "g_bScheduleEnable s" "timeout \<noteq> 0"
  defines "t \<equiv> g_s64OsTicks s + us_to_ticks s (uint timeout)"
  defines "ds' \<equiv> if timeout = CN_TIMEOUT_FOREVER then ds else ins_by (\<lambda>y. due (ecbs s) y \<le> t) (g_ptEventRunning s) ds"
  defines "Q' \<equiv> Q(H_Mutex i := ins_by (queue_before CN_BLOCK_PRIO (ecbs s) (g_ptEventRunning s)) (g_ptEventRunning s) (Q (H_Mutex i)))"
  shows "\<exists>s'. Lock_MutexPend (Some i) timeout s = Some (Block (), s') \<and>
    switched s s' (y # bs) ds' Q' \<and> pri (ecbs s') = pri (ecbs s) \<and>
    owner (mutexes s' i) = own \<and> enable (mutexes s' i) = enable (mutexes s i)"
proof -
  let ?r = "g_ptEventRunning s" and ?f = "pri (ecbs s)"
  have flag: "\<not> has_flag CN_STS_WAIT_MUTEX CN_STS_SYNC_TIMEOUT"
    "has_flag (CN_STS_WAIT_MUTEX + CN_STS_SYNC_TIMEOUT) CN_STS_SYNC_TIMEOUT" by (simp_all add: has_flag_def)
  have K0: "kinv s ([] @ ?r # y # bs) ds Q" using K by simp
  from block_and_leave [OF K0 _ flag t_def [THEN meta_eq_to_obj_eq], of "H_Mutex i" CN_BLOCK_PRIO]
  obtain s1 where s1: "Djy_AddRunningToBlock (H_Mutex i) CN_BLOCK_PRIO timeout CN_STS_WAIT_MUTEX (Int_SaveAsynSignal s) = Some s1"
    "kframe (Int_SaveAsynSignal s) s1" "in_section s s1" "kinv s1 (y # bs) ds' Q'"
    by (auto simp: hvalid_def ds'_def Q'_def)
  note F = kframe_fields [OF s1(2)] kframe_ecb [OF s1(2)] kframe_locks [OF s1(2)]
  have f1: "pri (ecbs s1) = ?f" "owner (mutexes s1 i) = own"
    "event_id (ecbs s1 own) = event_id (ecbs s own)" "enable (mutexes s1 i) = enable (mutexes s i)"
    using F own by simp_all
  have "sts (ecbs s1) own = sts (ecbs s) own"
    using AddRunningToBlock_keeps [OF s1(1), of own] own(4) by simp
  then have h1: "held_back s1 own" using own(3) F by (simp add: held_back_def)
  have r1: "valid (g_ptEventRunning s1) s1" using kinvD(12) [OF K, of ?r] F by simp
  from RaiseTempPrio_held_back [OF s1(4) own(2) [symmetric] h1 o s1(3) r1] obtain s2 where
    s2: "Djy_RaiseTempPrio (event_id (ecbs s own)) s1 = Some (True, s2)" "in_section s s2" "lock_data s1 s2"
      "kinv s2 (y # bs) ds' Q'" "ecbs s2 = ecbs s1" by blast
  have "able (hd (y # bs)) s" "able ?r s" using able by simp_all
  from leave_switched [OF s2(4,2) this] obtain s' where
    s': "Int_RestoreAsynSignal s2 = Some s'" "switched s s' (y # bs) ds' Q'" "mutexes s' = mutexes s2" "pri (ecbs s') = pri (ecbs s2)"
    by blast
  have "rd event_id (owner (mutexes s1 i)) s1 = Some (event_id (ecbs s own))"
    using h1 by (simp add: rd_def f1 held_back_def)
  then have "Lock_MutexPend (Some i) timeout s = Some (Block (), s')"
    using o own(1,4) en sch s1(1) s2(1) s'(1)
    by (simp add: Lock_MutexPend_def Int_GetRunLevel_def outermost_def Djy_QuerySch_def Let_def)
  then show ?thesis using s' s2 f1 by (auto simp: lock_data_def)
qed

end
