(* ===== verification/System.thy ===== *)
theory System
  imports LockOps EventOps MutexOps IntProps
begin

text \<open>
  The kernel as a transition system: calls of the running event and tick interrupts, in any
  order.  The invariant \<open>sys\<close> adds to the queues what holds between two critical sections: the
  scheduling lock is open, the processor belongs to the head of the ready queue, the service
  event \<open>idle\<close> is last in it and has the lowest priority, and every event has a thread and a
  type.  The service event never waits and its priority is never changed; the guards of the
  steps say so.  A mutex is taken while its owner is ready, and given back by an owner whose own
  priority is higher than the service event's.
\<close>

definition everyone :: "eptr list \<Rightarrow> eptr list \<Rightarrow> (headp \<Rightarrow> eptr list) \<Rightarrow> eptr set" where
  "everyone xs ds Q = set xs \<union> set ds \<union> (\<Union>q. set (Q q))"

definition sys :: "eptr \<Rightarrow> kst \<Rightarrow> eptr list \<Rightarrow> eptr list \<Rightarrow> (headp \<Rightarrow> eptr list) \<Rightarrow> bool" where
  "sys idle s xs ds Q \<longleftrightarrow> kinv s xs ds Q \<and> outermost s \<and> g_bScheduleEnable s \<and>
     g_ptEventRunning s = hd xs \<and> last xs = idle \<and>
     (\<forall>x \<in> everyone xs ds Q. able x s) \<and>
     (\<forall>x \<in> everyone xs ds Q. x \<noteq> idle \<longrightarrow> pri (ecbs s) x < pri (ecbs s) idle)"

lemma sysD:
  assumes "sys idle s xs ds Q"
  shows "kinv s xs ds Q" and "outermost s" and "g_bScheduleEnable s" and "g_ptEventRunning s = hd xs"
    and "last xs = idle" and "xs \<noteq> []" and "able (hd xs) s" and "able (g_ptEventRunning s) s"
    and "x \<in> set xs \<Longrightarrow> able x s" and "x \<in> set ds \<Longrightarrow> able x s" and "x \<in> set (Q q) \<Longrightarrow> able x s"
    and "x \<in> set ds \<Longrightarrow> pri (ecbs s) x < pri (ecbs s) (last xs)"
    and "x \<in> set (Q q) \<Longrightarrow> pri (ecbs s) x < pri (ecbs s) (last xs)"
    and "x \<in> set xs \<Longrightarrow> x \<noteq> idle \<Longrightarrow> pri (ecbs s) x < pri (ecbs s) (last xs)"
proof -
  have K: "kinv s xs ds Q" and o: "outermost s" "g_bScheduleEnable s" "g_ptEventRunning s = hd xs" "last xs = idle"
    and e: "\<And>x. x \<in> everyone xs ds Q \<Longrightarrow> able x s"
    and l: "\<And>x. x \<in> everyone xs ds Q \<Longrightarrow> x \<noteq> idle \<Longrightarrow> pri (ecbs s) x < pri (ecbs s) (last xs)"
    using assms by (auto simp: sys_def)
  note xs = ready_okD(7) [OF kinvD(1) [OF K]]
  have i: "idle \<in> set xs" using o(4) xs by auto
  show "kinv s xs ds Q" "outermost s" "g_bScheduleEnable s" "g_ptEventRunning s = hd xs" "last xs = idle" "xs \<noteq> []"
    using K o xs by simp_all
  show "able (hd xs) s" "able (g_ptEventRunning s) s" using e xs o(3) by (auto simp: everyone_def)
  show "x \<in> set xs \<Longrightarrow> able x s" "x \<in> set ds \<Longrightarrow> able x s" "x \<in> set (Q q) \<Longrightarrow> able x s"
    using e by (auto simp: everyone_def)
  show "x \<in> set ds \<Longrightarrow> pri (ecbs s) x < pri (ecbs s) (last xs)"
    by (rule l) (use i kinvD(5) [OF K] in \<open>auto simp: everyone_def\<close>)
  show "x \<in> set (Q q) \<Longrightarrow> pri (ecbs s) x < pri (ecbs s) (last xs)"
    by (rule l) (use i ready_not_blocked [OF K] in \<open>auto simp: everyone_def\<close>)
  show "x \<in> set xs \<Longrightarrow> x \<noteq> idle \<Longrightarrow> pri (ecbs s) x < pri (ecbs s) (last xs)"
    by (rule l) (auto simp: everyone_def)
qed

text \<open>The invariant after a critical section.\<close>

lemma sys_switched:
  assumes S: "sys idle s xs ds Q" and w: "switched s s' xs' ds' Q'"
    and sub: "everyone xs' ds' Q' \<subseteq> everyone xs ds Q" and l: "last xs' = idle"
    and p: "\<And>x. x \<in> everyone xs' ds' Q' \<Longrightarrow> x \<noteq> idle \<Longrightarrow> pri (ecbs s') x < pri (ecbs s') idle"
  shows "sys idle s' xs' ds' Q'"
proof -
  have "able x s'" if "x \<in> everyone xs' ds' Q'" for x
    using S that sub w kfix_able by (auto simp: sys_def switched_def)
  then show ?thesis using S w l p by (auto simp: sys_def switched_def)
qed

lemma sys_pri:
  "sys idle s xs ds Q \<Longrightarrow> everyone xs' ds' Q' \<subseteq> everyone xs ds Q \<Longrightarrow> pri h = pri (ecbs s) \<Longrightarrow>
   x \<in> everyone xs' ds' Q' \<Longrightarrow> x \<noteq> idle \<Longrightarrow> pri h x < pri h idle"
  by (auto simp: sys_def)

text \<open>The running event, when it is not the service event, has another one behind it.\<close>

lemma sys_split:
  assumes S: "sys idle s xs ds Q" and r: "g_ptEventRunning s \<noteq> idle"
  obtains y bs where "xs = [] @ g_ptEventRunning s # y # bs" and "last (y # bs) = idle"
proof -
  note D = sysD [OF S]
  obtain x ys where xs: "xs = x # ys" using D(6) by (cases xs) auto
  have "ys \<noteq> []" using xs r D(4,5) by auto
  then obtain y bs where "ys = y # bs" by (cases ys) auto
  then show ?thesis using that [of y bs] xs D(4,5) by simp
qed

section \<open>Each operation keeps the invariant\<close>

definition sys_op :: "eptr \<Rightarrow> ('a \<times> kst) option \<Rightarrow> bool" where
  "sys_op idle r \<longleftrightarrow> (\<exists>a s' xs ds Q. r = Some (a, s') \<and> sys idle s' xs ds Q)"

lemma sys_opI: "sys idle s' xs ds Q \<Longrightarrow> r = Some (a, s') \<Longrightarrow> sys_op idle r"
  by (auto simp: sys_op_def)

lemma everyone_wake: "Q q = e # bs \<Longrightarrow> everyone (prio_insert f e xs) (remove1 e ds) (Q(q := bs)) \<subseteq> everyone xs ds Q"
proof -
  assume Q: "Q q = e # bs"
  then have "set ((Q(q := bs)) r) \<subseteq> set (Q r)" for r by auto
  moreover have "e \<in> set (Q q)" using Q by simp
  ultimately show ?thesis using set_remove1_subset [of e ds] unfolding everyone_def set_prio_insert by blast
qed

lemma everyone_sub:
  assumes "set xs' \<subseteq> set ds \<union> set xs" and "set ds' \<subseteq> set ds" and "\<And>q. set (Q' q) \<subseteq> set (Q q)"
  shows "everyone xs' ds' Q' \<subseteq> everyone xs ds Q"
  using assms unfolding everyone_def by blast

lemma everyone_block: "everyone (as @ bs) (if c then ds else ins_by P e ds) (Q(q := ins_by R e (Q q)))
    \<subseteq> everyone (as @ e # bs) ds Q"
  by (fastforce simp: everyone_def split: if_splits)

lemma sys_SempPost:
  assumes S: "sys idle s xs ds Q"
  shows "sys_op idle (map_option (Pair ()) (Lock_SempPost (Some i) s))"
proof (cases "Q (H_Semp i)")
  case Nil
  note D = sysD [OF S]
  from SempPost_count [OF D(1) Nil D(8,7)] obtain s' where
    "Lock_SempPost (Some i) s = Some s'" "switched s s' xs ds Q" "pri (ecbs s') = pri (ecbs s)" by blast
  moreover from this have "sys idle s' xs ds Q" using sys_switched [OF S] sys_pri [OF S] D(5) by blast
  ultimately show ?thesis by (auto simp: sys_op_def)
next
  case (Cons e bs)
  note D = sysD [OF S]
  let ?xs = "prio_insert (pri (ecbs s)) e xs"
  have e: "e \<in> set (Q (H_Semp i))" using Cons by simp
  then have k: "pri (ecbs s) e < pri (ecbs s) (last xs)" by (rule D(13))
  have "\<forall>x \<in> insert e (set xs). able x s" using D(9,11) e by blast
  from SempPost_wake [OF D(1) Cons k D(8) this] obtain s' where
    s': "Lock_SempPost (Some i) s = Some s'" "switched s s' ?xs (remove1 e ds) (Q(H_Semp i := bs))"
      "pri (ecbs s') = pri (ecbs s)" by blast
  have "sys idle s' ?xs (remove1 e ds) (Q(H_Semp i := bs))"
    by (rule sys_switched [OF S s'(2) everyone_wake [of Q, OF Cons] _ sys_pri [OF S everyone_wake [of Q, OF Cons] s'(3)]])
      (use last_prio_insert [OF k D(6)] D(5) in simp_all)
  then show ?thesis using s'(1) by (auto simp: sys_op_def)
qed

lemma sys_SempPend:
  assumes S: "sys idle s xs ds Q" and r: "g_ptEventRunning s \<noteq> idle"
  shows "sys_op idle (Lock_SempPend (Some i) timeout s)"
proof (cases "(lamps_limit (semps s i) = CN_LIMIT_UINT32 \<or> lamp_counter (semps s i) > 0) \<or> \<not> g_bScheduleEnable s \<or> timeout = 0")
  case True
  note D = sysD [OF S]
  from SempPend_now [OF D(1,7,8) True] obtain b s' where
    "Lock_SempPend (Some i) timeout s = Some (Return b, s')" "switched s s' xs ds Q" "pri (ecbs s') = pri (ecbs s)" by blast
  moreover from this have "sys idle s' xs ds Q" using sys_switched [OF S] sys_pri [OF S] D(5) by blast
  ultimately show ?thesis by (auto simp: sys_op_def)
next
  case False
  note D = sysD [OF S]
  obtain y bs where xs: "xs = [] @ g_ptEventRunning s # y # bs" and l: "last (y # bs) = idle" using sys_split [OF S r] .
  have no: "lamps_limit (semps s i) \<noteq> CN_LIMIT_UINT32" "lamp_counter (semps s i) = 0" "timeout \<noteq> 0" "g_bScheduleEnable s"
    using False by (auto simp: word_neq_0_conv [symmetric])
  have K: "kinv s ([] @ g_ptEventRunning s # y # bs) ds Q" using D(1) xs by simp
  have "\<forall>x \<in> set ([] @ g_ptEventRunning s # y # bs). able x s" using D(9) xs by blast
  from SempPend_block [OF K this no(1,2,4,3)] obtain s' ds' Q' where s': "Lock_SempPend (Some i) timeout s = Some (Block (), s')"
    "switched s s' (y # bs) ds' Q'" "pri (ecbs s') = pri (ecbs s)"
    and e: "everyone ([] @ y # bs) ds' Q' \<subseteq> everyone ([] @ g_ptEventRunning s # y # bs) ds Q"
    using everyone_block by (metis append_Nil)
  then have e: "everyone (y # bs) ds' Q' \<subseteq> everyone xs ds Q" using xs by simp
  have "sys idle s' (y # bs) ds' Q'"
    by (rule sys_switched [OF S s'(2) e l sys_pri [OF S e s'(3)]])
  then show ?thesis using s'(1) by (auto simp: sys_op_def)
qed

lemma sys_EventDelay:
  assumes S: "sys idle s xs ds Q" and r: "g_ptEventRunning s \<noteq> idle"
  shows "sys_op idle (Djy_EventDelay u s)"
proof -
  note D = sysD [OF S]
  obtain y bs where xs: "xs = g_ptEventRunning s # y # bs" and l: "last (y # bs) = idle" using sys_split [OF S r] by auto
  have K: "kinv s (g_ptEventRunning s # y # bs) ds Q" using D(1) xs by simp
  have a: "\<forall>x \<in> set (g_ptEventRunning s # y # bs). able x s" using D(9) xs by blast
  have run: "g_ptEventRunning s \<in> set xs" using xs by simp
  consider "u \<noteq> 0" | "u = 0" "pri (ecbs s) y = pri (ecbs s) (g_ptEventRunning s)"
    | "u = 0" "pri (ecbs s) y \<noteq> pri (ecbs s) (g_ptEventRunning s)" by blast
  then show ?thesis
  proof cases
    case 1
    from EventDelay_blocks [of s "[]" y bs ds Q u] K a D(3) 1 obtain s' t where s': "Djy_EventDelay u s = Some (Block (), s')"
      "switched s s' (y # bs) (ins_by (\<lambda>y. due (ecbs s) y \<le> t) (g_ptEventRunning s) ds) Q" "pri (ecbs s') = pri (ecbs s)" by auto
    have e: "everyone (y # bs) (ins_by (\<lambda>y. due (ecbs s) y \<le> t) (g_ptEventRunning s) ds) Q \<subseteq> everyone xs ds Q"
      using xs by (auto simp: everyone_def)
    from sys_switched [OF S s'(2) e l sys_pri [OF S e s'(3)]] s'(1) show ?thesis by (rule sys_opI)
  next
    case 2
    have "pri (ecbs s) (g_ptEventRunning s) < pri (ecbs s) (last (y # bs))" using D(14) [OF run r] xs by simp
    from EventDelay_yield [OF K 2(2) this a D(3)] obtain s' where s': "Djy_EventDelay u s = Some (Block (), s')"
      "switched s s' (prio_insert (pri (ecbs s)) (g_ptEventRunning s) (y # bs)) ds Q" "pri (ecbs s') = pri (ecbs s)"
      using 2(1) by blast
    have e: "everyone (prio_insert (pri (ecbs s)) (g_ptEventRunning s) (y # bs)) ds Q \<subseteq> everyone xs ds Q"
      using xs by (auto simp: everyone_def)
    have "last (prio_insert (pri (ecbs s)) (g_ptEventRunning s) (y # bs)) = idle"
      using last_prio_insert [of "pri (ecbs s)" "g_ptEventRunning s" "y # bs"] D(14) [OF run r] xs l by simp
    from sys_switched [OF S s'(2) e this sys_pri [OF S e s'(3)]] s'(1) show ?thesis by (rule sys_opI)
  next
    case 3
    have "pri (ecbs s) y' \<noteq> pri (ecbs s) (hd xs)" if "xs = hd xs # y' # bs'" for y' bs'
      using that xs 3(2) by (metis list.sel(1,3))
    then have "\<exists>s'. Djy_EventDelay 0 s = Some (Return 0, s') \<and> switched s s' xs ds Q \<and>
      pri (ecbs s') = pri (ecbs s) \<and> lock_data s s'" by (rule EventDelay_keep [OF D(1,4,7,3)])
    then obtain s' where s': "Djy_EventDelay u s = Some (Return 0, s')"
      "switched s s' xs ds Q" "pri (ecbs s') = pri (ecbs s)" using 3(1) by blast
    from sys_switched [OF S s'(2) subset_refl D(5) sys_pri [OF S subset_refl s'(3)]] s'(1) show ?thesis by (rule sys_opI)
  qed
qed

lemma sys_SetEventPrio:
  assumes S: "sys idle s xs ds Q" and e: "ecb_at ev \<in> set xs" "ecb_at ev \<noteq> idle"
    and k: "new_prio < pri (ecbs s) idle" "new_prio < CN_PRIO_SYS_SERVICE" "new_prio \<noteq> 0"
  shows "sys_op idle (Djy_SetEventPrio ev new_prio s)"
proof -
  let ?e = "ecb_at ev" and ?f = "(pri (ecbs s))(ecb_at ev := new_prio)"
  note D = sysD [OF S]
  obtain as zs where xs: "xs = as @ ?e # zs" using e(1) by (meson split_list)
  then obtain y bs where zs: "zs = y # bs" using e(2) D(5) by (cases zs) auto
  have xs: "xs = as @ ?e # y # bs" and l: "last (y # bs) = idle" using xs zs D(5) by auto
  have K: "kinv s (as @ ?e # y # bs) ds Q" using D(1) xs by simp
  have a: "\<forall>x \<in> set (as @ ?e # y # bs). able x s" using D(9) xs by blast
  let ?xs = "if new_prio = pri (ecbs s) ?e then as @ ?e # y # bs else prio_insert ?f ?e (as @ y # bs)"
  from SetEventPrio_ready [OF K refl k(2,3) _ a D(8)] k(1) l obtain s' where
    s': "Djy_SetEventPrio ev new_prio s = Some (True, s')" "switched s s' ?xs ds Q" "pri (ecbs s') = ?f" by auto
  have sub: "everyone ?xs ds Q \<subseteq> everyone xs ds Q" using xs by (auto simp: everyone_def)
  have "last ?xs = idle"
    using last_prio_insert [of ?f ?e "as @ y # bs"] k(1) e(2) l by auto
  moreover have "pri (ecbs s') x < pri (ecbs s') idle" if "x \<in> everyone ?xs ds Q" "x \<noteq> idle" for x
    using that sub S k(1) e(2) s'(3) by (auto simp: sys_def)
  ultimately show ?thesis using sys_opI [OF sys_switched [OF S s'(2) sub] s'(1)] by blast
qed

text \<open>The tick exception.\<close>

lemma set_rr_list: "e \<in> set xs \<Longrightarrow> set (rr_list sl now f e xs) \<subseteq> set xs"
  using set_remove1_subset [of e xs] by (auto simp: rr_list_def)

lemma set_fold_prio: "set (fold (prio_insert f) D xs) = set D \<union> set xs"
  by (induction D arbitrary: xs) auto

lemma last_rr_list:
  assumes "distinct xs" and "e = last xs \<or> f e < f (last xs)" and "e \<in> set xs"
    and "\<And>x. x \<in> set xs \<Longrightarrow> x \<noteq> last xs \<Longrightarrow> f x < f (last xs)"
  shows "last (rr_list sl now f e xs) = last xs"
proof (cases "rr_turn sl now f e xs")
  case True
  then obtain y where "y \<in> set xs" "y \<noteq> e" "f y = f e" by (auto simp: rr_turn_def list_ex_iff)
  then have "e \<noteq> last xs" using assms(4) [of y] by auto
  then have lt: "f e < f (last xs)" using assms(2) by simp
  have xs: "xs \<noteq> []" using assms(3) by auto
  have "last (remove1 e xs) = last xs \<and> remove1 e xs \<noteq> []"
  proof -
    have "xs = butlast xs @ [last xs]" using xs by simp
    then have "remove1 e xs = remove1 e (butlast xs) @ [last xs]"
      using \<open>e \<noteq> last xs\<close> assms(3) by (metis remove1_append remove1.simps(1) remove1_idem set_ConsD in_set_butlast_appendI empty_iff list.set(1) remove1.simps(2) UnE set_append)
    then show ?thesis by simp
  qed
  then show ?thesis using True lt last_prio_insert [of f e "remove1 e xs"] by (simp add: rr_list_def)
qed (simp add: rr_list_def)

lemma sys_Systick:
  assumes S: "sys idle s xs ds Q"
  shows "\<exists>s' xs' ds' Q'. Exp_SystickTickHandler s = Some s' \<and> sys idle s' xs' ds' Q' \<and>
    g_s64OsTicks s' = g_s64OsTicks s + 1"
proof -
  note D = sysD [OF S]
  define s0 where "s0 = s\<lparr>g_bScheduleEnable := False, en_asyn_signal_counter := 1, nest_asyn_signal := 1\<rparr>"
  have "qview s0 = qview s" by (simp add: s0_def)
  then have K0: "kinv s0 xs ds Q" using D(1) kinv_view by blast
  have f0: "pri (ecbs s0) = pri (ecbs s)" "g_ptEventRunning s0 = hd xs" "due (ecbs s0) = due (ecbs s)"
    "g_s64OsTicks s0 = g_s64OsTicks s" "s_u32RRS_Slice s0 = s_u32RRS_Slice s" using D(4) by (simp_all add: s0_def)
  let ?now = "g_s64OsTicks s + 1" and ?f = "pri (ecbs s)"
  let ?D = "takeWhile (\<lambda>y. due (ecbs s) y \<le> ?now) ds" and ?ds = "dropWhile (\<lambda>y. due (ecbs s) y \<le> ?now) ds"
  let ?Q = "\<lambda>q. filter (\<lambda>y. y \<notin> set ?D) (Q q)"
  let ?fold = "fold (prio_insert ?f) ?D xs"
  let ?xs = "rr_list (s_u32RRS_Slice s) ?now ?f (hd xs) ?fold"
  have low: "hd xs = last xs \<or> ?f (hd xs) < ?f (last xs)" using D(14) [of "hd xs"] D(5,6) by auto
  from IsrTick_effect [OF K0 f0(2), where n = 1] low D(12) obtain s1 where
    s1: "Djy_IsrTick 1 s0 = Some s1" "kinv s1 ?xs ?ds ?Q" "kframe (kcall_out Call_MaintainSysTime (s0\<lparr>g_s64OsTicks := ?now\<rparr>)) s1"
    by (auto simp: f0)
  note F = kframe_fields [OF s1(3)] kframe_ecb [OF s1(3)]
  define s2 where "s2 = s1\<lparr>nest_asyn_signal := 0, en_asyn_signal_counter := 0\<rparr>"
  have "qview s2 = qview s1" by (simp add: s2_def)
  then have K2: "kinv s2 ?xs ?ds ?Q" using s1(2) kinv_view by blast
  have ab: "able p s2 = able p s" for p
    using kframe_able [OF s1(3), of p] by (simp add: able_def typed_def s2_def s0_def kcall_out_def)
  have DD: "set ?D \<subseteq> set ds" "set ?ds \<subseteq> set ds" by (meson set_takeWhileD set_dropWhileD subsetI)+
  have h: "hd xs \<in> set ?fold" using D(6) by (simp add: set_fold_prio)
  have "set ?xs \<subseteq> set ?fold" by (rule set_rr_list [OF h])
  then have sx: "set ?xs \<subseteq> set ?D \<union> set xs" by (simp only: set_fold_prio)
  have sub: "everyone ?xs ?ds ?Q \<subseteq> everyone xs ds Q"
  proof (rule everyone_sub)
    show "set ?xs \<subseteq> set ds \<union> set xs" using sx DD(1) by (rule subset_trans [OF _ Un_mono]) simp
  qed (use DD(2) in simp_all)
  have "hd ?xs \<in> set ?xs" using ready_okD(7) [OF kinvD(1) [OF K2]] by simp
  then have "able (hd ?xs) s" using sub S by (auto simp: everyone_def sys_def)
  moreover have rd: "g_ptEventReady s2 = hd ?xs" using ready_okD(2) [OF kinvD(1) [OF K2]] .
  moreover have "g_ptEventRunning s2 = g_ptEventRunning s" using F by (simp add: s2_def s0_def kcall_out_def)
  ultimately have "runnable s2" using D(8) by (intro runnable_able) (simp_all add: ab)
  from engine_leave_runs [OF this] obtain s' where s': "engine_leave s2 = Some s'" "left_int s2 s'" by blast
  have K': "kinv s' ?xs ?ds ?Q" using kinv_view [of s' s2] K2 s'(2) by (simp add: left_int_def)
  have p': "pri (ecbs s') = ?f" using s'(2) F by (simp add: left_int_def qview_def s2_def s0_def kcall_out_def)
  have a': "able p s' = able p s" for p
    using s'(2) ab [of p] kfix_able [of s2 s' p] by (simp add: left_int_def)
  have lf: "last ?fold = last xs" using D(12) D(6) DD by (intro last_fold_prio) auto
  have "last ?xs = idle"
  proof -
    have "last ?xs = last ?fold"
    proof (rule last_rr_list [OF _ _ h])
      show "distinct ?fold"
      proof -
        have "distinct (fold (prio_insert ?f) L ys) \<longleftrightarrow> distinct (L @ ys)" for L ys
          by (induction L arbitrary: ys) (auto simp: prio_insert_def distinct_ins_by)
        moreover have "distinct ds" using kinv_distinct [OF D(1)] by blast
        ultimately show ?thesis
          using DD(1) kinvD(5) [OF D(1)] ready_okD(8) [OF kinvD(1) [OF D(1)]] distinct_takeWhile
          by auto
      qed
      show "hd xs = last ?fold \<or> ?f (hd xs) < ?f (last ?fold)" using low lf by simp
      show "?f x < ?f (last ?fold)" if "x \<in> set ?fold" "x \<noteq> last ?fold" for x
        using that D(5,12,14) DD lf by (auto simp: set_fold_prio)
    qed
    then show ?thesis using lf D(5) by simp
  qed
  moreover have "outermost s'" "g_bScheduleEnable s'" "g_ptEventRunning s' = hd ?xs" "g_s64OsTicks s' = ?now"
    using s'(2) rd F by (simp_all add: left_int_def outermost_def kfix_def s2_def s0_def kcall_out_def)
  ultimately have "sys idle s' ?xs ?ds ?Q" using K' S sub unfolding sys_def by (auto simp: a' p')
  moreover have "Exp_SystickTickHandler s = Some s'"
    using s1(1) s'(1) by (simp add: Exp_SystickTickHandler_def s0_def s2_def)
  ultimately show ?thesis using \<open>g_s64OsTicks s' = ?now\<close> by blast
qed

text \<open>
  Mutexes.  The owner of a mutex somebody waits for has to be ready: the priority of an owner that is
  itself blocked is raised in its queue, which the lemmas on \<open>Djy_RaiseTempPrio\<close> do not cover.
\<close>

lemma last_raised:
  assumes "distinct (as @ e # y # bs)" and "k < f (last (y # bs))"
  shows "last (raised f e k (as @ e # y # bs)) = last (y # bs)"
proof -
  have "e \<notin> set as" "last (as @ y # bs) \<noteq> e" using assms(1) by (auto split: if_splits)
  then show ?thesis using last_prio_insert [of "f(e := k)" e "as @ y # bs"] assms(2)
    by (cases bs) (auto simp: raised_def remove1_append)
qed

lemma sys_upd_mutex:
  assumes S: "sys idle s xs ds Q" and f: "\<And>m. mutex_sync (f m) = mutex_sync m"
  shows "sys idle (upd_mutex i f s) xs ds Q"
proof -
  have "kinv (upd_mutex i f s) xs ds Q" using sysD(1) [OF S] kinv_view qview_upd_mutex [OF f] by blast
  moreover have "able x (upd_mutex i f s) = able x s" for x
    by (simp add: able_def typed_def upd_mutex_def)
  moreover have "outermost (upd_mutex i f s) = outermost s" "g_bScheduleEnable (upd_mutex i f s) = g_bScheduleEnable s"
    by (simp_all add: upd_mutex_def outermost_def)
  ultimately show ?thesis using S by (simp add: sys_def)
qed

lemma MutexPend_polls:
  fixes i :: nat
  assumes K: "kinv s xs ds Q" and n: "nest_asyn_signal s = 0" and e: "enable (mutexes s i) \<noteq> 0" "enable (mutexes s i) \<noteq> -1"
    and own: "owner (mutexes s i) \<noteq> g_ptEventRunning s" and able: "able (g_ptEventRunning s) s" "able (hd xs) s"
  shows "\<exists>s'. Lock_MutexPend (Some i) 0 s = Some (Return False, s') \<and> switched s s' xs ds Q \<and> pri (ecbs s') = pri (ecbs s)"
proof -
  have "qview (Int_SaveAsynSignal s) = qview s" by simp
  then have "kinv (Int_SaveAsynSignal s) xs ds Q" using K kinv_view by blast
  from leave_switched [OF this in_section_Save able(2,1)] obtain s' where
    "Int_RestoreAsynSignal (Int_SaveAsynSignal s) = Some s'" "switched s s' xs ds Q" "pri (ecbs s') = pri (ecbs s)" by auto
  then show ?thesis using n e own by (simp add: Lock_MutexPend_def Int_GetRunLevel_def Let_def)
qed

lemma sys_MutexPend:
  assumes S: "sys idle s xs ds Q" and r: "g_ptEventRunning s \<noteq> idle" and lo: "-1 \<le> enable (mutexes s i)"
    and own: "0 < enable (mutexes s i) \<Longrightarrow> owner (mutexes s i) \<noteq> g_ptEventRunning s \<Longrightarrow>
      ecb_at (event_id (ecbs s (owner (mutexes s i)))) = owner (mutexes s i) \<and>
      (owner (mutexes s i) \<in> set xs \<and> owner (mutexes s i) \<noteq> idle \<or> held_back s (owner (mutexes s i)))"
  shows "sys_op idle (Lock_MutexPend (Some i) timeout s)"
proof -
  note D = sysD [OF S]
  have n: "nest_asyn_signal s = 0" using D(2) by (simp add: outermost_def)
  have keep: "sys idle s' xs ds Q" if "switched s s' xs ds Q" "pri (ecbs s') = pri (ecbs s)" for s'
    by (rule sys_switched [OF S that(1) subset_refl D(5) sys_pri [OF S subset_refl that(2)]])
  let ?own = "owner (mutexes s i)" and ?run = "g_ptEventRunning s" and ?f = "pri (ecbs s)"
  consider "enable (mutexes s i) = -1" | "enable (mutexes s i) \<noteq> -1" "?own = ?run"
    | "?own \<noteq> ?run" "enable (mutexes s i) = 0" | "?own \<noteq> ?run" "0 < enable (mutexes s i)" "timeout = 0"
    | "?own \<noteq> ?run" "0 < enable (mutexes s i)" "timeout \<noteq> 0" "held_back s ?own"
    | "?own \<noteq> ?run" "0 < enable (mutexes s i)" "timeout \<noteq> 0" "?own \<in> set xs" "?own \<noteq> idle" using lo own by linarith
  then show ?thesis
  proof cases
    case 1
    then have "Lock_MutexPend (Some i) timeout s = Some (Return False, s)" using n by (simp add: Lock_MutexPend_def Int_GetRunLevel_def)
    then show ?thesis by (rule sys_opI [OF S])
  next
    case 2
    then have "Lock_MutexPend (Some i) timeout s = Some (Return True, upd_mutex i (\<lambda>m. m\<lparr>enable := enable m + 1\<rparr>) s)"
      using n by (simp add: Lock_MutexPend_def Int_GetRunLevel_def)
    then show ?thesis by (rule sys_opI [OF sys_upd_mutex [OF S], rotated]) simp
  next
    case 3
    from MutexPend_takes [OF D(1) n 3(2,1) D(8,7), of timeout] keep show ?thesis by (auto intro: sys_opI)
  next
    case 4
    then have "enable (mutexes s i) \<noteq> 0" "enable (mutexes s i) \<noteq> -1" by auto
    from MutexPend_polls [OF D(1) n this 4(1) D(8,7)] keep 4(3) show ?thesis by (auto intro: sys_opI)
  next
    case 5
    obtain y bs where xs: "xs = [] @ ?run # y # bs" and l: "last (y # bs) = idle" using sys_split [OF S r] .
    have K: "kinv s (?run # y # bs) ds Q" and a: "\<forall>x \<in> set (?run # y # bs). able x s" using D(1,9) xs by simp_all
    from MutexPend_block_held_back [OF K D(2) refl _ 5(4,1,2) a D(3) 5(3)] own [OF 5(2,1)] obtain s' ds' Q' where
      s': "Lock_MutexPend (Some i) timeout s = Some (Block (), s')" "switched s s' (y # bs) ds' Q'" "pri (ecbs s') = ?f"
      and e: "everyone ([] @ y # bs) ds' Q' \<subseteq> everyone ([] @ ?run # y # bs) ds Q"
      using everyone_block by (metis append_Nil)
    then have e: "everyone (y # bs) ds' Q' \<subseteq> everyone xs ds Q" using xs by simp
    show ?thesis using sys_opI [OF sys_switched [OF S s'(2) e l sys_pri [OF S e s'(3)]] s'(1)] .
  next
    case 6
    obtain ys where xs: "xs = ?run # ys" using D(4,6) by (cases xs) auto
    have o: "ecb_at (event_id (ecbs s ?own)) = ?own" "?own \<in> set xs" "?own \<noteq> idle" using own [OF 6(2,1)] 6(4,5) by simp_all
    then have "?own \<in> set ys" using xs 6(1) by auto
    then obtain as zs where "ys = as @ ?own # zs" by (meson split_list)
    moreover have "zs \<noteq> []" using calculation xs D(5) o by auto
    ultimately obtain z cs where ys: "ys = as @ ?own # z # cs" by (cases zs) auto
    have l: "last (z # cs) = idle" using D(5) xs ys by simp
    have run: "?run \<in> set xs" using xs by simp
    have k: "?f ?run < ?f (last (z # cs))" using D(14) [OF run r] D(5) l by simp
    have K: "kinv s (?run # ys) ds Q" using D(1) xs by simp
    have a: "\<forall>x \<in> set (?run # ys). able x s" using D(9) xs by blast
    let ?xs = "raised ?f ?own (?f ?run) ys"
    from MutexPend_block [OF K D(2) ys refl _ 6(2) k a D(3) 6(3)] o obtain s' ds' Q' where
      s': "Lock_MutexPend (Some i) timeout s = Some (Block (), s')" "switched s s' ?xs ds' Q'"
      "pri (ecbs s') = raised_pri ?f ?own (?f ?run)"
      and e: "everyone ([] @ ys) ds' Q' \<subseteq> everyone ([] @ ?run # ys) ds Q"
      using everyone_block by (metis append_Nil)
    have "set ?xs = set ys" using ys by simp
    then have sub: "everyone ?xs ds' Q' \<subseteq> everyone xs ds Q" using e xs by (simp add: everyone_def)
    have "distinct (as @ ?own # z # cs)" using ready_okD(8) [OF kinvD(1) [OF K]] ys by simp
    then have "last ?xs = idle" unfolding ys using last_raised k l by metis
    moreover have "pri (ecbs s') x < pri (ecbs s') idle" if "x \<in> everyone ?xs ds' Q'" "x \<noteq> idle" for x
      using that sub S k l o by (auto simp: s'(3) raised_pri_def sys_def)
    ultimately show ?thesis using sys_opI [OF sys_switched [OF S s'(2) sub] s'(1)] by blast
  qed
qed

lemma sys_MutexPost:
  assumes S: "sys idle s xs ds Q" and r: "g_ptEventRunning s \<noteq> idle"
    and own: "owner (mutexes s i) = g_ptEventRunning s \<Longrightarrow> enable (mutexes s i) \<noteq> 0 \<and> -1 \<le> enable (mutexes s i)"
    and base: "prio_base (ecbs s (g_ptEventRunning s)) < pri (ecbs s) idle"
  shows "sys_op idle (map_option (Pair ()) (Lock_MutexPost (Some i) s))"
proof -
  note D = sysD [OF S]
  have n: "nest_asyn_signal s = 0" using D(2) by (simp add: outermost_def)
  let ?m = "mutexes s i" and ?run = "g_ptEventRunning s" and ?f = "pri (ecbs s)"
  consider "enable ?m = -1 \<or> owner ?m \<noteq> ?run" | "owner ?m = ?run" "0 < enable ?m" "1 < enable ?m \<or> Q (H_Mutex i) = []"
    | "owner ?m = ?run" "enable ?m = 1" "Q (H_Mutex i) \<noteq> []" using own by linarith
  then show ?thesis
  proof cases
    case 1
    then have "Lock_MutexPost (Some i) s = Some s" using n by (auto simp: Lock_MutexPost_def Int_GetRunLevel_def)
    then show ?thesis using sys_opI [OF S, of "Some ((), s)" "()"] by simp
  next
    case 2
    from MutexPost_keeps [OF D(1) n 2 D(8,7)] obtain s' where
      s': "Lock_MutexPost (Some i) s = Some s'" "switched s s' xs ds Q" "pri (ecbs s') = ?f" by blast
    have "sys idle s' xs ds Q" by (rule sys_switched [OF S s'(2) subset_refl D(5) sys_pri [OF S subset_refl s'(3)]])
    then show ?thesis using s'(1) sys_opI by fastforce
  next
    case 3
    then obtain e cs where Q: "Q (H_Mutex i) = e # cs" by (cases "Q (H_Mutex i)") auto
    obtain y bs where xs: "xs = ?run # y # bs" and l: "last (y # bs) = idle" using sys_split [OF S r] by auto
    have K: "kinv s (?run # y # bs) ds Q" using D(1) xs by simp
    have e: "e \<in> set (Q (H_Mutex i))" using Q by simp
    have k: "?f e < ?f (last (y # bs))" "prio_base (ecbs s ?run) < ?f (last (y # bs))"
      using D(13) [OF e] D(5) l base by simp_all
    have a: "\<forall>x \<in> insert e (set (?run # y # bs)). able x s" using D(9,11) e xs by blast
    let ?xs = "handed s e (?run # y # bs)" and ?b = "prio_base (ecbs s ?run)"
    from MutexPost_hands [OF K Q D(2) 3(1,2) k a] obtain s' where
      s': "Lock_MutexPost (Some i) s = Some s'" "switched s s' ?xs (remove1 e ds) (Q(H_Mutex i := cs))"
      "pri (ecbs s') = ?f(?run := ?b)" by blast
    let ?rs = "restored ?f ?run ?b ([] @ ?run # y # bs)"
    have d: "distinct ([] @ ?run # y # bs)" using ready_okD(8) [OF kinvD(1) [OF K]] by simp
    have rs: "last ?rs = idle" "set ?rs = set (?run # y # bs)" using last_restored [of "[]" ?run y bs ?b ?f] d k(2) l by simp_all
    have hx: "?xs = prio_insert (?f(?run := ?b)) e ?rs" by (simp add: handed_def Let_def)
    have ne: "e \<noteq> ?run" using ready_not_blocked [OF K] e by auto
    have nn: "?rs \<noteq> []" using rs(2) by (metis list.set(1) list.simps(15) insert_not_empty)
    have "(?f(?run := ?b)) e < (?f(?run := ?b)) (last ?rs)" using k(1) l ne r rs(1) by simp
    then have "last ?xs = idle" unfolding hx using last_prio_insert [of "?f(?run := ?b)" e ?rs] nn rs(1) by simp
    moreover have sub: "everyone ?xs (remove1 e ds) (Q(H_Mutex i := cs)) \<subseteq> everyone xs ds Q"
      using everyone_wake [of Q "H_Mutex i" e cs "?f(?run := ?b)" ?rs ds] Q xs unfolding hx everyone_def rs(2) by simp
    moreover have "pri (ecbs s') x < pri (ecbs s') idle" if "x \<in> everyone ?xs (remove1 e ds) (Q(H_Mutex i := cs))" "x \<noteq> idle" for x
      using that sub S base r by (auto simp: s'(3) sys_def)
    ultimately show ?thesis using sys_opI [OF sys_switched [OF S s'(2) sub]] s'(1) by fastforce
  qed
qed

section \<open>The lists are determined by the links\<close>

lemma dring_nth:
  "dring n p (x # xs) \<Longrightarrow> i \<le> length xs \<Longrightarrow> (x # xs) ! i = (n ^^ i) x"
proof (induction i)
  case (Suc i)
  then have i: "i < length xs" by simp
  have "x # xs = take i (x # xs) @ (x # xs) ! i # (x # xs) ! Suc i # drop (Suc (Suc i)) (x # xs)"
    using i by (metis Cons_nth_drop_Suc Suc_less_eq append_take_drop_id length_Cons less_Suc_eq)
  then have "n ((x # xs) ! i) = (x # xs) ! Suc i" using Suc.prems(1) dring_next_mid by metis
  then show ?case using Suc by simp
qed simp

lemma dring_funpow: "dring n p (x # xs) \<Longrightarrow> (n ^^ Suc (length xs)) x = x"
proof -
  assume d: "dring n p (x # xs)"
  have "(x # xs) ! length xs = last (x # xs)" by (simp add: last_conv_nth)
  then have "(n ^^ length xs) x = last (x # xs)" using dring_nth [OF d, of "length xs"] by simp
  then show ?thesis using d by (simp add: dring_iff del: last.simps)
qed

lemma dring_length:
  assumes "dring n p (x # xs)" and "dring n p (x # ys)"
  shows "length ys \<le> length xs"
proof (rule ccontr)
  assume "\<not> ?thesis"
  then have l: "Suc (length xs) \<le> length ys" by simp
  have "(x # ys) ! Suc (length xs) = (x # ys) ! 0"
    using dring_nth [OF assms(2) l] dring_funpow [OF assms(1)] by simp
  then show False using dring_distinct [OF assms(2)] l nth_eq_iff_index_eq [of "x # ys" "Suc (length xs)" 0] by simp
qed

lemma dring_unique:
  assumes "dring n p xs" and "dring n p ys" and "hd xs = hd ys"
  shows "xs = ys"
proof -
  obtain x xs' ys' where l: "xs = x # xs'" "ys = x # ys'" using assms by (cases xs; cases ys) auto
  then have "length xs' = length ys'" using dring_length [of n p x] assms(1,2) by (metis le_antisym)
  then show ?thesis unfolding l
    using dring_nth [OF assms(1) [unfolded l]] dring_nth [OF assms(2) [unfolded l]]
    by (intro nth_equalityI) (simp_all add: less_Suc_eq_le)
qed

lemma ready_unique: "ready s xs \<Longrightarrow> ready s ys \<Longrightarrow> xs = ys"
  using dring_unique ready_okD(1,2) by metis

section \<open>Every state the kernel reaches\<close>

definition is_ready :: "kst \<Rightarrow> eptr \<Rightarrow> bool" where
  "is_ready s e \<longleftrightarrow> (\<exists>xs. ready s xs \<and> e \<in> set xs)"

definition kernel_ok :: "eptr \<Rightarrow> kst \<Rightarrow> bool" where
  "kernel_ok idle s \<longleftrightarrow> (\<exists>xs ds Q. sys idle s xs ds Q)"

lemma kernel_okI: "sys idle s xs ds Q \<Longrightarrow> kernel_ok idle s"
  by (auto simp: kernel_ok_def)

lemma sys_op_ok: "sys_op idle r \<longleftrightarrow> (\<exists>a s'. r = Some (a, s') \<and> kernel_ok idle s')"
  by (auto simp: sys_op_def kernel_ok_def)

text \<open>
  What the steps on a mutex ask of it and of its owner: who asks for a mutex finds it free, its own, or owned by a
  ready event other than the service event, or by one that is blocked or delayed (\<open>held_back\<close>).
\<close>

definition mutex_askable :: "eptr \<Rightarrow> nat \<Rightarrow> kst \<Rightarrow> bool" where
  "mutex_askable idle i s \<longleftrightarrow> (let m = mutexes s i in -1 \<le> enable m \<and>
     (0 < enable m \<longrightarrow> owner m \<noteq> g_ptEventRunning s \<longrightarrow>
        ecb_at (event_id (ecbs s (owner m))) = owner m \<and>
        (is_ready s (owner m) \<and> owner m \<noteq> idle \<or> held_back s (owner m))))"

definition mutex_givable :: "eptr \<Rightarrow> nat \<Rightarrow> kst \<Rightarrow> bool" where
  "mutex_givable idle i s \<longleftrightarrow>
     (owner (mutexes s i) = g_ptEventRunning s \<longrightarrow> enable (mutexes s i) \<noteq> 0 \<and> -1 \<le> enable (mutexes s i)) \<and>
     prio_base (ecbs s (g_ptEventRunning s)) < pri (ecbs s) idle"

inductive kstep :: "eptr \<Rightarrow> kst \<Rightarrow> kst \<Rightarrow> bool" for idle where
  tick: "Exp_SystickTickHandler s = Some s' \<Longrightarrow> kstep idle s s'"
| post: "Lock_SempPost (Some i) s = Some s' \<Longrightarrow> kstep idle s s'"
| pend: "g_ptEventRunning s \<noteq> idle \<Longrightarrow> Lock_SempPend (Some i) timeout s = Some (r, s') \<Longrightarrow> kstep idle s s'"
| delay: "g_ptEventRunning s \<noteq> idle \<Longrightarrow> Djy_EventDelay u s = Some (d, s') \<Longrightarrow> kstep idle s s'"
| set_prio: "ecb_at ev \<noteq> idle \<Longrightarrow> is_ready s (ecb_at ev) \<Longrightarrow>
    new_prio \<noteq> 0 \<Longrightarrow> new_prio < CN_PRIO_SYS_SERVICE \<Longrightarrow> new_prio < pri (ecbs s) idle \<Longrightarrow>
    Djy_SetEventPrio ev new_prio s = Some (b, s') \<Longrightarrow> kstep idle s s'"
| take: "g_ptEventRunning s \<noteq> idle \<Longrightarrow> mutex_askable idle i s \<Longrightarrow> Lock_MutexPend (Some i) timeout s = Some (r, s') \<Longrightarrow>
    kstep idle s s'"
| give: "g_ptEventRunning s \<noteq> idle \<Longrightarrow> mutex_givable idle i s \<Longrightarrow> Lock_MutexPost (Some i) s = Some s' \<Longrightarrow> kstep idle s s'"

lemma askableD:
  assumes S: "sys idle s xs ds Q" and a: "mutex_askable idle i s"
  shows "-1 \<le> enable (mutexes s i)" and "0 < enable (mutexes s i) \<Longrightarrow> owner (mutexes s i) \<noteq> g_ptEventRunning s \<Longrightarrow>
      ecb_at (event_id (ecbs s (owner (mutexes s i)))) = owner (mutexes s i) \<and>
      (owner (mutexes s i) \<in> set xs \<and> owner (mutexes s i) \<noteq> idle \<or> held_back s (owner (mutexes s i)))"
  using a ready_unique kinvD(1) [OF sysD(1) [OF S]] by (auto simp: mutex_askable_def is_ready_def Let_def)

lemma kstep_ok:
  assumes st: "kstep idle s s'" and ok: "kernel_ok idle s"
  shows "kernel_ok idle s'"
proof -
  obtain xs ds Q where S: "sys idle s xs ds Q" using ok by (auto simp: kernel_ok_def)
  note D = sysD [OF S]
  from st show ?thesis
  proof cases
    case tick
    then show ?thesis using sys_Systick [OF S] by (auto intro: kernel_okI)
  next
    case (post i)
    then show ?thesis using sys_SempPost [OF S, of i] by (simp add: sys_op_ok)
  next
    case (pend i timeout r)
    then show ?thesis using sys_SempPend [OF S pend(1), of i timeout] by (simp add: sys_op_ok)
  next
    case (delay u d)
    then show ?thesis using sys_EventDelay [OF S delay(1), of u] by (simp add: sys_op_ok)
  next
    case (set_prio ev new_prio b)
    have "ecb_at ev \<in> set xs"
      using set_prio(2) ready_unique kinvD(1) [OF D(1)] by (auto simp: is_ready_def)
    then show ?thesis using sys_SetEventPrio [OF S _ set_prio(1,5,4,3)] set_prio(6) by (simp add: sys_op_ok)
  next
    case (take i timeout r)
    then show ?thesis using askableD [OF S take(2)] sys_MutexPend [OF S take(1), of i timeout] by (simp add: sys_op_ok)
  next
    case (give i)
    then show ?thesis using sys_MutexPost [OF S give(1), of i] by (simp add: sys_op_ok mutex_givable_def)
  qed
qed

lemma kernel_reachable:
  assumes "(kstep idle)\<^sup>*\<^sup>* s0 s" and "kernel_ok idle s0"
  shows "kernel_ok idle s"
  using assms by (induction rule: rtranclp_induct) (auto intro: kstep_ok)

lemma kernel_head:
  assumes "kernel_ok idle s"
  shows "is_ready s (g_ptEventRunning s)" and "is_ready s e \<Longrightarrow> pri (ecbs s) (g_ptEventRunning s) \<le> pri (ecbs s) e"
proof -
  obtain xs ds Q where S: "sys idle s xs ds Q" using assms by (auto simp: kernel_ok_def)
  note D = sysD [OF S]
  note r = kinvD(1) [OF D(1)]
  obtain y ys where xs: "xs = y # ys" using D(6) by (cases xs) auto
  show "is_ready s (g_ptEventRunning s)" using r xs D(4) by (auto simp: is_ready_def intro!: exI [of _ xs])
  assume "is_ready s e"
  then have "e \<in> set xs" using ready_unique r by (auto simp: is_ready_def)
  then show "pri (ecbs s) (g_ptEventRunning s) \<le> pri (ecbs s) e"
    using ready_okD(3) [OF r] xs D(4) by auto
qed

end
