(* ===== verification/SystemProps.thy ===== *)
theory SystemProps
  imports System Samples
begin

text \<open>The properties of the kernel as a whole and of its delays and priorities.\<close>

lemma sample_sys: "sys (Ecb 0) sample sample_ready [Ecb 2] sample_blocks"
proof -
  have e: "everyone sample_ready [Ecb 2] sample_blocks \<subseteq> {Ecb 0, Ecb 1, Ecb 2, Ecb 3}"
    by (auto simp: everyone_def sample_ready_def sample_blocks_def split: if_splits)
  show ?thesis
    unfolding sys_def using sample_kinv e by (auto simp: sample_ready_def)
qed

lemma sample_ok: "kernel_ok (Ecb 0) sample"
  by (rule kernel_okI [OF sample_sys])

section \<open>Reachable states\<close>

text \<open>
  C1: the processor always belongs to the highest priority.  Whatever sequence of ticks, posts
  and waits on semaphores, mutexes taken and given back (with a ready owner's priority raised and
  restored), delays and changes of the priority of ready events the kernel goes through, starting from a state in
  order, the state is in order: the queues are well formed rings, sorted as they must
  be, the running event is ready, and no ready event has a higher priority (a smaller number).
  The steps are guarded: the service event neither waits nor delays itself nor uses mutexes, the owner of a mutex
  that is asked for is ready or blocked (\<open>mutex_askable\<close>), and an event that gives a mutex back has a base priority
  above that of the service event (\<open>mutex_givable\<close>).
\<close>

theorem kernel_runs_highest:
  assumes "(kstep idle)\<^sup>*\<^sup>* s0 s" and "kernel_ok idle s0"
  shows "kernel_ok idle s \<and> is_ready s (g_ptEventRunning s) \<and>
    (\<forall>e. is_ready s e \<longrightarrow> pri (ecbs s) (g_ptEventRunning s) \<le> pri (ecbs s) e)"
  using kernel_reachable [OF assms] kernel_head by blast

theorem kernel_runs_highest_witness:
  "\<exists>s. Lock_SempPost (Some 0) sample = Some s \<and> is_ready s (g_ptEventRunning s)"
proof -
  from sys_SempPost [OF sample_sys, of 0] obtain s where s: "Lock_SempPost (Some 0) sample = Some s"
    by (auto simp: sys_op_def)
  then have "(kstep (Ecb 0))\<^sup>*\<^sup>* sample s" by (intro r_into_rtranclp kstep.post)
  then show ?thesis using kernel_runs_highest [OF _ sample_ok] s by blast
qed

text \<open>
  C2: which calls return.  In every state that those steps reach, the tick interrupt and a post return, and the time
  advances with the tick.  When the running event is not the service event, a wait on any semaphore and a delay
  return; so does asking for a mutex that is free, owned by the caller, or owned by another event than the service event
  that is ready, blocked or delayed, and giving back a mutex, by an event whose base priority is above that of the
  service event and which holds the mutex at least once when it is its owner.
  So no null or foreign pointer is followed there and no loop runs on.
\<close>

theorem kernel_never_stuck:
  assumes "(kstep idle)\<^sup>*\<^sup>* s0 s" and "kernel_ok idle s0"
  shows "(\<exists>s'. Exp_SystickTickHandler s = Some s' \<and> g_s64OsTicks s' = g_s64OsTicks s + 1) \<and>
    (\<exists>s'. Lock_SempPost (Some i) s = Some s') \<and>
    (g_ptEventRunning s \<noteq> idle \<longrightarrow>
       (\<exists>r s'. Lock_SempPend (Some i) timeout s = Some (r, s')) \<and> (\<exists>r s'. Djy_EventDelay u s = Some (r, s')) \<and>
       (mutex_askable idle m s \<longrightarrow> (\<exists>r s'. Lock_MutexPend (Some m) timeout s = Some (r, s'))) \<and>
       (mutex_givable idle m s \<longrightarrow> (\<exists>s'. Lock_MutexPost (Some m) s = Some s')))"
proof -
  obtain xs ds Q where S: "sys idle s xs ds Q" using kernel_reachable [OF assms] by (auto simp: kernel_ok_def)
  have "\<exists>r s'. Lock_MutexPend (Some m) timeout s = Some (r, s')"
    if "g_ptEventRunning s \<noteq> idle" "mutex_askable idle m s"
    using sys_MutexPend [OF S that(1) askableD [OF S that(2)], of timeout] by (auto simp: sys_op_def)
  moreover have "\<exists>s'. Lock_MutexPost (Some m) s = Some s'"
    if "g_ptEventRunning s \<noteq> idle" "mutex_givable idle m s"
    using sys_MutexPost [OF S that(1), of m] that(2) by (auto simp: sys_op_def mutex_givable_def)
  ultimately show ?thesis
    using sys_Systick [OF S] sys_SempPost [OF S, of i] sys_SempPend [OF S, of i timeout] sys_EventDelay [OF S, of u]
    by (auto simp: sys_op_def)
qed

theorem kernel_never_stuck_witness:
  "\<exists>s s'. Exp_SystickTickHandler sample = Some s \<and> Exp_SystickTickHandler s = Some s' \<and> g_s64OsTicks s' = 5"
proof -
  from sys_Systick [OF sample_sys] obtain s where s: "Exp_SystickTickHandler sample = Some s" "g_s64OsTicks s = 4" by auto
  then have "(kstep (Ecb 0))\<^sup>*\<^sup>* sample s" by (intro r_into_rtranclp kstep.tick)
  from conjunct1 [OF kernel_never_stuck [OF this sample_ok]] show ?thesis using s by fastforce
qed

section \<open>Priorities\<close>

text \<open>
  C35: \<open>Djy_SetEventPrio\<close> on a ready event.  The call returns true, the event has the new
  priority and stands behind the events of that priority (it keeps its place when the priority
  is the old one), and the processor goes to the head of the queue.
\<close>

theorem SetEventPrio_moves:
  assumes K: "kinv s (as @ e # y # bs) ds Q" and e: "e = ecb_at ev"
    and ok: "new_prio < CN_PRIO_SYS_SERVICE" "new_prio \<noteq> 0" and k: "new_prio < pri (ecbs s) (last (y # bs))"
    and able: "\<forall>x \<in> set (as @ e # y # bs). able x s" "able (g_ptEventRunning s) s"
  defines "xs \<equiv> if new_prio = pri (ecbs s) e then as @ e # y # bs
      else prio_insert ((pri (ecbs s))(e := new_prio)) e (as @ y # bs)"
  shows "\<exists>s'. Djy_SetEventPrio ev new_prio s = Some (True, s') \<and> kinv s' xs ds Q \<and>
    pri (ecbs s') = (pri (ecbs s))(e := new_prio) \<and>
    g_ptEventRunning s' = (if outermost s then hd xs else g_ptEventRunning s)"
  using SetEventPrio_ready [OF K e ok k able] unfolding xs_def by (auto simp: switched_def)

theorem SetEventPrio_moves_witness:
  "\<exists>s'. Djy_SetEventPrio 1 200 sample = Some (True, s') \<and> kinv s' [Ecb 3, Ecb 1, Ecb 0] [Ecb 2] sample_blocks \<and>
     g_ptEventRunning s' = Ecb 3"
proof -
  have K: "kinv sample ([] @ Ecb 1 # Ecb 3 # [Ecb 0]) [Ecb 2] sample_blocks"
    using sample_kinv by (simp add: sample_ready_def)
  show ?thesis using SetEventPrio_moves [OF K, of 1 200] by (auto simp: ecb_at_def prio_insert_def ins_by_def)
qed

text \<open>
  C39: \<open>Djy_SetEventPrio\<close> on an event that waits.  Unless the event's status has the bit
  \<open>CN_BLOCK_PRIO_SORT\<close>, the call returns true but the event keeps its current priority and its
  place in every queue.
\<close>

theorem SetEventPrio_blocked_keeps:
  assumes "kinv s xs ds Q" and "unat ev < cfgEventLimit s"
    and "new_prio < CN_PRIO_SYS_SERVICE" "new_prio \<noteq> 0"
    and "sts (ecbs s) (ecb_at ev) \<noteq> CN_STS_EVENT_READY" "\<not> has_flag (sts (ecbs s) (ecb_at ev)) CN_BLOCK_PRIO_SORT"
    and "able (hd xs) s" "able (g_ptEventRunning s) s"
  shows "\<exists>s'. Djy_SetEventPrio ev new_prio s = Some (True, s') \<and> kinv s' xs ds Q \<and>
    pri (ecbs s') = pri (ecbs s)"
  using SetEventPrio_blocked [OF assms] by (auto simp: switched_def)

text \<open>Event 2 of the sample waits for semaphore 0, whose queue is sorted by priority.\<close>

theorem SetEventPrio_blocked_keeps_witness:
  "\<exists>s'. Djy_SetEventPrio 2 10 sample = Some (True, s') \<and> pri (ecbs s') (Ecb 2) = 60"
  using SetEventPrio_blocked_keeps [OF sample_kinv, of 2 10]
  by (auto simp: ecb_at_def sts_def sample_ecb_def has_flag_def sample_ready_def)

section \<open>Delays\<close>

text \<open>
  \<open>Djy_EventDelay\<close> with a time.  The running event leaves the ready queue and stands in the
  delay queue behind every event that is due at the same tick or earlier; the processor goes to
  the next event.
\<close>

lemma EventDelay_enters:
  fixes u :: u32
  assumes K: "kinv s (as @ g_ptEventRunning s # y # bs) ds Q"
    and able: "\<forall>x \<in> set (as @ g_ptEventRunning s # y # bs). able x s"
    and sch: "outermost s" "g_bScheduleEnable s" "u \<noteq> 0"
  shows "\<exists>s'. Djy_EventDelay u s = Some (Block (), s') \<and>
    kinv s' (as @ y # bs)
      (ins_by (\<lambda>y. due (ecbs s) y \<le> g_s64OsTicks s + us_to_ticks s (uint u)) (g_ptEventRunning s) ds) Q \<and>
    g_ptEventRunning s' = hd (as @ [y])"
proof -
  have "hd (as @ y # bs) = hd (as @ [y])" by (cases as) auto
  then show ?thesis using EventDelay_blocks [OF K able sch(2,3)] sch(1) by (auto simp: switched_def)
qed

lemma EventDelay_enters_witness:
  "\<exists>s'. Djy_EventDelay 1000 sample = Some (Block (), s') \<and>
     kinv s' [Ecb 3, Ecb 0] [Ecb 1, Ecb 2] sample_blocks \<and> g_ptEventRunning s' = Ecb 3"
proof -
  have K: "kinv sample ([] @ g_ptEventRunning sample # Ecb 3 # [Ecb 0]) [Ecb 2] sample_blocks"
    using sample_kinv by (simp add: sample_ready_def)
  show ?thesis using EventDelay_enters [OF K, of 1000] by (auto simp: ins_by_def us_to_ticks_def)
qed

end
