(* ===== verification/MutexProps.thy ===== *)
theory MutexProps
  imports MutexOps Samples
begin

text \<open>The properties of the mutexes of \<open>djyos/lock/lock.c\<close>, with two more concrete states.\<close>

text \<open>Event 1 runs with priority 100; event 3, with priority 200, owns every mutex.\<close>

definition owned_ecb :: "nat \<Rightarrow> EventECB" where
  "owned_ecb i = (sample_ecb i)\<lparr>
     multi_next := (if i = 1 then Ecb 3 else if i = 3 then Ecb 0 else if i = 0 then Ecb 1 else Ecb 2),
     multi_previous := (if i = 1 then Ecb 0 else if i = 3 then Ecb 1 else if i = 0 then Ecb 3 else Ecb 2),
     prio_base := (if i = 0 then 250 else if i = 2 then 60 else if i = 3 then 200 else 100),
     prio := (if i = 0 then 250 else if i = 2 then 60 else if i = 3 then 200 else 100)\<rparr>"

definition sample_owned :: kst where
  "sample_owned = sample\<lparr>ecbs := (\<lambda>p. case p of Ecb i \<Rightarrow> owned_ecb i | _ \<Rightarrow> sample_ecb 9),
     mutexes := (\<lambda>_. \<lparr>enable = 1, owner = Ecb 3, mutex_sync = NULL\<rparr>)\<rparr>"

text \<open>Event 1 owns the mutexes and has inherited priority 100; event 2 waits for mutex 0.\<close>

definition waited_ecb :: "nat \<Rightarrow> EventECB" where
  "waited_ecb i = (sample_ecb i)\<lparr>
     sync_head := (if i = 2 then H_Mutex 0 else NULLH),
     event_status := (if i = 2 then CN_STS_WAIT_MUTEX + CN_STS_SYNC_TIMEOUT else CN_STS_EVENT_READY),
     prio_base := (if i = 0 then 250 else if i = 2 then 60 else if i = 1 then 150 else 100)\<rparr>"

definition sample_waited :: kst where
  "sample_waited = sample\<lparr>ecbs := (\<lambda>p. case p of Ecb i \<Rightarrow> waited_ecb i | _ \<Rightarrow> sample_ecb 9),
     semps := (\<lambda>i. (semps sample i)\<lparr>semp_sync := NULL\<rparr>),
     mutexes := (\<lambda>i. \<lparr>enable = 1, owner = Ecb 1, mutex_sync = if i = 0 then Ecb 2 else NULL\<rparr>)\<rparr>"

definition waited_blocks :: "headp \<Rightarrow> eptr list" where
  "waited_blocks q = (if q = H_Mutex 0 then [Ecb 2] else [])"

lemma sample_owned_fields [simp]:
  "cfgEventLimit sample_owned = 4" "cfgEvttLimit sample_owned = 2" "g_ptEventReady sample_owned = Ecb 1"
  "g_ptEventRunning sample_owned = Ecb 1" "g_ptEventDelay sample_owned = Ecb 2" "g_s64OsTicks sample_owned = 3"
  "g_bScheduleEnable sample_owned" "outermost sample_owned" "evtts sample_owned = evtts sample"
  "ecbs sample_owned (Ecb i) = owned_ecb i" "semps sample_owned = semps sample" "s_ptMemSync sample_owned = NULL"
  "mutexes sample_owned j = \<lparr>enable = 1, owner = Ecb 3, mutex_sync = NULL\<rparr>"
  "us_to_ticks sample_owned = us_to_ticks sample" "able (Ecb i) sample_owned \<longleftrightarrow> i < 4"
  "event_id (owned_ecb i) = of_nat i"
  "pri (ecbs sample_owned) (Ecb i) = (if i = 0 then 250 else if i = 2 then 60 else if i = 3 then 200 else 100)"
  "due (ecbs sample_owned) (Ecb i) = (if i = 2 then 5 else 0)"
  using sample_able [of i]
  by (simp_all add: sample_owned_def owned_ecb_def sample_ecb_def outermost_def able_def typed_def us_to_ticks_def
      fun_eq_iff pri_def due_def sample_def)

lemma sample_waited_fields [simp]:
  "cfgEventLimit sample_waited = 4" "cfgEvttLimit sample_waited = 2" "g_ptEventReady sample_waited = Ecb 1"
  "g_ptEventRunning sample_waited = Ecb 1" "g_ptEventDelay sample_waited = Ecb 2"
  "outermost sample_waited" "evtts sample_waited = evtts sample" "nest_asyn_signal sample_waited = 0"
  "ecbs sample_waited (Ecb i) = waited_ecb i" "semp_sync (semps sample_waited j) = NULL" "s_ptMemSync sample_waited = NULL"
  "mutexes sample_waited j = \<lparr>enable = 1, owner = Ecb 1, mutex_sync = if j = 0 then Ecb 2 else NULL\<rparr>"
  "able (Ecb i) sample_waited \<longleftrightarrow> i < 4"
  "pri (ecbs sample_waited) (Ecb i) = (if i = 0 then 250 else if i = 2 then 60 else 100)"
  "prio_base (waited_ecb i) = (if i = 0 then 250 else if i = 2 then 60 else if i = 1 then 150 else 100)"
  using sample_able [of i]
  by (simp_all add: sample_waited_def waited_ecb_def sample_ecb_def outermost_def able_def typed_def pri_def sample_def)

lemmas sample_cells = field_defs owned_ecb_def waited_ecb_def sample_ecb_def

lemma sample_owned_kinv: "kinv sample_owned [Ecb 1, Ecb 3, Ecb 0] [Ecb 2] sample_blocks"
proof -
  have r: "ready sample_owned [Ecb 1, Ecb 3, Ecb 0]"
    by (auto simp: ready_ok_def dring_Cons sample_cells)
  have d: "delay_ok 4 (ecbs sample_owned) (Ecb 2) [Ecb 2]"
    by (simp add: delay_ok_def dring_single sample_cells)
  have q: "if hvalid q sample_owned then block_ok 4 (ecbs sample_owned) q (hdval q sample_owned) (sample_blocks q)
      else sample_blocks q = []" for q
    by (cases q) (auto simp: hvalid_def hdval_def block_ok_def sample_blocks_def dring_single sample_cells sample_evtt_def)
  have "set [Ecb 1, Ecb 3, Ecb 0] \<inter> set [Ecb 2] = {}"
    "\<forall>x \<in> set [Ecb 1, Ecb 3, Ecb 0]. shd (ecbs sample_owned) x = NULLH \<and> sts (ecbs sample_owned) x = CN_STS_EVENT_READY"
    "\<forall>x \<in> set [Ecb 2]. shd (ecbs sample_owned) x = NULLH \<or> x \<in> set (sample_blocks (shd (ecbs sample_owned) x))"
    "\<forall>q. \<forall>x \<in> set (sample_blocks q). has_flag (sts (ecbs sample_owned) x) CN_STS_SYNC_TIMEOUT \<longleftrightarrow> x \<in> set [Ecb 2]"
    by (auto simp: sample_blocks_def sample_cells has_flag_def)
  then show ?thesis unfolding kinv_def using r d q by simp
qed

lemma sample_waited_kinv: "kinv sample_waited [Ecb 1, Ecb 3, Ecb 0] [Ecb 2] waited_blocks"
proof -
  have r: "ready sample_waited [Ecb 1, Ecb 3, Ecb 0]"
    by (auto simp: ready_ok_def dring_Cons sample_cells)
  have d: "delay_ok 4 (ecbs sample_waited) (Ecb 2) [Ecb 2]"
    by (simp add: delay_ok_def dring_single sample_cells)
  have q: "if hvalid q sample_waited then block_ok 4 (ecbs sample_waited) q (hdval q sample_waited) (waited_blocks q)
      else waited_blocks q = []" for q
    by (cases q) (auto simp: hvalid_def hdval_def block_ok_def waited_blocks_def dring_single sample_cells sample_evtt_def)
  have "set [Ecb 1, Ecb 3, Ecb 0] \<inter> set [Ecb 2] = {}"
    "\<forall>x \<in> set [Ecb 1, Ecb 3, Ecb 0]. shd (ecbs sample_waited) x = NULLH \<and> sts (ecbs sample_waited) x = CN_STS_EVENT_READY"
    "\<forall>x \<in> set [Ecb 2]. shd (ecbs sample_waited) x = NULLH \<or> x \<in> set (waited_blocks (shd (ecbs sample_waited) x))"
    "\<forall>q. \<forall>x \<in> set (waited_blocks q). has_flag (sts (ecbs sample_waited) x) CN_STS_SYNC_TIMEOUT \<longleftrightarrow> x \<in> set [Ecb 2]"
    by (auto simp: waited_blocks_def sample_cells has_flag_def)
  then show ?thesis unfolding kinv_def using r d q by simp
qed

text \<open>
  C7: waiting for a mutex, with priority inheritance.  The running event leaves the ready queue
  and stands in the mutex's queue, sorted by priority (and, with a time limit, in the delay
  queue).  The owner, which is ready, gets the priority of the event that waits if that is
  higher, and stands in the ready queue where this priority puts it; nobody else's changes.
\<close>

theorem MutexPend_inherits:
  fixes i :: nat and timeout :: u32
  assumes K: "kinv s (g_ptEventRunning s # ys) ds Q" and o: "outermost s"
    and ys: "ys = as @ own # z # cs" and own: "owner (mutexes s i) = own" "ecb_at (event_id (ecbs s own)) = own"
    and en: "0 < enable (mutexes s i)" and k: "pri (ecbs s) (g_ptEventRunning s) < pri (ecbs s) (last (z # cs))"
    and able: "\<forall>x \<in> set (g_ptEventRunning s # ys). able x s" and sch: "g_bScheduleEnable s" "timeout \<noteq> 0"
  shows "\<exists>s'. Lock_MutexPend (Some i) timeout s = Some (Block (), s') \<and>
    kinv s' (raised (pri (ecbs s)) own (pri (ecbs s) (g_ptEventRunning s)) ys)
      (if timeout = CN_TIMEOUT_FOREVER then ds
       else ins_by (\<lambda>y. due (ecbs s) y \<le> g_s64OsTicks s + us_to_ticks s (uint timeout)) (g_ptEventRunning s) ds)
      (Q(H_Mutex i := ins_by (queue_before CN_BLOCK_PRIO (ecbs s) (g_ptEventRunning s)) (g_ptEventRunning s) (Q (H_Mutex i)))) \<and>
    pri (ecbs s') = raised_pri (pri (ecbs s)) own (pri (ecbs s) (g_ptEventRunning s)) \<and>
    g_ptEventRunning s' = hd (raised (pri (ecbs s)) own (pri (ecbs s) (g_ptEventRunning s)) ys)"
  using MutexPend_block [OF K o ys own en k able sch] o by (auto simp: switched_def)

theorem MutexPend_inherits_witness:
  "\<exists>s'. Lock_MutexPend (Some 0) CN_TIMEOUT_FOREVER sample_owned = Some (Block (), s') \<and>
     kinv s' [Ecb 3, Ecb 0] [Ecb 2] (sample_blocks(H_Mutex 0 := [Ecb 1])) \<and>
     pri (ecbs s') (Ecb 3) = 100 \<and> g_ptEventRunning s' = Ecb 3"
proof -
  have K: "kinv sample_owned (g_ptEventRunning sample_owned # [Ecb 3, Ecb 0]) [Ecb 2] sample_blocks"
    using sample_owned_kinv by simp
  show ?thesis
    using MutexPend_inherits [OF K, where as = "[]" and own = "Ecb 3" and z = "Ecb 0" and cs = "[]" and i = 0 and timeout = CN_TIMEOUT_FOREVER]
    by (auto simp: ecb_at_def raised_def raised_pri_def prio_insert_def ins_by_def sample_blocks_def)
qed

text \<open>
  C8: giving a mutex back while somebody waits.  The first waiter leaves the mutex's queue and the
  delay queue, is the owner, with \<open>enable\<close> 1, and becomes ready; the running event gets its own
  priority back and stands where that puts it; the processor goes to the highest priority.
\<close>

theorem MutexPost_hands_over:
  assumes K: "kinv s (g_ptEventRunning s # y # bs) ds Q" and Q: "Q (H_Mutex i) = e # cs" and o: "outermost s"
    and own: "owner (mutexes s i) = g_ptEventRunning s" "enable (mutexes s i) = 1"
    and k: "pri (ecbs s) e < pri (ecbs s) (last (y # bs))"
      "prio_base (ecbs s (g_ptEventRunning s)) < pri (ecbs s) (last (y # bs))"
    and able: "\<forall>x \<in> insert e (set (g_ptEventRunning s # y # bs)). able x s"
  shows "\<exists>s'. Lock_MutexPost (Some i) s = Some s' \<and>
    kinv s' (handed s e (g_ptEventRunning s # y # bs)) (remove1 e ds) (Q(H_Mutex i := cs)) \<and>
    owner (mutexes s' i) = e \<and> enable (mutexes s' i) = 1 \<and> wakeup_from (ecbs s' e) = CN_STS_WAIT_MUTEX \<and>
    pri (ecbs s') = (pri (ecbs s))(g_ptEventRunning s := prio_base (ecbs s (g_ptEventRunning s))) \<and>
    g_ptEventRunning s' = hd (handed s e (g_ptEventRunning s # y # bs))"
  using MutexPost_hands [OF K Q o own k able] o by (auto simp: switched_def)

theorem MutexPost_hands_over_witness:
  "\<exists>s'. Lock_MutexPost (Some 0) sample_waited = Some s' \<and> kinv s' [Ecb 2, Ecb 3, Ecb 1, Ecb 0] [] (\<lambda>q. []) \<and>
     owner (mutexes s' 0) = Ecb 2 \<and> pri (ecbs s') (Ecb 1) = 150 \<and> g_ptEventRunning s' = Ecb 2"
proof -
  have K: "kinv sample_waited (g_ptEventRunning sample_waited # Ecb 3 # [Ecb 0]) [Ecb 2] waited_blocks"
    using sample_waited_kinv by simp
  have b: "waited_blocks(H_Mutex 0 := []) = (\<lambda>q. [])" by (auto simp: waited_blocks_def)
  show ?thesis
    using MutexPost_hands_over [OF K, of 0 "Ecb 2" "[]"]
    by (auto simp: waited_blocks_def [of "H_Mutex 0"] b handed_def restored_def prio_insert_def ins_by_def)
qed

text \<open>
  C40: giving a mutex back that nobody waits for (any more).  The mutex is free, but the running
  event keeps the priority it has: one it inherited from an event whose wait has timed out stays.
\<close>

theorem MutexPost_keeps_inherited:
  assumes "kinv s xs ds Q" and "nest_asyn_signal s = 0" and "owner (mutexes s i) = g_ptEventRunning s"
    and "enable (mutexes s i) = 1" and "Q (H_Mutex i) = []"
    and "able (g_ptEventRunning s) s" "able (hd xs) s"
  shows "\<exists>s'. Lock_MutexPost (Some i) s = Some s' \<and> kinv s' xs ds Q \<and> pri (ecbs s') = pri (ecbs s) \<and>
    owner (mutexes s' i) = NULL \<and> enable (mutexes s' i) = 0"
  using MutexPost_keeps [OF assms(1-3) _ _ assms(6,7)] assms(4,5) by (auto simp: switched_def)

text \<open>Event 1 of the second state still runs with 100 instead of 150 after giving back mutex 1.\<close>

theorem MutexPost_keeps_inherited_witness:
  "\<exists>s'. Lock_MutexPost (Some 1) sample_waited = Some s' \<and> pri (ecbs s') (Ecb 1) = 100 \<and>
     prio_base (ecbs sample_waited (Ecb 1)) = 150"
proof -
  show ?thesis
    using MutexPost_keeps_inherited [OF sample_waited_kinv, of 1] by (auto simp: waited_blocks_def)
qed

end
