(* ===== verification/MsgQ.thy ===== *)
theory MsgQ
  imports System Bytes
begin

text \<open>
  Message queues, \<open>djyos/msgqueue/msgqueue.c\<close>: a cyclic array of messages of one size, guarded by
  two semaphores, one lamp of \<open>MsgSendSemp\<close> for each free place and one of \<open>MsgRecvSemp\<close> for
  each message.  The state is the kernel's with the queues beside it; a queue is addressed by a
  number, and the two embedded semaphores are control blocks of the kernel, whose numbers do
  not change.  \<open>buf\<close> is the block of bytes it points to; a copy outside it is \<open>None\<close>.  What
  \<open>M_Malloc\<close> answers is an argument of \<open>MsgQ_Create\<close>; the object tree and \<open>free\<close> are
  recorded calls.
\<close>

section \<open>State\<close>

record MsgQueue =
  MsgSendSemp :: nat
  MsgRecvSemp :: nat
  MsgSize :: u32
  MsgUsed :: u32
  ReadOffset :: u32
  msg_buf :: "u8 list"

datatype mqcall = Call_AddTree | Call_AddChild nat | Call_Del nat | Call_Free nat

record mqst =
  kern :: kst
  queues :: "nat \<Rightarrow> MsgQueue"
  s_tMsgQ_Mutex :: nat
  mqcalls :: "mqcall list"

abbreviation (input) "CN_MSGQ_TYPE_MASK \<equiv> (1 :: u32)"
abbreviation (input) "CN_MSGQ_TYPE_PRIO \<equiv> (1 :: u32)"
abbreviation (input) "CN_MSGQ_PRIO_URGENT \<equiv> True"

definition upd_queue :: "nat \<Rightarrow> (MsgQueue \<Rightarrow> MsgQueue) \<Rightarrow> mqst \<Rightarrow> mqst" where
  "upd_queue q f s = s\<lparr>queues := (queues s)(q := f (queues s q))\<rparr>"

definition mq_call :: "mqcall \<Rightarrow> mqst \<Rightarrow> mqst" where
  "mq_call c s = s\<lparr>mqcalls := mqcalls s @ [c]\<rparr>"

section \<open>Operations\<close>

definition ModuleInstall_MsgQ :: "mqst \<Rightarrow> mqst" where
  "ModuleInstall_MsgQ s =
     (let s = mq_call Call_AddTree s
      in s\<lparr>kern := snd (Lock_MutexCreate_s (Some (s_tMsgQ_Mutex s)) (kern s))\<rparr>)"

definition msgq_sems :: "u32 \<Rightarrow> u32 \<Rightarrow> u32 \<Rightarrow> MsgQueue \<Rightarrow> kst \<Rightarrow> kst" where
  "msgq_sems MaxMsgs MsgLength Options m k =
     (let order = (if Options AND CN_MSGQ_TYPE_MASK = CN_MSGQ_TYPE_PRIO then CN_BLOCK_PRIO else CN_BLOCK_FIFO);
          k = snd (Lock_SempCreate_s (Some (MsgSendSemp m)) MaxMsgs MaxMsgs order k)
      in snd (Lock_SempCreate_s (Some (MsgRecvSemp m)) MaxMsgs 0 order k))"

text \<open>The part the two creating functions share, on the queue \<open>q\<close>.\<close>

definition msgq_init :: "nat \<Rightarrow> u32 \<Rightarrow> u32 \<Rightarrow> u32 \<Rightarrow> u8 list \<Rightarrow> mqst \<Rightarrow> mqst" where
  "msgq_init q MaxMsgs MsgLength Options buf s =
     (let s = mq_call (Call_AddChild q) s;
          s = s\<lparr>kern := msgq_sems MaxMsgs MsgLength Options (queues s q) (kern s)\<rparr>
      in upd_queue q (\<lambda>m. m\<lparr>MsgSize := MsgLength, MsgUsed := 0, ReadOffset := 0, msg_buf := buf\<rparr>) s)"

text \<open>\<open>mem\<close>: the block that \<open>M_Malloc\<close> found, as the queue and the bytes behind it.\<close>

definition MsgQ_Create :: "(nat \<times> u8 list) option \<Rightarrow> u32 \<Rightarrow> u32 \<Rightarrow> u32 \<Rightarrow> mqst \<Rightarrow> nat option \<times> mqst" where
  "MsgQ_Create mem MaxMsgs MsgLength Options s = (case mem of
       None \<Rightarrow> (None, s)
     | Some (q, buf) \<Rightarrow> (Some q, msgq_init q MaxMsgs MsgLength Options buf s))"

definition MsgQ_Create_s ::
    "nat option \<Rightarrow> u32 \<Rightarrow> u32 \<Rightarrow> u32 \<Rightarrow> u8 list option \<Rightarrow> mqst \<Rightarrow> nat option \<times> mqst" where
  "MsgQ_Create_s pMsgQ MaxMsgs MsgLength Options buf s = (case (pMsgQ, buf) of
       (Some q, Some b) \<Rightarrow> (Some q, msgq_init q MaxMsgs MsgLength Options b s)
     | _ \<Rightarrow> (None, s))"

text \<open>
  Deleting, from the point where \<open>s_tMsgQ_Mutex\<close> has been taken (or the wait for it has ended;
  the code does not look at the result).  \<open>release\<close>: the block is given back.
\<close>

definition msgq_delete :: "bool \<Rightarrow> nat option \<Rightarrow> mqst \<Rightarrow> (bool \<times> mqst) option" where
  "msgq_delete release pMsgQ s = do {
     (result, s) \<leftarrow> (case pMsgQ of
         None \<Rightarrow> Some (False, s)
       | Some q \<Rightarrow>
           if Lock_SempCheckBlock (Some (MsgSendSemp (queues s q))) (kern s) \<or>
              Lock_SempCheckBlock (Some (MsgRecvSemp (queues s q))) (kern s)
           then Some (False, s)
           else do {
             let s = mq_call (Call_Del q) s;
             (_, k) \<leftarrow> Lock_SempDelete_s (Some (MsgSendSemp (queues s q))) (kern s);
             (_, k) \<leftarrow> Lock_SempDelete_s (Some (MsgRecvSemp (queues s q))) k;
             let s = s\<lparr>kern := k\<rparr>;
             Some (True, if release then mq_call (Call_Free q) s else s) });
     k \<leftarrow> Lock_MutexPost (Some (s_tMsgQ_Mutex s)) (kern s);
     Some (result, s\<lparr>kern := k\<rparr>) }"

definition msgq_del_call :: "bool \<Rightarrow> nat option \<Rightarrow> mqst \<Rightarrow> ((bool, unit) call \<times> mqst) option" where
  "msgq_del_call release pMsgQ s = do {
     (r, k) \<leftarrow> Lock_MutexPend (Some (s_tMsgQ_Mutex s)) CN_TIMEOUT_FOREVER (kern s);
     let s = s\<lparr>kern := k\<rparr>;
     case r of
       Block _ \<Rightarrow> Some (Block (), s)
     | Return _ \<Rightarrow> do { (b, s) \<leftarrow> msgq_delete release pMsgQ s; Some (Return b, s) } }"

definition MsgQ_Delete :: "nat option \<Rightarrow> mqst \<Rightarrow> ((bool, unit) call \<times> mqst) option" where
  "MsgQ_Delete = msgq_del_call True"

definition MsgQ_Delete_s :: "nat option \<Rightarrow> mqst \<Rightarrow> ((bool, unit) call \<times> mqst) option" where
  "MsgQ_Delete_s = msgq_del_call False"

text \<open>Where a new message goes, and the queue with the place taken.\<close>

definition msg_place :: "u32 \<Rightarrow> bool \<Rightarrow> MsgQueue \<Rightarrow> u32 \<times> MsgQueue" where
  "msg_place room priority m =
     (let used = MsgUsed m; m = m\<lparr>MsgUsed := MsgUsed m + 1\<rparr>
      in if priority = CN_MSGQ_PRIO_URGENT
         then let w = (if ReadOffset m = 0 then room - 1 else ReadOffset m - 1) in (w, m\<lparr>ReadOffset := w\<rparr>)
         else let w = used + ReadOffset m in (if w \<ge> room then w - room else w, m))"

text \<open>Sending after a lamp has been got: the atomic section, then the other semaphore.\<close>

definition msg_store :: "u32 \<Rightarrow> bool \<Rightarrow> u8 list \<Rightarrow> u32 \<Rightarrow> MsgQueue \<Rightarrow> MsgQueue option" where
  "msg_store room priority buffer nBytes m = do {
     let (w, m) = msg_place room priority m;
     b \<leftarrow> memcpy (msg_buf m) (unat (w * MsgSize m)) buffer 0 (unat nBytes);
     Some (m\<lparr>msg_buf := b\<rparr>) }"

definition msgq_send :: "nat \<Rightarrow> u8 list \<Rightarrow> u32 \<Rightarrow> bool \<Rightarrow> mqst \<Rightarrow> mqst option" where
  "msgq_send q buffer nBytes priority s = do {
     let room = Lock_SempQueryCapacital (Some (MsgSendSemp (queues s q))) (kern s);
     m \<leftarrow> msg_store room priority buffer nBytes (queues s q);
     let s = upd_queue q (\<lambda>_. m) s;
     k \<leftarrow> Lock_SempPost (Some (MsgRecvSemp (queues s q))) (kern s);
     Some (s\<lparr>kern := k\<rparr>) }"

definition MsgQ_Send :: "nat option \<Rightarrow> u8 list option \<Rightarrow> u32 \<Rightarrow> u32 \<Rightarrow> bool \<Rightarrow> mqst \<Rightarrow>
    ((bool, unit) call \<times> mqst) option" where
  "MsgQ_Send pMsgQ buffer nBytes Timeout priority s = (case (pMsgQ, buffer) of
       (Some q, Some buf) \<Rightarrow>
         if nBytes > MsgSize (queues s q) then Some (Return False, s)
         else do {
           (r, k) \<leftarrow> Lock_SempPend (Some (MsgSendSemp (queues s q))) Timeout (kern s);
           let s = s\<lparr>kern := k\<rparr>;
           case r of
             Block _ \<Rightarrow> Some (Block (), s)
           | Return ok \<Rightarrow>
               if ok then do { s \<leftarrow> msgq_send q buf nBytes priority s; Some (Return True, s) }
               else Some (Return False, s) }
     | _ \<Rightarrow> Some (Return False, s))"

text \<open>The rest of a call that has blocked, when its event runs again.\<close>

definition MsgQ_Send_resume :: "nat \<Rightarrow> u8 list \<Rightarrow> u32 \<Rightarrow> bool \<Rightarrow> mqst \<Rightarrow> (bool \<times> mqst) option" where
  "MsgQ_Send_resume q buffer nBytes priority s = do {
     ok \<leftarrow> pend_resume (kern s);
     if ok then do { s \<leftarrow> msgq_send q buffer nBytes priority s; Some (True, s) } else Some (False, s) }"

definition msg_take :: "u32 \<Rightarrow> u8 list \<Rightarrow> u32 \<Rightarrow> MsgQueue \<Rightarrow> (u8 list \<times> MsgQueue) option" where
  "msg_take room buffer nBytes m = do {
     d \<leftarrow> memcpy buffer 0 (msg_buf m) (unat (ReadOffset m * MsgSize m)) (unat nBytes);
     let m = m\<lparr>MsgUsed := MsgUsed m - 1\<rparr>;
     Some (d, m\<lparr>ReadOffset := if ReadOffset m \<ge> room - 1 then 0 else ReadOffset m + 1\<rparr>) }"

definition msgq_recv :: "nat \<Rightarrow> u8 list \<Rightarrow> u32 \<Rightarrow> mqst \<Rightarrow> (u8 list \<times> mqst) option" where
  "msgq_recv q buffer nBytes s = do {
     let room = Lock_SempQueryCapacital (Some (MsgSendSemp (queues s q))) (kern s);
     (d, m) \<leftarrow> msg_take room buffer nBytes (queues s q);
     let s = upd_queue q (\<lambda>_. m) s;
     k \<leftarrow> Lock_SempPost (Some (MsgSendSemp (queues s q))) (kern s);
     Some (d, s\<lparr>kern := k\<rparr>) }"

text \<open>The result is what the call returns and the caller's buffer.\<close>

definition MsgQ_Receive :: "nat option \<Rightarrow> u8 list option \<Rightarrow> u32 \<Rightarrow> u32 \<Rightarrow> mqst \<Rightarrow>
    ((bool \<times> u8 list option, unit) call \<times> mqst) option" where
  "MsgQ_Receive pMsgQ buffer nBytes Timeout s = (case (pMsgQ, buffer) of
       (Some q, Some buf) \<Rightarrow>
         if nBytes > MsgSize (queues s q) then Some (Return (False, buffer), s)
         else do {
           (r, k) \<leftarrow> Lock_SempPend (Some (MsgRecvSemp (queues s q))) Timeout (kern s);
           let s = s\<lparr>kern := k\<rparr>;
           case r of
             Block _ \<Rightarrow> Some (Block (), s)
           | Return ok \<Rightarrow>
               if ok then do { (d, s) \<leftarrow> msgq_recv q buf nBytes s; Some (Return (True, Some d), s) }
               else Some (Return (False, buffer), s) }
     | _ \<Rightarrow> Some (Return (False, buffer), s))"

definition MsgQ_Receive_resume :: "nat \<Rightarrow> u8 list \<Rightarrow> u32 \<Rightarrow> mqst \<Rightarrow> (bool \<times> u8 list \<times> mqst) option" where
  "MsgQ_Receive_resume q buffer nBytes s = do {
     ok \<leftarrow> pend_resume (kern s);
     if ok then do { (d, s) \<leftarrow> msgq_recv q buffer nBytes s; Some (True, d, s) }
     else Some (False, buffer, s) }"

definition MsgQ_NumMsgs :: "nat option \<Rightarrow> mqst \<Rightarrow> u32" where
  "MsgQ_NumMsgs pMsgQ s = (case pMsgQ of None \<Rightarrow> 0 | Some q \<Rightarrow> MsgUsed (queues s q))"

end
