(* ===== verification/SempService.thy ===== *)
theory SempService
  imports System
begin

text \<open>
  What the components that use semaphores rely on, as a contract, and the proof that the
  kernel's semaphores meet it in every state the kernel can be in.
\<close>

text \<open>
  \<open>lamps\<close>, \<open>limit\<close>: the counters; \<open>waited\<close>: somebody waits; \<open>post\<close>, \<open>pend\<close>: the operations.
\<close>

locale semp_service =
  fixes ok :: "'s \<Rightarrow> bool" and lamps :: "'s \<Rightarrow> nat \<Rightarrow> u32" and limit :: "'s \<Rightarrow> nat \<Rightarrow> u32"
    and waited :: "'s \<Rightarrow> nat \<Rightarrow> bool" and post :: "nat \<Rightarrow> 's \<Rightarrow> 's option"
    and pend :: "nat \<Rightarrow> u32 \<Rightarrow> 's \<Rightarrow> ((bool, unit) call \<times> 's) option"
  assumes post_law: "ok s \<Longrightarrow> \<not> waited s i \<Longrightarrow> \<exists>s'. post i s = Some s' \<and> ok s' \<and> limit s' = limit s \<and>
      waited s' = waited s \<and> lamps s' = (lamps s)(i := if lamps s i < limit s i then lamps s i + 1 else lamps s i)"
    and pend_law: "ok s \<Longrightarrow> lamps s i \<noteq> 0 \<Longrightarrow> \<exists>s'. pend i t s = Some (Return True, s') \<and> ok s' \<and>
      limit s' = limit s \<and> waited s' = waited s \<and> lamps s' = (lamps s)(i := lamps s i - 1)"
    and pend_none: "ok s \<Longrightarrow> lamps s i = 0 \<Longrightarrow> limit s i \<noteq> CN_LIMIT_UINT32 \<Longrightarrow>
      \<exists>s'. pend i 0 s = Some (Return False, s') \<and> ok s' \<and> limit s' = limit s \<and> waited s' = waited s \<and> lamps s' = lamps s"
begin

text \<open>A lamp goes from one semaphore to another, as in a bounded buffer.\<close>

lemma transfer:
  assumes "ok s" and "i \<noteq> j" and "lamps s i \<noteq> 0" and "\<not> waited s j" and "lamps s j < limit s j"
  shows "\<exists>s1 s2. pend i t s = Some (Return True, s1) \<and> post j s1 = Some s2 \<and> ok s2 \<and> limit s1 = limit s \<and>
    limit s2 = limit s \<and> waited s2 = waited s \<and> lamps s2 = (lamps s)(i := lamps s i - 1, j := lamps s j + 1)"
proof -
  from pend_law [OF assms(1,3)] obtain s1 where s1: "pend i t s = Some (Return True, s1)" "ok s1"
    "limit s1 = limit s" "waited s1 = waited s" "lamps s1 = (lamps s)(i := lamps s i - 1)" by blast
  have "\<not> waited s1 j" using s1(4) assms(4) by simp
  from post_law [OF s1(2) this] show ?thesis using s1 assms(2,5) by (auto simp: fun_upd_twist)
qed

lemma conserved:
  assumes "ok s" and "i \<noteq> j" and "lamps s i \<noteq> 0" and "\<not> waited s j" and "lamps s j < limit s j"
    and "pend i t s = Some (Return True, s1)" and "post j s1 = Some s2"
  shows "unat (lamps s2 i) + unat (lamps s2 j) = unat (lamps s i) + unat (lamps s j)"
proof -
  have "lamps s2 = (lamps s)(i := lamps s i - 1, j := lamps s j + 1)"
    using transfer [OF assms(1-5), of t] assms(6,7) by auto
  moreover have "unat (lamps s i - 1) = unat (lamps s i) - 1" "0 < unat (lamps s i)"
    using assms(3) by (simp_all add: unat_minus_one unat_gt_0)
  moreover have "unat (lamps s j + 1) = unat (lamps s j) + 1"
    using assms(5) unsigned_less [of "limit s j", where 'a = nat]
    by (simp add: unat_word_ariths word_less_nat_alt)
  ultimately show ?thesis using assms(2) by simp
qed

end

lemma semp_waited: "kinv s xs ds Q \<Longrightarrow> Lock_SempCheckBlock (Some i) s \<longleftrightarrow> Q (H_Semp i) \<noteq> []"
  using semp_head [of s xs ds Q i] block_head_valid [of s xs ds Q "H_Semp i"]
  by (cases "Q (H_Semp i)") (auto simp: Lock_SempCheckBlock_def dest: vptrD)

lemma sys_keep:
  assumes S: "sys idle s xs ds Q" and "switched s s' xs ds Q" and "pri (ecbs s') = pri (ecbs s)"
  shows "kernel_ok idle s'"
  using sys_switched [OF S assms(2) subset_refl sysD(5) [OF S] sys_pri [OF S subset_refl assms(3)]]
  by (auto intro: kernel_okI)

interpretation ks: semp_service "kernel_ok idle" "\<lambda>s i. lamp_counter (semps s i)" "\<lambda>s i. lamps_limit (semps s i)"
  "\<lambda>s i. Lock_SempCheckBlock (Some i) s" "\<lambda>i. Lock_SempPost (Some i)" "\<lambda>i. Lock_SempPend (Some i)"
proof unfold_locales
  fix s i t
  assume "kernel_ok idle s"
  then obtain xs ds Q where S: "sys idle s xs ds Q" by (auto simp: kernel_ok_def)
  note D = sysD [OF S]
  show "\<exists>s'. Lock_SempPost (Some i) s = Some s' \<and> kernel_ok idle s' \<and>
      (\<lambda>i. lamps_limit (semps s' i)) = (\<lambda>i. lamps_limit (semps s i)) \<and>
      (\<lambda>i. Lock_SempCheckBlock (Some i) s') = (\<lambda>i. Lock_SempCheckBlock (Some i) s) \<and>
      (\<lambda>i. lamp_counter (semps s' i)) = (\<lambda>i. lamp_counter (semps s i))
        (i := if lamp_counter (semps s i) < lamps_limit (semps s i) then lamp_counter (semps s i) + 1
              else lamp_counter (semps s i))"
    if "\<not> Lock_SempCheckBlock (Some i) s"
  proof -
    have "Q (H_Semp i) = []" using that semp_waited [OF D(1)] by simp
    from SempPost_count [OF D(1) this D(8,7)] show ?thesis
      using sys_keep [OF S] by (fastforce simp: lamps_after_post_def Lock_SempCheckBlock_def fun_eq_iff)
  qed
  show "\<exists>s'. Lock_SempPend (Some i) t s = Some (Return True, s') \<and> kernel_ok idle s' \<and>
      (\<lambda>i. lamps_limit (semps s' i)) = (\<lambda>i. lamps_limit (semps s i)) \<and>
      (\<lambda>i. Lock_SempCheckBlock (Some i) s') = (\<lambda>i. Lock_SempCheckBlock (Some i) s) \<and>
      (\<lambda>i. lamp_counter (semps s' i)) = (\<lambda>i. lamp_counter (semps s i))(i := lamp_counter (semps s i) - 1)"
    if "lamp_counter (semps s i) \<noteq> 0"
    using SempPend_now [OF D(1,7,8), of i t] that sys_keep [OF S]
    by (fastforce simp: Lock_SempCheckBlock_def fun_eq_iff word_neq_0_conv)
  show "\<exists>s'. Lock_SempPend (Some i) 0 s = Some (Return False, s') \<and> kernel_ok idle s' \<and>
      (\<lambda>i. lamps_limit (semps s' i)) = (\<lambda>i. lamps_limit (semps s i)) \<and>
      (\<lambda>i. Lock_SempCheckBlock (Some i) s') = (\<lambda>i. Lock_SempCheckBlock (Some i) s) \<and>
      (\<lambda>i. lamp_counter (semps s' i)) = (\<lambda>i. lamp_counter (semps s i))"
    if "lamp_counter (semps s i) = 0" "lamps_limit (semps s i) \<noteq> CN_LIMIT_UINT32"
    using SempPend_now [OF D(1,7,8), of i 0] that sys_keep [OF S]
    by (fastforce simp: Lock_SempCheckBlock_def fun_eq_iff)
qed

text \<open>A semaphore nobody waits for can be initialised anew.\<close>

lemma kernel_ok_init_semp:
  assumes ok: "kernel_ok idle s" and w: "\<not> Lock_SempCheckBlock (Some i) s"
  shows "kernel_ok idle (init_semp i l n ord s)"
proof -
  obtain xs ds Q where S: "sys idle s xs ds Q" using ok by (auto simp: kernel_ok_def)
  let ?s = "init_semp i l n ord s"
  have f: "ecbs ?s = ecbs s" "g_ptEventRunning ?s = g_ptEventRunning s" "outermost ?s = outermost s"
    "g_bScheduleEnable ?s = g_bScheduleEnable s" "able x ?s = able x s" for x
    by (simp_all add: init_semp_def kcall_out_def upd_semp_def outermost_def able_def typed_def)
  have "semp_sync (semps s i) = NULL" using w by (simp add: Lock_SempCheckBlock_def)
  then have "qview ?s = qview s"
    by (auto simp: qview_def init_semp_def kcall_out_def upd_semp_def hdval_def hvalid_def fun_eq_iff split: headp.split)
  then have "kinv ?s xs ds Q" using sysD(1) [OF S] kinv_view by blast
  then have "sys idle ?s xs ds Q" using S by (simp add: sys_def f)
  then show ?thesis by (rule kernel_okI)
qed

end
