(* ===== verification/MsgQProps.thy ===== *)
theory MsgQProps
  imports MsgQ SempService SystemProps
begin

text \<open>
  The message queue refines a list of messages: the cyclic array is read from \<open>ReadOffset\<close> on.
  Then the lamps of the two semaphores, through the contract of a semaphore service that the
  kernel's semaphores meet.
\<close>

section \<open>The array of messages\<close>

definition slot :: "nat \<Rightarrow> u8 list \<Rightarrow> nat \<Rightarrow> u8 list" where
  "slot z b j = take z (drop (j * z) b)"

text \<open>
  The bound on the capacity is what \<open>used + ReadOffset\<close> needs in 32 bits; the block has room
  for all messages.
\<close>

definition msg_ok :: "u32 \<Rightarrow> MsgQueue \<Rightarrow> bool" where
  "msg_ok cap m \<longleftrightarrow> 2 * unat cap \<le> 2 ^ 32 \<and> unat cap * unat (MsgSize m) < 2 ^ 32 \<and>
     length (msg_buf m) = unat cap * unat (MsgSize m) \<and> ReadOffset m < cap \<and> MsgUsed m \<le> cap"

definition msg_at :: "u32 \<Rightarrow> MsgQueue \<Rightarrow> nat \<Rightarrow> u8 list" where
  "msg_at cap m i = slot (unat (MsgSize m)) (msg_buf m) ((unat (ReadOffset m) + i) mod unat cap)"

definition msgs :: "u32 \<Rightarrow> MsgQueue \<Rightarrow> u8 list list" where
  "msgs cap m = map (msg_at cap m) [0 ..< unat (MsgUsed m)]"

lemma length_msgs [simp]: "length (msgs cap m) = unat (MsgUsed m)"
  by (simp add: msgs_def)

lemma slot_end: "j < c \<Longrightarrow> j * z + z \<le> c * (z :: nat)"
  using mult_le_mono1 [of "Suc j" c z] by simp

lemma length_slot: "length b = c * z \<Longrightarrow> j < c \<Longrightarrow> length (slot z b j) = z"
  using slot_end [of j c z] by (simp add: slot_def)

lemma slot_memcpy:
  assumes "length b = c * z" and "w < c" and "n \<le> z" and "n \<le> length d"
  shows "\<exists>b'. memcpy b (w * z) d 0 n = Some b' \<and> length b' = length b \<and>
    (\<forall>j < c. slot z b' j = (if j = w then take n d @ drop n (slot z b w) else slot z b j))"
proof -
  have w: "w * z + n \<le> length b" using slot_end [OF assms(2), of z] assms(1,3) by simp
  then obtain b' where b': "memcpy b (w * z) d 0 n = Some b'" using assms(4) by (simp add: memcpy_Some)
  note l = memcpy_length [OF b']
  have "slot z b' j = (if j = w then take n d @ drop n (slot z b w) else slot z b j)" if j: "j < c" for j
  proof (rule nth_equalityI)
    show "length (slot z b' j) = length (if j = w then take n d @ drop n (slot z b w) else slot z b j)"
      using length_slot [of b' c z j] length_slot [of b c z] j assms l by auto
    fix k assume "k < length (slot z b' j)"
    then have k: "k < z" using length_slot [of b' c z j] l assms(1) j by simp
    have p: "j * z + k < length b" using slot_end [OF j, of z] k assms(1) by simp
    have d: "j * z + k < w * z" if "j < w" using slot_end [OF that, of z] k by simp
    have e: "w * z + n \<le> j * z + k" if "w < j" using slot_end [OF that, of z] k assms(3) by simp
    have "slot z b' j ! k = b' ! (j * z + k)" using k p l by (simp add: slot_def)
    also have "\<dots> = (if w * z \<le> j * z + k \<and> j * z + k < w * z + n then d ! (j * z + k - w * z) else b ! (j * z + k))"
      using memcpy_nth [OF b' p] by simp
    also have "\<dots> = (if j = w then take n d @ drop n (slot z b w) else slot z b j) ! k"
      using k p d e assms j by (cases j w rule: linorder_cases) (auto simp: slot_def nth_append)
    finally show "slot z b' j ! k = (if j = w then take n d @ drop n (slot z b w) else slot z b j) ! k" .
  qed
  then show ?thesis using b' l by blast
qed

lemma msg_okD:
  assumes "msg_ok cap m"
  shows "0 < unat cap" "2 * unat cap \<le> 2 ^ 32" "length (msg_buf m) = unat cap * unat (MsgSize m)"
    "unat (ReadOffset m) < unat cap" "unat (MsgUsed m) \<le> unat cap"
    "w < cap \<Longrightarrow> unat (w * MsgSize m) = unat w * unat (MsgSize m)"
proof -
  show *: "0 < unat cap" "2 * unat cap \<le> 2 ^ 32" "length (msg_buf m) = unat cap * unat (MsgSize m)"
    "unat (ReadOffset m) < unat cap" "unat (MsgUsed m) \<le> unat cap"
    using assms by (auto simp: msg_ok_def u32_le)
  assume "w < cap"
  then have "unat w \<le> unat cap" by (simp add: u32_le)
  then have "unat w * unat (MsgSize m) \<le> unat cap * unat (MsgSize m)" by (rule mult_le_mono1)
  also have "\<dots> < 2 ^ 32" using assms by (simp add: msg_ok_def)
  finally show "unat (w * MsgSize m) = unat w * unat (MsgSize m)"
    by (simp add: unat_word_ariths)
qed

lemma length_msg_at: "msg_ok cap m \<Longrightarrow> length (msg_at cap m i) = unat (MsgSize m)"
  using length_slot [of "msg_buf m" "unat cap" "unat (MsgSize m)" "(unat (ReadOffset m) + i) mod unat cap"]
    msg_okD(1,3) [of cap m] by (simp add: msg_at_def)

text \<open>Storing in place \<open>w\<close>, whatever the offsets are afterwards.\<close>

lemma store_at:
  assumes ok: "msg_ok cap m" and n: "unat n \<le> unat (MsgSize m)" "unat n \<le> length buffer" and w: "w < cap"
  shows "\<exists>b. memcpy (msg_buf m) (unat (w * MsgSize m)) buffer 0 (unat n) = Some b \<and> length b = length (msg_buf m) \<and>
    (\<forall>j < unat cap. slot (unat (MsgSize m)) b j = (if j = unat w
       then take (unat n) buffer @ drop (unat n) (slot (unat (MsgSize m)) (msg_buf m) (unat w))
       else slot (unat (MsgSize m)) (msg_buf m) j))"
  using slot_memcpy [OF msg_okD(3) [OF ok] _ n, of "unat w"] w msg_okD(6) [OF ok w] by (simp add: u32_le)

lemma msg_store_normal:
  assumes ok: "msg_ok cap m" and used: "MsgUsed m < cap"
    and n: "unat n \<le> unat (MsgSize m)" "unat n \<le> length buffer"
  shows "\<exists>m'. msg_store cap False buffer n m = Some m' \<and> msg_ok cap m' \<and> MsgSize m' = MsgSize m \<and>
    MsgUsed m' = MsgUsed m + 1 \<and> MsgSendSemp m' = MsgSendSemp m \<and> MsgRecvSemp m' = MsgRecvSemp m \<and>
    msgs cap m' = msgs cap m @ [take (unat n) buffer @ drop (unat n) (msg_at cap m (unat (MsgUsed m)))]"
proof -
  note M = msg_okD [OF ok]
  define w where "w = (if MsgUsed m + ReadOffset m \<ge> cap then MsgUsed m + ReadOffset m - cap else MsgUsed m + ReadOffset m)"
  have used': "unat (MsgUsed m) < unat cap" using used by (simp add: u32_le)
  have uw: "unat w = (unat (ReadOffset m) + unat (MsgUsed m)) mod unat cap"
  proof -
    have "unat (MsgUsed m + ReadOffset m) = unat (MsgUsed m) + unat (ReadOffset m)"
      using M used' by (intro u32_add) simp
    then show ?thesis using M used' by (simp add: w_def mod_once u32_le u32_sub add.commute)
  qed
  then have w: "w < cap" using M(1) by (simp add: u32_le)
  from store_at [OF ok n w] obtain b where b: "memcpy (msg_buf m) (unat (w * MsgSize m)) buffer 0 (unat n) = Some b"
    "length b = length (msg_buf m)" "\<And>j. j < unat cap \<Longrightarrow> slot (unat (MsgSize m)) b j = (if j = unat w
       then take (unat n) buffer @ drop (unat n) (slot (unat (MsgSize m)) (msg_buf m) (unat w))
       else slot (unat (MsgSize m)) (msg_buf m) j)" by blast
  define m' where "m' = m\<lparr>MsgUsed := MsgUsed m + 1, msg_buf := b\<rparr>"
  have u1: "unat (MsgUsed m + 1) = Suc (unat (MsgUsed m))" using used' M(2) u32_add [of "MsgUsed m" 1] by simp
  have "msg_place cap False m = (w, m\<lparr>MsgUsed := MsgUsed m + 1\<rparr>)" by (simp add: msg_place_def w_def Let_def)
  then have "msg_store cap False buffer n m = Some m'" using b(1) by (simp add: msg_store_def m'_def)
  moreover have "msg_ok cap m'" using ok b(2) used' u1 by (simp add: msg_ok_def m'_def u32_le)
  moreover have "msg_at cap m' i = msg_at cap m i" if "i < unat (MsgUsed m)" for i
  proof -
    have "(unat (ReadOffset m) + i) mod unat cap \<noteq> unat w"
      using that used' M(1,4) by (auto simp: uw mod_once)
    then show ?thesis using b(3) M(1) by (simp add: msg_at_def m'_def)
  qed
  moreover have "msg_at cap m' (unat (MsgUsed m)) = take (unat n) buffer @ drop (unat n) (msg_at cap m (unat (MsgUsed m)))"
    using b(3) M(1) by (simp add: msg_at_def m'_def uw)
  ultimately show ?thesis using u1 by (auto simp: msgs_def m'_def)
qed

lemma msg_store_urgent:
  assumes ok: "msg_ok cap m" and used: "MsgUsed m < cap"
    and n: "unat n \<le> unat (MsgSize m)" "unat n \<le> length buffer"
  shows "\<exists>m'. msg_store cap True buffer n m = Some m' \<and> msg_ok cap m' \<and> MsgSize m' = MsgSize m \<and>
    MsgUsed m' = MsgUsed m + 1 \<and> MsgSendSemp m' = MsgSendSemp m \<and> MsgRecvSemp m' = MsgRecvSemp m \<and>
    msgs cap m' = (take (unat n) buffer @ drop (unat n) (msg_at cap m (unat cap - 1))) # msgs cap m"
proof -
  note M = msg_okD [OF ok]
  define w where "w = (if ReadOffset m = 0 then cap - 1 else ReadOffset m - 1)"
  have used': "unat (MsgUsed m) < unat cap" using used by (simp add: u32_le)
  have uw: "unat w = (unat (ReadOffset m) + (unat cap - 1)) mod unat cap"
  proof (cases "ReadOffset m = 0")
    case True
    then show ?thesis using M(1) u32_sub [of 1 cap] by (simp add: w_def u32_le)
  next
    case False
    then have r: "0 < unat (ReadOffset m)" by (simp add: unat_gt_0)
    then have "unat w = unat (ReadOffset m) - 1" using False u32_sub [of 1 "ReadOffset m"] by (simp add: w_def u32_le)
    moreover have "(unat (ReadOffset m) + (unat cap - 1)) mod unat cap = unat (ReadOffset m) - 1"
      using r M(1,4) by (subst mod_once) auto
    ultimately show ?thesis by simp
  qed
  then have w: "w < cap" using M(1) by (simp add: u32_le)
  from store_at [OF ok n w] obtain b where b: "memcpy (msg_buf m) (unat (w * MsgSize m)) buffer 0 (unat n) = Some b"
    "length b = length (msg_buf m)" "\<And>j. j < unat cap \<Longrightarrow> slot (unat (MsgSize m)) b j = (if j = unat w
       then take (unat n) buffer @ drop (unat n) (slot (unat (MsgSize m)) (msg_buf m) (unat w))
       else slot (unat (MsgSize m)) (msg_buf m) j)" by blast
  define m' where "m' = m\<lparr>MsgUsed := MsgUsed m + 1, ReadOffset := w, msg_buf := b\<rparr>"
  have u1: "unat (MsgUsed m + 1) = Suc (unat (MsgUsed m))" using used' M(2) u32_add [of "MsgUsed m" 1] by simp
  have "msg_place cap True m = (w, m\<lparr>MsgUsed := MsgUsed m + 1, ReadOffset := w\<rparr>)"
    by (simp add: msg_place_def w_def Let_def)
  then have "msg_store cap True buffer n m = Some m'" using b(1) by (simp add: msg_store_def m'_def)
  moreover have "msg_ok cap m'" using ok b(2) used' u1 w by (simp add: msg_ok_def m'_def u32_le)
  moreover have "msg_at cap m' (Suc i) = msg_at cap m i" if "i < unat (MsgUsed m)" for i
  proof -
    have "(unat w + Suc i) mod unat cap = (unat (ReadOffset m) + (unat cap - 1) + Suc i) mod unat cap"
      unfolding uw by (rule mod_add_left_eq)
    also have "\<dots> = (unat (ReadOffset m) + i + unat cap) mod unat cap"
      using M(1) by (intro arg_cong2 [where f = "(mod)"]) auto
    finally have "(unat w + Suc i) mod unat cap = (unat (ReadOffset m) + i) mod unat cap" by simp
    moreover have "(unat (ReadOffset m) + i) mod unat cap \<noteq> unat w"
      unfolding uw using that used' M(1,4) by (auto simp: mod_once)
    ultimately show ?thesis using b(3) M(1) by (simp add: msg_at_def m'_def)
  qed
  moreover have "msg_at cap m' 0 = take (unat n) buffer @ drop (unat n) (msg_at cap m (unat cap - 1))"
    using b(3) M(1) w uw by (simp add: msg_at_def m'_def u32_le)
  ultimately show ?thesis using u1 by (auto simp: msgs_def m'_def upt_conv_Cons map_Suc_upt [symmetric] simp del: upt_Suc)
qed

lemma msg_take_first:
  assumes ok: "msg_ok cap m" and used: "MsgUsed m \<noteq> 0"
    and n: "unat n \<le> unat (MsgSize m)" "unat n \<le> length buffer"
  shows "\<exists>m'. msg_take cap buffer n m = Some (take (unat n) (hd (msgs cap m)) @ drop (unat n) buffer, m') \<and>
    msg_ok cap m' \<and> MsgSize m' = MsgSize m \<and> MsgUsed m' = MsgUsed m - 1 \<and>
    MsgSendSemp m' = MsgSendSemp m \<and> MsgRecvSemp m' = MsgRecvSemp m \<and> msgs cap m' = tl (msgs cap m)"
proof -
  note M = msg_okD [OF ok]
  let ?z = "unat (MsgSize m)" and ?r = "unat (ReadOffset m)"
  have used': "0 < unat (MsgUsed m)" using used by (simp add: unat_gt_0)
  have u1: "unat (MsgUsed m - 1) = unat (MsgUsed m) - 1" using used' u32_sub [of 1 "MsgUsed m"] by (simp add: u32_le)
  have rc: "ReadOffset m < cap" using ok by (simp add: msg_ok_def)
  have off: "unat (ReadOffset m * MsgSize m) = ?r * ?z" using M(6) [OF rc] .
  have "memcpy buffer 0 (msg_buf m) (?r * ?z) (unat n) = Some (take (unat n) (drop (?r * ?z) (msg_buf m)) @ drop (unat n) buffer)"
    using slot_end [OF M(4), of ?z] M(3) n by (subst memcpy_Some) auto
  moreover have "hd (msgs cap m) = slot ?z (msg_buf m) ?r"
    using used' M(4) by (simp add: msgs_def msg_at_def upt_conv_Cons)
  then have "take (unat n) (hd (msgs cap m)) = take (unat n) (drop (?r * ?z) (msg_buf m))"
    using n by (simp add: slot_def min_absorb1)
  moreover define m' where "m' = m\<lparr>MsgUsed := MsgUsed m - 1, ReadOffset := if ReadOffset m \<ge> cap - 1 then 0 else ReadOffset m + 1\<rparr>"
  ultimately have "msg_take cap buffer n m = Some (take (unat n) (hd (msgs cap m)) @ drop (unat n) buffer, m')"
    by (simp add: msg_take_def off Let_def)
  moreover have r': "unat (ReadOffset m') = Suc ?r mod unat cap"
  proof -
    have c1: "unat (cap - 1) = unat cap - 1" using M(1) u32_sub [of 1 cap] by (simp add: u32_le)
    have "unat (ReadOffset m + 1) = Suc ?r" using M(2,4) u32_add [of "ReadOffset m" 1] by simp
    then show ?thesis using M(1,4) c1 by (auto simp: m'_def u32_le mod_if)
  qed
  moreover have "msg_ok cap m'" using ok u1 r' M(1,5) by (simp add: msg_ok_def m'_def u32_le)
  moreover have i: "msg_at cap m' i = msg_at cap m (Suc i)" for i
    unfolding msg_at_def r' by (simp add: m'_def mod_simps)
  have "unat (MsgUsed m') = unat (MsgUsed m) - 1" using u1 by (simp add: m'_def)
  then have "msgs cap m' = tl (msgs cap m)"
    using used' i by (intro nth_equalityI) (simp_all add: msgs_def nth_tl)
  ultimately show ?thesis by (auto simp: m'_def)
qed

section \<open>The queue as a whole\<close>

text \<open>
  A queue at rest: no call is between its two semaphores and nobody waits.  The lamps count the
  free places and the messages.
\<close>

definition msg_room :: "mqst \<Rightarrow> nat \<Rightarrow> u32" where
  "msg_room s q = lamps_limit (semps (kern s) (MsgSendSemp (queues s q)))"

definition contents :: "mqst \<Rightarrow> nat \<Rightarrow> u8 list list" where
  "contents s q = msgs (msg_room s q) (queues s q)"

definition mq_ok :: "eptr \<Rightarrow> nat \<Rightarrow> mqst \<Rightarrow> bool" where
  "mq_ok idle q s \<longleftrightarrow> (let m = queues s q; snd = MsgSendSemp m; rcv = MsgRecvSemp m in
     kernel_ok idle (kern s) \<and> snd \<noteq> rcv \<and> msg_ok (msg_room s q) m \<and>
     lamps_limit (semps (kern s) rcv) = msg_room s q \<and>
     lamp_counter (semps (kern s) snd) = msg_room s q - MsgUsed m \<and> lamp_counter (semps (kern s) rcv) = MsgUsed m \<and>
     \<not> Lock_SempCheckBlock (Some snd) (kern s) \<and> \<not> Lock_SempCheckBlock (Some rcv) (kern s))"

lemma mq_okD:
  assumes "mq_ok idle q s"
  shows "kernel_ok idle (kern s)" and "MsgSendSemp (queues s q) \<noteq> MsgRecvSemp (queues s q)"
    and "msg_ok (msg_room s q) (queues s q)"
    and "lamps_limit (semps (kern s) (MsgRecvSemp (queues s q))) = msg_room s q"
    and "lamp_counter (semps (kern s) (MsgSendSemp (queues s q))) = msg_room s q - MsgUsed (queues s q)"
    and "lamp_counter (semps (kern s) (MsgRecvSemp (queues s q))) = MsgUsed (queues s q)"
    and "\<not> Lock_SempCheckBlock (Some (MsgSendSemp (queues s q))) (kern s)"
    and "\<not> Lock_SempCheckBlock (Some (MsgRecvSemp (queues s q))) (kern s)"
    and "msg_room s q \<noteq> CN_LIMIT_UINT32" and "MsgUsed (queues s q) \<le> msg_room s q" and "0 < msg_room s q"
proof -
  show "kernel_ok idle (kern s)" "MsgSendSemp (queues s q) \<noteq> MsgRecvSemp (queues s q)"
    and ok: "msg_ok (msg_room s q) (queues s q)"
    and "lamps_limit (semps (kern s) (MsgRecvSemp (queues s q))) = msg_room s q"
    "lamp_counter (semps (kern s) (MsgSendSemp (queues s q))) = msg_room s q - MsgUsed (queues s q)"
    "lamp_counter (semps (kern s) (MsgRecvSemp (queues s q))) = MsgUsed (queues s q)"
    "\<not> Lock_SempCheckBlock (Some (MsgSendSemp (queues s q))) (kern s)"
    "\<not> Lock_SempCheckBlock (Some (MsgRecvSemp (queues s q))) (kern s)"
    using assms by (simp_all add: mq_ok_def Let_def)
  note M = msg_okD [OF ok]
  show "msg_room s q \<noteq> CN_LIMIT_UINT32" using M(2) by auto
  show "MsgUsed (queues s q) \<le> msg_room s q" "0 < msg_room s q" using M(1,5) by (simp_all add: u32_le)
qed

text \<open>What both calls do once they have their lamp, in terms of the queue's data.\<close>

lemma mq_ok_after:
  assumes ok: "mq_ok idle q s" and m': "msg_ok (msg_room s q) m'" "MsgSendSemp m' = MsgSendSemp (queues s q)"
      "MsgRecvSemp m' = MsgRecvSemp (queues s q)"
    and k: "kernel_ok idle k" "(\<lambda>i. lamps_limit (semps k i)) = (\<lambda>i. lamps_limit (semps (kern s) i))"
      "(\<lambda>i. Lock_SempCheckBlock (Some i) k) = (\<lambda>i. Lock_SempCheckBlock (Some i) (kern s))"
    and l: "lamp_counter (semps k (MsgSendSemp m')) = msg_room s q - MsgUsed m'" "lamp_counter (semps k (MsgRecvSemp m')) = MsgUsed m'"
  shows "mq_ok idle q ((upd_queue q (\<lambda>_. m') s)\<lparr>kern := k\<rparr>) \<and>
    contents ((upd_queue q (\<lambda>_. m') s)\<lparr>kern := k\<rparr>) q = msgs (msg_room s q) m'"
proof -
  note q = mq_okD [OF ok]
  have lim: "lamps_limit (semps k i) = lamps_limit (semps (kern s) i)" for i using fun_cong [OF k(2)] .
  have wt: "Lock_SempCheckBlock (Some i) k = Lock_SempCheckBlock (Some i) (kern s)" for i using fun_cong [OF k(3)] .
  have "msg_room ((upd_queue q (\<lambda>_. m') s)\<lparr>kern := k\<rparr>) q = msg_room s q"
    by (simp add: msg_room_def upd_queue_def m'(2) lim)
  then show ?thesis
    using q(2,4,7,8) m' k(1) l by (simp add: mq_ok_def contents_def upd_queue_def Let_def lim wt)
qed

lemma Send_stores:
  assumes ok: "mq_ok idle q s" and used: "MsgUsed (queues s q) < msg_room s q"
    and n: "unat n \<le> unat (MsgSize (queues s q))" "unat n \<le> length buffer"
  shows "\<exists>s'. MsgQ_Send (Some q) (Some buffer) n t urgent s = Some (Return True, s') \<and> mq_ok idle q s' \<and>
    (let m = queues s q; old = (if urgent then unat (msg_room s q) - 1 else unat (MsgUsed m));
         new = take (unat n) buffer @ drop (unat n) (msg_at (msg_room s q) m old)
     in contents s' q = (if urgent then new # contents s q else contents s q @ [new]))"
proof -
  let ?m = "queues s q" and ?c = "msg_room s q"
  note q = mq_okD [OF ok]
  define new where "new = take (unat n) buffer @ drop (unat n) (msg_at ?c ?m (if urgent then unat ?c - 1 else unat (MsgUsed ?m)))"
  obtain m' where m': "msg_store ?c urgent buffer n ?m = Some m'" "msg_ok ?c m'" "MsgUsed m' = MsgUsed ?m + 1"
    "MsgSendSemp m' = MsgSendSemp ?m" "MsgRecvSemp m' = MsgRecvSemp ?m"
    "msgs ?c m' = (if urgent then new # msgs ?c ?m else msgs ?c ?m @ [new])"
  proof (cases urgent)
    case True
    from msg_store_urgent [OF q(3) used n] show ?thesis using that True unfolding new_def by auto
  next
    case False
    from msg_store_normal [OF q(3) used n] show ?thesis using that False unfolding new_def by auto
  qed
  have l: "lamp_counter (semps (kern s) (MsgSendSemp ?m)) \<noteq> 0"
    "lamp_counter (semps (kern s) (MsgRecvSemp ?m)) < lamps_limit (semps (kern s) (MsgRecvSemp ?m))"
    using used q(4-6) by auto
  from ks.transfer [OF q(1,2) l(1) q(8) l(2), of t] obtain k1 k2 where
    k: "Lock_SempPend (Some (MsgSendSemp ?m)) t (kern s) = Some (Return True, k1)"
       "Lock_SempPost (Some (MsgRecvSemp ?m)) k1 = Some k2" "kernel_ok idle k2"
       "(\<lambda>i. lamps_limit (semps k1 i)) = (\<lambda>i. lamps_limit (semps (kern s) i))"
       "(\<lambda>i. lamps_limit (semps k2 i)) = (\<lambda>i. lamps_limit (semps (kern s) i))"
       "(\<lambda>i. Lock_SempCheckBlock (Some i) k2) = (\<lambda>i. Lock_SempCheckBlock (Some i) (kern s))"
       "(\<lambda>i. lamp_counter (semps k2 i)) = (\<lambda>i. lamp_counter (semps (kern s) i))
          (MsgSendSemp ?m := lamp_counter (semps (kern s) (MsgSendSemp ?m)) - 1,
           MsgRecvSemp ?m := lamp_counter (semps (kern s) (MsgRecvSemp ?m)) + 1)" by blast
  define s' where "s' = (upd_queue q (\<lambda>_. m') s)\<lparr>kern := k2\<rparr>"
  have "lamps_limit (semps k1 (MsgSendSemp ?m)) = ?c" using fun_cong [OF k(4)] by (simp add: msg_room_def)
  then have "MsgQ_Send (Some q) (Some buffer) n t urgent s = Some (Return True, s')"
    using k(1,2) m'(1,5) n(1)
    by (simp add: MsgQ_Send_def msgq_send_def Lock_SempQueryCapacital_def upd_queue_def s'_def u32_le Let_def)
  moreover have "mq_ok idle q s' \<and> contents s' q = msgs ?c m'" unfolding s'_def
    by (rule mq_ok_after [OF ok m'(2,4,5) k(3,5,6)])
      (use fun_cong [OF k(7)] q(2,5,6) m'(3-5) in \<open>simp_all add: algebra_simps\<close>)
  ultimately show ?thesis using m'(6) by (simp add: contents_def Let_def new_def)
qed

lemma Receive_takes:
  assumes ok: "mq_ok idle q s" and used: "MsgUsed (queues s q) \<noteq> 0"
    and n: "unat n \<le> unat (MsgSize (queues s q))" "unat n \<le> length buffer"
  shows "\<exists>s'. MsgQ_Receive (Some q) (Some buffer) n t s =
      Some (Return (True, Some (take (unat n) (hd (contents s q)) @ drop (unat n) buffer)), s') \<and>
    mq_ok idle q s' \<and> contents s' q = tl (contents s q)"
proof -
  let ?m = "queues s q" and ?c = "msg_room s q"
  note q = mq_okD [OF ok]
  from msg_take_first [OF q(3) used n] obtain m' where
    m': "msg_take ?c buffer n ?m = Some (take (unat n) (hd (msgs ?c ?m)) @ drop (unat n) buffer, m')" "msg_ok ?c m'"
    "MsgUsed m' = MsgUsed ?m - 1" "MsgSendSemp m' = MsgSendSemp ?m" "MsgRecvSemp m' = MsgRecvSemp ?m"
    "msgs ?c m' = tl (msgs ?c ?m)" by blast
  have "0 < unat (MsgUsed ?m)" using used by (simp add: unat_gt_0)
  then have "unat (?c - MsgUsed ?m) < unat ?c" using q(10) by (simp add: u32_sub u32_le)
  then have l: "lamp_counter (semps (kern s) (MsgRecvSemp ?m)) \<noteq> 0"
    "lamp_counter (semps (kern s) (MsgSendSemp ?m)) < lamps_limit (semps (kern s) (MsgSendSemp ?m))"
    using used q(5,6) by (simp_all add: u32_le msg_room_def)
  from ks.transfer [OF q(1) q(2) [symmetric] l(1) q(7) l(2), of t] obtain k1 k2 where
    k: "Lock_SempPend (Some (MsgRecvSemp ?m)) t (kern s) = Some (Return True, k1)"
       "Lock_SempPost (Some (MsgSendSemp ?m)) k1 = Some k2" "kernel_ok idle k2"
       "(\<lambda>i. lamps_limit (semps k1 i)) = (\<lambda>i. lamps_limit (semps (kern s) i))"
       "(\<lambda>i. lamps_limit (semps k2 i)) = (\<lambda>i. lamps_limit (semps (kern s) i))"
       "(\<lambda>i. Lock_SempCheckBlock (Some i) k2) = (\<lambda>i. Lock_SempCheckBlock (Some i) (kern s))"
       "(\<lambda>i. lamp_counter (semps k2 i)) = (\<lambda>i. lamp_counter (semps (kern s) i))
          (MsgRecvSemp ?m := lamp_counter (semps (kern s) (MsgRecvSemp ?m)) - 1,
           MsgSendSemp ?m := lamp_counter (semps (kern s) (MsgSendSemp ?m)) + 1)" by blast
  define s' where "s' = (upd_queue q (\<lambda>_. m') s)\<lparr>kern := k2\<rparr>"
  have "lamps_limit (semps k1 (MsgSendSemp ?m)) = ?c" using fun_cong [OF k(4)] by (simp add: msg_room_def)
  then have "MsgQ_Receive (Some q) (Some buffer) n t s =
      Some (Return (True, Some (take (unat n) (hd (msgs ?c ?m)) @ drop (unat n) buffer)), s')"
    using k(1,2) m'(1,4) n(1)
    by (simp add: MsgQ_Receive_def msgq_recv_def Lock_SempQueryCapacital_def upd_queue_def s'_def u32_le Let_def)
  moreover have "mq_ok idle q s' \<and> contents s' q = msgs ?c m'" unfolding s'_def
    by (rule mq_ok_after [OF ok m'(2,4,5) k(3,5,6)])
      (use fun_cong [OF k(7)] q(2,5,6) m'(3-5) in \<open>simp_all add: algebra_simps\<close>)
  ultimately show ?thesis using m'(6) by (simp add: contents_def)
qed

section \<open>Creating a queue\<close>

lemma msgq_init_ok:
  assumes k: "kernel_ok idle (kern s)" and ne: "MsgSendSemp (queues s q) \<noteq> MsgRecvSemp (queues s q)"
    and w: "\<not> Lock_SempCheckBlock (Some (MsgSendSemp (queues s q))) (kern s)"
      "\<not> Lock_SempCheckBlock (Some (MsgRecvSemp (queues s q))) (kern s)"
    and size: "0 < MaxMsgs" "2 * unat MaxMsgs \<le> 2 ^ 32" "unat MaxMsgs * unat MsgLength < 2 ^ 32"
      "length buf = unat MaxMsgs * unat MsgLength"
  shows "mq_ok idle q (msgq_init q MaxMsgs MsgLength Options buf s) \<and>
    contents (msgq_init q MaxMsgs MsgLength Options buf s) q = []"
proof -
  let ?m = "queues s q" and ?o = "if Options AND 1 = 1 then CN_BLOCK_PRIO else CN_BLOCK_FIFO"
  let ?k1 = "init_semp (MsgSendSemp ?m) MaxMsgs MaxMsgs ?o (kern s)"
  let ?k = "init_semp (MsgRecvSemp ?m) MaxMsgs 0 ?o ?k1"
  have w1: "\<not> Lock_SempCheckBlock (Some (MsgRecvSemp ?m)) ?k1"
    using w(2) ne by (simp add: Lock_SempCheckBlock_def init_semp_def kcall_out_def upd_semp_def)
  have ok: "kernel_ok idle ?k" by (intro kernel_ok_init_semp k w w1)
  have k': "kern (msgq_init q MaxMsgs MsgLength Options buf s) = ?k"
    "queues (msgq_init q MaxMsgs MsgLength Options buf s) q =
       ?m\<lparr>MsgSize := MsgLength, MsgUsed := 0, ReadOffset := 0, msg_buf := buf\<rparr>"
    by (simp_all add: msgq_init_def msgq_sems_def mq_call_def upd_queue_def Lock_SempCreate_s_def Let_def)
  have lim: "semps ?k (MsgSendSemp ?m) = \<lparr>sync_order = ?o, lamps_limit = MaxMsgs, lamp_counter = MaxMsgs, semp_sync = NULL\<rparr>"
    "semps ?k (MsgRecvSemp ?m) = \<lparr>sync_order = ?o, lamps_limit = MaxMsgs, lamp_counter = 0, semp_sync = NULL\<rparr>"
    using ne by (simp_all add: init_semp_def kcall_out_def upd_semp_def)
  show ?thesis
    using ok ne size by (simp add: mq_ok_def contents_def msgs_def msg_room_def k' lim Lock_SempCheckBlock_def msg_ok_def Let_def)
qed

section \<open>Properties\<close>

text \<open>The abstract bounded queue: a list, urgent messages going first.\<close>

definition bq_send :: "nat \<Rightarrow> bool \<Rightarrow> 'a \<Rightarrow> 'a list \<Rightarrow> bool \<times> 'a list" where
  "bq_send cap urgent x xs =
     (if length xs < cap then (True, if urgent then x # xs else xs @ [x]) else (False, xs))"

fun bq_receive :: "'a list \<Rightarrow> 'a option \<times> 'a list" where
  "bq_receive [] = (None, [])"
| "bq_receive (x # xs) = (Some x, xs)"

lemma contents_length: "length (contents s q) = unat (MsgUsed (queues s q))"
  by (simp add: contents_def)

lemma Send_full:
  assumes ok: "mq_ok idle q s" and full: "\<not> MsgUsed (queues s q) < msg_room s q" and n: "n \<le> MsgSize (queues s q)"
  shows "\<exists>s'. MsgQ_Send (Some q) (Some buffer) n 0 urgent s = Some (Return False, s') \<and> mq_ok idle q s' \<and>
    contents s' q = contents s q"
proof -
  let ?m = "queues s q"
  note q = mq_okD [OF ok]
  have "MsgUsed ?m = msg_room s q" using full q(10) by (simp add: not_less le_antisym)
  then have "lamp_counter (semps (kern s) (MsgSendSemp ?m)) = 0" using q(5) by simp
  from ks.pend_none [OF q(1) this q(9) [unfolded msg_room_def]] obtain k where
    k: "Lock_SempPend (Some (MsgSendSemp ?m)) 0 (kern s) = Some (Return False, k)" "kernel_ok idle k"
       "(\<lambda>i. lamps_limit (semps k i)) = (\<lambda>i. lamps_limit (semps (kern s) i))"
       "(\<lambda>i. Lock_SempCheckBlock (Some i) k) = (\<lambda>i. Lock_SempCheckBlock (Some i) (kern s))"
       "(\<lambda>i. lamp_counter (semps k i)) = (\<lambda>i. lamp_counter (semps (kern s) i))" by blast
  have "upd_queue q (\<lambda>_. ?m) s = s" by (simp add: upd_queue_def)
  then have "mq_ok idle q (s\<lparr>kern := k\<rparr>) \<and> contents (s\<lparr>kern := k\<rparr>) q = contents s q"
    using mq_ok_after [OF ok q(3) refl refl k(2-4)] fun_cong [OF k(5)] q(5,6) by (simp add: contents_def)
  moreover have "MsgQ_Send (Some q) (Some buffer) n 0 urgent s = Some (Return False, s\<lparr>kern := k\<rparr>)"
    using k(1) n by (simp add: MsgQ_Send_def not_less [symmetric])
  ultimately show ?thesis by blast
qed

lemma Receive_empty:
  assumes ok: "mq_ok idle q s" and empty: "MsgUsed (queues s q) = 0" and n: "n \<le> MsgSize (queues s q)"
  shows "\<exists>s'. MsgQ_Receive (Some q) (Some buffer) n 0 s = Some (Return (False, Some buffer), s') \<and> mq_ok idle q s' \<and>
    contents s' q = []"
proof -
  let ?m = "queues s q"
  note q = mq_okD [OF ok]
  have "lamps_limit (semps (kern s) (MsgRecvSemp ?m)) \<noteq> CN_LIMIT_UINT32" using q(4,9) by simp
  from ks.pend_none [OF q(1) q(6) [unfolded empty] this] obtain k where
    k: "Lock_SempPend (Some (MsgRecvSemp ?m)) 0 (kern s) = Some (Return False, k)" "kernel_ok idle k"
       "(\<lambda>i. lamps_limit (semps k i)) = (\<lambda>i. lamps_limit (semps (kern s) i))"
       "(\<lambda>i. Lock_SempCheckBlock (Some i) k) = (\<lambda>i. Lock_SempCheckBlock (Some i) (kern s))"
       "(\<lambda>i. lamp_counter (semps k i)) = (\<lambda>i. lamp_counter (semps (kern s) i))" by blast
  have "upd_queue q (\<lambda>_. ?m) s = s" by (simp add: upd_queue_def)
  then have "mq_ok idle q (s\<lparr>kern := k\<rparr>) \<and> contents (s\<lparr>kern := k\<rparr>) q = contents s q"
    using mq_ok_after [OF ok q(3) refl refl k(2-4)] fun_cong [OF k(5)] q(5,6) by (simp add: contents_def)
  moreover have "contents s q = []" using empty by (simp add: contents_def msgs_def)
  moreover have "MsgQ_Receive (Some q) (Some buffer) n 0 s = Some (Return (False, Some buffer), s\<lparr>kern := k\<rparr>)"
    using k(1) n by (simp add: MsgQ_Receive_def not_less [symmetric])
  ultimately show ?thesis by auto
qed

text \<open>
  C14: \<open>MsgQ_Send\<close> implements the bounded queue.  On a queue at rest a call that does not wait
  does to the stored messages, and answers, what the abstract operation does: a normal message
  goes behind the others, an urgent one in front of them, and a full queue stays as it is.
\<close>

theorem MsgQ_Send_refines:
  assumes "mq_ok idle q s" and "length buffer = unat (MsgSize (queues s q))"
  shows "\<exists>b s'. MsgQ_Send (Some q) (Some buffer) (MsgSize (queues s q)) 0 urgent s = Some (Return b, s') \<and>
    mq_ok idle q s' \<and> bq_send (unat (msg_room s q)) urgent buffer (contents s q) = (b, contents s' q)"
proof (cases "MsgUsed (queues s q) < msg_room s q")
  case True
  then have "length (contents s q) < unat (msg_room s q)" by (simp add: contents_length u32_le)
  moreover have "length (msg_at (msg_room s q) (queues s q) i) = unat (MsgSize (queues s q))" for i
    using length_msg_at [OF mq_okD(3) [OF assms(1)]] .
  ultimately show ?thesis
    using Send_stores [OF assms(1) True, of "MsgSize (queues s q)" buffer 0 urgent] assms(2)
    by (auto simp: bq_send_def Let_def split: if_splits)
next
  case False
  then have "\<not> length (contents s q) < unat (msg_room s q)" by (simp add: contents_length u32_le)
  moreover from Send_full [OF assms(1) False order_refl, of buffer urgent] obtain s' where
    "MsgQ_Send (Some q) (Some buffer) (MsgSize (queues s q)) 0 urgent s = Some (Return False, s')"
    "mq_ok idle q s'" "contents s' q = contents s q" by blast
  ultimately show ?thesis by (auto simp: bq_send_def)
qed

text \<open>
  C15: \<open>MsgQ_Receive\<close> implements the bounded queue: the first message is taken out and is in the
  caller's buffer; on an empty queue a call that does not wait returns false.
\<close>

theorem MsgQ_Receive_refines:
  assumes "mq_ok idle q s" and "length buffer = unat (MsgSize (queues s q))"
  shows "\<exists>r s'. MsgQ_Receive (Some q) (Some buffer) (MsgSize (queues s q)) 0 s = Some (Return r, s') \<and>
    mq_ok idle q s' \<and> contents s' q = snd (bq_receive (contents s q)) \<and>
    r = (case fst (bq_receive (contents s q)) of None \<Rightarrow> (False, Some buffer) | Some x \<Rightarrow> (True, Some x))"
proof (cases "MsgUsed (queues s q) = 0")
  case True
  moreover from this have "contents s q = []" by (simp add: contents_def msgs_def)
  ultimately show ?thesis using Receive_empty [OF assms(1) True order_refl, of buffer] by auto
next
  case False
  have "contents s q \<noteq> []" using False contents_length [of s q] by (auto simp: unat_eq_0)
  then obtain x xs where c: "contents s q = x # xs" by (cases "contents s q") auto
  have "x \<in> set (contents s q)" using c by simp
  then have "length x = unat (MsgSize (queues s q))"
    using length_msg_at [OF mq_okD(3) [OF assms(1)]] by (auto simp: contents_def msgs_def)
  then show ?thesis using Receive_takes [OF assms(1) False, of "MsgSize (queues s q)" buffer 0] assms(2) c by auto
qed

text \<open>
  C16: creating a queue in memory of the caller.  With a control block and a block of bytes that
  has room for the messages, the queue is at rest and empty.
\<close>

theorem MsgQ_Create_s_empty:
  assumes "kernel_ok idle (kern s)" and "MsgSendSemp (queues s q) \<noteq> MsgRecvSemp (queues s q)"
    and "\<not> Lock_SempCheckBlock (Some (MsgSendSemp (queues s q))) (kern s)"
      "\<not> Lock_SempCheckBlock (Some (MsgRecvSemp (queues s q))) (kern s)"
    and "0 < MaxMsgs" "2 * unat MaxMsgs \<le> 2 ^ 32" "unat MaxMsgs * unat MsgLength < 2 ^ 32"
      "length buf = unat MaxMsgs * unat MsgLength"
  shows "\<exists>s'. MsgQ_Create_s (Some q) MaxMsgs MsgLength Options (Some buf) s = (Some q, s') \<and>
    mq_ok idle q s' \<and> contents s' q = []"
  using msgq_init_ok [OF assms] by (simp add: MsgQ_Create_s_def)

definition sample_mq :: mqst where
  "sample_mq = \<lparr>kern = sample,
     queues = (\<lambda>q. \<lparr>MsgSendSemp = 5, MsgRecvSemp = 6, MsgSize = 0, MsgUsed = 0, ReadOffset = 0, msg_buf = []\<rparr>),
     s_tMsgQ_Mutex = 3, mqcalls = []\<rparr>"

lemma sample_mq_fields [simp]:
  "kern sample_mq = sample" "MsgSendSemp (queues sample_mq q) = 5" "MsgRecvSemp (queues sample_mq q) = 6"
  "\<not> Lock_SempCheckBlock (Some 5) sample" "\<not> Lock_SempCheckBlock (Some 6) sample"
  by (simp_all add: sample_mq_def Lock_SempCheckBlock_def)

theorem MsgQ_Create_s_empty_witness:
  "\<exists>s. MsgQ_Create_s (Some 0) 2 3 1 (Some [0, 0, 0, 0, 0, 0]) sample_mq = (Some 0, s) \<and> mq_ok (Ecb 0) 0 s"
  using MsgQ_Create_s_empty [of "Ecb 0" sample_mq 0 2 3 "[0, 0, 0, 0, 0, 0]" 1] by (auto simp: sample_ok)

text \<open>A queue of two messages of three bytes, empty.\<close>

definition sample_queue :: mqst where
  "sample_queue = msgq_init 0 2 3 1 [0, 0, 0, 0, 0, 0] sample_mq"

lemma sample_queue_ok: "mq_ok (Ecb 0) 0 sample_queue" "contents sample_queue 0 = []"
  "MsgSize (queues sample_queue 0) = 3" "msg_room sample_queue 0 = 2"
  using msgq_init_ok [of "Ecb 0" sample_mq 0 2 3 "[0, 0, 0, 0, 0, 0]" 1]
  by (simp_all add: sample_ok sample_queue_def)
    (simp_all add: msgq_init_def msgq_sems_def mq_call_def upd_queue_def Lock_SempCreate_s_def msg_room_def
      init_semp_def kcall_out_def upd_semp_def Let_def)

theorem MsgQ_Send_refines_witness:
  "\<exists>s'. MsgQ_Send (Some 0) (Some [1, 2, 3]) 3 0 False sample_queue = Some (Return True, s') \<and> contents s' 0 = [[1, 2, 3]]"
  using MsgQ_Send_refines [OF sample_queue_ok(1), of "[1, 2, 3]" False] by (auto simp: sample_queue_ok bq_send_def)

theorem MsgQ_Receive_refines_witness:
  "\<exists>s'. MsgQ_Receive (Some 0) (Some [1, 2, 3]) 3 0 sample_queue = Some (Return (False, Some [1, 2, 3]), s')"
  using MsgQ_Receive_refines [OF sample_queue_ok(1), of "[1, 2, 3]"] by (auto simp: sample_queue_ok)

end
