(* ===== verification/Pool.thy ===== *)
theory Pool
  imports SempService
begin

text \<open>
  Pools of memory cells of one size, \<open>djyos/pool/pool.c\<close>.  A pool hands out cells from a list of
  freed cells and, when that is empty, from the end of a contiguous block; a semaphore counts
  the cells that are left.  Addresses are 32-bit words, 0 is the null pointer.  The links that a
  free cell holds are kept apart from each other and from the first word of an added block,
  which links the added blocks; a dereference of the null pointer is \<open>None\<close>.  The heap is not
  part of the model: \<open>heap_supply\<close> lists what the next calls of \<open>M_Malloc\<close> answer, an address with
  the size that \<open>M_CheckSize\<close> reports, or nothing.  What \<open>OBJ_Del\<close> answers is an argument; the
  object tree, \<open>M_Malloc\<close> and \<open>free\<close> are recorded calls.
\<close>

section \<open>State\<close>

record MemCellFree =
  cell_previous :: u32
  cell_next :: u32

record MemCellPool =
  continue_pool :: u32
  free_list :: u32
  memb_semp :: nat
  pool_offset :: u32
  cell_size :: u32
  cell_increment :: u32
  cell_limit :: u32
  next_inc_pool :: u32

datatype plcall = Call_pool_AddTree | Call_pool_AddChild u32 | Call_pool_Del u32 | Call_M_Malloc u32 u32 | Call_heap_free u32

record plst =
  kern :: kst
  pools :: "u32 \<Rightarrow> MemCellPool"
  cells :: "u32 \<Rightarrow> MemCellFree"
  inc_link :: "u32 \<Rightarrow> u32"
  s_ptPooCtrl :: u32
  heap_supply :: "(u32 \<times> u32) option list"
  plcalls :: "plcall list"

text \<open>\<open>sizeof(void*)\<close>, \<open>align_up_sys(1)\<close>, and the address and size of a control block.\<close>

abbreviation (input) "ptr_size \<equiv> (4 :: u32)"
abbreviation (input) "align_one \<equiv> (8 :: u32)"

definition upd_pool :: "u32 \<Rightarrow> (MemCellPool \<Rightarrow> MemCellPool) \<Rightarrow> plst \<Rightarrow> plst" where
  "upd_pool p f s = s\<lparr>pools := (pools s)(p := f (pools s p))\<rparr>"

definition pl_call :: "plcall \<Rightarrow> plst \<Rightarrow> plst" where
  "pl_call c s = s\<lparr>plcalls := plcalls s @ [c]\<rparr>"

text \<open>Reading and writing a cell; \<open>None\<close> through the null pointer.\<close>

definition rdc :: "(MemCellFree \<Rightarrow> 'v) \<Rightarrow> u32 \<Rightarrow> plst \<Rightarrow> 'v option" where
  "rdc f a s = (if a = 0 then None else Some (f (cells s a)))"

definition wrc :: "(MemCellFree \<Rightarrow> MemCellFree) \<Rightarrow> u32 \<Rightarrow> plst \<Rightarrow> plst option" where
  "wrc f a s = (if a = 0 then None else Some (s\<lparr>cells := (cells s)(a := f (cells s a))\<rparr>))"

definition heap_alloc :: "u32 \<Rightarrow> u32 \<Rightarrow> plst \<Rightarrow> (u32 \<times> u32) option \<times> plst" where
  "heap_alloc bytes timeout s = (let s = pl_call (Call_M_Malloc bytes timeout) s in
     case heap_supply s of [] \<Rightarrow> (None, s) | r # rs \<Rightarrow> (r, s\<lparr>heap_supply := rs\<rparr>))"

section \<open>Allocation\<close>

text \<open>The atomic section of \<open>Mb_Malloc\<close>.\<close>

definition pool_take :: "u32 \<Rightarrow> plst \<Rightarrow> (u32 \<times> plst) option" where
  "pool_take p s =
     (let result = free_list (pools s p) in
      if result \<noteq> 0 then do {
        nx \<leftarrow> rdc cell_next result s;
        if nx = result then Some (result, upd_pool p (\<lambda>m. m\<lparr>free_list := 0\<rparr>) s)
        else do {
          let s = upd_pool p (\<lambda>m. m\<lparr>free_list := nx\<rparr>) s;
          pv \<leftarrow> rdc cell_previous result s;
          s \<leftarrow> wrc (\<lambda>c. c\<lparr>cell_previous := pv\<rparr>) nx s;
          pv \<leftarrow> rdc cell_previous result s;
          s \<leftarrow> wrc (\<lambda>c. c\<lparr>cell_next := free_list (pools s p)\<rparr>) pv s;
          Some (result, s) } }
      else
        let s = upd_pool p (\<lambda>m. m\<lparr>pool_offset := pool_offset m - cell_size m\<rparr>) s
        in Some (pool_offset (pools s p), s))"

text \<open>
  No cell is left: more memory from the heap, unless the pool has reached its limit.  The call
  is made with the scheduling lock closed.  The result says whether there is a cell now.
\<close>

definition pool_grow :: "u32 \<Rightarrow> u32 \<Rightarrow> plst \<Rightarrow> (bool \<times> plst) option" where
  "pool_grow p timeout s =
     (let m = pools s p; semp = Some (memb_semp m) in
      if Lock_SempQueryCapacital semp (kern s) < cell_limit m then
        case heap_alloc (cell_increment m * cell_size m + align_one) timeout s of
          (None, s) \<Rightarrow> Some (False, s)
        | (Some (inc, bytes), s) \<Rightarrow>
            if cell_size m = 0 \<or> inc = 0 then None
            else do {
              let inc_size = bytes - align_one;
              let inc_cell = inc_size div cell_size m;
              let capacity = Lock_SempQueryCapacital semp (kern s);
              let frees = Lock_SempQueryFree semp (kern s);
              let limit = capacity + inc_cell;
              (_, k) \<leftarrow> Lock_SempDelete_s semp (kern s);
              let k = snd (Lock_SempCreate_s semp limit (frees + inc_cell - 1) CN_BLOCK_FIFO k);
              let s = s\<lparr>kern := k\<rparr>;
              let s = upd_pool p (\<lambda>m. m\<lparr>continue_pool := inc + align_one\<rparr>) s;
              let s = upd_pool p (\<lambda>m. m\<lparr>pool_offset := continue_pool m + inc_cell * cell_size m\<rparr>) s;
              let s = s\<lparr>inc_link := (inc_link s)(inc := next_inc_pool (pools s p))\<rparr>;
              Some (True, upd_pool p (\<lambda>m. m\<lparr>next_inc_pool := inc\<rparr>) s) }
      else Some (False, s))"

definition Mb_Malloc :: "u32 \<Rightarrow> u32 \<Rightarrow> plst \<Rightarrow> (u32 \<times> plst) option" where
  "Mb_Malloc p timeout s =
     (if p = 0 then Some (0, s)
      else do {
        (r, k) \<leftarrow> Lock_SempPend (Some (memb_semp (pools s p))) 0 (kern s);
        let s = s\<lparr>kern := k\<rparr>;
        (got, s) \<leftarrow> (if r = Return False then do {
            let s = s\<lparr>kern := Int_SaveAsynSignal (kern s)\<rparr>;
            (got, s) \<leftarrow> pool_grow p timeout s;
            k \<leftarrow> Int_RestoreAsynSignal (kern s);
            Some (got, s\<lparr>kern := k\<rparr>) }
          else Some (True, s));
        if got then pool_take p s else Some (0, s) })"

text \<open>Linking a cell in front of the head of the ring, which is its end.\<close>

definition pool_put :: "u32 \<Rightarrow> u32 \<Rightarrow> plst \<Rightarrow> plst option" where
  "pool_put p block s =
     (if free_list (pools s p) = 0 then do {
        let s = upd_pool p (\<lambda>m. m\<lparr>free_list := block\<rparr>) s;
        s \<leftarrow> wrc (\<lambda>c. c\<lparr>cell_next := block\<rparr>) (free_list (pools s p)) s;
        wrc (\<lambda>c. c\<lparr>cell_previous := block\<rparr>) (free_list (pools s p)) s }
      else do {
        let head = free_list (pools s p);
        s \<leftarrow> wrc (\<lambda>c. c\<lparr>cell_next := head\<rparr>) block s;
        pv \<leftarrow> rdc cell_previous head s;
        s \<leftarrow> wrc (\<lambda>c. c\<lparr>cell_previous := pv\<rparr>) block s;
        pv \<leftarrow> rdc cell_previous head s;
        s \<leftarrow> wrc (\<lambda>c. c\<lparr>cell_next := block\<rparr>) pv s;
        wrc (\<lambda>c. c\<lparr>cell_previous := block\<rparr>) head s })"

definition Mb_Free :: "u32 \<Rightarrow> u32 \<Rightarrow> plst \<Rightarrow> plst option" where
  "Mb_Free p block s =
     (if p = 0 then Some s
      else do {
        s \<leftarrow> pool_put p block s;
        k \<leftarrow> Lock_SempPost (Some (memb_semp (pools s p))) (kern s);
        Some (s\<lparr>kern := k\<rparr>) })"

section \<open>Pools\<close>

text \<open>\<open>mem\<close>: what \<open>M_Malloc\<close> answers; \<open>ctrl\<close>: the address of the static control block.\<close>

definition Mb_ModuleInit :: "u32 \<Rightarrow> u32 option \<Rightarrow> u32 \<Rightarrow> u32 \<Rightarrow> plst \<Rightarrow> u32 \<times> plst" where
  "Mb_ModuleInit ctrl mem cfgMemPoolLimit size_of_pool s = (case mem of
       None \<Rightarrow> (0, upd_pool ctrl (\<lambda>m. m\<lparr>continue_pool := 0\<rparr>) s)
     | Some a \<Rightarrow>
         let s = upd_pool ctrl (\<lambda>m. m\<lparr>continue_pool := a, cell_size := size_of_pool, free_list := 0,
               pool_offset := a + cfgMemPoolLimit * size_of_pool\<rparr>) s;
             s = pl_call Call_pool_AddTree (s\<lparr>s_ptPooCtrl := ctrl\<rparr>);
             k = snd (Lock_SempCreate_s (Some (memb_semp (pools s ctrl))) cfgMemPoolLimit cfgMemPoolLimit
                   CN_BLOCK_FIFO (kern s))
         in (1, s\<lparr>kern := k\<rparr>))"

text \<open>What the two creating functions do with a control block.\<close>

definition pool_init :: "u32 \<Rightarrow> u32 \<Rightarrow> u32 \<Rightarrow> u32 \<Rightarrow> u32 \<Rightarrow> u32 \<Rightarrow> plst \<Rightarrow> plst" where
  "pool_init p original init_capacital bytes increment limit s =
     (let s = upd_pool p (\<lambda>m. m\<lparr>continue_pool := original, free_list := 0,
            pool_offset := original + init_capacital * bytes, cell_size := bytes,
            cell_increment := increment, cell_limit := limit, next_inc_pool := 0\<rparr>) s;
          s = pl_call (Call_pool_AddChild p) s;
          k = snd (Lock_SempCreate_s (Some (memb_semp (pools s p))) init_capacital init_capacital CN_BLOCK_FIFO (kern s))
      in s\<lparr>kern := k\<rparr>)"

definition Mb_CreatePool :: "u32 \<Rightarrow> u32 \<Rightarrow> u32 \<Rightarrow> u32 \<Rightarrow> u32 \<Rightarrow> plst \<Rightarrow> (u32 \<times> plst) option" where
  "Mb_CreatePool original init_capacital bytes increment limit s =
     (if original = 0 \<and> init_capacital \<noteq> 0 then Some (0, s)
      else if bytes < 2 * ptr_size then Some (0, s)
      else if bytes mod ptr_size \<noteq> 0 \<or> original mod ptr_size \<noteq> 0 then Some (0, s)
      else do {
        (p, s) \<leftarrow> Mb_Malloc (s_ptPooCtrl s) 0 s;
        if p = 0 then Some (0, s)
        else Some (p, pool_init p original init_capacital bytes increment limit s) })"

definition Mb_CreatePool_s :: "u32 \<Rightarrow> u32 \<Rightarrow> u32 \<Rightarrow> u32 \<Rightarrow> u32 \<Rightarrow> u32 \<Rightarrow> plst \<Rightarrow> u32 \<times> plst" where
  "Mb_CreatePool_s p original init_capacital bytes increment limit s =
     (p, pool_init p original init_capacital bytes increment limit s)"

text \<open>Giving back the added blocks.\<close>

partial_function (option) free_incs :: "u32 \<Rightarrow> plst \<Rightarrow> plst option" where
  "free_incs inc s =
     (if inc = 0 then Some s else free_incs (inc_link s inc) (pl_call (Call_heap_free inc) s))"

definition pool_unlink :: "bool \<Rightarrow> u32 \<Rightarrow> plst \<Rightarrow> (bool \<times> plst) option" where
  "pool_unlink del_ok p s = do {
     (b, k) \<leftarrow> Lock_SempDelete_s (Some (memb_semp (pools s p))) (kern s);
     let s = s\<lparr>kern := k\<rparr>;
     if \<not> b then Some (False, s)
     else do {
       s \<leftarrow> free_incs (next_inc_pool (pools s p)) s;
       Some (del_ok, pl_call (Call_pool_Del p) s) } }"

definition Mb_DeletePool :: "bool \<Rightarrow> u32 \<Rightarrow> plst \<Rightarrow> (bool \<times> plst) option" where
  "Mb_DeletePool del_ok p s = do {
     (b, s) \<leftarrow> pool_unlink del_ok p s;
     if b then do { s \<leftarrow> Mb_Free (s_ptPooCtrl s) p s; Some (True, s) } else Some (False, s) }"

definition Mb_DeletePool_r :: "bool \<Rightarrow> u32 \<Rightarrow> plst \<Rightarrow> (bool \<times> plst) option" where
  "Mb_DeletePool_r del_ok p s = pool_unlink del_ok p s"

definition Mb_QueryFree :: "u32 \<Rightarrow> plst \<Rightarrow> u32" where
  "Mb_QueryFree p s = (if p = 0 then 0 else Lock_SempQueryFree (Some (memb_semp (pools s p))) (kern s))"

definition Mb_QueryCapacital :: "u32 \<Rightarrow> plst \<Rightarrow> u32" where
  "Mb_QueryCapacital p s = (if p = 0 then 0 else Lock_SempQueryCapacital (Some (memb_semp (pools s p))) (kern s))"

end
