(* ===== verification/PoolProps.thy ===== *)
theory PoolProps
  imports Pool MutexOps SystemProps "HOL-Library.Multiset"
begin

text \<open>
  A pool keeps its cells: what it hands out was free and is not free afterwards, and no cell is
  ever in two hands.  The free cells of a pool are the ring of freed cells followed by the cells
  of the contiguous block, from its end.
\<close>

section \<open>The ring of freed cells\<close>

type_synonym cellheap = "u32 \<Rightarrow> MemCellFree"

definition cnx :: "cellheap \<Rightarrow> u32 \<Rightarrow> u32" where
  "cnx h a = cell_next (h a)"

definition cpv :: "cellheap \<Rightarrow> u32 \<Rightarrow> u32" where
  "cpv h a = cell_previous (h a)"

definition put_cnx :: "u32 \<Rightarrow> u32 \<Rightarrow> cellheap \<Rightarrow> cellheap" where
  "put_cnx a v h = h(a := (h a)\<lparr>cell_next := v\<rparr>)"

definition put_cpv :: "u32 \<Rightarrow> u32 \<Rightarrow> cellheap \<Rightarrow> cellheap" where
  "put_cpv a v h = h(a := (h a)\<lparr>cell_previous := v\<rparr>)"

interpretation cl: dlink cnx cpv put_cnx put_cpv
  by unfold_locales (auto simp: cnx_def cpv_def put_cnx_def put_cpv_def)

lemma cell_access:
  "a \<noteq> 0 \<Longrightarrow> rdc cell_next a s = Some (cnx (cells s) a)"
  "a \<noteq> 0 \<Longrightarrow> rdc cell_previous a s = Some (cpv (cells s) a)"
  "a \<noteq> 0 \<Longrightarrow> wrc (\<lambda>c. c\<lparr>cell_next := v\<rparr>) a s = Some (s\<lparr>cells := put_cnx a v (cells s)\<rparr>)"
  "a \<noteq> 0 \<Longrightarrow> wrc (\<lambda>c. c\<lparr>cell_previous := v\<rparr>) a s = Some (s\<lparr>cells := put_cpv a v (cells s)\<rparr>)"
  by (simp_all add: rdc_def wrc_def cnx_def cpv_def put_cnx_def put_cpv_def)

section \<open>The data of a pool\<close>

definition top_cells :: "MemCellPool \<Rightarrow> nat \<Rightarrow> u32 list" where
  "top_cells m c = map (\<lambda>i. continue_pool m + of_nat i * cell_size m) (rev [0 ..< c])"

definition pool_ok :: "u32 \<Rightarrow> plst \<Rightarrow> u32 list \<Rightarrow> nat \<Rightarrow> bool" where
  "pool_ok p s fs c \<longleftrightarrow> (let m = pools s p in
     (if fs = [] then free_list m = 0 else free_list m = hd fs \<and> dring (cnx (cells s)) (cpv (cells s)) fs) \<and>
     pool_offset m = continue_pool m + of_nat c * cell_size m \<and>
     distinct (fs @ top_cells m c) \<and> 0 \<notin> set (fs @ top_cells m c))"

lemma top_cells_Suc: "top_cells m (Suc c) = (continue_pool m + of_nat c * cell_size m) # top_cells m c"
  by (simp add: top_cells_def)

lemma top_cells_nil [simp]: "top_cells m 0 = []" "length (top_cells m c) = c"
  by (simp_all add: top_cells_def)

lemma top_cells_same:
  "continue_pool m' = continue_pool m \<Longrightarrow> cell_size m' = cell_size m \<Longrightarrow> top_cells m' c = top_cells m c"
  by (simp add: top_cells_def)

text \<open>The cells of a block that does not reach over the end of the memory are different.\<close>

lemma top_cells_distinct:
  assumes "cell_size m \<noteq> 0" and "continue_pool m \<noteq> 0" and fit: "unat (continue_pool m) + c * unat (cell_size m) \<le> 2 ^ 32"
  shows "distinct (top_cells m c) \<and> 0 \<notin> set (top_cells m c)"
proof -
  have z: "0 < unat (cell_size m)" using assms(1) by (simp add: unat_gt_0)
  have u: "unat (continue_pool m + of_nat i * cell_size m) = unat (continue_pool m) + i * unat (cell_size m)"
    if i: "i < c" for i
  proof -
    have "i * unat (cell_size m) + unat (cell_size m) \<le> c * unat (cell_size m)"
      using mult_le_mono1 [of "Suc i" c "unat (cell_size m)"] i by simp
    then have lt: "unat (continue_pool m) + i * unat (cell_size m) < 2 ^ 32" using fit z by linarith
    have "i \<le> i * unat (cell_size m)" using z by simp
    then have "i < 2 ^ 32" using lt by linarith
    then have "unat (of_nat i :: u32) = i" by (simp add: unat_of_nat take_bit_nat_eq_self)
    then show ?thesis using lt by (simp add: unat_word_ariths)
  qed
  have "inj_on (\<lambda>i. continue_pool m + of_nat i * cell_size m) (set (rev [0 ..< c]))"
  proof (rule inj_onI)
    fix i j assume i: "i \<in> set (rev [0 ..< c])" and j: "j \<in> set (rev [0 ..< c])"
      and e: "continue_pool m + of_nat i * cell_size m = continue_pool m + of_nat j * cell_size m"
    have "unat (continue_pool m) + i * unat (cell_size m) = unat (continue_pool m + of_nat i * cell_size m)"
      using u [of i] i by simp
    also have "\<dots> = unat (continue_pool m) + j * unat (cell_size m)" unfolding e using u [of j] j by simp
    finally show "i = j" using z by auto
  qed
  then have "distinct (top_cells m c)" by (simp add: top_cells_def distinct_map)
  moreover have "x \<noteq> 0" if "x \<in> set (top_cells m c)" for x
  proof -
    obtain i where "i < c" "x = continue_pool m + of_nat i * cell_size m" using \<open>x \<in> _\<close> by (auto simp: top_cells_def)
    then have "unat x \<noteq> 0" using u [of i] assms(2) by (simp add: unat_eq_0)
    then show ?thesis by auto
  qed
  ultimately show ?thesis by blast
qed

lemma pool_ok_kern [simp]: "pool_ok p (s\<lparr>kern := k\<rparr>) fs c = pool_ok p s fs c"
  unfolding pool_ok_def by (simp del: distinct_append)

text \<open>What the two atomic sections leave alone.\<close>

definition pool_same :: "u32 \<Rightarrow> plst \<Rightarrow> plst \<Rightarrow> bool" where
  "pool_same p s s' \<longleftrightarrow> kern s' = kern s \<and> (\<forall>q. q \<noteq> p \<longrightarrow> pools s' q = pools s q) \<and>
     memb_semp (pools s' p) = memb_semp (pools s p) \<and> cell_limit (pools s' p) = cell_limit (pools s p) \<and>
     cell_size (pools s' p) = cell_size (pools s p) \<and> continue_pool (pools s' p) = continue_pool (pools s p) \<and>
     next_inc_pool (pools s' p) = next_inc_pool (pools s p) \<and> heap_supply s' = heap_supply s"

lemma pool_take_ok:
  assumes ok: "pool_ok p s fs c" and ne: "fs @ top_cells (pools s p) c \<noteq> []"
  shows "\<exists>s' fs' c'. pool_take p s = Some (hd (fs @ top_cells (pools s p) c), s') \<and> pool_same p s s' \<and>
    pool_ok p s' fs' c' \<and> fs' @ top_cells (pools s' p) c' = tl (fs @ top_cells (pools s p) c)"
proof (cases fs rule: remdups_adj.cases)
  case 1
  let ?m = "pools s p"
  obtain d where c: "c = Suc d" using ne 1 by (cases c) auto
  define s' where "s' = upd_pool p (\<lambda>m. m\<lparr>pool_offset := pool_offset m - cell_size m\<rparr>) s"
  have o: "pool_offset ?m - cell_size ?m = continue_pool ?m + of_nat d * cell_size ?m"
    using ok c by (simp add: pool_ok_def Let_def algebra_simps)
  have "pool_take p s = Some (continue_pool ?m + of_nat d * cell_size ?m, s')"
    using ok 1 o by (simp add: pool_ok_def pool_take_def s'_def upd_pool_def Let_def)
  moreover have "pool_same p s s'" by (simp add: pool_same_def s'_def upd_pool_def)
  moreover have t: "top_cells (pools s' p) d = top_cells ?m d" by (rule top_cells_same) (simp_all add: s'_def upd_pool_def)
  moreover have "pool_ok p s' [] d"
    using ok c 1 o unfolding pool_ok_def Let_def t by (simp add: top_cells_Suc s'_def upd_pool_def)
  ultimately show ?thesis using 1 c by (auto simp: top_cells_Suc intro!: exI [of _ "[]"])
next
  case (2 x)
  define s' where "s' = upd_pool p (\<lambda>m. m\<lparr>free_list := 0\<rparr>) s"
  have "pool_take p s = Some (x, s')"
    using ok 2 by (auto simp: pool_ok_def pool_take_def s'_def cell_access dring_single Let_def)
  moreover have "pool_same p s s'" by (simp add: pool_same_def s'_def upd_pool_def)
  moreover have t: "top_cells (pools s' p) c = top_cells (pools s p) c" by (rule top_cells_same) (simp_all add: s'_def upd_pool_def)
  moreover have "pool_ok p s' [] c"
    using ok 2 unfolding pool_ok_def Let_def t by (simp add: s'_def upd_pool_def)
  ultimately show ?thesis using 2 by (auto intro!: exI [of _ "[]"])
next
  case (3 x y ys)
  let ?h = "cells s"
  have r: "dring (cnx ?h) (cpv ?h) (x # y # ys)" and f: "free_list (pools s p) = x" and nz: "x \<noteq> 0" "y \<noteq> 0" "x \<noteq> y"
    using ok 3 by (auto simp: pool_ok_def Let_def)
  have nx: "cnx ?h x = y" and pv: "cpv ?h x = last (y # ys)" using dring_next [OF r] dring_prev [OF r] by simp_all
  have "last (y # ys) \<in> set fs" using 3 by simp
  then have lz: "last (y # ys) \<noteq> 0" using ok by (auto simp: pool_ok_def Let_def)
  define h' where "h' = put_cnx (cpv ?h x) (cnx ?h x) (put_cpv (cnx ?h x) (cpv ?h x) ?h)"
  define s' where "s' = (upd_pool p (\<lambda>m. m\<lparr>free_list := y\<rparr>) s)\<lparr>cells := h'\<rparr>"
  have r': "dring (cnx h') (cpv h') (y # ys)" using cl.unlink [of ?h "[]" x "y # ys" h'] r by (simp add: h'_def)
  have "pool_take p s = Some (x, s')"
    using f nz nx pv lz by (simp add: pool_take_def cell_access upd_pool_def s'_def h'_def cl.link_simps Let_def)
  moreover have "pool_same p s s'" by (simp add: pool_same_def s'_def upd_pool_def)
  moreover have t: "top_cells (pools s' p) c = top_cells (pools s p) c" by (rule top_cells_same) (simp_all add: s'_def upd_pool_def)
  moreover have "pool_ok p s' (y # ys) c"
    using ok 3 r' unfolding pool_ok_def Let_def t by (simp add: s'_def upd_pool_def)
  ultimately show ?thesis using 3 by (auto intro!: exI [of _ "y # ys"])
qed

lemma pool_put_ok:
  assumes ok: "pool_ok p s fs c" and b: "b \<notin> set (fs @ top_cells (pools s p) c)" "b \<noteq> 0"
  shows "\<exists>s'. pool_put p b s = Some s' \<and> pool_same p s s' \<and> pool_ok p s' (fs @ [b]) c \<and>
    top_cells (pools s' p) c = top_cells (pools s p) c"
proof (cases fs)
  case Nil
  define s' where "s' = (upd_pool p (\<lambda>m. m\<lparr>free_list := b\<rparr>) s)\<lparr>cells := put_cpv b b (put_cnx b b (cells s))\<rparr>"
  have "pool_put p b s = Some s'"
    using ok Nil b(2) by (simp add: pool_put_def pool_ok_def cell_access upd_pool_def s'_def Let_def)
  moreover have "pool_same p s s'" by (simp add: pool_same_def s'_def upd_pool_def)
  moreover have t: "top_cells (pools s' p) c = top_cells (pools s p) c" by (rule top_cells_same) (simp_all add: s'_def upd_pool_def)
  moreover have "pool_ok p s' [b] c"
    using ok Nil b cl.self_link [of b "cells s"] unfolding pool_ok_def Let_def t by (simp add: s'_def upd_pool_def)
  ultimately show ?thesis using Nil by simp
next
  case (Cons y ys)
  let ?h = "cells s"
  have r: "dring (cnx ?h) (cpv ?h) (y # ys)" and f: "free_list (pools s p) = y" and y: "y \<noteq> 0" "b \<noteq> y" "b \<notin> set (y # ys)"
    using ok Cons b by (auto simp: pool_ok_def Let_def)
  have "cpv ?h y \<in> set fs" using dring_prev_in [OF r, of y] Cons by simp
  then have pz: "cpv ?h y \<noteq> 0" using ok by (auto simp: pool_ok_def Let_def)
  define h' where "h' = put_cpv y b (put_cnx (cpv ?h y) b (put_cpv b (cpv ?h y) (put_cnx b y ?h)))"
  define s' where "s' = s\<lparr>cells := h'\<rparr>"
  have r': "dring (cnx h') (cpv h') (y # ys @ [b])" using cl.link_tail [OF r y(3) h'_def] .
  have "pool_put p b s = Some s'"
    using f y b(2) pz by (simp add: pool_put_def cell_access s'_def h'_def cl.link_simps Let_def)
  moreover have "pool_same p s s'" by (simp add: pool_same_def s'_def)
  moreover have "pool_ok p s' (fs @ [b]) c"
    using ok Cons r' b unfolding pool_ok_def Let_def by (auto simp: s'_def)
  ultimately show ?thesis by (simp add: s'_def)
qed

section \<open>Allocating and freeing\<close>

text \<open>
  A pool at rest: the lamps count the free cells, and nobody waits (nobody ever does, the pool
  asks for lamps without waiting).
\<close>

definition free_cells :: "plst \<Rightarrow> u32 \<Rightarrow> u32 list \<Rightarrow> nat \<Rightarrow> u32 list" where
  "free_cells s p fs c = fs @ top_cells (pools s p) c"

definition pool_room :: "plst \<Rightarrow> u32 \<Rightarrow> u32" where
  "pool_room s p = lamps_limit (semps (kern s) (memb_semp (pools s p)))"

definition pool_at :: "eptr \<Rightarrow> u32 \<Rightarrow> plst \<Rightarrow> u32 list \<Rightarrow> bool" where
  "pool_at idle p s free \<longleftrightarrow> (\<exists>fs c. free = free_cells s p fs c \<and> pool_ok p s fs c) \<and> p \<noteq> 0 \<and> kernel_ok idle (kern s) \<and>
     \<not> Lock_SempCheckBlock (Some (memb_semp (pools s p))) (kern s) \<and> pool_room s p \<noteq> CN_LIMIT_UINT32 \<and>
     unat (lamp_counter (semps (kern s) (memb_semp (pools s p)))) = length free"

lemma pool_at_distinct: "pool_at idle p s free \<Longrightarrow> distinct free \<and> 0 \<notin> set free"
  by (auto simp: pool_at_def pool_ok_def free_cells_def Let_def)

lemma Malloc_takes:
  assumes at: "pool_at idle p s free" and ne: "free \<noteq> []"
  shows "\<exists>s'. Mb_Malloc p timeout s = Some (hd free, s') \<and> pool_at idle p s' (tl free) \<and> pool_room s' p = pool_room s p \<and>
    cell_limit (pools s' p) = cell_limit (pools s p)"
proof -
  obtain fs c where f: "free = free_cells s p fs c" "pool_ok p s fs c" using at by (auto simp: pool_at_def)
  let ?i = "memb_semp (pools s p)"
  have K: "kernel_ok idle (kern s)" and w: "\<not> Lock_SempCheckBlock (Some ?i) (kern s)" and p: "p \<noteq> 0"
    and l: "unat (lamp_counter (semps (kern s) ?i)) = length free" using at by (auto simp: pool_at_def)
  have l0: "lamp_counter (semps (kern s) ?i) \<noteq> 0" using l ne by auto
  from ks.pend_law [OF K l0, of 0] obtain k where k: "Lock_SempPend (Some ?i) 0 (kern s) = Some (Return True, k)" "kernel_ok idle k"
    "(\<lambda>i. lamps_limit (semps k i)) = (\<lambda>i. lamps_limit (semps (kern s) i))"
    "(\<lambda>i. Lock_SempCheckBlock (Some i) k) = (\<lambda>i. Lock_SempCheckBlock (Some i) (kern s))"
    "(\<lambda>i. lamp_counter (semps k i)) = (\<lambda>i. lamp_counter (semps (kern s) i))(?i := lamp_counter (semps (kern s) ?i) - 1)"
    by blast
  have ok1: "pool_ok p (s\<lparr>kern := k\<rparr>) fs c" using f(2) by simp
  from pool_take_ok [OF ok1] ne f(1) obtain s' fs' c' where s': "pool_take p (s\<lparr>kern := k\<rparr>) = Some (hd free, s')"
    "pool_same p (s\<lparr>kern := k\<rparr>) s'" "pool_ok p s' fs' c'" "free_cells s' p fs' c' = tl free" by (auto simp: free_cells_def)
  have "Mb_Malloc p timeout s = Some (hd free, s')" using p k(1) s'(1) by (simp add: Mb_Malloc_def)
  moreover have "unat (lamp_counter (semps k ?i)) = length (tl free)"
    using fun_cong [OF k(5), of ?i] l l0 by (simp add: unat_minus_one)
  moreover have "lamps_limit (semps k ?i) = pool_room s p" using fun_cong [OF k(3), of ?i] by (simp add: pool_room_def)
  moreover have "\<exists>fs c. tl free = free_cells s' p fs c \<and> pool_ok p s' fs c" using s'(3,4) by metis
  moreover have "memb_semp (pools s' p) = ?i" "kern s' = k" "cell_limit (pools s' p) = cell_limit (pools s p)"
    using s'(2) by (simp_all add: pool_same_def)
  ultimately show ?thesis
    using at p k(2) w fun_cong [OF k(4), of ?i] by (auto simp: pool_at_def pool_room_def)
qed

lemma Free_returns:
  assumes at: "pool_at idle p s free" and b: "b \<notin> set free" "b \<noteq> 0" and room: "length free < unat (pool_room s p)"
  shows "\<exists>s' free'. Mb_Free p b s = Some s' \<and> pool_at idle p s' free' \<and> mset free' = add_mset b (mset free) \<and>
    pool_room s' p = pool_room s p \<and> cell_limit (pools s' p) = cell_limit (pools s p)"
proof -
  obtain fs c where f: "free = free_cells s p fs c" "pool_ok p s fs c" using at by (auto simp: pool_at_def)
  let ?i = "memb_semp (pools s p)"
  have K: "kernel_ok idle (kern s)" and w: "\<not> Lock_SempCheckBlock (Some ?i) (kern s)" and p: "p \<noteq> 0"
    and l: "unat (lamp_counter (semps (kern s) ?i)) = length free" using at by (auto simp: pool_at_def)
  from pool_put_ok [OF f(2), of b] b f(1) obtain s1 where s1: "pool_put p b s = Some s1" "pool_same p s s1"
    "pool_ok p s1 (fs @ [b]) c" "top_cells (pools s1 p) c = top_cells (pools s p) c" by (auto simp: free_cells_def)
  from ks.post_law [OF K w] obtain k where k: "Lock_SempPost (Some ?i) (kern s) = Some k" "kernel_ok idle k"
    "(\<lambda>i. lamps_limit (semps k i)) = (\<lambda>i. lamps_limit (semps (kern s) i))"
    "(\<lambda>i. Lock_SempCheckBlock (Some i) k) = (\<lambda>i. Lock_SempCheckBlock (Some i) (kern s))"
    "(\<lambda>i. lamp_counter (semps k i)) = (\<lambda>i. lamp_counter (semps (kern s) i))
      (?i := if lamp_counter (semps (kern s) ?i) < lamps_limit (semps (kern s) ?i)
             then lamp_counter (semps (kern s) ?i) + 1 else lamp_counter (semps (kern s) ?i))" by blast
  define s' where "s' = s1\<lparr>kern := k\<rparr>"
  have "Mb_Free p b s = Some s'" using p s1(1,2) k(1) by (simp add: Mb_Free_def pool_same_def s'_def)
  moreover have "unat (lamp_counter (semps k ?i)) = Suc (length free)"
  proof -
    have "lamp_counter (semps (kern s) ?i) < lamps_limit (semps (kern s) ?i)"
      using room l by (simp add: pool_room_def word_less_nat_alt)
    moreover from this have "unat (lamp_counter (semps (kern s) ?i) + 1) = Suc (length free)"
      using l room unsigned_less [of "pool_room s p", where 'a = nat] by (simp add: unat_word_ariths)
    ultimately show ?thesis using fun_cong [OF k(5), of ?i] by simp
  qed
  moreover have "lamps_limit (semps k ?i) = pool_room s p" using fun_cong [OF k(3), of ?i] by (simp add: pool_room_def)
  moreover have "pool_ok p s' (fs @ [b]) c" using s1(3) by (simp add: s'_def)
  moreover have "mset (free_cells s' p (fs @ [b]) c) = add_mset b (mset free)"
    using f(1) s1(4) by (simp add: free_cells_def s'_def)
  moreover have "length (free_cells s' p (fs @ [b]) c) = Suc (length free)"
    using f(1) s1(4) by (simp add: free_cells_def s'_def)
  moreover have "pool_room s' p = pool_room s p" "cell_limit (pools s' p) = cell_limit (pools s p)"
    "memb_semp (pools s' p) = ?i" "kern s' = k"
    using calculation(3) s1(2) by (simp_all add: pool_room_def s'_def pool_same_def)
  ultimately have "pool_at idle p s' (free_cells s' p (fs @ [b]) c)"
    using at p k(2) w fun_cong [OF k(4), of ?i] unfolding pool_at_def by auto
  then show ?thesis using \<open>Mb_Free p b s = Some s'\<close> \<open>mset _ = _\<close> \<open>pool_room s' p = _\<close> \<open>cell_limit (pools s' p) = _\<close> by blast
qed

lemma section_keeps:
  assumes "kernel_ok idle k"
  shows "\<exists>k'. Int_RestoreAsynSignal (Int_SaveAsynSignal k) = Some k' \<and> kernel_ok idle k' \<and> semps k' = semps k"
proof -
  obtain xs ds Q where S: "sys idle k xs ds Q" using assms by (auto simp: kernel_ok_def)
  note D = sysD [OF S]
  from leave_switched [OF _ in_section_Save D(7,8)] D(1) obtain k' where
    "Int_RestoreAsynSignal (Int_SaveAsynSignal k) = Some k'" "switched k k' xs ds Q" "semps k' = semps k"
    "pri (ecbs k') = pri (ecbs k)" by auto
  then show ?thesis using sys_keep [OF S] by blast
qed

lemma Malloc_exhausted:
  assumes at: "pool_at idle p s []" and lim: "\<not> pool_room s p < cell_limit (pools s p)"
  shows "\<exists>s'. Mb_Malloc p timeout s = Some (0, s') \<and> pool_at idle p s' [] \<and> pool_room s' p = pool_room s p \<and>
    cell_limit (pools s' p) = cell_limit (pools s p)"
proof -
  let ?i = "memb_semp (pools s p)"
  have K: "kernel_ok idle (kern s)" and p: "p \<noteq> 0" and l0: "lamp_counter (semps (kern s) ?i) = 0"
    and m: "lamps_limit (semps (kern s) ?i) \<noteq> CN_LIMIT_UINT32" using at by (auto simp: pool_at_def pool_room_def unat_eq_0)
  from ks.pend_none [OF K l0 m] obtain k where k: "Lock_SempPend (Some ?i) 0 (kern s) = Some (Return False, k)" "kernel_ok idle k"
    "(\<lambda>i. lamps_limit (semps k i)) = (\<lambda>i. lamps_limit (semps (kern s) i))"
    "(\<lambda>i. Lock_SempCheckBlock (Some i) k) = (\<lambda>i. Lock_SempCheckBlock (Some i) (kern s))"
    "(\<lambda>i. lamp_counter (semps k i)) = (\<lambda>i. lamp_counter (semps (kern s) i))" by blast
  from section_keeps [OF k(2)] obtain k' where k': "Int_RestoreAsynSignal (Int_SaveAsynSignal k) = Some k'" "kernel_ok idle k'"
    "semps k' = semps k" by blast
  have lm: "lamps_limit (semps k ?i) = pool_room s p" using fun_cong [OF k(3), of ?i] by (simp add: pool_room_def)
  then have "Mb_Malloc p timeout s = Some (0, s\<lparr>kern := k'\<rparr>)"
    using p k(1) k'(1) lim by (simp add: Mb_Malloc_def pool_grow_def Lock_SempQueryCapacital_def Let_def)
  moreover have "pool_at idle p (s\<lparr>kern := k'\<rparr>) []"
    using at k'(2,3) lm fun_cong [OF k(5), of ?i] fun_cong [OF k(4), of ?i]
    by (auto simp: pool_at_def pool_room_def free_cells_def pool_ok_def Lock_SempCheckBlock_def)
  ultimately show ?thesis using k'(3) lm by (auto simp: pool_room_def)
qed

section \<open>Every sequence of calls\<close>

text \<open>
  The calls of the users of a pool that does not grow: \<open>used\<close> are the cells they hold.  Who frees
  a cell holds it.
\<close>

inductive pool_step :: "u32 \<Rightarrow> plst \<times> u32 set \<Rightarrow> plst \<times> u32 set \<Rightarrow> bool" for p where
  malloc: "Mb_Malloc p timeout s = Some (a, s') \<Longrightarrow> a \<noteq> 0 \<Longrightarrow> pool_step p (s, used) (s', insert a used)"
| nothing: "Mb_Malloc p timeout s = Some (0, s') \<Longrightarrow> pool_step p (s, used) (s', used)"
| give_back: "b \<in> used \<Longrightarrow> Mb_Free p b s = Some s' \<Longrightarrow> pool_step p (s, used) (s', used - {b})"

definition pool_inv :: "eptr \<Rightarrow> u32 \<Rightarrow> u32 set \<Rightarrow> plst \<times> u32 set \<Rightarrow> bool" where
  "pool_inv idle p C x \<longleftrightarrow> (\<exists>free. pool_at idle p (fst x) free \<and> snd x \<inter> set free = {} \<and> snd x \<union> set free = C \<and>
     0 \<notin> C \<and> finite C \<and> card C \<le> unat (pool_room (fst x) p) \<and>
     \<not> pool_room (fst x) p < cell_limit (pools (fst x) p))"

lemma pool_inv_malloc:
  assumes inv: "pool_inv idle p C (s, used)"
  shows "\<exists>a s'. Mb_Malloc p timeout s = Some (a, s') \<and>
    (if used = C then a = 0 \<and> pool_inv idle p C (s', used) else a \<in> C - used \<and> pool_inv idle p C (s', insert a used))"
proof -
  obtain free where F: "pool_at idle p s free" "used \<inter> set free = {}" "used \<union> set free = C" "0 \<notin> C" "finite C"
    "card C \<le> unat (pool_room s p)" "\<not> pool_room s p < cell_limit (pools s p)" using inv by (auto simp: pool_inv_def)
  show ?thesis
  proof (cases free)
    case Nil
    then obtain s' where s': "Mb_Malloc p timeout s = Some (0, s')" "pool_at idle p s' []" "pool_room s' p = pool_room s p"
      "cell_limit (pools s' p) = cell_limit (pools s p)" using Malloc_exhausted [of idle p s timeout] F by auto
    have "pool_inv idle p C (s', used)"
      unfolding pool_inv_def by (rule exI [of _ "[]"]) (use s' F Nil in auto)
    then show ?thesis using s'(1) F Nil by auto
  next
    case (Cons a rest)
    have d: "a \<notin> set rest" using pool_at_distinct [OF F(1)] Cons by simp
    have "a \<in> C - used" "used \<noteq> C" using F(2,3) Cons by auto
    obtain s' where s': "Mb_Malloc p timeout s = Some (a, s')" "pool_at idle p s' rest" "pool_room s' p = pool_room s p"
      "cell_limit (pools s' p) = cell_limit (pools s p)" using Malloc_takes [OF F(1), of timeout] Cons by auto
    have "pool_inv idle p C (s', insert a used)"
      unfolding pool_inv_def by (rule exI [of _ rest]) (use s' F Cons d in auto)
    with s'(1) \<open>a \<in> C - used\<close> \<open>used \<noteq> C\<close> show ?thesis by auto
  qed
qed

lemma pool_inv_free:
  assumes inv: "pool_inv idle p C (s, used)" and b: "b \<in> used"
  shows "\<exists>s'. Mb_Free p b s = Some s' \<and> pool_inv idle p C (s', used - {b})"
proof -
  obtain free where F: "pool_at idle p s free" "used \<inter> set free = {}" "used \<union> set free = C" "0 \<notin> C" "finite C"
    "card C \<le> unat (pool_room s p)" "\<not> pool_room s p < cell_limit (pools s p)" using inv by (auto simp: pool_inv_def)
  have d: "distinct free" using pool_at_distinct [OF F(1)] by simp
  have bf: "b \<notin> set free" "b \<noteq> 0" using b F(2-4) by auto
  have "insert b (set free) \<subseteq> C" using b F(3) by blast
  then have "card (insert b (set free)) \<le> card C" using F(5) card_mono by blast
  then have "length free < unat (pool_room s p)" using bf(1) distinct_card [OF d] F(6) by simp
  from Free_returns [OF F(1) bf this] obtain s' free' where s': "Mb_Free p b s = Some s'" "pool_at idle p s' free'"
    "mset free' = add_mset b (mset free)" "pool_room s' p = pool_room s p" "cell_limit (pools s' p) = cell_limit (pools s p)" by blast
  have "set free' = insert b (set free)" using arg_cong [where f = set_mset, OF s'(3)] by simp
  then have "pool_inv idle p C (s', used - {b})"
    unfolding pool_inv_def by (intro exI [of _ free']) (use s' F b in auto)
  then show ?thesis using s'(1) by blast
qed

lemma pool_inv_step:
  assumes "pool_step p x y" and "pool_inv idle p C x"
  shows "pool_inv idle p C y"
  using assms
proof cases
  case (malloc timeout s a s' used)
  then show ?thesis using pool_inv_malloc [of idle p C s used timeout] assms(2) by (auto split: if_splits)
next
  case (nothing timeout s s' used)
  moreover have "0 \<notin> C" using assms(2) by (auto simp: pool_inv_def)
  ultimately show ?thesis using pool_inv_malloc [of idle p C s used timeout] assms(2) by (auto split: if_splits)
next
  case (give_back b used s s')
  then show ?thesis using pool_inv_free [of idle p C s used b] assms(2) by auto
qed

lemma pool_reachable: "(pool_step p)\<^sup>*\<^sup>* x y \<Longrightarrow> pool_inv idle p C x \<Longrightarrow> pool_inv idle p C y"
  by (induction rule: rtranclp_induct) (auto intro: pool_inv_step)

section \<open>Growing\<close>

lemma kernel_ok_resize:
  assumes ok: "kernel_ok idle k" and w: "\<not> Lock_SempCheckBlock (Some i) k"
  shows "\<exists>k1 k2. Lock_SempDelete_s (Some i) (Int_SaveAsynSignal k) = Some (True, k1) \<and>
    Int_RestoreAsynSignal (init_semp i l n ord k1) = Some k2 \<and> kernel_ok idle k2 \<and>
    semps k2 = (semps k)(i := \<lparr>sync_order = ord, lamps_limit = l, lamp_counter = n, semp_sync = NULL\<rparr>)"
proof -
  obtain xs ds Q where S: "sys idle k xs ds Q" using ok by (auto simp: kernel_ok_def)
  note D = sysD [OF S]
  let ?s = "Int_SaveAsynSignal k"
  have e: "semp_sync (semps k i) = NULL" using w by (simp add: Lock_SempCheckBlock_def)
  have "in_section ?s (kcall_out (Call_OBJ_Del (H_Semp i)) (Int_SaveAsynSignal ?s))"
    using in_section_Save [of ?s] by (simp add: in_section_def kcall_out_def kfix_def)
  from nested_restore [OF D(2) in_section_Save this] obtain k1 where
    k1: "Int_RestoreAsynSignal (kcall_out (Call_OBJ_Del (H_Semp i)) (Int_SaveAsynSignal ?s)) = Some k1" "in_section k k1"
      "qview k1 = qview k" "semps k1 = semps k" "ecbs k1 = ecbs k" by (auto simp: kcall_out_def)
  have del: "Lock_SempDelete_s (Some i) ?s = Some (True, k1)" using e k1(1) by (simp add: Lock_SempDelete_s_def Let_def)
  let ?k2 = "init_semp i l n ord k1"
  have "qview ?k2 = qview k1"
    using e k1(4) by (auto simp: qview_def init_semp_def kcall_out_def upd_semp_def hdval_def hvalid_def fun_eq_iff split: headp.split)
  then have "kinv ?k2 xs ds Q" using D(1) kinv_view k1(3) by metis
  moreover have "in_section k ?k2" using k1(2) by (simp add: in_section_def kfix_def init_semp_def kcall_out_def upd_semp_def)
  ultimately obtain k2 where k2: "Int_RestoreAsynSignal ?k2 = Some k2" "switched k k2 xs ds Q" "semps k2 = semps ?k2"
    "pri (ecbs k2) = pri (ecbs ?k2)" using leave_switched [OF _ _ D(7,8)] by blast
  have "pri (ecbs k2) = pri (ecbs k)" using k2(4) k1(5) by (simp add: init_semp_def kcall_out_def)
  then have "kernel_ok idle k2" using sys_keep [OF S k2(2)] by blast
  then show ?thesis using del k2(1,3) k1(4) by (auto simp: init_semp_def kcall_out_def)
qed

text \<open>The call that makes the pool grow, up to the atomic section.\<close>

lemma Malloc_grow_steps:
  assumes at: "pool_at idle p s []" and lim: "pool_room s p < cell_limit (pools s p)"
    and sup: "heap_supply s = Some (inc, sz) # r" "inc \<noteq> 0" and z: "cell_size (pools s p) \<noteq> 0"
  defines "n \<equiv> (sz - 8) div cell_size (pools s p)"
  shows "\<exists>k. kernel_ok idle k \<and> semps k = (semps k)(memb_semp (pools s p) :=
        \<lparr>sync_order = CN_BLOCK_FIFO, lamps_limit = pool_room s p + n, lamp_counter = n - 1, semp_sync = NULL\<rparr>) \<and>
    (\<exists>s1. Mb_Malloc p timeout s = pool_take p s1 \<and> kern s1 = k \<and> cells s1 = cells s \<and> heap_supply s1 = r \<and>
       pools s1 = (pools s)(p := (pools s p)\<lparr>continue_pool := inc + 8,
         pool_offset := inc + 8 + n * cell_size (pools s p), next_inc_pool := inc\<rparr>))"
proof -
  let ?i = "memb_semp (pools s p)" and ?m = "pools s p"
  have K: "kernel_ok idle (kern s)" and p: "p \<noteq> 0" and l0: "lamp_counter (semps (kern s) ?i) = 0"
    and m: "lamps_limit (semps (kern s) ?i) \<noteq> CN_LIMIT_UINT32" and w: "\<not> Lock_SempCheckBlock (Some ?i) (kern s)"
    using at by (auto simp: pool_at_def pool_room_def unat_eq_0)
  from ks.pend_none [OF K l0 m] obtain k where k: "Lock_SempPend (Some ?i) 0 (kern s) = Some (Return False, k)" "kernel_ok idle k"
    "(\<lambda>i. lamps_limit (semps k i)) = (\<lambda>i. lamps_limit (semps (kern s) i))"
    "(\<lambda>i. Lock_SempCheckBlock (Some i) k) = (\<lambda>i. Lock_SempCheckBlock (Some i) (kern s))"
    "(\<lambda>i. lamp_counter (semps k i)) = (\<lambda>i. lamp_counter (semps (kern s) i))" by blast
  have w': "\<not> Lock_SempCheckBlock (Some ?i) k" using fun_cong [OF k(4), of ?i] w by simp
  have f: "lamps_limit (semps k ?i) = pool_room s p" "lamp_counter (semps k ?i) = 0"
    using fun_cong [OF k(3), of ?i] fun_cong [OF k(5), of ?i] l0 by (simp_all add: pool_room_def)
  from kernel_ok_resize [OF k(2) w', of "pool_room s p + n" "n - 1" CN_BLOCK_FIFO] obtain k1 k2 where
    k2: "Lock_SempDelete_s (Some ?i) (Int_SaveAsynSignal k) = Some (True, k1)"
      "Int_RestoreAsynSignal (init_semp ?i (pool_room s p + n) (n - 1) CN_BLOCK_FIFO k1) = Some k2" "kernel_ok idle k2"
      "semps k2 = (semps k)(?i := \<lparr>sync_order = CN_BLOCK_FIFO, lamps_limit = pool_room s p + n, lamp_counter = n - 1, semp_sync = NULL\<rparr>)"
    by blast
  define s1 where "s1 = s\<lparr>plcalls := plcalls s @ [Call_M_Malloc (cell_increment ?m * cell_size ?m + 8) timeout],
    heap_supply := r, inc_link := (inc_link s)(inc := next_inc_pool ?m),
    pools := (pools s)(p := ?m\<lparr>continue_pool := inc + 8, pool_offset := inc + 8 + n * cell_size ?m, next_inc_pool := inc\<rparr>),
    kern := k2\<rparr>"
  have "Mb_Malloc p timeout s = pool_take p s1"
    using p k(1) k2(1,2) f lim sup z
    by (simp add: Mb_Malloc_def pool_grow_def Lock_SempQueryCapacital_def Lock_SempQueryFree_def Lock_SempCreate_s_def
        heap_alloc_def pl_call_def upd_pool_def s1_def n_def Let_def)
  moreover have "semps k2 = (semps k2)(?i :=
      \<lparr>sync_order = CN_BLOCK_FIFO, lamps_limit = pool_room s p + n, lamp_counter = n - 1, semp_sync = NULL\<rparr>)"
    using k2(4) by simp
  ultimately show ?thesis using k2(3) by (auto simp: s1_def intro!: exI [of _ k2] exI [of _ s1])
qed

lemma Malloc_grow:
  assumes at: "pool_at idle p s []" and lim: "pool_room s p < cell_limit (pools s p)"
    and sup: "heap_supply s = Some (inc, sz) # r" "inc \<noteq> 0" and z: "cell_size (pools s p) \<noteq> 0"
    and n: "n = unat ((sz - 8) div cell_size (pools s p))" "0 < n"
    and fit: "unat inc + unat sz \<le> 2 ^ 32" "8 \<le> sz" "unat (pool_room s p) + n < 2 ^ 32 - 1"
  shows "\<exists>s'. Mb_Malloc p timeout s = Some (inc + 8 + of_nat (n - 1) * cell_size (pools s p), s') \<and>
    pool_at idle p s' (map (\<lambda>i. inc + 8 + of_nat i * cell_size (pools s p)) (rev [0 ..< n - 1])) \<and>
    pool_room s' p = pool_room s p + of_nat n"
proof -
  let ?z = "cell_size (pools s p)" and ?n = "(sz - 8) div cell_size (pools s p)" and ?i = "memb_semp (pools s p)"
  have on: "of_nat n = ?n" by (simp add: n(1))
  from Malloc_grow_steps [OF at lim sup z, of timeout] obtain k s1 where K: "kernel_ok idle k"
    "semps k = (semps k)(?i := \<lparr>sync_order = CN_BLOCK_FIFO, lamps_limit = pool_room s p + ?n, lamp_counter = ?n - 1, semp_sync = NULL\<rparr>)"
    and s1: "Mb_Malloc p timeout s = pool_take p s1" "kern s1 = k" "cells s1 = cells s"
      "pools s1 = (pools s)(p := (pools s p)\<lparr>continue_pool := inc + 8, pool_offset := inc + 8 + ?n * ?z, next_inc_pool := inc\<rparr>)"
    by blast
  have semp: "semps k ?i = \<lparr>sync_order = CN_BLOCK_FIFO, lamps_limit = pool_room s p + ?n, lamp_counter = ?n - 1, semp_sync = NULL\<rparr>"
    using fun_cong [OF K(2), of ?i] by simp
  let ?m = "pools s1 p"
  have m: "continue_pool ?m = inc + 8" "cell_size ?m = ?z" "memb_semp ?m = ?i" "pool_offset ?m = inc + 8 + of_nat n * ?z"
    "free_list ?m = free_list (pools s p)" by (simp_all add: s1(4) on)
  have nz: "n * unat ?z \<le> unat sz - 8"
  proof -
    have "n = (unat sz - 8) div unat ?z" using fit(2) by (simp add: n(1) unat_div unat_sub)
    then show ?thesis by simp
  qed
  have sz: "8 \<le> unat sz" using fit(2) by (simp add: word_le_nat_alt)
  have z1: "1 \<le> unat ?z" using z unat_gt_0 [of ?z] by simp
  then have n1: "n \<le> n * unat ?z" by simp
  have i8: "unat (inc + 8) = unat inc + 8" "inc + 8 \<noteq> 0"
  proof -
    have "1 \<le> n * unat ?z" using n(2) n1 by linarith
    then have "unat inc + 8 < 2 ^ 32" using nz fit(1) sz by linarith
    then show "unat (inc + 8) = unat inc + 8" by (simp add: unat_word_ariths)
    then show "inc + 8 \<noteq> 0" by (auto simp: unat_eq_0 [symmetric])
  qed
  have "distinct (top_cells ?m n) \<and> 0 \<notin> set (top_cells ?m n)"
    by (rule top_cells_distinct) (use m z i8 nz fit(1) sz in simp_all)
  moreover have "free_list (pools s p) = 0"
    using at by (auto simp: pool_at_def pool_ok_def free_cells_def Let_def split: if_splits)
  ultimately have ok: "pool_ok p s1 [] n" using m by (simp add: pool_ok_def Let_def)
  obtain j where j: "n = Suc j" using n(2) by (cases n) auto
  from pool_take_ok [OF ok] j obtain s' fs' c' where
    s': "pool_take p s1 = Some (inc + 8 + of_nat j * ?z, s')" "pool_same p s1 s'" "pool_ok p s' fs' c'"
      "fs' @ top_cells (pools s' p) c' = top_cells ?m j" by (auto simp: top_cells_Suc m)
  have t: "top_cells ?m j = map (\<lambda>i. inc + 8 + of_nat i * ?z) (rev [0 ..< n - 1])" by (simp add: top_cells_def m j)
  have "memb_semp (pools s' p) = ?i" "kern s' = k" using s'(2) s1(2) m(3) by (simp_all add: pool_same_def)
  moreover have "unat (?n - 1) = j"
  proof -
    have "?n \<noteq> 0" using n by auto
    then show ?thesis using n(1) j by (simp add: unat_minus_one)
  qed
  moreover have "pool_room s p + ?n \<noteq> CN_LIMIT_UINT32"
  proof
    assume "pool_room s p + ?n = CN_LIMIT_UINT32"
    then have "unat (pool_room s p + ?n) = 2 ^ 32 - 1" by simp
    moreover have "unat (pool_room s p + ?n) = unat (pool_room s p) + n"
      using fit(3) n(1) by (simp add: unat_word_ariths)
    ultimately show False using fit(3) by simp
  qed
  ultimately have "pool_at idle p s' (top_cells ?m j) \<and> pool_room s' p = pool_room s p + of_nat n"
    using s'(3,4) at K(1) semp unfolding pool_at_def pool_room_def free_cells_def on
    by (auto simp: Lock_SempCheckBlock_def intro!: exI [of _ fs'] exI [of _ c'])
  then show ?thesis using s1(1) s'(1) t j by simp
qed

section \<open>Properties\<close>

definition block_cells :: "u32 \<Rightarrow> u32 \<Rightarrow> nat \<Rightarrow> u32 list" where
  "block_cells a z n = map (\<lambda>i. a + of_nat i * z) (rev [0 ..< n])"

lemma pool_init_at:
  assumes k: "kernel_ok idle (kern s)" and w: "\<not> Lock_SempCheckBlock (Some (memb_semp (pools s p))) (kern s)"
    and p: "p \<noteq> 0" and z: "bytes \<noteq> 0" "original \<noteq> 0" and fit: "unat original + unat n * unat bytes \<le> 2 ^ 32"
    and n: "n \<noteq> CN_LIMIT_UINT32"
  shows "pool_at idle p (pool_init p original n bytes increment limit s) (block_cells original bytes (unat n)) \<and>
    pool_room (pool_init p original n bytes increment limit s) p = n \<and>
    cell_limit (pools (pool_init p original n bytes increment limit s) p) = limit \<and>
    distinct (block_cells original bytes (unat n)) \<and> 0 \<notin> set (block_cells original bytes (unat n))"
proof -
  let ?s = "pool_init p original n bytes increment limit s" and ?i = "memb_semp (pools s p)"
  have kk: "kern ?s = init_semp ?i n n CN_BLOCK_FIFO (kern s)"
    by (simp add: pool_init_def pl_call_def upd_pool_def Lock_SempCreate_s_def Let_def)
  have m: "pools ?s p = (pools s p)\<lparr>continue_pool := original, free_list := 0, pool_offset := original + n * bytes,
      cell_size := bytes, cell_increment := increment, cell_limit := limit, next_inc_pool := 0\<rparr>"
    by (simp add: pool_init_def pl_call_def upd_pool_def Let_def)
  have t: "top_cells (pools ?s p) c = block_cells original bytes c" for c by (simp add: top_cells_def block_cells_def m)
  have d: "distinct (top_cells (pools ?s p) (unat n)) \<and> 0 \<notin> set (top_cells (pools ?s p) (unat n))"
    by (rule top_cells_distinct) (use m z fit in simp_all)
  then have ok: "pool_ok p ?s [] (unat n)" by (simp add: pool_ok_def m Let_def)
  have sk: "semps (kern ?s) ?i = \<lparr>sync_order = CN_BLOCK_FIFO, lamps_limit = n, lamp_counter = n, semp_sync = NULL\<rparr>"
    by (simp add: kk init_semp_def kcall_out_def upd_semp_def)
  have "kernel_ok idle (kern ?s)" unfolding kk by (rule kernel_ok_init_semp [OF k w])
  moreover have "length (block_cells original bytes (unat n)) = unat n" by (simp add: block_cells_def)
  moreover have "\<exists>fs c. block_cells original bytes (unat n) = free_cells ?s p fs c \<and> pool_ok p ?s fs c"
    using ok t by (auto simp: free_cells_def intro!: exI [of _ "[]"] exI [of _ "unat n"])
  ultimately show ?thesis
    using p n sk d [unfolded t] by (simp add: pool_at_def pool_room_def m Lock_SempCheckBlock_def)
qed

text \<open>
  C17: a pool never has a cell in two hands.  Take any sequence of allocations and releases of held
  cells on a pool of the cells \<open>C\<close> that does not grow.  Afterwards an allocation returns, and gives
  a cell of the pool that nobody holds; it gives the null pointer exactly when all are held.
\<close>

theorem Pool_never_twice:
  assumes "(pool_step p)\<^sup>*\<^sup>* (s0, {}) (s, used)" and "pool_inv idle p C (s0, {})"
  shows "\<exists>a s'. Mb_Malloc p timeout s = Some (a, s') \<and> (if used = C then a = 0 else a \<in> C - used)"
proof -
  have "pool_inv idle p C (s, used)" by (rule pool_reachable [OF assms])
  from pool_inv_malloc [OF this, of timeout] show ?thesis by (auto split: if_splits)
qed

definition sample_pools :: plst where
  "sample_pools = \<lparr>kern = sample, pools = (\<lambda>_. \<lparr>continue_pool = 0, free_list = 0, memb_semp = 5, pool_offset = 0,
       cell_size = 0, cell_increment = 0, cell_limit = 0, next_inc_pool = 0\<rparr>),
     cells = (\<lambda>_. \<lparr>cell_previous = 0, cell_next = 0\<rparr>), inc_link = (\<lambda>_. 0), s_ptPooCtrl = 0,
     heap_supply = [], plcalls = []\<rparr>"

text \<open>Pool 64 with two cells of 16 bytes at 1000.\<close>

definition sample_pool :: plst where
  "sample_pool = pool_init 64 1000 2 16 0 0 sample_pools"

lemma sample_pool_at:
  "pool_at (Ecb 0) 64 (pool_init 64 1000 2 16 increment limit sample_pools) [1016, 1000] \<and>
   pool_room (pool_init 64 1000 2 16 increment limit sample_pools) 64 = 2 \<and>
   cell_limit (pools (pool_init 64 1000 2 16 increment limit sample_pools) 64) = limit"
proof -
  have "block_cells 1000 16 2 = [1016, 1000]" by (simp add: block_cells_def upt_rec)
  then show ?thesis
    using pool_init_at [of "Ecb 0" sample_pools 64 16 1000 2 increment limit]
    by (simp add: sample_pools_def sample_ok Lock_SempCheckBlock_def)
qed

lemma sample_pool_inv: "pool_inv (Ecb 0) 64 {1000, 1016} (sample_pool, {})"
  unfolding pool_inv_def sample_pool_def
  by (rule exI [of _ "[1016, 1000]"]) (use sample_pool_at [of 0 0] in auto)

theorem Pool_never_twice_witness:
  "\<exists>s s'. Mb_Malloc 64 0 sample_pool = Some (1016, s) \<and> Mb_Malloc 64 0 s = Some (1000, s')"
proof -
  from Malloc_takes [OF sample_pool_at [of 0 0, THEN conjunct1]] obtain s where
    s: "Mb_Malloc 64 0 sample_pool = Some (1016, s)" by (auto simp: sample_pool_def)
  then have "pool_step 64 (sample_pool, {}) (s, {1016})" using pool_step.malloc [of 64 0 sample_pool 1016 s "{}"] by simp
  then have "(pool_step 64)\<^sup>*\<^sup>* (sample_pool, {}) (s, {1016})" by (rule r_into_rtranclp)
  from Pool_never_twice [OF this sample_pool_inv, of 0] obtain a s' where
    "Mb_Malloc 64 0 s = Some (a, s')" "if {1016} = {1000, 1016 :: u32} then a = 0 else a \<in> {1000, 1016} - {1016}" by blast
  then show ?thesis using s by (auto split: if_splits)
qed

text \<open>
  C34: the call that finds no cell left in a pool below its limit.  With the next answer of the
  heap, a block of \<open>sz\<close> bytes, the pool has as many cells more as fit in it behind the link; the
  call gives the last of them and the others are free.  The new capacity is not compared with
  \<open>cell_limit\<close>.
\<close>

theorem Malloc_grows:
  assumes "pool_at idle p s []" and "pool_room s p < cell_limit (pools s p)"
    and "heap_supply s = Some (inc, sz) # r" "inc \<noteq> 0" and "cell_size (pools s p) \<noteq> 0"
    and "n = unat ((sz - 8) div cell_size (pools s p))" "0 < n"
    and "unat inc + unat sz \<le> 2 ^ 32" "8 \<le> sz" "unat (pool_room s p) + n < 2 ^ 32 - 1"
  shows "\<exists>s'. Mb_Malloc p timeout s = Some (inc + 8 + of_nat (n - 1) * cell_size (pools s p), s') \<and>
    pool_at idle p s' (block_cells (inc + 8) (cell_size (pools s p)) (n - 1)) \<and>
    Mb_QueryCapacital p s' = pool_room s p + of_nat n"
proof -
  have "p \<noteq> 0" using assms(1) by (simp add: pool_at_def)
  then show ?thesis
    using Malloc_grow [OF assms, of timeout]
    by (auto simp: block_cells_def Mb_QueryCapacital_def Lock_SempQueryCapacital_def pool_room_def)
qed

text \<open>A pool without memory of its own, whose limit is 3, gets 8 cells.\<close>

definition sample_empty :: "u32 \<Rightarrow> u32 \<Rightarrow> plst" where
  "sample_empty increment sz = (pool_init 64 1 0 16 increment 3 sample_pools)\<lparr>heap_supply := [Some (2000, sz)]\<rparr>"

lemma sample_empty_at:
  "pool_at (Ecb 0) 64 (sample_empty increment sz) [] \<and> pool_room (sample_empty increment sz) 64 = 0 \<and>
   cell_limit (pools (sample_empty increment sz) 64) = 3 \<and> cell_size (pools (sample_empty increment sz) 64) = 16"
proof -
  have a: "pool_at (Ecb 0) 64 (pool_init 64 1 0 16 increment 3 sample_pools) [] \<and>
      pool_room (pool_init 64 1 0 16 increment 3 sample_pools) 64 = 0 \<and>
      cell_limit (pools (pool_init 64 1 0 16 increment 3 sample_pools) 64) = 3"
    using pool_init_at [of "Ecb 0" sample_pools 64 16 1 0 increment 3]
    by (simp add: sample_pools_def sample_ok Lock_SempCheckBlock_def block_cells_def)
  have ok: "pool_ok p (s\<lparr>heap_supply := x\<rparr>) fs c = pool_ok p s fs c" for p s x fs c
    unfolding pool_ok_def by (simp del: distinct_append)
  have "cell_size (pools (pool_init 64 1 0 16 increment 3 sample_pools) 64) = 16"
    by (simp add: pool_init_def upd_pool_def pl_call_def Let_def)
  then show ?thesis using a by (auto simp: sample_empty_def pool_at_def pool_room_def free_cells_def ok)
qed

theorem Malloc_grows_witness:
  "\<exists>s'. Mb_Malloc 64 0 (sample_empty 8 136) = Some (2120, s') \<and> Mb_QueryCapacital 64 s' = 8 \<and>
     cell_limit (pools (sample_empty 8 136) 64) = 3"
  using Malloc_grows [of "Ecb 0" 64 "sample_empty 8 136" 2000 136 "[]" 8 0] sample_empty_at [of 8 136]
  by (auto simp: sample_empty_def)

text \<open>
  A pool that is not to grow.  With \<open>cell_increment\<close> 0 the code asks the heap all the same as
  long as the capacity is below \<open>cell_limit\<close>; when what it gets has no room for a cell, the call
  gives an address below the block, and the pool claims to have \<open>0xFFFFFFFF\<close> free cells.
\<close>

lemma Malloc_increment_zero:
  assumes at: "pool_at idle p s []" and lim: "pool_room s p < cell_limit (pools s p)"
    and sup: "heap_supply s = Some (inc, sz) # r" "inc \<noteq> 0" and z: "cell_size (pools s p) \<noteq> 0"
    and no: "(sz - 8) div cell_size (pools s p) = 0"
  shows "\<exists>s'. Mb_Malloc p timeout s = Some (inc + 8 - cell_size (pools s p), s') \<and> Mb_QueryFree p s' = 0xFFFFFFFF \<and>
    Mb_QueryCapacital p s' = pool_room s p"
proof -
  from Malloc_grow_steps [OF at lim sup z, of timeout] obtain k s1 where
    K: "semps k = (semps k)(memb_semp (pools s p) :=
      \<lparr>sync_order = CN_BLOCK_FIFO, lamps_limit = pool_room s p, lamp_counter = - 1, semp_sync = NULL\<rparr>)"
    and s1: "Mb_Malloc p timeout s = pool_take p s1" "kern s1 = k" "cells s1 = cells s"
      "pools s1 = (pools s)(p := (pools s p)\<lparr>continue_pool := inc + 8, pool_offset := inc + 8, next_inc_pool := inc\<rparr>)"
    by (auto simp: no)
  have "free_list (pools s p) = 0" "p \<noteq> 0"
    using at by (auto simp: pool_at_def pool_ok_def free_cells_def Let_def split: if_splits)
  then show ?thesis
    using s1 fun_cong [OF K, of "memb_semp (pools s p)"]
    by (simp add: pool_take_def upd_pool_def Mb_QueryFree_def Mb_QueryCapacital_def Lock_SempQueryFree_def
        Lock_SempQueryCapacital_def Let_def)
qed

lemma Malloc_increment_zero_witness:
  "\<exists>s'. Mb_Malloc 64 0 (sample_empty 0 16) = Some (1992, s') \<and> Mb_QueryFree 64 s' = 0xFFFFFFFF"
  using Malloc_increment_zero [of "Ecb 0" 64 "sample_empty 0 16" 2000 16 "[]" 0] sample_empty_at [of 0 16]
  by (auto simp: sample_empty_def)

end
