(* ===== verification/Obj.thy ===== *)
theory Obj
  imports Prelude
begin

text \<open>
  The tree of system resources, \<open>djyos/object/object.c\<close>.  Objects are addressed by numbers, 0 is
  the null pointer; the children of an object form a ring through \<open>Next\<close>/\<open>Previous\<close>, its head is
  where \<open>Child\<close> points.  A dereference of the null pointer is \<open>None\<close>, and so is a loop that does
  not end.  A name is a string or the null pointer; a comparison with the null pointer is
  \<open>None\<close>.  The atomic sections are one step each, and \<open>OBJ_MoveToTree\<close>, whose body is
  \<open>return TRUE\<close>, is left out.
\<close>

section \<open>State\<close>

record Object =
  obj_Next :: nat
  obj_Previous :: nat
  obj_Parent :: nat
  obj_Child :: nat
  obj_Size :: u16
  obj_Type :: u16
  obj_Inuse :: u32
  obj_Name :: "string option"

record objst =
  objs :: "nat \<Rightarrow> Object"
  s_ptRscRoot :: nat

abbreviation (input) "RSC_RSCNODE \<equiv> (0 :: u16)"
abbreviation (input) "CN_RSC_NAME_LIMIT \<equiv> (255 :: nat)"
abbreviation (input) "CN_OBJ_LIMIT \<equiv> (0xFFFFFFFF :: u32)"

definition rdo :: "(Object \<Rightarrow> 'v) \<Rightarrow> nat \<Rightarrow> objst \<Rightarrow> 'v option" where
  "rdo f p s = (if p = 0 then None else Some (f (objs s p)))"

definition wro :: "(Object \<Rightarrow> Object) \<Rightarrow> nat \<Rightarrow> objst \<Rightarrow> objst option" where
  "wro f p s = (if p = 0 then None else Some (s\<lparr>objs := (objs s)(p := f (objs s p))\<rparr>))"

definition set_Next :: "nat \<Rightarrow> nat \<Rightarrow> objst \<Rightarrow> objst option" where
  "set_Next p v = wro (\<lambda>x. x\<lparr>obj_Next := v\<rparr>) p"

definition set_Previous :: "nat \<Rightarrow> nat \<Rightarrow> objst \<Rightarrow> objst option" where
  "set_Previous p v = wro (\<lambda>x. x\<lparr>obj_Previous := v\<rparr>) p"

definition set_Parent :: "nat \<Rightarrow> nat \<Rightarrow> objst \<Rightarrow> objst option" where
  "set_Parent p v = wro (\<lambda>x. x\<lparr>obj_Parent := v\<rparr>) p"

definition set_Child :: "nat \<Rightarrow> nat \<Rightarrow> objst \<Rightarrow> objst option" where
  "set_Child p v = wro (\<lambda>x. x\<lparr>obj_Child := v\<rparr>) p"

definition set_data :: "nat \<Rightarrow> u16 \<Rightarrow> u16 \<Rightarrow> string option \<Rightarrow> objst \<Rightarrow> objst option" where
  "set_data p sz ty nm = wro (\<lambda>x. x\<lparr>obj_Size := sz, obj_Type := ty, obj_Name := nm\<rparr>) p"

text \<open>\<open>Obj->Next = p; Obj->Previous = p->Previous; p->Previous->Next = Obj; p->Previous = Obj;\<close>\<close>

definition link_obj :: "nat \<Rightarrow> nat \<Rightarrow> objst \<Rightarrow> objst option" where
  "link_obj Obj p s = do {
     s \<leftarrow> set_Next Obj p s;
     pv \<leftarrow> rdo obj_Previous p s;
     s \<leftarrow> set_Previous Obj pv s;
     pv \<leftarrow> rdo obj_Previous p s;
     s \<leftarrow> set_Next pv Obj s;
     set_Previous p Obj s }"

text \<open>The same without brothers: \<open>Obj->Next = Obj; Obj->Previous = Obj;\<close>\<close>

definition alone_obj :: "nat \<Rightarrow> objst \<Rightarrow> objst option" where
  "alone_obj Obj s = do { s \<leftarrow> set_Next Obj Obj s; set_Previous Obj Obj s }"

text \<open>\<open>Obj->Previous->Next = Obj->Next; Obj->Next->Previous = Obj->Previous;\<close>\<close>

definition unlink_obj :: "nat \<Rightarrow> objst \<Rightarrow> objst option" where
  "unlink_obj Obj s = do {
     pv \<leftarrow> rdo obj_Previous Obj s; nx \<leftarrow> rdo obj_Next Obj s;
     s \<leftarrow> set_Next pv nx s;
     nx \<leftarrow> rdo obj_Next Obj s; pv \<leftarrow> rdo obj_Previous Obj s;
     set_Previous nx pv s }"

text \<open>The same in the other order: \<open>Obj->Next->Previous = ...; Obj->Previous->Next = ...;\<close>\<close>

definition takeout_obj :: "nat \<Rightarrow> objst \<Rightarrow> objst option" where
  "takeout_obj Obj s = do {
     nx \<leftarrow> rdo obj_Next Obj s; pv \<leftarrow> rdo obj_Previous Obj s;
     s \<leftarrow> set_Previous nx pv s;
     pv \<leftarrow> rdo obj_Previous Obj s; nx \<leftarrow> rdo obj_Next Obj s;
     set_Next pv nx s }"

section \<open>Searching among brothers\<close>

definition strcmp0 :: "string option \<Rightarrow> string \<Rightarrow> bool option" where
  "strcmp0 a b = (case a of None \<Rightarrow> None | Some x \<Rightarrow> Some (x = b))"

text \<open>\<open>do { if(strcmp(temp->Name, Name) == 0) return temp; temp = temp->Next; } while(temp != stop);\<close>\<close>

partial_function (option) search_ring :: "nat \<Rightarrow> string \<Rightarrow> nat \<Rightarrow> objst \<Rightarrow> nat option" where
  "search_ring stop nm temp s = do {
     tn \<leftarrow> rdo obj_Name temp s;
     eq \<leftarrow> strcmp0 tn nm;
     if eq then Some temp
     else do {
       temp \<leftarrow> rdo obj_Next temp s;
       if temp = stop then Some 0 else search_ring stop nm temp s } }"

definition OBJ_SearchSibling :: "nat \<Rightarrow> string option \<Rightarrow> objst \<Rightarrow> nat option" where
  "OBJ_SearchSibling Brother nm s = (case nm of
       None \<Rightarrow> Some 0
     | Some n \<Rightarrow> if Brother = 0 then Some 0 else search_ring Brother n Brother s)"

definition OBJ_SearchTree :: "string option \<Rightarrow> objst \<Rightarrow> nat option" where
  "OBJ_SearchTree nm s = (case nm of
       None \<Rightarrow> Some 0
     | Some n \<Rightarrow> do {
         temp \<leftarrow> rdo obj_Child (s_ptRscRoot s) s;
         search_ring temp n temp s })"

definition OBJ_SearchChild :: "nat \<Rightarrow> string option \<Rightarrow> objst \<Rightarrow> nat option" where
  "OBJ_SearchChild Parent nm s = (case nm of
       None \<Rightarrow> Some 0
     | Some n \<Rightarrow> if Parent = 0 then Some 0
         else do {
           temp \<leftarrow> rdo obj_Child Parent s;
           if temp = 0 then Some 0 else search_ring temp n temp s })"

section \<open>The roots\<close>

text \<open>\<open>root\<close>, \<open>sys\<close>: the addresses of the two static objects; 34 and 36 bytes are their sizes.\<close>

definition RootObjInit :: "nat \<Rightarrow> nat \<Rightarrow> objst \<Rightarrow> nat \<times> objst" where
  "RootObjInit root sys s =
     (let r = \<lparr>obj_Next = root, obj_Previous = root, obj_Parent = 0, obj_Child = sys, obj_Size = 34,
           obj_Type = RSC_RSCNODE, obj_Inuse = 0, obj_Name = Some ''/''\<rparr>;
          y = \<lparr>obj_Next = sys, obj_Previous = sys, obj_Parent = root, obj_Child = 0, obj_Size = 36,
           obj_Type = RSC_RSCNODE, obj_Inuse = 0, obj_Name = Some ''sys''\<rparr>
      in (sys, s\<lparr>objs := (objs s)(root := r, sys := y)\<rparr>))"

definition ModuleInstall_OBJ :: "nat \<Rightarrow> nat \<Rightarrow> objst \<Rightarrow> objst" where
  "ModuleInstall_OBJ root sys s = (let (r, s) = RootObjInit root sys s in s\<lparr>s_ptRscRoot := r\<rparr>)"

definition OBJ_SysRoot :: "objst \<Rightarrow> nat" where
  "OBJ_SysRoot s = s_ptRscRoot s"

definition Lock_RscAddLockTree :: "nat \<Rightarrow> u16 \<Rightarrow> string option \<Rightarrow> objst \<Rightarrow> (nat \<times> objst) option" where
  "Lock_RscAddLockTree Obj sz nm s =
     (if Obj = 0 then Some (0, s)
      else do {
        s \<leftarrow> set_Parent Obj (s_ptRscRoot s) s;
        s \<leftarrow> set_Child Obj 0 s;
        s \<leftarrow> set_data Obj sz RSC_RSCNODE nm s;
        c \<leftarrow> rdo obj_Child (s_ptRscRoot s) s;
        s \<leftarrow> (if c = 0 then do { s \<leftarrow> set_Child (s_ptRscRoot s) Obj s; alone_obj Obj s }
             else link_obj Obj c s);
        Some (Obj, s) })"

definition OBJ_Clean :: "nat \<Rightarrow> objst \<Rightarrow> objst" where
  "OBJ_Clean Obj s =
     (if Obj = 0 then s
      else s\<lparr>objs := (objs s)(Obj := (objs s Obj)\<lparr>obj_Child := 0, obj_Parent := 0, obj_Next := 0, obj_Previous := 0\<rparr>)\<rparr>)"

section \<open>Adding\<close>

definition OBJ_AddTree :: "nat \<Rightarrow> u16 \<Rightarrow> u16 \<Rightarrow> string option \<Rightarrow> objst \<Rightarrow> (nat \<times> objst) option" where
  "OBJ_AddTree Obj sz ty nm s =
     (if Obj = 0 then Some (0, s)
      else do {
        f \<leftarrow> OBJ_SearchTree nm s;
        if f \<noteq> 0 then Some (0, s)
        else do {
          s \<leftarrow> set_Parent Obj (s_ptRscRoot s) s;
          s \<leftarrow> set_Child Obj 0 s;
          s \<leftarrow> set_data Obj sz ty nm s;
          root_node \<leftarrow> rdo obj_Child (s_ptRscRoot s) s;
          s \<leftarrow> link_obj Obj root_node s;
          Some (Obj, s) } })"

definition OBJ_AddToPrevious :: "nat \<Rightarrow> nat \<Rightarrow> u16 \<Rightarrow> u16 \<Rightarrow> string option \<Rightarrow> objst \<Rightarrow> (nat \<times> objst) option" where
  "OBJ_AddToPrevious Obj NewObj sz ty nm s =
     (if Obj = 0 \<or> NewObj = 0 then Some (0, s)
      else do {
        s \<leftarrow> set_Next NewObj Obj s;
        pv \<leftarrow> rdo obj_Previous Obj s;
        s \<leftarrow> set_Previous NewObj pv s;
        pa \<leftarrow> rdo obj_Parent Obj s;
        s \<leftarrow> set_Parent NewObj pa s;
        s \<leftarrow> set_Child NewObj 0 s;
        s \<leftarrow> set_data NewObj sz ty nm s;
        pv \<leftarrow> rdo obj_Previous Obj s;
        s \<leftarrow> set_Next pv NewObj s;
        s \<leftarrow> set_Previous Obj NewObj s;
        Some (NewObj, s) })"

definition OBJ_AddToNext :: "nat \<Rightarrow> nat \<Rightarrow> u16 \<Rightarrow> u16 \<Rightarrow> string option \<Rightarrow> objst \<Rightarrow> (nat \<times> objst) option" where
  "OBJ_AddToNext Obj NewObj sz ty nm s =
     (if Obj = 0 \<or> NewObj = 0 then Some (0, s)
      else do {
        s \<leftarrow> set_Previous NewObj Obj s;
        nx \<leftarrow> rdo obj_Next Obj s;
        s \<leftarrow> set_Next NewObj nx s;
        pa \<leftarrow> rdo obj_Parent Obj s;
        s \<leftarrow> set_Parent NewObj pa s;
        s \<leftarrow> set_Child NewObj 0 s;
        s \<leftarrow> set_data NewObj sz ty nm s;
        nx \<leftarrow> rdo obj_Next Obj s;
        s \<leftarrow> set_Previous nx NewObj s;
        s \<leftarrow> set_Next Obj NewObj s;
        Some (NewObj, s) })"

definition add_first :: "nat \<Rightarrow> nat \<Rightarrow> objst \<Rightarrow> objst option" where
  "add_first Parent Child s = do {
     s \<leftarrow> set_Child Parent Child s;
     s \<leftarrow> set_Parent Child Parent s;
     alone_obj Child s }"

text \<open>\<open>Child->Next = p; Child->Previous = p->Previous; Child->Parent = Parent; ...\<close>\<close>

definition add_brother :: "nat \<Rightarrow> nat \<Rightarrow> nat \<Rightarrow> objst \<Rightarrow> objst option" where
  "add_brother Parent Child p s = do {
     s \<leftarrow> set_Next Child p s;
     pv \<leftarrow> rdo obj_Previous p s;
     s \<leftarrow> set_Previous Child pv s;
     s \<leftarrow> set_Parent Child Parent s;
     pv \<leftarrow> rdo obj_Previous p s;
     s \<leftarrow> set_Next pv Child s;
     set_Previous p Child s }"

definition OBJ_AddChild :: "nat \<Rightarrow> nat \<Rightarrow> u16 \<Rightarrow> u16 \<Rightarrow> string option \<Rightarrow> objst \<Rightarrow> (nat \<times> objst) option" where
  "OBJ_AddChild Parent Child sz ty nm s =
     (if Parent = 0 \<or> Child = 0 then Some (0, s)
      else do {
        s \<leftarrow> set_data Child sz ty nm s;
        s \<leftarrow> set_Child Child 0 s;
        p \<leftarrow> rdo obj_Child Parent s;
        s \<leftarrow> (if p = 0 then add_first Parent Child s else add_brother Parent Child p s);
        s \<leftarrow> wro (\<lambda>x. x\<lparr>obj_Inuse := 0\<rparr>) Child s;
        Some (Child, s) })"

definition OBJ_AddChildHead :: "nat \<Rightarrow> nat \<Rightarrow> u16 \<Rightarrow> u16 \<Rightarrow> string option \<Rightarrow> objst \<Rightarrow> (nat \<times> objst) option" where
  "OBJ_AddChildHead Parent Child sz ty nm s =
     (if Parent = 0 \<or> Child = 0 then Some (0, s)
      else do {
        s \<leftarrow> set_data Child sz ty nm s;
        s \<leftarrow> set_Child Child 0 s;
        p \<leftarrow> rdo obj_Child Parent s;
        s \<leftarrow> (if p = 0 then add_first Parent Child s
             else do {
               s \<leftarrow> add_brother Parent Child p s;
               c \<leftarrow> rdo obj_Child Parent s;
               pv \<leftarrow> rdo obj_Previous c s;
               set_Child Parent pv s });
        Some (Child, s) })"

section \<open>Replacing and removing\<close>

text \<open>\<open>do { temp2->Parent = New; temp2 = temp2->Next; } while(temp2 != temp1);\<close>\<close>

partial_function (option) adopt_ring :: "nat \<Rightarrow> nat \<Rightarrow> nat \<Rightarrow> objst \<Rightarrow> objst option" where
  "adopt_ring New temp1 temp2 s = do {
     s \<leftarrow> set_Parent temp2 New s;
     temp2 \<leftarrow> rdo obj_Next temp2 s;
     if temp2 = temp1 then Some s else adopt_ring New temp1 temp2 s }"

definition OBJ_Displace :: "nat \<Rightarrow> nat \<Rightarrow> objst \<Rightarrow> (bool \<times> objst) option" where
  "OBJ_Displace Old New s =
     (if Old = 0 \<or> New = 0 then Some (False, s)
      else do {
        temp1 \<leftarrow> rdo obj_Child Old s;
        s \<leftarrow> (if temp1 \<noteq> 0 then adopt_ring New temp1 temp1 s else Some s);
        s \<leftarrow> set_Child New temp1 s;
        nx \<leftarrow> rdo obj_Next Old s; s \<leftarrow> set_Next New nx s;
        pv \<leftarrow> rdo obj_Previous Old s; s \<leftarrow> set_Previous New pv s;
        pa \<leftarrow> rdo obj_Parent Old s; s \<leftarrow> set_Parent New pa s;
        nx \<leftarrow> rdo obj_Next Old s; s \<leftarrow> set_Previous nx New s;
        pv \<leftarrow> rdo obj_Previous Old s; s \<leftarrow> set_Next pv New s;
        pa \<leftarrow> rdo obj_Parent Old s;
        c \<leftarrow> rdo obj_Child pa s;
        s \<leftarrow> (if c = Old then set_Child pa New s else Some s);
        Some (True, s) })"

text \<open>Taking an object out of its parent's ring.\<close>

definition detach :: "nat \<Rightarrow> objst \<Rightarrow> objst option" where
  "detach Obj s = do {
     nx \<leftarrow> rdo obj_Next Obj s;
     pa \<leftarrow> rdo obj_Parent Obj s;
     if nx = Obj then set_Child pa 0 s
     else do {
       c \<leftarrow> rdo obj_Child pa s;
       s \<leftarrow> (if c = Obj then set_Child pa nx s else Some s);
       unlink_obj Obj s } }"

definition OBJ_DelBranch :: "nat \<Rightarrow> objst \<Rightarrow> (nat \<times> objst) option" where
  "OBJ_DelBranch Branch s =
     (if Branch = 0 then Some (0, s) else do { s \<leftarrow> detach Branch s; Some (Branch, s) })"

definition OBJ_Del :: "nat \<Rightarrow> objst \<Rightarrow> (nat \<times> objst) option" where
  "OBJ_Del Obj s =
     (if Obj = 0 then Some (0, s)
      else do {
        c \<leftarrow> rdo obj_Child Obj s;
        if c \<noteq> 0 then Some (0, s) else do { s \<leftarrow> detach Obj s; Some (Obj, s) } })"

section \<open>Moving among brothers\<close>

definition OBJ_MoveToLast :: "nat \<Rightarrow> objst \<Rightarrow> (bool \<times> objst) option" where
  "OBJ_MoveToLast Obj s =
     (if Obj = 0 then Some (False, s)
      else do {
        pa \<leftarrow> rdo obj_Parent Obj s;
        if pa = 0 then Some (True, s)
        else do {
          eldest \<leftarrow> rdo obj_Child pa s;
          s \<leftarrow> (if eldest = Obj then do { nx \<leftarrow> rdo obj_Next Obj s; set_Child pa nx s } else Some s);
          s \<leftarrow> takeout_obj Obj s;
          s \<leftarrow> link_obj Obj eldest s;
          Some (True, s) } })"

definition OBJ_MoveToHead :: "nat \<Rightarrow> objst \<Rightarrow> (bool \<times> objst) option" where
  "OBJ_MoveToHead Obj s =
     (if Obj = 0 then Some (False, s)
      else do {
        pa \<leftarrow> rdo obj_Parent Obj s;
        if pa = 0 then Some (True, s)
        else do {
          (_, s) \<leftarrow> OBJ_MoveToLast Obj s;
          pa \<leftarrow> rdo obj_Parent Obj s;
          s \<leftarrow> set_Child pa Obj s;
          Some (True, s) } })"

definition OBJ_MoveToNext :: "nat \<Rightarrow> nat \<Rightarrow> objst \<Rightarrow> (bool \<times> objst) option" where
  "OBJ_MoveToNext Obj NewNext s =
     (if Obj = 0 \<or> NewNext = 0 \<or> Obj = NewNext then Some (False, s)
      else do {
        pa \<leftarrow> rdo obj_Parent Obj s; pb \<leftarrow> rdo obj_Parent NewNext s;
        if pa \<noteq> pb then Some (False, s)
        else do {
          s \<leftarrow> takeout_obj NewNext s;
          s \<leftarrow> set_Previous NewNext Obj s;
          nx \<leftarrow> rdo obj_Next Obj s;
          s \<leftarrow> set_Next NewNext nx s;
          nx \<leftarrow> rdo obj_Next Obj s;
          s \<leftarrow> set_Previous nx NewNext s;
          s \<leftarrow> set_Next Obj NewNext s;
          Some (True, s) } })"

definition OBJ_MoveToPrevious :: "nat \<Rightarrow> nat \<Rightarrow> objst \<Rightarrow> (bool \<times> objst) option" where
  "OBJ_MoveToPrevious Obj NewPre s =
     (if Obj = 0 \<or> NewPre = 0 \<or> Obj = NewPre then Some (False, s)
      else do {
        pa \<leftarrow> rdo obj_Parent Obj s; pb \<leftarrow> rdo obj_Parent NewPre s;
        if pa \<noteq> pb then Some (False, s)
        else do {
          s \<leftarrow> takeout_obj NewPre s;
          s \<leftarrow> link_obj NewPre Obj s;
          Some (True, s) } })"

definition OBJ_RoundPrevious :: "nat \<Rightarrow> objst \<Rightarrow> (bool \<times> objst) option" where
  "OBJ_RoundPrevious Parent s =
     (if Parent = 0 then Some (False, s)
      else do {
        c \<leftarrow> rdo obj_Child Parent s;
        s \<leftarrow> (if c \<noteq> 0 then do { pv \<leftarrow> rdo obj_Previous c s; set_Child Parent pv s } else Some s);
        Some (True, s) })"

definition OBJ_RoundNext :: "nat \<Rightarrow> objst \<Rightarrow> (bool \<times> objst) option" where
  "OBJ_RoundNext Parent s =
     (if Parent = 0 then Some (False, s)
      else do {
        c \<leftarrow> rdo obj_Child Parent s;
        s \<leftarrow> (if c \<noteq> 0 then do { nx \<leftarrow> rdo obj_Next c s; set_Child Parent nx s } else Some s);
        Some (True, s) })"

section \<open>Queries\<close>

definition OBJ_Rename :: "nat \<Rightarrow> string option \<Rightarrow> objst \<Rightarrow> (bool \<times> objst) option" where
  "OBJ_Rename Obj NewName s =
     (if Obj = 0 \<or> NewName = None then Some (False, s)
      else do { s \<leftarrow> wro (\<lambda>x. x\<lparr>obj_Name := NewName\<rparr>) Obj s; Some (True, s) })"

partial_function (option) climb_tree :: "nat \<Rightarrow> objst \<Rightarrow> nat option" where
  "climb_tree node s = do {
     pa \<leftarrow> rdo obj_Parent node s;
     if pa = s_ptRscRoot s then Some node
     else if pa \<noteq> 0 then climb_tree pa s
     else Some 0 }"

definition OBJ_GetTree :: "nat \<Rightarrow> objst \<Rightarrow> nat option" where
  "OBJ_GetTree Obj s = (if Obj = 0 then Some 0 else climb_tree Obj s)"

definition OBJ_Name :: "nat \<Rightarrow> objst \<Rightarrow> string option" where
  "OBJ_Name Obj s = (if Obj = 0 then None else obj_Name (objs s Obj))"

definition OBJ_Size :: "nat \<Rightarrow> objst \<Rightarrow> u16" where
  "OBJ_Size Obj s = (if Obj = 0 then 0 else obj_Size (objs s Obj))"

definition OBJ_Type :: "nat \<Rightarrow> objst \<Rightarrow> u16" where
  "OBJ_Type Obj s = (if Obj = 0 then 0 else obj_Type (objs s Obj))"

definition OBJ_Parent :: "nat \<Rightarrow> objst \<Rightarrow> nat" where
  "OBJ_Parent Obj s = (if Obj = 0 then 0 else obj_Parent (objs s Obj))"

definition OBJ_Child :: "nat \<Rightarrow> objst \<Rightarrow> nat" where
  "OBJ_Child Obj s = (if Obj = 0 then 0 else obj_Child (objs s Obj))"

definition OBJ_Previous :: "nat \<Rightarrow> objst \<Rightarrow> nat" where
  "OBJ_Previous Obj s = (if Obj = 0 then 0 else obj_Previous (objs s Obj))"

definition OBJ_Next :: "nat \<Rightarrow> objst \<Rightarrow> nat" where
  "OBJ_Next Obj s = (if Obj = 0 then 0 else obj_Next (objs s Obj))"

definition OBJ_GetHead :: "nat \<Rightarrow> objst \<Rightarrow> nat option" where
  "OBJ_GetHead Obj s =
     (if Obj = 0 then Some 0 else do { pa \<leftarrow> rdo obj_Parent Obj s; rdo obj_Child pa s })"

partial_function (option) descend :: "nat \<Rightarrow> objst \<Rightarrow> nat option" where
  "descend current s = do {
     c \<leftarrow> rdo obj_Child current s;
     if c \<noteq> 0 then descend c s else Some current }"

definition OBJ_GetTwig :: "nat \<Rightarrow> objst \<Rightarrow> nat option" where
  "OBJ_GetTwig Obj s =
     (if Obj = 0 then Some 0
      else do { current \<leftarrow> descend Obj s; Some (if current = Obj then 0 else current) })"

partial_function (option) count_level :: "u32 \<Rightarrow> nat \<Rightarrow> objst \<Rightarrow> u32 option" where
  "count_level n node s = do {
     pa \<leftarrow> rdo obj_Parent node s;
     if pa = s_ptRscRoot s then Some n
     else if pa \<noteq> 0 then count_level (n + 1) pa s
     else Some CN_OBJ_LIMIT }"

definition OBJ_GetLevel :: "nat \<Rightarrow> objst \<Rightarrow> u32 option" where
  "OBJ_GetLevel Obj s = (if Obj = 0 then Some CN_OBJ_LIMIT else count_level 0 Obj s)"

definition OBJ_TraveChild :: "nat \<Rightarrow> nat \<Rightarrow> objst \<Rightarrow> nat option" where
  "OBJ_TraveChild Parent Child s =
     (if Parent = 0 \<or> Child = 0 then Some 0
      else if Child = Parent then rdo obj_Child Parent s
      else do {
        nx \<leftarrow> rdo obj_Next Child s;
        c \<leftarrow> rdo obj_Child Parent s;
        Some (if nx = c then 0 else nx) })"

partial_function (option) trave_up :: "nat \<Rightarrow> bool \<Rightarrow> nat \<Rightarrow> objst \<Rightarrow> nat option" where
  "trave_up Ancestor up current s = do {
     c \<leftarrow> rdo obj_Child current s;
     if \<not> up \<and> c \<noteq> 0 then Some c
     else do {
       nx \<leftarrow> rdo obj_Next current s;
       pa \<leftarrow> rdo obj_Parent current s;
       head \<leftarrow> rdo obj_Child pa s;
       if nx \<noteq> head then Some nx
       else if pa = Ancestor then Some 0
       else trave_up Ancestor True pa s } }"

definition OBJ_TraveScion :: "nat \<Rightarrow> nat \<Rightarrow> objst \<Rightarrow> nat option" where
  "OBJ_TraveScion Ancestor Current s =
     (if Ancestor = 0 \<or> Current = 0 then Some 0
      else do {
        c \<leftarrow> rdo obj_Child Ancestor s;
        if Current \<noteq> Ancestor \<or> c \<noteq> 0 then trave_up Ancestor False Current s else Some 0 })"

partial_function (option) scion_loop :: "nat \<Rightarrow> string \<Rightarrow> nat \<Rightarrow> objst \<Rightarrow> nat option" where
  "scion_loop Ancestor nm current s = do {
     temp \<leftarrow> OBJ_TraveScion Ancestor current s;
     if temp = 0 then Some 0
     else do {
       tn \<leftarrow> rdo obj_Name temp s;
       eq \<leftarrow> strcmp0 tn nm;
       if eq then Some temp else scion_loop Ancestor nm temp s } }"

definition OBJ_SearchScion :: "nat \<Rightarrow> string option \<Rightarrow> objst \<Rightarrow> nat option" where
  "OBJ_SearchScion Ancestor nm s = (case nm of
       None \<Rightarrow> Some 0
     | Some n \<Rightarrow> if Ancestor = 0 then Some 0 else scion_loop Ancestor n Ancestor s)"

text \<open>
  The comparison of one component of a path with a name, up to \<open>CN_RSC_NAME_LIMIT\<close> characters:
  the path has ended (\<open>P_End\<close>), a backslash has been reached at \<open>i\<close> (\<open>P_Sep\<close>), or a difference.
\<close>

datatype path_cmp = P_End | P_Sep nat | P_Diff

definition c_char :: "string \<Rightarrow> nat \<Rightarrow> char option" where
  "c_char str i = (if i < length str then Some (str ! i) else None)"

function cmp_path :: "string \<Rightarrow> string \<Rightarrow> nat \<Rightarrow> path_cmp" where
  "cmp_path path dest i =
     (if i \<ge> CN_RSC_NAME_LIMIT then P_Diff
      else case c_char path i of
          None \<Rightarrow> P_End
        | Some c \<Rightarrow>
            if c = CHR 0x5C \<and> c_char path (i + 1) = None then P_End
            else if c = CHR 0x5C then P_Sep i
            else if c_char dest i \<noteq> Some c then P_Diff
            else cmp_path path dest (i + 1))"
  by pat_completeness auto
termination by (relation "measure (\<lambda>(_, _, i). CN_RSC_NAME_LIMIT - i)") auto

declare cmp_path.simps [simp del]

partial_function (option) search_path :: "nat \<Rightarrow> string \<Rightarrow> objst \<Rightarrow> nat option" where
  "search_path current path s = do {
     dest \<leftarrow> rdo obj_Name current s;
     d \<leftarrow> dest;
     case cmp_path path d 0 of
       P_End \<Rightarrow> Some current
     | P_Sep i \<Rightarrow> do {
         c \<leftarrow> rdo obj_Child current s;
         if c = 0 then Some 0 else search_path c (drop (i + 1) path) s }
     | P_Diff \<Rightarrow> do {
         nx \<leftarrow> rdo obj_Next current s;
         pa \<leftarrow> rdo obj_Parent nx s;
         head \<leftarrow> rdo obj_Child pa s;
         if nx = head then Some 0 else search_path nx path s } }"

definition OBJ_Search :: "nat \<Rightarrow> string option \<Rightarrow> objst \<Rightarrow> nat option" where
  "OBJ_Search Start Path s = (case Path of
       None \<Rightarrow> Some 0
     | Some path \<Rightarrow> if Start = 0 then Some 0
         else do {
           c \<leftarrow> rdo obj_Child Start s;
           if c = 0 then Some 0 else search_path c path s })"

definition OBJ_IsHead :: "nat \<Rightarrow> objst \<Rightarrow> bool option" where
  "OBJ_IsHead Obj s =
     (if Obj = 0 then Some False
      else if Obj = s_ptRscRoot s then Some True
      else do { pa \<leftarrow> rdo obj_Parent Obj s; c \<leftarrow> rdo obj_Child pa s; Some (Obj = c) })"

definition OBJ_IsLast :: "nat \<Rightarrow> objst \<Rightarrow> bool option" where
  "OBJ_IsLast Obj s =
     (if Obj = 0 then Some False
      else if Obj = s_ptRscRoot s then Some True
      else do {
        nx \<leftarrow> rdo obj_Next Obj s;
        pa \<leftarrow> rdo obj_Parent Obj s; c \<leftarrow> rdo obj_Child pa s; Some (nx = c) })"

partial_function (option) rank_loop :: "nat \<Rightarrow> u32 \<Rightarrow> nat \<Rightarrow> objst \<Rightarrow> u32 option" where
  "rank_loop Obj ranking temp s =
     (if temp = Obj then Some ranking
      else do { nx \<leftarrow> rdo obj_Next temp s; rank_loop Obj (ranking + 1) nx s })"

definition OBJ_Sequencing :: "nat \<Rightarrow> objst \<Rightarrow> u32 option" where
  "OBJ_Sequencing Obj s =
     (if Obj = 0 then Some (- 1)
      else if Obj = s_ptRscRoot s then Some 0
      else do {
        pa \<leftarrow> rdo obj_Parent Obj s; temp \<leftarrow> rdo obj_Child pa s;
        rank_loop Obj 0 temp s })"

end
