(* ===== verification/ObjProps.thy ===== *)
theory ObjProps
  imports Obj
begin

text \<open>
  The resource tree refines a map from each object to the list of its children.  \<open>tree N s K\<close>:
  the objects \<open>N\<close> of the state \<open>s\<close> have the children \<open>K\<close>, the head first, and names.
\<close>

section \<open>Links\<close>

definition oN :: "objst \<Rightarrow> nat \<Rightarrow> nat" where "oN s a = obj_Next (objs s a)"
definition oP :: "objst \<Rightarrow> nat \<Rightarrow> nat" where "oP s a = obj_Previous (objs s a)"
definition oU :: "objst \<Rightarrow> nat \<Rightarrow> nat" where "oU s a = obj_Parent (objs s a)"
definition oC :: "objst \<Rightarrow> nat \<Rightarrow> nat" where "oC s a = obj_Child (objs s a)"
definition oM :: "objst \<Rightarrow> nat \<Rightarrow> string option" where "oM s a = obj_Name (objs s a)"

definition upo :: "(Object \<Rightarrow> Object) \<Rightarrow> nat \<Rightarrow> objst \<Rightarrow> objst" where
  "upo f a s = s\<lparr>objs := (objs s)(a := f (objs s a))\<rparr>"

abbreviation put_oN :: "nat \<Rightarrow> nat \<Rightarrow> objst \<Rightarrow> objst" where
  "put_oN a v \<equiv> upo (\<lambda>x. x\<lparr>obj_Next := v\<rparr>) a"

abbreviation put_oP :: "nat \<Rightarrow> nat \<Rightarrow> objst \<Rightarrow> objst" where
  "put_oP a v \<equiv> upo (\<lambda>x. x\<lparr>obj_Previous := v\<rparr>) a"

lemma upo_fields [simp]:
  "oN (put_oN a v s) = (oN s)(a := v)" "oP (put_oN a v s) = oP s" "oN (put_oP a v s) = oN s"
  "oP (put_oP a v s) = (oP s)(a := v)"
  "oU (put_oN a v s) = oU s" "oU (put_oP a v s) = oU s" "oC (put_oN a v s) = oC s" "oC (put_oP a v s) = oC s"
  "oM (put_oN a v s) = oM s" "oM (put_oP a v s) = oM s"
  "oN (upo (\<lambda>x. x\<lparr>obj_Parent := v\<rparr>) a s) = oN s" "oP (upo (\<lambda>x. x\<lparr>obj_Parent := v\<rparr>) a s) = oP s"
  "oU (upo (\<lambda>x. x\<lparr>obj_Parent := v\<rparr>) a s) = (oU s)(a := v)" "oC (upo (\<lambda>x. x\<lparr>obj_Parent := v\<rparr>) a s) = oC s"
  "oN (upo (\<lambda>x. x\<lparr>obj_Child := v\<rparr>) a s) = oN s" "oP (upo (\<lambda>x. x\<lparr>obj_Child := v\<rparr>) a s) = oP s"
  "oU (upo (\<lambda>x. x\<lparr>obj_Child := v\<rparr>) a s) = oU s" "oC (upo (\<lambda>x. x\<lparr>obj_Child := v\<rparr>) a s) = (oC s)(a := v)"
  "oN (upo (\<lambda>x. x\<lparr>obj_Inuse := u\<rparr>) a s) = oN s" "oP (upo (\<lambda>x. x\<lparr>obj_Inuse := u\<rparr>) a s) = oP s"
  "oU (upo (\<lambda>x. x\<lparr>obj_Inuse := u\<rparr>) a s) = oU s" "oC (upo (\<lambda>x. x\<lparr>obj_Inuse := u\<rparr>) a s) = oC s"
  "oN (upo (\<lambda>x. x\<lparr>obj_Size := z, obj_Type := t, obj_Name := m\<rparr>) a s) = oN s"
  "oP (upo (\<lambda>x. x\<lparr>obj_Size := z, obj_Type := t, obj_Name := m\<rparr>) a s) = oP s"
  "oM (upo (\<lambda>x. x\<lparr>obj_Size := z, obj_Type := t, obj_Name := m\<rparr>) a s) = (oM s)(a := m)"
  "oM (upo (\<lambda>x. x\<lparr>obj_Parent := v\<rparr>) a s) = oM s" "oM (upo (\<lambda>x. x\<lparr>obj_Child := v\<rparr>) a s) = oM s"
  "oM (upo (\<lambda>x. x\<lparr>obj_Inuse := u\<rparr>) a s) = oM s"
  "oU (upo (\<lambda>x. x\<lparr>obj_Size := z, obj_Type := t, obj_Name := m\<rparr>) a s) = oU s"
  "oC (upo (\<lambda>x. x\<lparr>obj_Size := z, obj_Type := t, obj_Name := m\<rparr>) a s) = oC s"
  "s_ptRscRoot (upo f a s) = s_ptRscRoot s"
  by (auto simp: upo_def oN_def oP_def oU_def oC_def oM_def fun_eq_iff)

interpretation ob: dlink oN oP put_oN put_oP
  by unfold_locales simp_all

lemma obj_access:
  "p \<noteq> 0 \<Longrightarrow> rdo obj_Next p s = Some (oN s p)" "p \<noteq> 0 \<Longrightarrow> rdo obj_Previous p s = Some (oP s p)"
  "p \<noteq> 0 \<Longrightarrow> rdo obj_Parent p s = Some (oU s p)" "p \<noteq> 0 \<Longrightarrow> rdo obj_Child p s = Some (oC s p)"
  "p \<noteq> 0 \<Longrightarrow> rdo obj_Name p s = Some (oM s p)" "p \<noteq> 0 \<Longrightarrow> wro f p s = Some (upo f p s)"
  by (simp_all add: rdo_def wro_def upo_def oN_def oP_def oU_def oC_def oM_def)

lemmas obj_writes = obj_access set_Next_def set_Previous_def set_Parent_def set_Child_def set_data_def

lemma link_obj_eq:
  "a \<noteq> 0 \<Longrightarrow> p \<noteq> 0 \<Longrightarrow> oP s p \<noteq> 0 \<Longrightarrow> a \<noteq> p \<Longrightarrow>
   link_obj a p s = Some (put_oP p a (put_oN (oP s p) a (put_oP a (oP s p) (put_oN a p s))))"
  by (simp add: link_obj_def obj_writes)

lemma upo_swap: "put_oP b w (put_oN a v s) = put_oN a v (put_oP b w s)"
  by (auto simp: upo_def fun_eq_iff)

text \<open>Both orders of taking an object out of its ring.\<close>

lemma takeout_obj_eq:
  "a \<noteq> 0 \<Longrightarrow> oN s a \<noteq> 0 \<Longrightarrow> oP s a \<noteq> 0 \<Longrightarrow> oN s a \<noteq> a \<Longrightarrow>
   takeout_obj a s = Some (put_oN (oP s a) (oN s a) (put_oP (oN s a) (oP s a) s))"
  by (simp add: takeout_obj_def obj_writes)

lemma unlink_obj_eq:
  "a \<noteq> 0 \<Longrightarrow> oN s a \<noteq> 0 \<Longrightarrow> oP s a \<noteq> 0 \<Longrightarrow> oP s a \<noteq> a \<Longrightarrow>
   unlink_obj a s = Some (put_oN (oP s a) (oN s a) (put_oP (oN s a) (oP s a) s))"
  by (simp add: unlink_obj_def obj_writes upo_swap)

section \<open>The tree\<close>

definition kids :: "objst \<Rightarrow> nat \<Rightarrow> nat list \<Rightarrow> bool" where
  "kids s p xs \<longleftrightarrow> (if xs = [] then oC s p = 0 else oC s p = hd xs \<and> dring (oN s) (oP s) xs) \<and>
     (\<forall>x \<in> set xs. oU s x = p)"

definition tree :: "nat set \<Rightarrow> objst \<Rightarrow> (nat \<Rightarrow> nat list) \<Rightarrow> bool" where
  "tree N s K \<longleftrightarrow> 0 \<notin> N \<and> (\<forall>p \<in> N. kids s p (K p) \<and> set (K p) \<subseteq> N \<and> oM s p \<noteq> None)"

lemma treeD:
  assumes "tree N s K" and "p \<in> N"
  shows "kids s p (K p)" and "set (K p) \<subseteq> N" and "p \<noteq> 0" and "x \<in> set (K p) \<Longrightarrow> x \<noteq> 0 \<and> x \<in> N \<and> oU s x = p"
    and "distinct (K p)" and "oM s p \<noteq> None"
proof -
  have N: "0 \<notin> N" "kids s p (K p)" "set (K p) \<subseteq> N" "oM s p \<noteq> None" using assms by (auto simp: tree_def)
  then show "kids s p (K p)" "set (K p) \<subseteq> N" "oM s p \<noteq> None" by simp_all
  show "p \<noteq> 0" using N(1) assms(2) by metis
  show "distinct (K p)" using N(2) by (cases "K p = []") (auto simp: kids_def dring_distinct)
  show "x \<noteq> 0 \<and> x \<in> N \<and> oU s x = p" if "x \<in> set (K p)"
    using that N by (metis kids_def subsetD)
qed

lemma kids_cong:
  assumes "oC s' p = oC s p" and "\<And>x. x \<in> set xs \<Longrightarrow> oN s' x = oN s x \<and> oP s' x = oP s x \<and> oU s' x = oU s x"
  shows "kids s' p xs = kids s p xs"
  using assms dring_cong [of xs "oN s'" "oN s" "oP s'" "oP s"] by (auto simp: kids_def)

text \<open>A change in the ring of the children of \<open>p\<close>, or in objects that are nobody's children.\<close>

lemma tree_step:
  assumes T: "tree N s K" and p: "p \<in> N"
    and same: "\<And>q x. q \<in> N \<Longrightarrow> q \<noteq> p \<Longrightarrow> x \<in> set (K q) \<Longrightarrow> oN s' x = oN s x \<and> oP s' x = oP s x \<and> oU s' x = oU s x"
    and c: "\<And>q. q \<in> N \<Longrightarrow> q \<noteq> p \<Longrightarrow> oC s' q = oC s q"
    and new: "kids s' p ys" "set ys \<subseteq> N" and m: "oM s' = oM s"
  shows "tree N s' (K(p := ys))"
  unfolding tree_def
proof (intro conjI ballI)
  show "0 \<notin> N" using T by (simp add: tree_def)
  fix q assume q: "q \<in> N"
  show "kids s' q ((K(p := ys)) q)"
    using kids_cong [of s' q s "K q"] same [OF q] c [OF q] treeD(1) [OF T q] new(1) by (cases "q = p") auto
  show "set ((K(p := ys)) q) \<subseteq> N" using treeD(2) [OF T q] new(2) by auto
  show "oM s' q \<noteq> None" using treeD(6) [OF T q] m by simp
qed

lemma tree_fresh:
  assumes T: "tree N s K" and c: "c \<notin> N" "c \<noteq> 0"
    and same: "\<And>x. x \<noteq> c \<Longrightarrow> oN s' x = oN s x \<and> oP s' x = oP s x \<and> oU s' x = oU s x \<and> oC s' x = oC s x \<and> oM s' x = oM s x"
    and z: "oC s' c = 0" "oM s' c \<noteq> None"
  shows "tree (insert c N) s' (K(c := []))"
  unfolding tree_def
proof (intro conjI ballI)
  show "0 \<notin> insert c N" using T c by (simp add: tree_def)
  fix q assume q: "q \<in> insert c N"
  show "kids s' q ((K(c := [])) q)"
  proof (cases "q = c")
    case False
    then have "q \<in> N" "q \<noteq> c" using q by auto
    then show ?thesis
      using kids_cong [of s' q s "K q"] same treeD [OF T, of q] c(1) by fastforce
  qed (use z in \<open>simp add: kids_def\<close>)
  show "set ((K(c := [])) q) \<subseteq> insert c N" using treeD(2) [OF T, of q] q by auto
  show "oM s' q \<noteq> None" using treeD(6) [OF T, of q] q same z(2) by (cases "q = c") auto
qed

text \<open>Children of different parents are different.\<close>

lemma tree_disjoint: "tree N s K \<Longrightarrow> p \<in> N \<Longrightarrow> q \<in> N \<Longrightarrow> q \<noteq> p \<Longrightarrow> x \<in> set (K q) \<Longrightarrow> x \<notin> set (K p)"
  using treeD(4) by metis

lemma ring_links:
  assumes "tree N s K" and "p \<in> N" and "x \<in> set (K p)"
  shows "dring (oN s) (oP s) (K p)" and "oN s x \<in> set (K p)" and "oP s x \<in> set (K p)"
    and "oN s x \<noteq> 0" and "oP s x \<noteq> 0" and "oC s p = hd (K p)" and "hd (K p) \<in> set (K p)"
proof -
  have ne: "K p \<noteq> []" using assms(3) by auto
  show r: "dring (oN s) (oP s) (K p)" and "oC s p = hd (K p)"
    using treeD(1) [OF assms(1,2)] ne by (auto simp: kids_def)
  show "oN s x \<in> set (K p)" "oP s x \<in> set (K p)" using dring_next_in [OF r assms(3)] dring_prev_in [OF r assms(3)] .
  then show "oN s x \<noteq> 0" "oP s x \<noteq> 0" using treeD(4) [OF assms(1,2)] by auto
  show "hd (K p) \<in> set (K p)" using ne by simp
qed

section \<open>Adding\<close>

lemma add_first_tree:
  assumes T: "tree N s K" and p: "p \<in> N" "K p = []" and c: "c \<in> N" "\<And>q. q \<in> N \<Longrightarrow> c \<notin> set (K q)"
  shows "\<exists>s'. add_first p c s = Some s' \<and> tree N s' (K(p := [c]))"
proof -
  define s' where "s' = put_oP c c (put_oN c c (upo (\<lambda>x. x\<lparr>obj_Parent := p\<rparr>) c (upo (\<lambda>x. x\<lparr>obj_Child := c\<rparr>) p s)))"
  have nz: "c \<noteq> 0" "p \<noteq> 0" using treeD(3) [OF T] p(1) c(1) by auto
  have "tree N s' (K(p := [c]))"
  proof (rule tree_step [OF T p(1)])
    show "kids s' p [c]" by (simp add: kids_def s'_def dring_single)
  qed (use c in \<open>auto simp: s'_def\<close>)
  moreover have "add_first p c s = Some s'"
    using nz by (simp add: add_first_def alone_obj_def obj_writes s'_def)
  ultimately show ?thesis by blast
qed

lemma add_brother_tree:
  assumes T: "tree N s K" and p: "p \<in> N" "K p = y # ys" and c: "c \<in> N" "\<And>q. q \<in> N \<Longrightarrow> c \<notin> set (K q)"
  shows "\<exists>s'. add_brother p c y s = Some s' \<and> tree N s' (K(p := y # ys @ [c])) \<and> oP s' y = c \<and> oC s' p = y"
proof -
  let ?l = "oP s y"
  have y: "y \<in> set (K p)" using p(2) by simp
  note R = ring_links [OF T p(1) y]
  have nz: "c \<noteq> 0" "y \<noteq> 0" "c \<noteq> y" "c \<notin> set (y # ys)" using treeD(3) [OF T c(1)] treeD(4) [OF T p(1) y] c(2) [OF p(1)] p(2) by auto
  define s1 where "s1 = upo (\<lambda>x. x\<lparr>obj_Parent := p\<rparr>) c s"
  define s' where "s' = put_oP y c (put_oN (oP s1 y) c (put_oP c (oP s1 y) (put_oN c y s1)))"
  have sw: "upo (\<lambda>x. x\<lparr>obj_Parent := p\<rparr>) c (put_oP c v (put_oN c y s)) = put_oP c v (put_oN c y s1)" for v
    by (auto simp: s1_def upo_def fun_eq_iff)
  have "add_brother p c y s = Some s'"
    using nz R(5) by (simp add: add_brother_def obj_writes sw s'_def) (simp add: s1_def)
  moreover have r: "dring (oN s') (oP s') (y # ys @ [c])"
    using ob.link_tail [of s1 y ys c s'] R(1) p(2) nz by (simp add: s'_def) (simp add: s1_def)
  have f: "oC s' = oC s" "oU s' = (oU s)(c := p)" "oM s' = oM s" by (simp_all add: s'_def s1_def)
  have "tree N s' (K(p := y # ys @ [c]))"
  proof (rule tree_step [OF T p(1)])
    show "kids s' p (y # ys @ [c])" using r R(6) p(2) treeD(4) [OF T p(1)] by (auto simp: kids_def f)
    show "set (y # ys @ [c]) \<subseteq> N" using treeD(2) [OF T p(1)] p(2) c(1) by auto
    show "oN s' x = oN s x \<and> oP s' x = oP s x \<and> oU s' x = oU s x" if "q \<in> N" "q \<noteq> p" "x \<in> set (K q)" for q x
    proof -
      have "x \<noteq> y" "x \<noteq> ?l" "x \<noteq> c" using tree_disjoint [OF T p(1) that] R(3) y c(2) [OF that(1)] that(3) by auto
      then show ?thesis by (simp add: s'_def s1_def)
    qed
  qed (simp_all add: f)
  moreover have "oP s' y = c" "oC s' p = y" using R(6) p(2) by (simp_all add: s'_def s1_def)
  ultimately show ?thesis by blast
qed

lemma add_common:
  assumes T: "tree N s K" and p: "p \<in> N" and c: "c \<notin> N" "c \<noteq> 0"
  shows "tree (insert c N) (upo (\<lambda>x. x\<lparr>obj_Child := 0\<rparr>) c (upo (\<lambda>x. x\<lparr>obj_Size := z, obj_Type := t, obj_Name := Some m\<rparr>) c s))
      (K(c := []))" and "p \<noteq> c" and "p \<in> insert c N" and "q \<in> insert c N \<Longrightarrow> c \<notin> set ((K(c := [])) q)"
proof -
  show "tree (insert c N) (upo (\<lambda>x. x\<lparr>obj_Child := 0\<rparr>) c (upo (\<lambda>x. x\<lparr>obj_Size := z, obj_Type := t, obj_Name := Some m\<rparr>) c s))
      (K(c := []))" by (rule tree_fresh [OF T c]) simp_all
  show "p \<noteq> c" "p \<in> insert c N" using p c by auto
  show "q \<in> insert c N \<Longrightarrow> c \<notin> set ((K(c := [])) q)" using treeD(2) [OF T, of q] c by auto
qed

lemma AddChild_tree:
  assumes T: "tree N s K" and p: "p \<in> N" and c: "c \<notin> N" "c \<noteq> 0"
  shows "\<exists>s'. OBJ_AddChild p c sz ty (Some nm) s = Some (c, s') \<and> tree (insert c N) s' (K(c := [], p := K p @ [c]))"
proof -
  let ?s = "upo (\<lambda>x. x\<lparr>obj_Child := 0\<rparr>) c (upo (\<lambda>x. x\<lparr>obj_Size := sz, obj_Type := ty, obj_Name := Some nm\<rparr>) c s)"
  let ?K = "K(c := [])"
  note A = add_common [OF T p c]
  have nz: "p \<noteq> 0" using treeD(3) [OF T p] .
  have C: "oC ?s p = oC s p" using A(2) by simp
  obtain s1 where s1: "(if oC s p = 0 then add_first p c ?s else add_brother p c (oC s p) ?s) = Some s1"
    "tree (insert c N) s1 (?K(p := K p @ [c]))"
  proof (cases "K p")
    case Nil
    then have "oC s p = 0" using treeD(1) [OF T p] by (simp add: kids_def)
    moreover from Nil have "?K p = []" by simp
    then obtain s1 where "add_first p c ?s = Some s1" "tree (insert c N) s1 (?K(p := [c]))"
      using add_first_tree [OF A(1,3) _ _ A(4)] by (metis insertI1)
    ultimately show ?thesis using that Nil by simp
  next
    case (Cons y ys)
    then have y: "oC s p = y" "y \<noteq> 0" using ring_links(6) [OF T p, of y] treeD(4) [OF T p, of y] by simp_all
    moreover from Cons A(2) have "?K p = y # ys" by simp
    then obtain s1 where "add_brother p c y ?s = Some s1" "tree (insert c N) s1 (?K(p := y # ys @ [c]))"
      using add_brother_tree [OF A(1,3) _ _ A(4)] by (metis insertI1)
    ultimately show ?thesis using that Cons by simp
  qed
  define s' where "s' = upo (\<lambda>x. x\<lparr>obj_Inuse := 0\<rparr>) c s1"
  have "tree (insert c N) s' (?K(p := K p @ [c]))"
    using s1(2) kids_cong [of s' _ s1] by (simp add: tree_def s'_def)
  moreover have "OBJ_AddChild p c sz ty (Some nm) s = Some (c, s')"
    using nz c(2) s1(1) C by (auto simp: OBJ_AddChild_def obj_writes s'_def split: if_splits)
  ultimately show ?thesis by blast
qed

text \<open>The new head is the last of the ring.\<close>

lemma tree_head:
  assumes T: "tree N s K" and p: "p \<in> N" "K p \<noteq> []" and ys: "\<And>n pv. dring n pv (K p) \<Longrightarrow> dring n pv ys" "set ys = set (K p)"
  shows "tree N (upo (\<lambda>x. x\<lparr>obj_Child := hd ys\<rparr>) p s) (K(p := ys))"
proof (rule tree_step [OF T p(1)])
  obtain y where y: "y \<in> set (K p)" using p(2) by (cases "K p") auto
  then have "ys \<noteq> []" using ys(2) by auto
  then show "kids (upo (\<lambda>x. x\<lparr>obj_Child := hd ys\<rparr>) p s) p ys"
    using ys ring_links(1) [OF T p(1) y] treeD(4) [OF T p(1)] by (auto simp: kids_def)
  show "set ys \<subseteq> N" using ys(2) treeD(2) [OF T p(1)] by simp
qed auto

lemma AddChildHead_tree:
  assumes T: "tree N s K" and p: "p \<in> N" and c: "c \<notin> N" "c \<noteq> 0"
  shows "\<exists>s'. OBJ_AddChildHead p c sz ty (Some nm) s = Some (c, s') \<and> tree (insert c N) s' (K(c := [], p := c # K p))"
proof -
  let ?s = "upo (\<lambda>x. x\<lparr>obj_Child := 0\<rparr>) c (upo (\<lambda>x. x\<lparr>obj_Size := sz, obj_Type := ty, obj_Name := Some nm\<rparr>) c s)"
  let ?K = "K(c := [])"
  note A = add_common [OF T p c]
  have nz: "p \<noteq> 0" using treeD(3) [OF T p] .
  show ?thesis
  proof (cases "K p")
    case Nil
    then have "oC s p = 0" using treeD(1) [OF T p] by (simp add: kids_def)
    moreover from Nil have "?K p = []" by simp
    then obtain s1 where "add_first p c ?s = Some s1" "tree (insert c N) s1 (?K(p := [c]))"
      using add_first_tree [OF A(1,3) _ _ A(4)] by (metis insertI1)
    ultimately show ?thesis using Nil nz c(2) A(2) by (simp add: OBJ_AddChildHead_def obj_writes)
  next
    case (Cons y ys)
    then have y: "oC s p = y" "y \<noteq> 0" using ring_links(6) [OF T p, of y] treeD(4) [OF T p, of y] by simp_all
    moreover from Cons A(2) have "?K p = y # ys" by simp
    then obtain s1 where s1: "add_brother p c y ?s = Some s1" "tree (insert c N) s1 (?K(p := y # ys @ [c]))"
      "oP s1 y = c" "oC s1 p = y"
      using add_brother_tree [OF A(1,3) _ _ A(4)] by (metis insertI1)
    have "tree (insert c N) (upo (\<lambda>x. x\<lparr>obj_Child := hd (c # y # ys)\<rparr>) p s1) ((?K(p := y # ys @ [c]))(p := c # y # ys))"
    proof (rule tree_head [OF s1(2) A(3)])
      show "dring n pv (c # y # ys)" if "dring n pv ((?K(p := y # ys @ [c])) p)" for n pv
        using that dring_rotate1 [of n pv c "y # ys"] by simp
    qed auto
    ultimately show ?thesis using Cons nz c(2) A(2) s1 by (simp add: OBJ_AddChildHead_def obj_writes)
  qed
qed

lemma RoundNext_tree:
  assumes T: "tree N s K" and p: "p \<in> N"
  shows "\<exists>s'. OBJ_RoundNext p s = Some (True, s') \<and> tree N s' (K(p := rotate1 (K p)))"
proof (cases "K p")
  case Nil
  then show ?thesis using T treeD(1,3) [OF T p] by (simp add: OBJ_RoundNext_def obj_writes kids_def fun_upd_idem)
next
  case (Cons y ys)
  note R = ring_links [OF T p, of y]
  have "oN s y = hd (ys @ [y])" using dring_next [of "oN s" "oP s" y ys] R(1) Cons by simp
  then show ?thesis
    using tree_head [OF T p, of "rotate1 (K p)"] R(6) treeD(3) [OF T p] treeD(4) [OF T p, of y] dring_rotate1 [of _ _ y ys] Cons
    by (simp add: OBJ_RoundNext_def obj_writes)
qed

lemma RoundPrevious_tree:
  assumes T: "tree N s K" and p: "p \<in> N"
  shows "\<exists>s'. OBJ_RoundPrevious p s = Some (True, s') \<and>
     tree N s' (K(p := if K p = [] then [] else last (K p) # butlast (K p)))"
proof (cases "K p" rule: rev_cases)
  case Nil
  then show ?thesis using T treeD(1,3) [OF T p] by (simp add: OBJ_RoundPrevious_def obj_writes kids_def fun_upd_idem)
next
  case (snoc ys y)
  obtain z zs where z: "K p = z # zs" using snoc by (metis neq_Nil_conv snoc_eq_iff_butlast)
  note R = ring_links [OF T p, of z]
  have "last (z # zs) = y" using z snoc by (metis last_snoc)
  then have y: "oP s z = y" using dring_prev [of "oN s" "oP s" z zs] R(1) z by simp
  have "tree N (upo (\<lambda>x. x\<lparr>obj_Child := hd (y # ys)\<rparr>) p s) (K(p := y # ys))"
    using tree_head [OF T p, of "y # ys"] dring_rotate1 [of _ _ y ys] snoc by simp
  moreover have "(if K p = [] then [] else last (K p) # butlast (K p)) = y # ys" using snoc by simp
  ultimately show ?thesis
    using R(6) treeD(3) [OF T p] treeD(4) [OF T p, of z] z y by (simp add: OBJ_RoundPrevious_def obj_writes)
qed

section \<open>Removing and moving\<close>

text \<open>\<open>takeout_obj\<close> and \<open>unlink_obj\<close> leave the rest of the ring.\<close>

definition cutout :: "nat \<Rightarrow> objst \<Rightarrow> objst" where
  "cutout c s = put_oN (oP s c) (oN s c) (put_oP (oN s c) (oP s c) s)"

lemma cutout_tree:
  assumes T: "tree N s K" and p: "p \<in> N" and K: "K p = as @ c # bs" "as @ bs \<noteq> []"
  shows "tree N (upo (\<lambda>x. x\<lparr>obj_Child := hd (as @ bs)\<rparr>) p (cutout c s)) (K(p := as @ bs))"
proof (rule tree_step [OF T p])
  let ?s = "upo (\<lambda>x. x\<lparr>obj_Child := hd (as @ bs)\<rparr>) p (cutout c s)"
  have c: "c \<in> set (K p)" using K by simp
  note R = ring_links [OF T p c]
  have r: "dring (oN (cutout c s)) (oP (cutout c s)) (as @ bs)"
    by (rule ob.unlink [OF _ K(2) cutout_def]) (use R(1) K in simp)
  show "kids ?s p (as @ bs)" using r K treeD(4) [OF T p] by (auto simp: kids_def cutout_def)
  show "set (as @ bs) \<subseteq> N" using treeD(2) [OF T p] K by auto
  fix q x assume q: "q \<in> N" "q \<noteq> p" "x \<in> set (K q)"
  then have "x \<noteq> oP s c" "x \<noteq> oN s c" using tree_disjoint [OF T p q] R(2,3) by auto
  then show "oN ?s x = oN s x \<and> oP ?s x = oP s x \<and> oU ?s x = oU s x" by (simp add: cutout_def)
qed (auto simp: cutout_def)

lemma upo_Child_idem: "upo (\<lambda>x. x\<lparr>obj_Child := oC s p\<rparr>) p s = s"
  by (auto simp: upo_def oC_def fun_eq_iff)

lemma cutout_Child: "cutout c (upo (\<lambda>x. x\<lparr>obj_Child := v\<rparr>) p s) = upo (\<lambda>x. x\<lparr>obj_Child := v\<rparr>) p (cutout c s)"
  by (auto simp: cutout_def upo_def oN_def oP_def fun_eq_iff)

text \<open>The object with brothers on both sides of it in the list of its parent.\<close>

lemma ring_place:
  assumes T: "tree N s K" and p: "p \<in> N" and K: "K p = as @ c # bs" "as @ bs \<noteq> []"
  shows "oN s c \<noteq> c" and "oP s c \<noteq> c"
    and "upo (\<lambda>x. x\<lparr>obj_Child := hd (as @ bs)\<rparr>) p s =
      (if as = [] then upo (\<lambda>x. x\<lparr>obj_Child := oN s c\<rparr>) p s else s)" and "oC s p = c \<longleftrightarrow> as = []"
proof -
  have c: "c \<in> set (K p)" using K by simp
  note R = ring_links [OF T p c]
  have r: "dring (oN s) (oP s) (as @ c # bs)" using R(1) K by simp
  then show "oN s c \<noteq> c" "oP s c \<noteq> c" using dring_proper [OF r K(2)] by simp_all
  have d: "distinct (as @ c # bs)" using dring_distinct [OF r] .
  show "oC s p = c \<longleftrightarrow> as = []" using R(6) K(1) d by (cases as) auto
  have n: "as = [] \<Longrightarrow> oN s c = hd bs" using r K(2) dring_next [of "oN s" "oP s" c bs] by (cases bs) auto
  have "as \<noteq> [] \<Longrightarrow> hd (as @ bs) = oC s p" using R(6) K(1) by (cases as) auto
  then show "upo (\<lambda>x. x\<lparr>obj_Child := hd (as @ bs)\<rparr>) p s =
      (if as = [] then upo (\<lambda>x. x\<lparr>obj_Child := oN s c\<rparr>) p s else s)"
    using n upo_Child_idem by (cases "as = []") auto
qed

lemma detach_tree:
  assumes T: "tree N s K" and p: "p \<in> N" and K: "K p = as @ c # bs"
  shows "\<exists>s'. detach c s = Some s' \<and> tree N s' (K(p := as @ bs))"
proof -
  have c: "c \<in> set (K p)" using K by simp
  note R = ring_links [OF T p c]
  have nz: "c \<noteq> 0" "p \<noteq> 0" "oU s c = p" using treeD(3) [OF T p] treeD(4) [OF T p c] by auto
  show ?thesis
  proof (cases "as @ bs = []")
    case True
    then have "oN s c = c" using R(1) K by (simp add: dring_single)
    moreover have "tree N (upo (\<lambda>x. x\<lparr>obj_Child := 0\<rparr>) p s) (K(p := []))"
      by (rule tree_step [OF T p]) (auto simp: kids_def)
    ultimately show ?thesis using nz True by (simp add: detach_def obj_writes)
  next
    case False
    note P = ring_place [OF T p K False]
    define s1 where "s1 = (if as = [] then upo (\<lambda>x. x\<lparr>obj_Child := oN s c\<rparr>) p s else s)"
    have same: "oN s1 = oN s" "oP s1 = oP s" by (simp_all add: s1_def)
    have "unlink_obj c s1 = Some (cutout c s1)"
      using unlink_obj_eq [of c s1] same nz R(4,5) P(2) by (simp add: cutout_def)
    then have "detach c s = Some (cutout c s1)"
      using nz P(1,4) by (cases "as = []") (simp_all add: detach_def obj_writes s1_def)
    moreover have "cutout c s1 = upo (\<lambda>x. x\<lparr>obj_Child := hd (as @ bs)\<rparr>) p (cutout c s)"
      using P(3) cutout_Child [of c "hd (as @ bs)" p s] by (simp add: s1_def)
    ultimately show ?thesis using cutout_tree [OF T p K False] by simp
  qed
qed

text \<open>An object that is nobody's child and has no children leaves the tree.\<close>

lemma tree_shrink: "tree N s K \<Longrightarrow> (\<And>q. q \<in> N \<Longrightarrow> c \<notin> set (K q)) \<Longrightarrow> tree (N - {c}) s K"
  by (auto simp: tree_def)

lemma remove1_mid: "c \<notin> set as \<Longrightarrow> remove1 c (as @ c # bs) = as @ bs"
  by (simp add: remove1_append)

lemma Del_tree:
  assumes T: "tree N s K" and p: "p \<in> N" "c \<in> set (K p)" and leaf: "K c = []"
  shows "\<exists>s'. OBJ_Del c s = Some (c, s') \<and> tree (N - {c}) s' (K(p := remove1 c (K p)))"
proof -
  obtain as bs where K: "K p = as @ c # bs" using p(2) by (meson split_list)
  have d: "c \<notin> set as" "c \<notin> set bs" using treeD(5) [OF T p(1)] K by auto
  obtain s' where s': "detach c s = Some s'" "tree N s' (K(p := as @ bs))"
    using detach_tree [OF T p(1) K] by blast
  have c: "c \<noteq> 0" "c \<in> N" using treeD(4) [OF T p] by auto
  then have "oC s c = 0" using treeD(1) [OF T c(2)] leaf by (simp add: kids_def)
  then have "OBJ_Del c s = Some (c, s')" using c s'(1) by (simp add: OBJ_Del_def obj_writes)
  moreover have "tree (N - {c}) s' (K(p := as @ bs))"
    by (rule tree_shrink [OF s'(2)]) (use d tree_disjoint [OF T _ p(1)] p(2) in auto)
  ultimately show ?thesis using remove1_mid [OF d(1), of bs] K by auto
qed

lemma Del_refused:
  assumes T: "tree N s K" and c: "c \<in> N" "K c \<noteq> []"
  shows "OBJ_Del c s = Some (0, s)"
  using treeD(3) [OF T c(1)] treeD(4) [OF T c(1), of "hd (K c)"] treeD(1) [OF T c(1)] c(2)
  by (auto simp: OBJ_Del_def obj_writes kids_def)

lemma MoveToLast_tree:
  assumes T: "tree N s K" and p: "p \<in> N" "c \<in> set (K p)" and tl: "hd (K p) \<noteq> c"
  shows "\<exists>s'. OBJ_MoveToLast c s = Some (True, s') \<and> tree N s' (K(p := remove1 c (K p) @ [c]))"
proof -
  obtain as' bs where K': "K p = as' @ c # bs" using p(2) by (meson split_list)
  with tl obtain y as where as: "as' = y # as" by (cases as') auto
  note K = K' [unfolded as]
  note R = ring_links [OF T p]
  have d: "c \<notin> set (y # as)" "c \<notin> set bs" "c \<noteq> y" using treeD(5) [OF T p(1)] K by auto
  have nz: "c \<noteq> 0" "p \<noteq> 0" "oU s c = p" "y \<noteq> 0" "c \<in> N"
    using treeD(3) [OF T p(1)] treeD(4) [OF T p] treeD(4) [OF T p(1), of y] K by auto
  have y: "oC s p = y" using R(6) K by simp
  note P = ring_place [OF T p(1) K, simplified]
  define t where "t = cutout c s"
  have T1: "tree N t (K(p := y # as @ bs))"
    using cutout_tree [OF T p(1) K] P(3) cutout_Child [of c y p s] by (simp add: t_def)
  have 1: "takeout_obj c s = Some t"
    using takeout_obj_eq [of c s] nz R(4,5) P(1) by (simp add: t_def cutout_def)
  have yK: "y \<in> set ((K(p := y # as @ bs)) p)" by simp
  note R1 = ring_links [OF T1 p(1) yK]
  define s' where "s' = put_oP y c (put_oN (oP t y) c (put_oP c (oP t y) (put_oN c y t)))"
  have 2: "link_obj c y t = Some s'" using link_obj_eq [of c y t] nz d R1(5) by (simp add: s'_def)
  have r: "dring (oN s') (oP s') (y # (as @ bs) @ [c])"
    by (rule ob.link_tail [OF _ _ s'_def]) (use R1(1) d in auto)
  have f: "oC s' = oC t" "oU s' = oU t" "oM s' = oM t" by (simp_all add: s'_def)
  have U: "oU t = oU s" by (simp add: t_def cutout_def)
  have "tree N s' ((K(p := y # as @ bs))(p := y # (as @ bs) @ [c]))"
  proof (rule tree_step [OF T1 p(1)])
    show "kids s' p (y # (as @ bs) @ [c])"
      using r R1(6) treeD(4) [OF T1 p(1)] nz by (auto simp: kids_def f U)
    show "set (y # (as @ bs) @ [c]) \<subseteq> N" using treeD(2) [OF T1 p(1)] nz by auto
    fix q x assume q: "q \<in> N" "q \<noteq> p" "x \<in> set ((K(p := y # as @ bs)) q)"
    then have "x \<noteq> y" "x \<noteq> oP t y" "x \<noteq> c"
      using tree_disjoint [OF T1 p(1) q] yK R1(3) tree_disjoint [OF T p(1) q(1,2), of x] p(2) by auto
    then show "oN s' x = oN t x \<and> oP s' x = oP t x \<and> oU s' x = oU t x" by (simp add: s'_def)
  qed (simp_all add: f)
  moreover have "OBJ_MoveToLast c s = Some (True, s')"
    using nz y d(3) 1 2 by (simp add: OBJ_MoveToLast_def obj_writes)
  moreover have "remove1 c (K p) @ [c] = y # (as @ bs) @ [c]" using remove1_mid [OF d(1), of bs] K by simp
  ultimately show ?thesis by auto
qed

section \<open>Operations on the lists of children\<close>

text \<open>
  What the operations promise, over the objects in the tree and their lists of children; \<open>None\<close> is
  a call outside of the contract: an object added twice, a parent that is not in the tree, an object
  without brothers or the eldest moved to the end.
\<close>

datatype obj_op =
    Op_AddChild nat nat u16 u16 string
  | Op_AddChildHead nat nat u16 u16 string
  | Op_Del nat
  | Op_MoveToLast nat
  | Op_RoundNext nat
  | Op_RoundPrevious nat
  | Op_Rename nat string

fun obj_do :: "obj_op \<Rightarrow> objst \<Rightarrow> objst option" where
  "obj_do (Op_AddChild p c sz ty nm) s = map_option snd (OBJ_AddChild p c sz ty (Some nm) s)"
| "obj_do (Op_AddChildHead p c sz ty nm) s = map_option snd (OBJ_AddChildHead p c sz ty (Some nm) s)"
| "obj_do (Op_Del c) s = map_option snd (OBJ_Del c s)"
| "obj_do (Op_MoveToLast c) s = map_option snd (OBJ_MoveToLast c s)"
| "obj_do (Op_RoundNext p) s = map_option snd (OBJ_RoundNext p s)"
| "obj_do (Op_RoundPrevious p) s = map_option snd (OBJ_RoundPrevious p s)"
| "obj_do (Op_Rename c nm) s = map_option snd (OBJ_Rename c (Some nm) s)"

type_synonym otree = "nat set \<times> (nat \<Rightarrow> nat list)"

definition ring_of :: "otree \<Rightarrow> nat \<Rightarrow> nat \<Rightarrow> bool" where
  "ring_of t p c \<longleftrightarrow> p \<in> fst t \<and> c \<in> set (snd t p)"

fun tree_do :: "obj_op \<Rightarrow> otree \<Rightarrow> otree option" where
  "tree_do (Op_AddChild p c _ _ _) (N, K) =
     (if p \<in> N \<and> c \<notin> N \<and> c \<noteq> 0 then Some (insert c N, K(c := [], p := K p @ [c])) else None)"
| "tree_do (Op_AddChildHead p c _ _ _) (N, K) =
     (if p \<in> N \<and> c \<notin> N \<and> c \<noteq> 0 then Some (insert c N, K(c := [], p := c # K p)) else None)"
| "tree_do (Op_Del c) (N, K) =
     (if (\<exists>p \<in> N. c \<in> set (K p)) then
        if K c = [] then Some (N - {c}, \<lambda>p. if p \<in> N then remove1 c (K p) else K p) else Some (N, K)
      else None)"
| "tree_do (Op_MoveToLast c) (N, K) =
     (if (\<exists>p \<in> N. c \<in> set (tl (K p)))
      then Some (N, \<lambda>p. if p \<in> N \<and> c \<in> set (K p) then remove1 c (K p) @ [c] else K p)
      else None)"
| "tree_do (Op_RoundNext p) (N, K) = (if p \<in> N then Some (N, K(p := rotate1 (K p))) else None)"
| "tree_do (Op_RoundPrevious p) (N, K) =
     (if p \<in> N then Some (N, K(p := if K p = [] then [] else last (K p) # butlast (K p))) else None)"
| "tree_do (Op_Rename c _) (N, K) = (if c \<in> N then Some (N, K) else None)"

lemma only_parent:
  assumes "tree N s K" and "p \<in> N" and "c \<in> set (K p)"
  shows "(\<lambda>q. if q \<in> N then remove1 c (K q) else K q) = K(p := remove1 c (K p))"
    and "(\<lambda>q. if q \<in> N \<and> c \<in> set (K q) then remove1 c (K q) @ [c] else K q) = K(p := remove1 c (K p) @ [c])"
  using tree_disjoint [OF assms(1), of _ p c] assms(2,3) by (auto simp: fun_eq_iff remove1_idem)

lemma Rename_tree:
  assumes T: "tree N s K" and c: "c \<in> N"
  shows "\<exists>s'. OBJ_Rename c (Some nm) s = Some (True, s') \<and> tree N s' K"
proof -
  define s' where "s' = upo (\<lambda>x. x\<lparr>obj_Name := Some nm\<rparr>) c s"
  have f: "oN s' = oN s" "oP s' = oP s" "oC s' = oC s" "oU s' = oU s" "oM s' = (oM s)(c := Some nm)"
    by (auto simp: s'_def upo_def oN_def oP_def oC_def oU_def oM_def fun_eq_iff)
  have "tree N s' K" using T by (auto simp: tree_def kids_def f)
  moreover have "OBJ_Rename c (Some nm) s = Some (True, s')"
    using treeD(3) [OF T c] by (simp add: OBJ_Rename_def obj_writes s'_def)
  ultimately show ?thesis by blast
qed

text \<open>One operation.\<close>

lemma obj_do_tree:
  assumes T: "tree N s K" and a: "tree_do opn (N, K) = Some (N', K')"
  shows "\<exists>s'. obj_do opn s = Some s' \<and> tree N' s' K'"
proof (cases opn)
  case (Op_AddChild p c sz ty nm)
  then show ?thesis using a AddChild_tree [OF T, of p c sz ty nm] by (auto split: if_splits)
next
  case (Op_AddChildHead p c sz ty nm)
  then show ?thesis using a AddChildHead_tree [OF T, of p c sz ty nm] by (auto split: if_splits)
next
  case (Op_Del c)
  with a obtain p where p: "p \<in> N" "c \<in> set (K p)" by (auto split: if_splits)
  then have "c \<in> N" using treeD(4) [OF T] by auto
  have e: "\<exists>p \<in> N. c \<in> set (K p)" using p by blast
  show ?thesis using \<open>c \<in> N\<close> p a Op_Del e Del_tree [OF T p] Del_refused [OF T, of c] only_parent(1) [OF T p] T
    by (cases "K c = []") auto
next
  case (Op_MoveToLast c)
  with a obtain p where p: "p \<in> N" "c \<in> set (tl (K p))" by (auto split: if_splits)
  then have "c \<in> set (K p)" "hd (K p) \<noteq> c" using treeD(5) [OF T p(1)] by (cases "K p"; auto)+
  then obtain s' where "OBJ_MoveToLast c s = Some (True, s')" "tree N s' (K(p := remove1 c (K p) @ [c]))"
    and "(\<lambda>q. if q \<in> N \<and> c \<in> set (K q) then remove1 c (K q) @ [c] else K q) = K(p := remove1 c (K p) @ [c])"
    using MoveToLast_tree [OF T p(1)] only_parent(2) [OF T p(1), of c] by blast
  then show ?thesis using a Op_MoveToLast by (auto split: if_splits)
next
  case (Op_RoundNext p)
  then show ?thesis using a RoundNext_tree [OF T, of p] by (auto split: if_splits)
next
  case (Op_RoundPrevious p)
  then show ?thesis using a RoundPrevious_tree [OF T, of p] by (auto split: if_splits)
next
  case (Op_Rename c nm)
  then show ?thesis using a Rename_tree [OF T, of c nm] by (auto split: if_splits)
qed

text \<open>Sequences of calls, from the start of the kernel.\<close>

primrec obj_run :: "obj_op list \<Rightarrow> objst \<Rightarrow> objst option" where
  "obj_run [] s = Some s"
| "obj_run (x # xs) s = Option.bind (obj_do x s) (obj_run xs)"

primrec tree_run :: "obj_op list \<Rightarrow> otree \<Rightarrow> otree option" where
  "tree_run [] t = Some t"
| "tree_run (x # xs) t = Option.bind (tree_do x t) (tree_run xs)"

lemma obj_run_tree:
  assumes "tree N s K" and "tree_run xs (N, K) = Some (N', K')"
  shows "\<exists>s'. obj_run xs s = Some s' \<and> tree N' s' K'"
  using assms
proof (induction xs arbitrary: N K s)
  case (Cons x xs)
  from Cons.prems(2) obtain N1 K1 where 1: "tree_do x (N, K) = Some (N1, K1)" "tree_run xs (N1, K1) = Some (N', K')"
    by (auto split: bind_splits)
  obtain s1 where "obj_do x s = Some s1" "tree N1 s1 K1" using obj_do_tree [OF Cons.prems(1) 1(1)] by blast
  then show ?case using Cons.IH [OF _ 1(2)] by auto
qed simp

definition init_tree :: "nat \<Rightarrow> nat \<Rightarrow> otree" where
  "init_tree root sys = ({root, sys}, \<lambda>p. if p = root then [sys] else [])"

lemma install_tree:
  assumes "root \<noteq> 0" "sys \<noteq> 0" "root \<noteq> sys"
  shows "tree {root, sys} (ModuleInstall_OBJ root sys s) (\<lambda>p. if p = root then [sys] else [])"
  using assms by (auto simp: tree_def kids_def ModuleInstall_OBJ_def RootObjInit_def Let_def dring_single
      oN_def oP_def oC_def oU_def oM_def)

section \<open>Searching\<close>

definition first_named :: "objst \<Rightarrow> string \<Rightarrow> nat list \<Rightarrow> nat" where
  "first_named s nm xs = (case find (\<lambda>x. oM s x = Some nm) xs of Some x \<Rightarrow> x | None \<Rightarrow> 0)"

lemma search_ring_from:
  assumes "dring (oN s) (oP s) (as @ x # bs)" and "y = hd (as @ x # bs)"
    and "\<And>z. z \<in> set (as @ x # bs) \<Longrightarrow> z \<noteq> 0 \<and> oM s z \<noteq> None"
  shows "search_ring y nm x s = Some (first_named s nm (x # bs))"
  using assms
proof (induction bs arbitrary: as x)
  case Nil
  then have "oN s x = y" using dring_next_last [of "oN s" "oP s" as x] by simp
  moreover obtain m where "oM s x = Some m" using Nil(3) [of x] by auto
  ultimately show ?case using Nil(3) [of x]
    by (subst search_ring.simps) (auto simp: obj_access strcmp0_def first_named_def)
next
  case (Cons b bs)
  have n: "oN s x = b" using Cons.prems(1) dring_next_mid by metis
  have "b \<noteq> y"
    using dring_distinct [OF Cons.prems(1)] Cons.prems(2) by (cases as) auto
  moreover have "search_ring y nm b s = Some (first_named s nm (b # bs))"
    using Cons.IH [of "as @ [x]" b] Cons.prems by (simp add: hd_append split: if_splits)
  moreover obtain m where "oM s x = Some m" using Cons.prems(3) [of x] by auto
  ultimately show ?case using Cons.prems(3) [of x] n
    by (subst search_ring.simps) (auto simp: obj_access strcmp0_def first_named_def)
qed

lemma SearchChild_tree:
  assumes T: "tree N s K" and p: "p \<in> N"
  shows "OBJ_SearchChild p (Some nm) s = Some (first_named s nm (K p))"
proof (cases "K p")
  case Nil
  then show ?thesis using treeD(1,3) [OF T p]
    by (simp add: OBJ_SearchChild_def obj_access kids_def first_named_def)
next
  case (Cons y ys)
  note R = ring_links [OF T p, of y]
  have "search_ring y nm y s = Some (first_named s nm (y # ys))"
    using search_ring_from [of s "[]" y ys y nm] R(1) Cons treeD(4) [OF T p] treeD(6) [OF T] by auto
  then show ?thesis
    using R(6) treeD(3) [OF T p] treeD(4) [OF T p, of y] Cons by (simp add: OBJ_SearchChild_def obj_access)
qed

section \<open>Properties of the tree\<close>

text \<open>
  C18: from the start of the kernel, every sequence of calls that add, remove, rename, turn and move
  objects within the contract runs without a fault, and leaves the tree whose lists of children the
  abstract operations compute.
\<close>

theorem OBJ_ops_refine:
  assumes "root \<noteq> 0" "sys \<noteq> 0" "root \<noteq> sys"
    and "tree_run opns (init_tree root sys) = Some (N, K)"
  shows "\<exists>s'. obj_run opns (ModuleInstall_OBJ root sys s) = Some s' \<and> tree N s' K"
  using obj_run_tree [OF install_tree [OF assms(1-3)]] assms(4) unfolding init_tree_def by blast

definition obj_blank :: objst where
  "obj_blank = \<lparr>objs = \<lambda>_. \<lparr>obj_Next = 0, obj_Previous = 0, obj_Parent = 0, obj_Child = 0, obj_Size = 0,
     obj_Type = 0, obj_Inuse = 0, obj_Name = None\<rparr>, s_ptRscRoot = 0\<rparr>"

definition obj_calls :: "obj_op list" where
  "obj_calls = [Op_AddChild 2 3 0 0 ''a'', Op_AddChild 2 4 0 0 ''b'', Op_AddChildHead 2 5 0 0 ''c'', Op_MoveToLast 3,
     Op_RoundNext 2, Op_Del 4]"

lemma obj_calls_tree: "tree_run obj_calls (init_tree 1 2) =
    Some ({1, 2, 3, 5}, \<lambda>p. if p = 1 then [2] else if p = 2 then [3, 5] else [])"
  by (auto simp: obj_calls_def init_tree_def fun_eq_iff)

lemma OBJ_ops_refine_witness:
  "\<exists>s'. obj_run obj_calls (ModuleInstall_OBJ 1 2 obj_blank) = Some s' \<and>
     tree {1, 2, 3, 5} s' (\<lambda>p. if p = 1 then [2] else if p = 2 then [3, 5] else [])"
  by (rule OBJ_ops_refine [OF _ _ _ obj_calls_tree]) simp_all

text \<open>
  C19: in a tree the search of a child by its name returns: the first child with the name in the order
  of the ring, or the null pointer when no child has it.
\<close>

theorem OBJ_SearchChild_returns:
  assumes "tree N s K" and "p \<in> N"
  shows "OBJ_SearchChild p (Some nm) s =
     Some (case find (\<lambda>x. oM s x = Some nm) (K p) of Some x \<Rightarrow> x | None \<Rightarrow> 0)"
  using SearchChild_tree [OF assms] by (simp add: first_named_def)

definition tree_sample :: objst where
  "tree_sample = ModuleInstall_OBJ 1 2 obj_blank"

lemma tree_sample: "tree {1, 2} tree_sample (\<lambda>p. if p = 1 then [2] else [])"
  unfolding tree_sample_def by (rule install_tree) simp_all

lemma OBJ_SearchChild_returns_witness:
  "OBJ_SearchChild 1 (Some ''sys'') tree_sample = Some 2"
proof -
  have "oM tree_sample 2 = Some ''sys''"
    by (simp add: tree_sample_def ModuleInstall_OBJ_def RootObjInit_def oM_def)
  then show ?thesis using OBJ_SearchChild_returns [OF tree_sample, of 1 "''sys''"] by simp
qed

section \<open>The eldest child moved to the end\<close>

text \<open>\<open>eldest\<close> is read before the head moves on, and the object is then linked in front of itself.\<close>

lemma MoveToLast_eldest:
  assumes T: "tree N s K" and p: "p \<in> N" and K: "K p = c # y # ys"
  shows "\<exists>s'. OBJ_MoveToLast c s = Some (True, s') \<and> oN s' = (oN s)(last (y # ys) := c, c := c) \<and>
     oC s' p = y \<and> oM s' = oM s"
proof -
  have c: "c \<in> set (K p)" using K by simp
  note R = ring_links [OF T p c]
  have r: "dring (oN s) (oP s) (c # y # ys)" using R(1) K by simp
  have l: "oP s c = last (y # ys)" "oN s c = y" "oN s c \<noteq> c" "oP s c \<noteq> c"
    using dring_prev [OF r] dring_next [OF r] dring_proper [of _ _ "[]" c "y # ys"] r by auto
  have nz: "c \<noteq> 0" "p \<noteq> 0" "oU s c = p" "oC s p = c"
    using treeD(3) [OF T p] treeD(4) [OF T p c] R(6) K by auto
  define t where "t = upo (\<lambda>x. x\<lparr>obj_Child := oN s c\<rparr>) p s"
  define u where "u = put_oN (oP s c) (oN s c) (put_oP (oN s c) (oP s c) t)"
  define s' where "s' = put_oP c c (put_oN (oP s c) c (put_oP c (oP s c) (put_oN c c u)))"
  have 1: "takeout_obj c t = Some u"
    using takeout_obj_eq [of c t] nz R(4,5) l(3) by (simp add: t_def u_def)
  have 2: "link_obj c c u = Some s'"
    using nz R(4,5) l(3,4) by (simp add: link_obj_def obj_writes s'_def u_def t_def)
  have "OBJ_MoveToLast c s = Some (True, s')"
    using nz 1 2 by (simp add: OBJ_MoveToLast_def obj_writes t_def)
  moreover have "oN s' = (oN s)(last (y # ys) := c, c := c)" "oC s' p = y" "oM s' = oM s"
    using l by (auto simp: s'_def u_def t_def fun_eq_iff)
  ultimately show ?thesis by blast
qed

lemma search_ring_stuck:
  assumes "oN s c = c" "c \<noteq> 0" "c \<noteq> stop" "oM s c = Some m" "m \<noteq> nm"
  shows "search_ring stop nm c s = None"
proof -
  have "\<not> (e = stop \<and> k = nm \<and> x = c \<and> t = s)" if "search_ring e k x t = Some v" for e k x t v
    using that
  proof (induction e k x t v rule: search_ring.raw_induct [rotated, consumes 1, case_names step])
    case (step f e k x t v)
    show ?case
    proof
      assume *: "e = stop \<and> k = nm \<and> x = c \<and> t = s"
      then have "rdo obj_Name x t = Some (Some m)" "rdo obj_Next x t = Some c" using assms by (simp_all add: obj_access)
      then have "f e k x t = Some v" using step(2) * assms by (simp add: strcmp0_def)
      then show False using step(1) * by blast
    qed
  qed
  then show ?thesis by (metis option.exhaust)
qed

text \<open>From any child but the moved one the walk reaches it.\<close>

lemma search_ring_absent:
  assumes r: "dring (oN s) (oP s) (c # as @ x # bs)" and n: "oN s' = (oN s)(last (x # bs) := c, c := c)" and y: "y = hd (as @ [x])"
    and nz: "\<And>z. z \<in> set (c # as @ x # bs) \<Longrightarrow> z \<noteq> 0 \<and> (\<exists>m. oM s' z = Some m \<and> m \<noteq> nm)"
  shows "search_ring y nm x s' = None"
  using assms
proof (induction bs arbitrary: as x)
  case Nil
  have d: "distinct (c # as @ [x])" using dring_distinct Nil.prems(1) by blast
  then have "c \<noteq> y" using Nil.prems(3) by (cases as) auto
  moreover obtain k where "oM s' c = Some k" "k \<noteq> nm" "c \<noteq> 0" using Nil.prems(4) [of c] by auto
  moreover have "oN s' c = c" using Nil.prems(2) by simp
  ultimately have st: "search_ring y nm c s' = None" using search_ring_stuck by blast
  obtain m where "oM s' x = Some m" "m \<noteq> nm" "x \<noteq> 0" using Nil.prems(4) [of x] by auto
  then show ?case using \<open>c \<noteq> y\<close> Nil.prems(2) st
    by (subst search_ring.simps) (simp add: obj_access strcmp0_def)
next
  case (Cons b bs)
  have d: "distinct (c # as @ x # b # bs)" using dring_distinct Cons.prems(1) by blast
  have "oN s x = b" using dring_next_mid [of _ _ "c # as" x b bs] Cons.prems(1) by simp
  moreover have "x \<noteq> last (x # b # bs)" "x \<noteq> c" using d by auto
  ultimately have n: "oN s' x = b" using Cons.prems(2) by simp
  have "b \<noteq> y" using d Cons.prems(3) by (cases as) auto
  moreover have "search_ring y nm b s' = None"
    by (rule Cons.IH [of "as @ [x]"]) (use Cons.prems in \<open>auto simp: hd_append split: if_splits\<close>)
  moreover obtain m where "oM s' x = Some m" "m \<noteq> nm" "x \<noteq> 0" using Cons.prems(4) [of x] by auto
  ultimately show ?case using n by (subst search_ring.simps) (simp add: obj_access strcmp0_def)
qed

text \<open>
  C38: \<open>OBJ_MoveToLast\<close> of the eldest of several children reports success and leaves a list without
  an end: the object is its own successor, and the search of a name that no child has does not return.
\<close>

theorem OBJ_MoveToLast_eldest_breaks:
  assumes "tree N s K" and "p \<in> N" and "K p = c # y # ys" and "\<And>x. x \<in> set (K p) \<Longrightarrow> oM s x \<noteq> Some nm"
  shows "\<exists>s'. OBJ_MoveToLast c s = Some (True, s') \<and> OBJ_Next c s' = c \<and> OBJ_SearchChild p (Some nm) s' = None"
proof -
  note T = assms(1) and p = assms(2) and K = assms(3)
  obtain s' where s': "OBJ_MoveToLast c s = Some (True, s')" "oN s' = (oN s)(last (y # ys) := c, c := c)"
    "oC s' p = y" "oM s' = oM s" using MoveToLast_eldest [OF T p K] by blast
  have y: "y \<in> set (K p)" using K by simp
  have m: "z \<noteq> 0 \<and> (\<exists>m. oM s' z = Some m \<and> m \<noteq> nm)" if "z \<in> set (K p)" for z
    using treeD(4) [OF T p that] treeD(6) [OF T] assms(4) [OF that] s'(4) by fastforce
  have "search_ring y nm y s' = None"
    by (rule search_ring_absent [of s c "[]" y ys]) (use ring_links(1) [OF T p y] K s'(2) m in auto)
  moreover have "c \<noteq> 0" "p \<noteq> 0" "y \<noteq> 0" using treeD(3) [OF T p] treeD(4) [OF T p] K by auto
  moreover have "OBJ_Next c s' = c" using s'(2) \<open>c \<noteq> 0\<close> by (simp add: OBJ_Next_def oN_def fun_eq_iff)
  ultimately show ?thesis using s' by (simp add: OBJ_SearchChild_def obj_access)
qed

text \<open>A node with two children.\<close>

definition obj_node :: "nat \<Rightarrow> nat \<Rightarrow> nat \<Rightarrow> nat \<Rightarrow> string \<Rightarrow> Object" where
  "obj_node nx pv pa c nm = \<lparr>obj_Next = nx, obj_Previous = pv, obj_Parent = pa, obj_Child = c, obj_Size = 0, obj_Type = 0,
     obj_Inuse = 0, obj_Name = Some nm\<rparr>"

definition tree_two :: objst where
  "tree_two = \<lparr>objs = \<lambda>i. if i = 2 then obj_node 2 2 1 3 ''sys'' else if i = 3 then obj_node 4 4 2 0 ''timer''
     else obj_node 3 3 2 0 ''tty'', s_ptRscRoot = 2\<rparr>"

lemma tree_two:
  shows "tree {2, 3, 4} tree_two (\<lambda>p. if p = 2 then [3, 4] else [])"
    and "oM tree_two 3 = Some ''timer''" "oM tree_two 4 = Some ''tty''"
  by (auto simp: tree_def kids_def tree_two_def obj_node_def dring_Cons oN_def oP_def oC_def oU_def oM_def)

lemma OBJ_MoveToLast_eldest_breaks_witness:
  "\<exists>s'. OBJ_MoveToLast 3 tree_two = Some (True, s') \<and> OBJ_Next 3 s' = 3 \<and> OBJ_SearchChild 2 (Some ''spi'') s' = None"
  by (rule OBJ_MoveToLast_eldest_breaks [OF tree_two(1), of 2 3 4 "[]"]) (auto simp: tree_two(2,3))

section \<open>Paths\<close>

lemma cmp_path_prefix:
  assumes "CHR 0x5C \<notin> set path" and "length path < CN_RSC_NAME_LIMIT" and "i \<le> length path"
  shows "cmp_path path (path @ zs) i = P_End"
  using assms(3)
proof (induction "length path - i" arbitrary: i)
  case 0
  then show ?case using assms(2) by (subst cmp_path.simps) (simp add: c_char_def)
next
  case (Suc n)
  then have "i < length path" by simp
  moreover have "path ! i \<noteq> CHR 0x5C" using assms(1) calculation by (metis nth_mem)
  ultimately show ?case using Suc assms(2) by (subst cmp_path.simps) (simp add: c_char_def nth_append)
qed

text \<open>
  \<open>OBJ_Search\<close> compares only as far as the path goes: a path without a separator finds the eldest
  child when the path is a prefix of its name, be it the empty path.
\<close>

lemma OBJ_Search_prefix:
  assumes "tree N s K" and "p \<in> N" and "K p = c # cs" and "oM s c = Some (path @ zs)"
    and "CHR 0x5C \<notin> set path" and "length path < CN_RSC_NAME_LIMIT"
  shows "OBJ_Search p (Some path) s = Some c"
proof -
  have c: "c \<in> set (K p)" using assms(3) by simp
  have "oC s p = c" "c \<noteq> 0" "p \<noteq> 0"
    using ring_links(6) [OF assms(1,2) c] assms(3) treeD(3) [OF assms(1,2)] treeD(4) [OF assms(1,2) c] by auto
  moreover have "search_path c path s = Some c"
    using calculation(2) assms(4) cmp_path_prefix [OF assms(5,6), of 0 zs]
    by (subst search_path.simps) (simp add: obj_access)
  ultimately show ?thesis by (simp add: OBJ_Search_def obj_access)
qed

lemma OBJ_Search_prefix_witness:
  "OBJ_Search 2 (Some ''t'') tree_two = Some 3"
  by (rule OBJ_Search_prefix [OF tree_two(1), of 2 3 "[4]" "''t''" "''imer''"]) (auto simp: tree_two(2))

section \<open>Displacing an only child\<close>

text \<open>
  \<open>OBJ_Displace\<close> of an object without brothers and without children: the new object points back
  to the object it replaces, not to itself.
\<close>

lemma OBJ_Displace_only_child:
  assumes "tree N s K" and "p \<in> N" and "K p = [c]" and "c \<noteq> p" and "K c = []" and "z \<noteq> 0" and "z \<notin> N"
  shows "\<exists>s'. OBJ_Displace c z s = Some (True, s') \<and> OBJ_Child p s' = z \<and> OBJ_Next z s' = z \<and> OBJ_Previous z s' = c"
proof -
  note T = assms(1) and p = assms(2)
  have c: "c \<in> set (K p)" using assms(3) by simp
  have "oN s c = c" "oP s c = c" using ring_links(1) [OF T p c] assms(3) by (simp_all add: dring_single)
  moreover have "c \<noteq> 0" "c \<in> N" "oU s c = p" "p \<noteq> 0" using treeD(3) [OF T p] treeD(4) [OF T p c] by auto
  moreover have "oC s c = 0" using treeD(1) [OF T calculation(4)] assms(5) by (simp add: kids_def)
  moreover have "oC s p = c" using ring_links(6) [OF T p c] assms(3) by simp
  moreover have "z \<noteq> c" "z \<noteq> p" using assms(7) p calculation by auto
  ultimately show ?thesis using assms(4,6)
    by (simp add: OBJ_Displace_def obj_writes OBJ_Child_def OBJ_Next_def OBJ_Previous_def oN_def [symmetric]
        oP_def [symmetric] oC_def [symmetric])
qed

lemma OBJ_Displace_only_child_witness:
  "\<exists>s'. OBJ_Displace 2 5 tree_sample = Some (True, s') \<and> OBJ_Child 1 s' = 5 \<and> OBJ_Next 5 s' = 5 \<and> OBJ_Previous 5 s' = 2"
  by (rule OBJ_Displace_only_child [OF tree_sample]) simp_all

end
