(* ===== verification/SysTime.thy ===== *)
theory SysTime
  imports Prelude
begin

text \<open>
  System time and calendar time: \<open>djyos/time/systime.c\<close>, \<open>djyos/time/Rtc.c\<close> and the tick time of
  the cortex-m4 port.  A moment is what the hardware shows when a function reads it; the timer and
  the clock device of the board are functions of the moment.  A 64-bit value written by the caller
  through a pointer is the returned value, and the atomic sections are single steps.  An \<open>s64\<close> is an
  integer, and every sum and product of two of them wraps to 64 bits with \<open>w64\<close>.
\<close>

definition w64 :: "int \<Rightarrow> s64" where
  "w64 v = sint (word_of_int v :: 64 word)"

lemma w64_id: "- (2 ^ 63) \<le> v \<Longrightarrow> v < 2 ^ 63 \<Longrightarrow> w64 v = v"
  by (simp add: w64_def signed_of_int signed_take_bit_int_eq_self)

lemma w64_nat: "n < 2 ^ 63 \<Longrightarrow> w64 (int n) = int n"
  by (rule w64_id) simp_all

lemma w64_over: "2 ^ 63 \<le> v \<Longrightarrow> v < 2 ^ 64 \<Longrightarrow> w64 v = v - 2 ^ 64"
proof -
  assume v: "2 ^ 63 \<le> v" "v < 2 ^ 64"
  have "(word_of_int v :: 64 word) = word_of_int (v - 2 ^ 64)" by (simp add: word_of_int_eq_iff take_bit_eq_mod)
  then have "w64 v = w64 (v - 2 ^ 64)" by (simp only: w64_def)
  then show ?thesis using v by (simp add: w64_id)
qed

section \<open>State\<close>

record moment =
  mo_ticks :: s64
  mo_systick :: u32
  mo_time :: nat

record timest =
  fnSysTimeHard32 :: "(moment \<Rightarrow> u32) option"
  fnSysTimeHard64 :: "(moment \<Rightarrow> s64) option"
  s_u32SysTimeFreq :: u32
  s_u32SysTimeCycle :: u32
  s_s64sysTimeMajor :: s64
  s_u32BakCounter :: u32
  sgRtcTimeSet :: s64
  sgRtcUpdateTime2SysTime :: s64
  fnRtcGetTime :: "(moment \<Rightarrow> s64 option) option"
  fnRtcSetTime :: "(moment \<Rightarrow> s64 \<Rightarrow> bool) option"
  BakTime :: s64
  CN_CFG_FCLK :: u32
  CN_CFG_TICK_HZ :: u32
  CN_CFG_TICK_US :: u32
  CN_CFG_FINE_US :: u32

section \<open>System time\<close>

text \<open>The tick time of the cortex-m4 port; the division is the compile-time constant of the board.\<close>

definition port_DjyGetSysTime :: "moment \<Rightarrow> timest \<Rightarrow> s64 \<times> timest" where
  "port_DjyGetSysTime now s =
     (let temp = CN_CFG_FCLK s div CN_CFG_TICK_HZ s - mo_systick now;
          time = mo_ticks now;
          time = w64 (time * uint (CN_CFG_TICK_US s) + uint (drop_bit 16 (temp * CN_CFG_FINE_US s)));
          time = (if time < BakTime s then w64 (time + uint (CN_CFG_TICK_US s)) else time)
      in (time, s\<lparr>BakTime := time\<rparr>))"

definition SysTimeConnect ::
    "(moment \<Rightarrow> u32) option \<Rightarrow> (moment \<Rightarrow> s64) option \<Rightarrow> u32 \<Rightarrow> u32 \<Rightarrow> timest \<Rightarrow> timest" where
  "SysTimeConnect GetSysTime32 GetSysTime64 Freq Cycle s =
     s\<lparr>fnSysTimeHard32 := GetSysTime32, fnSysTimeHard64 := GetSysTime64, s_u32SysTimeFreq := Freq,
       s_u32SysTimeCycle := Cycle\<rparr>"

text \<open>Reading the 32-bit timer: a count below the last one is the next period.\<close>

definition take_count :: "u32 \<Rightarrow> timest \<Rightarrow> timest" where
  "take_count CurrentTime s =
     (let s = (if CurrentTime < s_u32BakCounter s
               then s\<lparr>s_s64sysTimeMajor := w64 (s_s64sysTimeMajor s + uint (s_u32SysTimeCycle s))\<rparr> else s)
      in s\<lparr>s_u32BakCounter := CurrentTime\<rparr>)"

definition DjyGetSysTime :: "moment \<Rightarrow> timest \<Rightarrow> (s64 \<times> timest) option" where
  "DjyGetSysTime now s = (case (fnSysTimeHard32 s, fnSysTimeHard64 s) of
       (None, None) \<Rightarrow> Some (port_DjyGetSysTime now s)
     | (Some f, _) \<Rightarrow>
         (let CurrentTime = f now; s = take_count CurrentTime s
          in if s_u32SysTimeFreq s = 0 then None
             else Some (cdiv (w64 (w64 (s_s64sysTimeMajor s + uint CurrentTime) * 1000000)) (uint (s_u32SysTimeFreq s)), s))
     | (None, Some f) \<Rightarrow>
         if s_u32SysTimeFreq s = 0 then None
         else Some (cdiv (w64 (f now * 1000000)) (uint (s_u32SysTimeFreq s)), s))"

definition DjyGetSysTimeCycle :: "moment \<Rightarrow> timest \<Rightarrow> s64 \<times> timest" where
  "DjyGetSysTimeCycle now s = (case (fnSysTimeHard32 s, fnSysTimeHard64 s) of
       (None, None) \<Rightarrow> port_DjyGetSysTime now s
     | (Some f, _) \<Rightarrow>
         (let CurrentTime = f now; s = take_count CurrentTime s in (w64 (s_s64sysTimeMajor s + uint CurrentTime), s))
     | (None, Some f) \<Rightarrow> (f now, s))"

definition DjyMaintainSysTime :: "moment \<Rightarrow> timest \<Rightarrow> timest" where
  "DjyMaintainSysTime now s = (case fnSysTimeHard32 s of Some f \<Rightarrow> take_count (f now) s | None \<Rightarrow> s)"

definition DjyGetSysTimeFreq :: "timest \<Rightarrow> u32" where
  "DjyGetSysTimeFreq s = s_u32SysTimeFreq s"

section \<open>Calendar time\<close>

abbreviation (input) "CN_RTC_UNIT_SECOND \<equiv> (1000000 :: s64)"

definition Rtc_RegisterDev ::
    "(moment \<Rightarrow> s64 option) option \<Rightarrow> (moment \<Rightarrow> s64 \<Rightarrow> bool) option \<Rightarrow> timest \<Rightarrow> bool \<times> timest" where
  "Rtc_RegisterDev fnGetTime fnSetTime s =
     (let s = (if fnGetTime \<noteq> None then s\<lparr>fnRtcGetTime := fnGetTime\<rparr> else s);
          s = (if fnSetTime \<noteq> None then s\<lparr>fnRtcSetTime := fnSetTime\<rparr> else s)
      in (fnGetTime \<noteq> None \<or> fnSetTime \<noteq> None, s))"

text \<open>Without a device, or when it fails, the time goes on with the system time.\<close>

definition rtc_elapse :: "s64 \<Rightarrow> timest \<Rightarrow> s64 \<times> timest" where
  "rtc_elapse systime s =
     (let result = w64 (w64 (sgRtcTimeSet s + systime) - sgRtcUpdateTime2SysTime s)
      in (result, s\<lparr>sgRtcTimeSet := result, sgRtcUpdateTime2SysTime := systime\<rparr>))"

definition rtc_sample :: "moment \<Rightarrow> s64 \<Rightarrow> timest \<Rightarrow> s64 \<times> timest" where
  "rtc_sample now systime s = (case fnRtcGetTime s of
       None \<Rightarrow> rtc_elapse systime s
     | Some f \<Rightarrow> (case f now of
           None \<Rightarrow> rtc_elapse systime s
         | Some result \<Rightarrow> (result, s\<lparr>sgRtcTimeSet := result, sgRtcUpdateTime2SysTime := systime\<rparr>)))"

definition Rtc_Time :: "moment \<Rightarrow> timest \<Rightarrow> (s64 \<times> timest) option" where
  "Rtc_Time now s = do {
     (systime, s) \<leftarrow> DjyGetSysTime now s;
     let (result, s) =
       (if cdiv (sgRtcUpdateTime2SysTime s) CN_RTC_UNIT_SECOND = cdiv systime CN_RTC_UNIT_SECOND
        then (sgRtcTimeSet s, s)
        else rtc_sample now systime s);
     Some (cdiv result CN_RTC_UNIT_SECOND, s) }"

definition Rtc_TimeUs :: "moment \<Rightarrow> timest \<Rightarrow> (s64 \<times> timest) option" where
  "Rtc_TimeUs now s = do {
     (systime, s) \<leftarrow> DjyGetSysTime now s;
     Some (rtc_sample now systime s) }"

definition Rtc_SetTime :: "moment \<Rightarrow> s64 \<Rightarrow> timest \<Rightarrow> (bool \<times> timest) option" where
  "Rtc_SetTime now rtctime s = do {
     (systime, s) \<leftarrow> DjyGetSysTime now s;
     let ok = (case fnRtcSetTime s of None \<Rightarrow> True | Some f \<Rightarrow> f now rtctime);
     Some (ok, if ok then s\<lparr>sgRtcTimeSet := rtctime, sgRtcUpdateTime2SysTime := systime\<rparr> else s) }"

section \<open>A timer that wraps\<close>

text \<open>
  The timer counts \<open>count\<close> cycles modulo its period; \<open>clock_at s t\<close>: the state has seen count \<open>t\<close>.
\<close>

definition clock_at :: "timest \<Rightarrow> nat \<Rightarrow> bool" where
  "clock_at s t \<longleftrightarrow> s_u32SysTimeCycle s \<noteq> 0 \<and>
     s_s64sysTimeMajor s = int (unat (s_u32SysTimeCycle s) * (t div unat (s_u32SysTimeCycle s))) \<and>
     unat (s_u32BakCounter s) = t mod unat (s_u32SysTimeCycle s)"

definition timer_of :: "timest \<Rightarrow> (moment \<Rightarrow> nat) \<Rightarrow> bool" where
  "timer_of s T \<longleftrightarrow> (\<exists>f. fnSysTimeHard32 s = Some f \<and>
     (\<forall>now. unat (f now) = T now mod unat (s_u32SysTimeCycle s)))"

lemma next_period:
  assumes "(t :: nat) \<le> t'" "t' < t + c"
  shows "t' div c = (if t' mod c < t mod c then t div c + 1 else t div c)"
proof -
  define q r q' r' where "q = t div c" "r = t mod c" "q' = t' div c" "r' = t' mod c"
  note d = this
  have c: "0 < c" using assms by linarith
  have *: "c * q + r \<le> c * q' + r'" "c * q' + r' < c * q + r + c" "r < c" "r' < c" using assms c by (simp_all add: d)
  have "\<not> q' + 1 \<le> q" using mult_le_mono2 [of "q' + 1" q c] * by auto
  moreover have "\<not> q + 2 \<le> q'" using mult_le_mono2 [of "q + 2" q' c] * by auto
  ultimately have "q' = q \<or> q' = q + 1" by linarith
  then show ?thesis using * by (auto simp: d [symmetric])
qed

lemma take_count_clock:
  assumes "clock_at s t" and "t \<le> t'" "t' < t + unat (s_u32SysTimeCycle s)" and x: "unat x = t' mod unat (s_u32SysTimeCycle s)"
    and big: "t' < 2 ^ 63"
  shows "clock_at (take_count x s) t'" and "w64 (s_s64sysTimeMajor (take_count x s) + uint x) = int t'"
    and "s_u32SysTimeCycle (take_count x s) = s_u32SysTimeCycle s" "fnSysTimeHard32 (take_count x s) = fnSysTimeHard32 s"
    and "s_u32SysTimeFreq (take_count x s) = s_u32SysTimeFreq s"
proof -
  let ?c = "unat (s_u32SysTimeCycle s)"
  have w: "w64 (int (?c * (t' div ?c))) = int (?c * (t' div ?c))"
    by (rule w64_nat, rule le_less_trans [OF _ big]) (simp add: times_div_less_eq_dividend)
  have k: "s_s64sysTimeMajor (take_count x s) = int (?c * (t' div ?c))"
  proof (cases "x < s_u32BakCounter s")
    case True
    then have "t' mod ?c < t mod ?c" using assms(1) x by (simp add: clock_at_def word_less_nat_alt)
    then have "t' div ?c = t div ?c + 1" using next_period [OF assms(2,3)] by simp
    then have "s_s64sysTimeMajor s + uint (s_u32SysTimeCycle s) = int (?c * (t' div ?c))"
      using assms(1) by (simp add: clock_at_def ring_distribs)
    then show ?thesis using True w by (simp add: take_count_def Let_def)
  next
    case False
    then have "\<not> t' mod ?c < t mod ?c" using assms(1) x by (simp add: clock_at_def word_less_nat_alt)
    then have "t' div ?c = t div ?c" using next_period [OF assms(2,3)] by simp
    then show ?thesis using False assms(1) by (simp add: take_count_def clock_at_def)
  qed
  show c: "s_u32SysTimeCycle (take_count x s) = s_u32SysTimeCycle s" and "fnSysTimeHard32 (take_count x s) = fnSysTimeHard32 s"
    and "s_u32SysTimeFreq (take_count x s) = s_u32SysTimeFreq s"
    by (simp_all add: take_count_def Let_def)
  show "clock_at (take_count x s) t'" using assms(1) k c x by (simp add: clock_at_def) (simp add: take_count_def Let_def)
  show "w64 (s_s64sysTimeMajor (take_count x s) + uint x) = int t'"
    by (simp only: k uint_nat x of_nat_add [symmetric] mult_div_mod_eq w64_nat [OF big])
qed

text \<open>Readings of the time, one after the other; the tick interrupt reads too.\<close>

datatype reading = Read_Cycle | Read_Time | Maintain

fun do_reading :: "reading \<Rightarrow> moment \<Rightarrow> timest \<Rightarrow> (s64 option \<times> timest) option" where
  "do_reading Read_Cycle now s = (let (r, s) = DjyGetSysTimeCycle now s in Some (Some r, s))"
| "do_reading Read_Time now s = do { (r, s) \<leftarrow> DjyGetSysTime now s; Some (Some r, s) }"
| "do_reading Maintain now s = Some (None, DjyMaintainSysTime now s)"

fun do_readings :: "(reading \<times> moment) list \<Rightarrow> timest \<Rightarrow> (s64 option list \<times> timest) option" where
  "do_readings [] s = Some ([], s)"
| "do_readings ((x, now) # xs) s = do {
     (r, s) \<leftarrow> do_reading x now s;
     (rs, s) \<leftarrow> do_readings xs s;
     Some (r # rs, s) }"

text \<open>What a reading at count \<open>t\<close> has to give, and when the code can compute it in 64 bits.\<close>

fun true_reading :: "u32 \<Rightarrow> reading \<Rightarrow> nat \<Rightarrow> s64 option" where
  "true_reading freq Read_Cycle t = Some (int t)"
| "true_reading freq Read_Time t = Some (int (t * 1000000 div unat freq))"
| "true_reading freq Maintain t = None"

fun readable :: "reading \<Rightarrow> nat \<Rightarrow> bool" where
  "readable Read_Time t = (t * 1000000 < 2 ^ 63)"
| "readable _ t = (t < 2 ^ 63)"

lemma readable_less: "readable x t \<Longrightarrow> t < 2 ^ 63"
  by (cases x) simp_all

fun paced :: "nat \<Rightarrow> nat \<Rightarrow> nat list \<Rightarrow> bool" where
  "paced c t [] = True"
| "paced c t (x # xs) = (t \<le> x \<and> x < t + c \<and> paced c x xs)"

lemma reading_true:
  assumes "clock_at s t" and "timer_of s T" and "t \<le> T now" "T now < t + unat (s_u32SysTimeCycle s)"
    and "s_u32SysTimeFreq s \<noteq> 0" and r: "readable x (T now)"
  shows "\<exists>s'. do_reading x now s = Some (true_reading (s_u32SysTimeFreq s) x (T now), s') \<and> clock_at s' (T now) \<and>
     timer_of s' T \<and> s_u32SysTimeCycle s' = s_u32SysTimeCycle s \<and> s_u32SysTimeFreq s' = s_u32SysTimeFreq s"
proof -
  obtain f where f: "fnSysTimeHard32 s = Some f" "\<And>now. unat (f now) = T now mod unat (s_u32SysTimeCycle s)"
    using assms(2) by (auto simp: timer_of_def)
  note C = take_count_clock [OF assms(1,3,4) f(2) readable_less [OF r]]
  have fr: "0 < uint (s_u32SysTimeFreq s)" using assms(5) by (simp add: word_neq_0_conv word_less_def)
  have t: "timer_of (take_count (f now) s) T" using f C by (simp add: timer_of_def)
  have "cdiv (w64 (int (T now) * 1000000)) (uint (s_u32SysTimeFreq s)) = int (T now * 1000000 div unat (s_u32SysTimeFreq s))"
    if "x = Read_Time" using fr w64_nat [of "T now * 1000000"] r that by (simp add: of_nat_div)
  then have "do_reading x now s = Some (true_reading (s_u32SysTimeFreq s) x (T now), take_count (f now) s)"
    using C(2,5) assms(5)
    by (cases x) (simp_all only: simp_thms do_reading.simps true_reading.simps DjyGetSysTimeCycle_def DjyGetSysTime_def DjyMaintainSysTime_def Let_def
        f(1) prod.case option.case if_False bind_Some_conv)
  then show ?thesis using C t by blast
qed

lemma readings_true:
  assumes "clock_at s t" and "timer_of s T" and "paced (unat (s_u32SysTimeCycle s)) t (map (T \<circ> snd) xs)"
    and "s_u32SysTimeFreq s \<noteq> 0" and "\<forall>(x, now) \<in> set xs. readable x (T now)"
  shows "\<exists>s'. do_readings xs s = Some (map (\<lambda>(x, now). true_reading (s_u32SysTimeFreq s) x (T now)) xs, s')"
  using assms
proof (induction xs arbitrary: s t)
  case (Cons y xs)
  obtain x now where y: "y = (x, now)" by fastforce
  obtain s' where s': "do_reading x now s = Some (true_reading (s_u32SysTimeFreq s) x (T now), s')" "clock_at s' (T now)"
    "timer_of s' T" "s_u32SysTimeCycle s' = s_u32SysTimeCycle s" "s_u32SysTimeFreq s' = s_u32SysTimeFreq s"
    using reading_true [OF Cons.prems(1,2), of now x] Cons.prems(3-5) y by auto
  then show ?case using Cons.IH [OF s'(2,3)] Cons.prems(3-5) y by auto
qed simp

text \<open>
  From \<open>2 ^ 63 / 1000000\<close> cycles on, about two days at 50 MHz, the product overflows: the time in
  microseconds is not positive.
\<close>

lemma DjyGetSysTime_overflows:
  assumes "clock_at s t" and "timer_of s T" and "t \<le> T now" "T now < t + unat (s_u32SysTimeCycle s)"
    and "s_u32SysTimeFreq s \<noteq> 0" and o: "2 ^ 63 \<le> T now * 1000000" "T now * 1000000 < 2 ^ 64"
  shows "\<exists>r s'. DjyGetSysTime now s = Some (r, s') \<and> r \<le> 0"
proof -
  obtain f where f: "fnSysTimeHard32 s = Some f" "\<And>now. unat (f now) = T now mod unat (s_u32SysTimeCycle s)"
    using assms(2) by (auto simp: timer_of_def)
  have big: "T now < 2 ^ 63" using o(2) by simp
  note C = take_count_clock [OF assms(1,3,4) f(2) big]
  let ?v = "int (T now) * 1000000"
  have "w64 ?v = ?v - 2 ^ 64" by (rule w64_over) (use o in simp_all)
  then have "w64 ?v < 0" using o(2) by simp
  moreover have "0 < uint (s_u32SysTimeFreq s)" using assms(5) by (simp add: word_neq_0_conv word_less_def)
  ultimately have "cdiv (w64 ?v) (uint (s_u32SysTimeFreq s)) \<le> 0"
    by (simp add: cdiv_def pos_imp_zdiv_nonneg_iff)
  moreover have "DjyGetSysTime now s = Some (cdiv (w64 ?v) (uint (s_u32SysTimeFreq s)), take_count (f now) s)"
    using C(2,5) assms(5) by (simp only: DjyGetSysTime_def Let_def f(1) prod.case option.case if_False)
  ultimately show ?thesis by blast
qed

end
