(* ===== verification/Scanf.thy ===== *)
theory Scanf
  imports Bytes
begin

text \<open>
  Formatted reading from a string, \<open>sscanf\<close> of \<open>component/stddev/stdin.c\<close> with \<open>skip_atoi\<close> of
  \<open>stdio.c\<close>.  A string is the list of its characters before the 0; the list that is left to read
  has \<open>ch\<close> at its head, and \<open>ch\<close> is 0 when it is empty.  The code gets a character only after one
  that is not 0, so it never reads past the end.  What it stores through its pointer arguments is
  recorded in their order.  The character classes are those of the C locale.
\<close>

section \<open>Characters\<close>

abbreviation code :: "char \<Rightarrow> nat" where "code c \<equiv> of_char c"

definition is_digit :: "char \<Rightarrow> bool" where
  "is_digit c \<longleftrightarrow> 48 \<le> code c \<and> code c \<le> 57"

definition is_xdigit :: "char \<Rightarrow> bool" where
  "is_xdigit c \<longleftrightarrow> is_digit c \<or> 65 \<le> code c \<and> code c \<le> 70 \<or> 97 \<le> code c \<and> code c \<le> 102"

definition is_blank :: "char \<Rightarrow> bool" where
  "is_blank c \<longleftrightarrow> c = CHR '' '' \<or> code c \<in> {9 .. 13}"

definition to_upper :: "char \<Rightarrow> nat" where
  "to_upper c = (if 97 \<le> code c \<and> code c \<le> 122 then code c - 32 else code c)"

section \<open>Numbers\<close>

fun skip_atoi :: "u32 \<Rightarrow> string \<Rightarrow> u32 \<times> string" where
  "skip_atoi i [] = (i, [])"
| "skip_atoi i (c # s) = (if is_digit c then skip_atoi (i * 10 + of_nat (code c) - 48) s else (i, c # s))"

definition in_base :: "nat \<Rightarrow> char \<Rightarrow> bool" where
  "in_base base ch = (if base = 8 then code ch \<le> 55 \<and> 48 \<le> code ch
     else if base = 10 then is_digit ch else if base = 16 then is_xdigit ch else False)"

definition digit_value :: "nat \<Rightarrow> char \<Rightarrow> nat" where
  "digit_value base ch = (if base = 16 \<and> \<not> is_digit ch then to_upper ch - 65 + 10 else code ch - 48)"

text \<open>
  The four functions \<open>__sc_strtoul\<close>, \<open>__sc_strtol\<close>, \<open>__sc_strtoull\<close> and \<open>__sc_strtoll\<close> differ in the
  type of the result only.
\<close>

fun sc_strto :: "nat \<Rightarrow> 'a::len word \<Rightarrow> string \<Rightarrow> 'a word \<times> string" where
  "sc_strto base result [] = (result, [])"
| "sc_strto base result (ch # r) =
     (if in_base base ch then sc_strto base (result * of_nat base + of_nat (digit_value base ch)) r else (result, ch # r))"

section \<open>The scanner\<close>

datatype stored =
    Store_chars string
  | Store_str string
  | Store_s16 u16
  | Store_u16 u16
  | Store_s32 u32
  | Store_u32 u32
  | Store_s64 "64 word"
  | Store_u64 "64 word"

record scan_st =
  sc_fmt :: string
  sc_inp :: string
  sc_len :: nat
  sc_width :: int
  sc_num :: nat
  sc_out :: "stored list"

datatype scan_res = Go scan_st | Stop nat "stored list"

text \<open>\<open>Offset\<close>: the characters got so far.\<close>

definition sc_offset :: "scan_st \<Rightarrow> u32" where
  "sc_offset st = of_nat (sc_len st + 1 - length (sc_inp st))"

text \<open>The end after the loop.\<close>

definition scan_finish :: "scan_st \<Rightarrow> scan_res" where
  "scan_finish st = Stop (sc_num st) (sc_out st @ (if take 2 (sc_fmt st) = ''%n'' then [Store_s32 (sc_offset st)] else []))"

text \<open>\<open>%c\<close> and \<open>%s\<close>: the characters stored, the field width that is left, the rest.\<close>

fun scan_chars :: "int \<Rightarrow> string \<Rightarrow> string \<times> int \<times> string" where
  "scan_chars w [] = ([], w, [])"
| "scan_chars w (ch # r) =
     (if 0 < w \<and> r \<noteq> [] then let (cs, w', r') = scan_chars (w - 1) r in (ch # cs, w', r') else ([ch], w - 1, r))"

fun scan_str :: "int \<Rightarrow> string \<Rightarrow> string \<times> int \<times> string" where
  "scan_str w [] = ([], w, [])"
| "scan_str w (ch # r) =
     (if is_blank ch then ([], w, ch # r)
      else if w = 0 then ([], w - 1, ch # r)
      else let (cs, w', r') = scan_str (w - 1) r in (ch # cs, w', r'))"

definition is_x :: "string \<Rightarrow> bool" where
  "is_x r \<longleftrightarrow> r \<noteq> [] \<and> (hd r = CHR ''x'' \<or> hd r = CHR ''X'')"

definition scan_base :: "nat \<Rightarrow> string \<Rightarrow> nat \<times> string" where
  "scan_base base r =
     (if base = 0 then
        if r \<noteq> [] \<and> hd r = CHR ''0'' then if is_x (tl r) then (16, tl (tl r)) else (8, tl r)
        else (10, r)
      else if base = 16 then
        (16, if r \<noteq> [] \<and> hd r = CHR ''0'' then if is_x (tl r) then tl (tl r) else tl r else r)
      else (base, r))"

definition scan_value :: "char option \<Rightarrow> bool \<Rightarrow> bool \<Rightarrow> nat \<Rightarrow> string \<Rightarrow> stored \<times> string" where
  "scan_value qualifier is_sign neg base r =
     (if qualifier = Some CHR ''h'' then
        let (v, r) = sc_strto base (0 :: u32) r; s = ucast v :: u16
        in if is_sign then (Store_s16 (if neg then - s else s), r) else (Store_u16 s, r)
      else if qualifier = Some CHR ''L'' then
        let (v, r) = sc_strto base (0 :: 64 word) r
        in if is_sign then (Store_s64 (if neg then - v else v), r) else (Store_u64 v, r)
      else
        let (v, r) = sc_strto base (0 :: u32) r
        in if is_sign \<and> qualifier \<noteq> Some CHR ''Z'' then (Store_s32 (if neg then - v else v), r) else (Store_u32 v, r))"

definition scan_number :: "char option \<Rightarrow> nat \<Rightarrow> bool \<Rightarrow> scan_st \<Rightarrow> scan_res" where
  "scan_number qualifier base is_sign st =
     (let r = dropWhile is_blank (sc_inp st)
      in if r = [] then scan_finish (st\<lparr>sc_inp := []\<rparr>)
         else let sign = hd r;
                  r = (if sign = CHR ''-'' \<or> sign = CHR ''+'' then tl r else r);
                  (base, r) = scan_base base r;
                  (v, r) = scan_value qualifier is_sign (sign = CHR ''-'') base r;
                  st = st\<lparr>sc_inp := r, sc_num := sc_num st + 1, sc_out := sc_out st @ [v]\<rparr>
              in if r = [] then scan_finish st else Go st)"

text \<open>A conversion; \<open>INT_MAX\<close> is the width of a \<open>%s\<close> without one.\<close>

definition scan_conv :: "char option \<Rightarrow> char \<Rightarrow> scan_st \<Rightarrow> scan_res" where
  "scan_conv qualifier c st =
     (if c = CHR ''c'' then
        let (cs, w, r) = scan_chars (if sc_width st = -1 then 1 else sc_width st) (sc_inp st)
        in Go (st\<lparr>sc_inp := r, sc_width := w, sc_num := sc_num st + 1, sc_out := sc_out st @ [Store_chars cs]\<rparr>)
      else if c = CHR ''s'' then
        let (cs, w, r) = scan_str (if sc_width st = -1 then 0x7FFFFFFF else sc_width st) (dropWhile is_blank (sc_inp st))
        in Go (st\<lparr>sc_inp := r, sc_width := w, sc_num := sc_num st + 1, sc_out := sc_out st @ [Store_str cs]\<rparr>)
      else if c = CHR ''n'' then Go (st\<lparr>sc_out := sc_out st @ [Store_s32 (sc_offset st)]\<rparr>)
      else if c = CHR ''o'' then scan_number qualifier 8 True st
      else if c = CHR ''x'' \<or> c = CHR ''X'' then scan_number qualifier 16 True st
      else if c = CHR ''d'' then scan_number qualifier 10 True st
      else if c = CHR ''i'' then scan_number qualifier 0 True st
      else if c = CHR ''u'' then scan_number qualifier 10 False st
      else if c = CHR ''%'' then
        if hd (sc_inp st) \<noteq> CHR ''%'' then Stop (sc_num st) (sc_out st) else Go (st\<lparr>sc_inp := tl (sc_inp st)\<rparr>)
      else Stop (sc_num st) (sc_out st))"

text \<open>The field width and the qualifier in front of a conversion.\<close>

definition scan_width :: "scan_st \<Rightarrow> scan_st" where
  "scan_width st =
     (if sc_fmt st \<noteq> [] \<and> is_digit (hd (sc_fmt st))
      then let (w, f) = skip_atoi 0 (sc_fmt st) in st\<lparr>sc_width := sint w, sc_fmt := f\<rparr> else st)"

definition scan_qualifier :: "string \<Rightarrow> char option \<times> string" where
  "scan_qualifier f =
     (if f \<noteq> [] \<and> hd f \<in> {CHR ''h'', CHR ''l'', CHR ''L'', CHR ''Z''} then (Some (hd f), tl f) else (None, f))"

text \<open>What follows a \<open>%\<close> in the format.\<close>

definition scan_percent :: "scan_st \<Rightarrow> scan_res" where
  "scan_percent st =
     (if sc_fmt st \<noteq> [] \<and> hd (sc_fmt st) = CHR ''*'' then
        Go (st\<lparr>sc_fmt := dropWhile (\<lambda>c. \<not> is_blank c) (sc_fmt st), sc_inp := dropWhile (\<lambda>c. \<not> is_blank c) (sc_inp st)\<rparr>)
      else
        let st = scan_width st;
            (qualifier, f) = scan_qualifier (sc_fmt st)
        in if f = [] \<or> sc_inp st = [] then scan_finish (st\<lparr>sc_fmt := f\<rparr>)
           else scan_conv qualifier (hd f) (st\<lparr>sc_fmt := tl f\<rparr>))"

text \<open>One turn of the loop.\<close>

definition scan_step :: "scan_st \<Rightarrow> scan_res" where
  "scan_step st =
     (if sc_fmt st = [] \<or> sc_inp st = [] then scan_finish st
      else
        let st = (if is_blank (hd (sc_fmt st))
              then st\<lparr>sc_fmt := dropWhile is_blank (sc_fmt st), sc_inp := dropWhile is_blank (sc_inp st)\<rparr> else st)
        in if sc_fmt st = [] then scan_finish st
           else if hd (sc_fmt st) \<noteq> CHR ''%'' then
             if sc_inp st = [] \<or> hd (sc_fmt st) \<noteq> hd (sc_inp st) then scan_finish (st\<lparr>sc_fmt := tl (sc_fmt st)\<rparr>)
             else Go (st\<lparr>sc_fmt := tl (sc_fmt st), sc_inp := tl (sc_inp st)\<rparr>)
           else scan_percent (st\<lparr>sc_fmt := tl (sc_fmt st)\<rparr>))"

text \<open>Every turn uses up a character of the format.\<close>

lemma skip_atoi_length: "length (snd (skip_atoi i s)) \<le> length s"
  by (induction i s rule: skip_atoi.induct) auto

lemma scan_number_fmt: "scan_number q base sg st = Go st' \<Longrightarrow> sc_fmt st' = sc_fmt st"
  by (auto simp: scan_number_def scan_finish_def Let_def split: if_splits prod.splits)

lemma scan_conv_fmt: "scan_conv q c st = Go st' \<Longrightarrow> sc_fmt st' = sc_fmt st"
  by (auto simp: scan_conv_def Let_def split: if_splits prod.splits dest: scan_number_fmt)

lemma scan_percent_fmt:
  assumes "scan_percent st = Go st'"
  shows "length (sc_fmt st') \<le> length (sc_fmt st)"
proof (cases "sc_fmt st \<noteq> [] \<and> hd (sc_fmt st) = CHR ''*''")
  case True
  then show ?thesis using assms by (auto simp: scan_percent_def length_dropWhile_le)
next
  case False
  have 1: "length (sc_fmt (scan_width st)) \<le> length (sc_fmt st)"
    using skip_atoi_length [of 0 "sc_fmt st"] by (auto simp: scan_width_def split: prod.split)
  obtain q f where qf: "scan_qualifier (sc_fmt (scan_width st)) = (q, f)" by fastforce
  then have 2: "length f \<le> length (sc_fmt (scan_width st))" by (auto simp: scan_qualifier_def split: if_splits)
  have "scan_conv q (hd f) ((scan_width st)\<lparr>sc_fmt := tl f\<rparr>) = Go st'"
    using assms False qf by (auto simp: scan_percent_def scan_finish_def Let_def split: if_splits)
  then have "sc_fmt st' = tl f" using scan_conv_fmt by fastforce
  then show ?thesis using 1 2 by simp
qed

lemma scan_step_shorter:
  assumes "scan_step st = Go st'"
  shows "length (sc_fmt st') < length (sc_fmt st)"
proof -
  have ne: "sc_fmt st \<noteq> []" using assms by (auto simp: scan_step_def scan_finish_def split: if_splits)
  define st1 where "st1 = (if is_blank (hd (sc_fmt st))
    then st\<lparr>sc_fmt := dropWhile is_blank (sc_fmt st), sc_inp := dropWhile is_blank (sc_inp st)\<rparr> else st)"
  have 1: "length (sc_fmt st1) \<le> length (sc_fmt st)" by (simp add: st1_def length_dropWhile_le)
  have s: "scan_step st = (if sc_inp st = [] then scan_finish st else if sc_fmt st1 = [] then scan_finish st1
      else if hd (sc_fmt st1) \<noteq> CHR ''%'' then
        if sc_inp st1 = [] \<or> hd (sc_fmt st1) \<noteq> hd (sc_inp st1) then scan_finish (st1\<lparr>sc_fmt := tl (sc_fmt st1)\<rparr>)
        else Go (st1\<lparr>sc_fmt := tl (sc_fmt st1), sc_inp := tl (sc_inp st1)\<rparr>)
      else scan_percent (st1\<lparr>sc_fmt := tl (sc_fmt st1)\<rparr>))"
    using ne unfolding scan_step_def st1_def [symmetric] Let_def by simp
  have n1: "sc_fmt st1 \<noteq> []" using assms s by (auto simp: scan_finish_def split: if_splits)
  then have "length (sc_fmt st') \<le> length (tl (sc_fmt st1))"
    using assms s scan_percent_fmt [of "st1\<lparr>sc_fmt := tl (sc_fmt st1)\<rparr>" st'] by (auto simp: scan_finish_def split: if_splits)
  moreover have "length (tl (sc_fmt st1)) < length (sc_fmt st1)" using n1 by simp
  ultimately show ?thesis using 1 by linarith
qed

function scan_fmt :: "scan_st \<Rightarrow> nat \<times> stored list" where
  "scan_fmt st = (case scan_step st of Stop num out \<Rightarrow> (num, out) | Go st \<Rightarrow> scan_fmt st)"
  by pat_completeness auto
termination by (relation "measure (\<lambda>st. length (sc_fmt st))") (auto dest: scan_step_shorter)

declare scan_fmt.simps [simp del]

text \<open>How many conversions were done, and what was stored.\<close>

definition sscanf :: "string \<Rightarrow> string \<Rightarrow> nat \<times> stored list" where
  "sscanf buf fmt = scan_fmt \<lparr>sc_fmt = fmt, sc_inp = buf, sc_len = length buf, sc_width = -1, sc_num = 0, sc_out = []\<rparr>"

section \<open>Reading decimal numbers\<close>

lemma scan_literal:
  assumes "\<not> is_blank c" and "c \<noteq> CHR ''%''"
  shows "scan_fmt \<lparr>sc_fmt = c # f, sc_inp = c # r, sc_len = n, sc_width = w, sc_num = k, sc_out = out\<rparr> =
    scan_fmt \<lparr>sc_fmt = f, sc_inp = r, sc_len = n, sc_width = w, sc_num = k, sc_out = out\<rparr>"
  using assms by (subst scan_fmt.simps) (simp add: scan_step_def)

lemma scan_empty:
  "take 2 f \<noteq> ''%n'' \<Longrightarrow>
   scan_fmt \<lparr>sc_fmt = f, sc_inp = [], sc_len = n, sc_width = w, sc_num = k, sc_out = out\<rparr> = (k, out)"
  by (subst scan_fmt.simps) (simp add: scan_step_def scan_finish_def)

text \<open>A \<open>%d\<close> takes a sign and the digits that follow; no digit at all counts as the number 0.\<close>

lemma scan_d:
  assumes ch: "\<not> is_blank (hd r)" "r \<noteq> []" and f: "take 2 f \<noteq> ''%n''"
    and v: "sc_strto 10 0 (if hd r \<in> {CHR ''-'', CHR ''+''} then tl r else r) = (v, r')"
  shows "scan_fmt \<lparr>sc_fmt = CHR ''%'' # CHR ''d'' # f, sc_inp = r, sc_len = n, sc_width = w, sc_num = k, sc_out = out\<rparr> =
    scan_fmt \<lparr>sc_fmt = f, sc_inp = r', sc_len = n, sc_width = w, sc_num = Suc k,
      sc_out = out @ [Store_s32 (if hd r = CHR ''-'' then - v else v)]\<rparr>"
proof -
  have b: "\<not> is_blank CHR ''%''" "\<not> is_digit CHR ''d''" by (simp_all add: is_blank_def is_digit_def)
  have d: "dropWhile is_blank r = r" using ch by (cases r) auto
  have s: "scan_step \<lparr>sc_fmt = CHR ''%'' # CHR ''d'' # f, sc_inp = r, sc_len = n, sc_width = w, sc_num = k, sc_out = out\<rparr> =
    scan_number None 10 True \<lparr>sc_fmt = f, sc_inp = r, sc_len = n, sc_width = w, sc_num = k, sc_out = out\<rparr>"
    using ch b by (simp add: scan_step_def scan_percent_def scan_width_def scan_qualifier_def scan_conv_def)
  show ?thesis using scan_empty [OF f] ch d v f
    by (subst scan_fmt.simps) (auto simp: s scan_number_def scan_base_def scan_value_def Let_def scan_finish_def)
qed

end
