(* ===== verification/Calendar.thy ===== *)
theory Calendar
  imports SysTime Scanf
begin

text \<open>
  The calendar: \<open>djyos/time/time.c\<close> and \<open>itoa\<close> of \<open>libc/libc/stdlib/itoa.c\<close>.  The arithmetic of
  the dates is on 32-bit words as in the code; fields of \<open>struct tm\<close> are \<open>s32\<close>.  A pointer
  argument is the value it points to, \<open>None\<close> for the null pointer; the functions that answer in a
  static buffer of their own leave the value there.  A buffer of characters is a list of bytes and
  a write outside of it is \<open>None\<close>.
\<close>

section \<open>State\<close>

record tm =
  tm_us :: int
  tm_sec :: int
  tm_min :: int
  tm_hour :: int
  tm_mday :: int
  tm_mon :: int
  tm_year :: int
  tm_wday :: int
  tm_yday :: int
  tm_isdst :: int

record calst =
  tms :: timest
  g_u32MonthDays :: "u32 list"
  gc_u32CfgTimeZone :: u32
  buf_GmTime :: tm
  buf_GmTimeUs :: tm
  buf_LocalTime :: tm
  buf_LocalTimeUs :: tm
  buf_localtime :: tm
  buf_gmtime :: tm

datatype clock_code = CLOCK_OK | YEAR_ERROR | MON_ERROR | DAY_ERROR | HOUR_ERROR | MIN_ERROR | SEC_ERROR | FMT_ERROR

definition on_tms :: "(timest \<Rightarrow> ('a \<times> timest) option) \<Rightarrow> calst \<Rightarrow> ('a \<times> calst) option" where
  "on_tms f s = do { (r, t) \<leftarrow> f (tms s); Some (r, s\<lparr>tms := t\<rparr>) }"

abbreviation (input) zone_s :: "calst \<Rightarrow> s64" where
  "zone_s s \<equiv> uint (gc_u32CfgTimeZone s) * 3600"

section \<open>From dates to seconds\<close>

definition Tm_MkTime :: "tm \<Rightarrow> s64" where
  "Tm_MkTime dt =
     (let year = word_of_int (tm_year dt) :: u32;
          mon = word_of_int (tm_mon dt) - 2 :: u32;
          (year, mon) = (if sint mon \<le> 0 then (year - 1, mon + 12) else (year, mon))
      in (((uint (year div 4 - year div 100 + year div 400 + 367 * mon div 12 + word_of_int (tm_mday dt)) +
            uint (year * 365) - 719499) * 24 + tm_hour dt) * 60 + tm_min dt) * 60 + tm_sec dt)"

definition Tm_MkTimeUs :: "tm \<Rightarrow> s64" where
  "Tm_MkTimeUs dt = w64 (w64 (Tm_MkTime dt * 1000000) + tm_us dt)"

section \<open>From seconds to dates\<close>

text \<open>\<open>while (dayth > tmp_month_days) {...}\<close>; the table is read where \<open>month\<close> points.\<close>

partial_function (option) month_loop :: "u32 list \<Rightarrow> u32 \<Rightarrow> u32 \<Rightarrow> u32 \<Rightarrow> (u32 \<times> u32) option" where
  "month_loop MD month dayth tmp_month_days =
     (if dayth > tmp_month_days then
        if unat month < length MD
        then month_loop MD (month + 1) (dayth - tmp_month_days) (MD ! unat month)
        else None
      else Some (month, dayth))"

text \<open>Year and day of the year of a day since 1970.\<close>

definition leap_fix :: "u32 \<Rightarrow> u32" where
  "leap_fix years =
     (let leap_years = drop_bit 2 (years + 1);
          leap_years = (if (years + 1970 - 1) div 100 \<noteq> (years + 1970) div 100 \<and> (years + 1970) mod 400 \<noteq> 0
            then leap_years + 1 else leap_years);
          leap_years = leap_years - ((years + 1970) div 100 - 1970 div 100)
      in leap_years + ((years + 1970) div 400 - 1970 div 400))"

definition year_leap :: "u32 \<Rightarrow> bool" where
  "year_leap year \<longleftrightarrow> year mod 4 = 0 \<and> \<not> (year mod 100 = 0 \<and> year mod 400 \<noteq> 0)"

definition year_day :: "u32 \<Rightarrow> u32 \<times> u32" where
  "year_day days =
     (let years = days div 365;
          leap_years = leap_fix years;
          temp = days mod 365;
          temp1 = temp;
          (years, temp) = (if temp < leap_years then (years - 1, temp + 365) else (years, temp));
          dayth = temp - leap_years + 1;
          year = 1970 + years
      in (year, if year_leap year \<and> temp1 < leap_years then dayth + 1 else dayth))"

definition Tm_LocalTime_r :: "moment \<Rightarrow> s64 option \<Rightarrow> tm option \<Rightarrow> calst \<Rightarrow> (tm option \<times> calst) option" where
  "Tm_LocalTime_r now time result s = (case result of None \<Rightarrow> Some (None, s) | Some res \<Rightarrow> do {
     (temp_time, s) \<leftarrow> (case time of Some t \<Rightarrow> Some (t, s) | None \<Rightarrow> on_tms (Rtc_Time now) s);
     let second = (word_of_int (cmod temp_time 60) :: u32);
     let minute = (word_of_int (cmod (cdiv temp_time 60) 60) :: u32);
     let hour = (word_of_int (cmod (cdiv temp_time 3600) 24) :: u32);
     let days = (word_of_int (cdiv temp_time 86400) :: u32);
     let (year, dayth) = year_day days;
     let s = s\<lparr>g_u32MonthDays := (g_u32MonthDays s)[1 := if year_leap year then 29 else 28]\<rparr>;
     (month, day) \<leftarrow> month_loop (g_u32MonthDays s) 1 dayth (g_u32MonthDays s ! 0);
     let day_of_week = (days + 4) mod 7;
     Some (Some (res\<lparr>tm_us := 0, tm_sec := sint second, tm_min := sint minute, tm_hour := sint hour,
         tm_mday := sint day, tm_mon := sint month, tm_year := sint year, tm_wday := sint day_of_week,
         tm_yday := sint day\<rparr>), s) })"

definition Tm_LocalTimeUs_r :: "moment \<Rightarrow> s64 option \<Rightarrow> tm option \<Rightarrow> calst \<Rightarrow> (tm option \<times> calst) option" where
  "Tm_LocalTimeUs_r now time_us result s = (case result of None \<Rightarrow> Some (None, s) | Some res \<Rightarrow> do {
     (t, s) \<leftarrow> (case time_us of Some t \<Rightarrow> Some (t, s) | None \<Rightarrow> on_tms (Rtc_TimeUs now) s);
     let temp_us = cmod t 1000000;
     let temp_time = cdiv t 1000000;
     (r, s) \<leftarrow> Tm_LocalTime_r now (Some temp_time) (Some res) s;
     r \<leftarrow> r;
     Some (Some (r\<lparr>tm_us := temp_us\<rparr>), s) })"

text \<open>Greenwich time: the argument, or what the calendar clock shows, less the time zone.\<close>

definition gm_of :: "moment \<Rightarrow> s64 option \<Rightarrow> calst \<Rightarrow> (s64 \<times> calst) option" where
  "gm_of now time s = do {
     (t, s) \<leftarrow> (case time of Some t \<Rightarrow> Some (t, s) | None \<Rightarrow> on_tms (Rtc_Time now) s);
     Some (w64 (t - zone_s s), s) }"

definition gm_us_of :: "moment \<Rightarrow> s64 option \<Rightarrow> calst \<Rightarrow> (s64 \<times> calst) option" where
  "gm_us_of now time s = do {
     (t, s) \<leftarrow> (case time of Some t \<Rightarrow> Some (t, s) | None \<Rightarrow> on_tms (Rtc_TimeUs now) s);
     Some (w64 (t - w64 (zone_s s * 1000000)), s) }"

definition Tm_GmTime_r :: "moment \<Rightarrow> s64 option \<Rightarrow> tm option \<Rightarrow> calst \<Rightarrow> (tm option \<times> calst) option" where
  "Tm_GmTime_r now time result s =
     (if result = None then Some (None, s)
      else do { (t, s) \<leftarrow> gm_of now time s; Tm_LocalTime_r now (Some t) result s })"

definition Tm_GmTimeUs_r :: "moment \<Rightarrow> s64 option \<Rightarrow> tm option \<Rightarrow> calst \<Rightarrow> (tm option \<times> calst) option" where
  "Tm_GmTimeUs_r now time result s =
     (if result = None then Some (None, s)
      else do { (t, s) \<leftarrow> gm_us_of now time s; Tm_LocalTimeUs_r now (Some t) result s })"

definition Tm_GmTime :: "moment \<Rightarrow> s64 option \<Rightarrow> calst \<Rightarrow> (tm \<times> calst) option" where
  "Tm_GmTime now time s = do {
     (t, s) \<leftarrow> gm_of now time s;
     (r, s) \<leftarrow> Tm_LocalTime_r now (Some t) (Some (buf_GmTime s)) s;
     r \<leftarrow> r;
     Some (r, s\<lparr>buf_GmTime := r\<rparr>) }"

definition Tm_GmTimeUs :: "moment \<Rightarrow> s64 option \<Rightarrow> calst \<Rightarrow> (tm \<times> calst) option" where
  "Tm_GmTimeUs now time s = do {
     (t, s) \<leftarrow> gm_us_of now time s;
     (r, s) \<leftarrow> Tm_LocalTimeUs_r now (Some t) (Some (buf_GmTimeUs s)) s;
     r \<leftarrow> r;
     Some (r, s\<lparr>buf_GmTimeUs := r\<rparr>) }"

definition Tm_LocalTime :: "moment \<Rightarrow> s64 option \<Rightarrow> calst \<Rightarrow> (tm \<times> calst) option" where
  "Tm_LocalTime now time s = do {
     (r, s) \<leftarrow> Tm_LocalTime_r now time (Some (buf_LocalTime s)) s;
     r \<leftarrow> r;
     Some (r, s\<lparr>buf_LocalTime := r\<rparr>) }"

definition Tm_LocalTimeUs :: "moment \<Rightarrow> s64 option \<Rightarrow> calst \<Rightarrow> (tm \<times> calst) option" where
  "Tm_LocalTimeUs now time_us s = do {
     (t, s) \<leftarrow> (case time_us of Some t \<Rightarrow> Some (t, s) | None \<Rightarrow> on_tms (Rtc_TimeUs now) s);
     let temp_us = cmod t 1000000;
     let temp_time = cdiv t 1000000;
     (r, s) \<leftarrow> Tm_LocalTime_r now (Some temp_time) (Some (buf_LocalTimeUs s)) s;
     r \<leftarrow> r;
     let r = r\<lparr>tm_us := temp_us\<rparr>;
     Some (r, s\<lparr>buf_LocalTimeUs := r\<rparr>) }"

section \<open>Setting the time\<close>

text \<open>
  The format of \<open>Tm_SetDateTimeStr\<close> and the field that gets the number stored i-th; a field that is
  not written keeps the 0 that \<open>memset\<close> put there.
\<close>

definition sscanf_dt :: "string \<Rightarrow> nat \<times> stored list" where
  "sscanf_dt buf = sscanf buf ''%d/%d/%d,%d:%d:%d:%d''"

definition dt_field :: "stored list \<Rightarrow> nat \<Rightarrow> int" where
  "dt_field ps i = (if i < length ps then case ps ! i of Store_s32 v \<Rightarrow> sint v | _ \<Rightarrow> 0 else 0)"

definition Tm_SetDateTimeStr :: "moment \<Rightarrow> string \<Rightarrow> calst \<Rightarrow> (clock_code \<times> calst) option" where
  "Tm_SetDateTimeStr now buf s =
     (let (params, ps) = sscanf_dt buf;
          dt = \<lparr>tm_us = dt_field ps 6, tm_sec = dt_field ps 5, tm_min = dt_field ps 4, tm_hour = dt_field ps 3, tm_mday = dt_field ps 2,
            tm_mon = dt_field ps 1, tm_year = dt_field ps 0, tm_wday = 0, tm_yday = 0, tm_isdst = 0\<rparr>
      in if params < 6 then Some (FMT_ERROR, s)
         else if 1970 > tm_year dt \<or> tm_year dt > 2100 then Some (YEAR_ERROR, s)
         else if 1 > tm_mon dt \<or> tm_mon dt > 12 then Some (MON_ERROR, s)
         else if 1 > tm_mday dt \<or> tm_mday dt > 31 then Some (DAY_ERROR, s)
         else if (word_of_int (tm_mday dt) :: u32) > g_u32MonthDays s ! nat (tm_mon dt - 1) then Some (DAY_ERROR, s)
         else if tm_mon dt = 2 \<and>
            (tm_mday dt > 29 \<or>
             (if cmod (tm_year dt) 4 = 0
              then cmod (tm_year dt) 100 = 0 \<and> cmod (tm_year dt) 400 \<noteq> 0 \<and> tm_mday dt > 28
              else tm_mday dt > 28)) then Some (DAY_ERROR, s)
         else if tm_hour dt > 23 then Some (HOUR_ERROR, s)
         else if tm_min dt > 59 then Some (MIN_ERROR, s)
         else if tm_sec dt > 59 then Some (SEC_ERROR, s)
         else do {
           (_, s) \<leftarrow> on_tms (Rtc_SetTime now (Tm_MkTimeUs dt)) s;
           Some (CLOCK_OK, s) })"

definition Tm_SetDateTime :: "moment \<Rightarrow> tm \<Rightarrow> calst \<Rightarrow> calst option" where
  "Tm_SetDateTime now t s = do {
     (_, s) \<leftarrow> on_tms (Rtc_SetTime now (Tm_MkTimeUs t)) s;
     Some s }"

section \<open>Printing\<close>

text \<open>\<open>itoa\<close>: the digits in reverse, and the bytes written to the buffer, the 0 included.\<close>

definition hex_digit :: "u32 \<Rightarrow> u8" where
  "hex_digit v = (let c = ucast v :: u8 in if c \<le> 9 then c + 0x30 else c + (0x61 - 0x0A))"

function digits_inv :: "u32 \<Rightarrow> u32 \<Rightarrow> u8 list" where
  "digits_inv scale ud =
     (if scale = 16 then
        hex_digit (and ud 0x0F) # (let ud = drop_bit 4 ud in if ud = 0 then [] else digits_inv scale ud)
      else if scale = 10 then
        (ucast (ud mod 10) + 0x30) # (let ud = ud div 10 in if ud = 0 then [] else digits_inv scale ud)
      else [])"
  by pat_completeness auto
termination
proof (relation "measure (\<lambda>(_, ud). unat ud)")
  fix scale ud x :: u32
  assume "x = drop_bit 4 ud" "x \<noteq> 0"
  then have "x = ud div 16" "ud \<noteq> 0" by (auto simp: drop_bit_eq_div)
  then show "((scale, x), scale, ud) \<in> measure (\<lambda>(_, ud). unat ud)"
    by (simp add: unat_div unat_gt_0)
next
  fix scale ud x :: u32
  assume "x = ud div 10" "x \<noteq> 0"
  then have "x = ud div 10" "ud \<noteq> 0" by auto
  then show "((scale, x), scale, ud) \<in> measure (\<lambda>(_, ud). unat ud)"
    by (simp add: unat_div unat_gt_0)
qed simp

declare digits_inv.simps [simp del]

definition itoa :: "int \<Rightarrow> int \<Rightarrow> u8 list" where
  "itoa d scale =
     (let neg = (scale < 0 \<and> d < 0);
          ud = (if neg then word_of_int (- d) else word_of_int d) :: u32;
          scale = \<bar>scale\<bar>
      in if scale = 16 \<or> scale = 10
         then (if neg then [0x2D] else []) @ rev (digits_inv (word_of_int scale) ud) @ [0]
         else [])"

definition put1 :: "nat \<Rightarrow> u8 \<Rightarrow> u8 list \<Rightarrow> u8 list option" where
  "put1 i v buf = mem_put i [v] buf"

definition get1 :: "nat \<Rightarrow> u8 list \<Rightarrow> u8 option" where
  "get1 i buf = (if i < length buf then Some (buf ! i) else None)"

text \<open>A field of two digits: \<open>itoa(v, &buf[i], 10); if(buf[i+1] == '\\0') {...}\<close>.\<close>

definition put_two :: "nat \<Rightarrow> int \<Rightarrow> u8 list \<Rightarrow> u8 list option" where
  "put_two i v buf = do {
     buf \<leftarrow> mem_put i (itoa v 10) buf;
     c \<leftarrow> get1 (i + 1) buf;
     if c = 0 then do {
       d \<leftarrow> get1 i buf;
       buf \<leftarrow> put1 (i + 1) d buf;
       put1 i 0x30 buf }
     else Some buf }"

definition Tm_AscTime :: "tm \<Rightarrow> u8 list \<Rightarrow> u8 list option" where
  "Tm_AscTime t buf = do {
     buf \<leftarrow> mem_put 0 (itoa (tm_year t) 10) buf;
     buf \<leftarrow> put1 4 0x2F buf;
     buf \<leftarrow> put_two 5 (tm_mon t) buf;
     buf \<leftarrow> put1 7 0x2F buf;
     buf \<leftarrow> put_two 8 (tm_mday t) buf;
     buf \<leftarrow> put1 10 0x2C buf;
     buf \<leftarrow> put_two 11 (tm_hour t) buf;
     buf \<leftarrow> put1 13 0x3A buf;
     buf \<leftarrow> put_two 14 (tm_min t) buf;
     buf \<leftarrow> put1 16 0x3A buf;
     buf \<leftarrow> put_two 17 (tm_sec t) buf;
     put1 19 0 buf }"

definition Tm_AscTimeMs :: "tm \<Rightarrow> u8 list \<Rightarrow> u8 list option" where
  "Tm_AscTimeMs t buf = do {
     buf \<leftarrow> Tm_AscTime t buf;
     buf \<leftarrow> put1 19 0x3A buf;
     buf \<leftarrow> mem_put 20 (itoa (cdiv (tm_us t) 1000) 10) buf;
     put1 23 0 buf }"

definition Tm_AscTimeUs :: "tm \<Rightarrow> u8 list \<Rightarrow> u8 list option" where
  "Tm_AscTimeUs t buf = do {
     buf \<leftarrow> Tm_AscTime t buf;
     buf \<leftarrow> put1 19 0x3A buf;
     buf \<leftarrow> mem_put 20 (itoa (tm_us t) 10) buf;
     put1 26 0 buf }"

section \<open>The functions of the C library\<close>

definition Tm_Time :: "moment \<Rightarrow> calst \<Rightarrow> (s64 \<times> calst) option" where
  "Tm_Time now s = on_tms (Rtc_Time now) s"

definition Tm_TimeUs :: "moment \<Rightarrow> calst \<Rightarrow> (s64 \<times> calst) option" where
  "Tm_TimeUs now s = on_tms (Rtc_TimeUs now) s"

definition localtime :: "moment \<Rightarrow> s64 option \<Rightarrow> calst \<Rightarrow> (tm \<times> calst) option" where
  "localtime now timep s = do {
     (r, s) \<leftarrow> Tm_LocalTime_r now timep (Some (buf_localtime s)) s;
     r \<leftarrow> r;
     Some (r, s\<lparr>buf_localtime := r\<rparr>) }"

definition gmtime :: "moment \<Rightarrow> s64 option \<Rightarrow> calst \<Rightarrow> (tm \<times> calst) option" where
  "gmtime now timep s = do {
     (r, s) \<leftarrow> Tm_GmTime_r now timep (Some (buf_gmtime s)) s;
     r \<leftarrow> r;
     Some (r, s\<lparr>buf_gmtime := r\<rparr>) }"

definition gettimeofday :: "moment \<Rightarrow> bool \<Rightarrow> calst \<Rightarrow> (s64 option \<times> calst) option" where
  "gettimeofday now tv s =
     (if tv then do { (t, s) \<leftarrow> Tm_Time now s; Some (Some t, s) } else Some (None, s))"

definition settimeofday :: "moment \<Rightarrow> s64 option \<Rightarrow> tm \<Rightarrow> calst \<Rightarrow> (int \<times> calst) option" where
  "settimeofday now tv time_tm s = (case tv of
       None \<Rightarrow> Some (-1, s)
     | Some timetmp \<Rightarrow> do {
         (time_p, s) \<leftarrow> Tm_LocalTime_r now (Some timetmp) (Some time_tm) s;
         time_p \<leftarrow> time_p;
         s \<leftarrow> Tm_SetDateTime now time_p s;
         Some (0, s) })"

end
