(* ===== verification/CalProps.thy ===== *)
theory CalProps
  imports Calendar
begin

text \<open>
  The Gregorian calendar and the proofs about the conversions of \<open>time.c\<close>: the days before a year
  and before a month, and the words of the code as natural numbers.
\<close>

section \<open>The calendar\<close>

definition leap :: "nat \<Rightarrow> bool" where
  "leap y \<longleftrightarrow> y mod 4 = 0 \<and> (y mod 100 \<noteq> 0 \<or> y mod 400 = 0)"

text \<open>Leap years since 1970 and before \<open>y\<close>; there were 477 before 1970.\<close>

definition leaps :: "nat \<Rightarrow> nat" where
  "leaps y = (y - 1) div 4 - (y - 1) div 100 + (y - 1) div 400 - 477"

definition year_start :: "nat \<Rightarrow> nat" where
  "year_start y = 365 * (y - 1970) + leaps y"

definition year_len :: "nat \<Rightarrow> nat" where
  "year_len y = (if leap y then 366 else 365)"

definition month_days :: "nat \<Rightarrow> nat list" where
  "month_days y = [31, if leap y then 29 else 28, 31, 30, 31, 30, 31, 31, 30, 31, 30, 31]"

definition month_start :: "nat \<Rightarrow> nat \<Rightarrow> nat" where
  "month_start y m = sum_list (take (m - 1) (month_days y))"

definition valid_date :: "nat \<Rightarrow> nat \<Rightarrow> nat \<Rightarrow> bool" where
  "valid_date y m d \<longleftrightarrow> 1970 \<le> y \<and> 1 \<le> m \<and> m \<le> 12 \<and> 1 \<le> d \<and> d \<le> month_days y ! (m - 1)"

text \<open>Days from the first of January 1970.\<close>

definition civil :: "nat \<Rightarrow> nat \<Rightarrow> nat \<Rightarrow> nat" where
  "civil y m d = year_start y + month_start y m + d - 1"

lemma centuries_le: "(x :: nat) div 100 \<le> x div 4" "x div 400 \<le> x div 100"
  using div_le_mono2 [of 4 100 x] div_le_mono2 [of 100 400 x] by simp_all

lemma leaps_base: "1970 \<le> (y :: nat) \<Longrightarrow> 477 + (y - 1) div 100 \<le> (y - 1) div 4 + (y - 1) div 400"
proof -
  assume "1970 \<le> y"
  then have x: "1969 \<le> y - 1" by simp
  define x q where "x = y - 1" "q = x div 100"
  note d = this
  have "100 * q \<le> x" by (simp add: d)
  then have "(25 * q * 4) div 4 \<le> x div 4" using div_le_mono [of "25 * q * 4" x 4] by simp
  then have a: "25 * q \<le> x div 4" by simp
  have b: "492 \<le> x div 4" "4 \<le> x div 400" using x div_le_mono [of 1969 x 4] div_le_mono [of 1969 x 400] by (simp_all add: d)
  have "477 + q \<le> x div 4 + x div 400"
  proof (cases "q \<le> 19")
    case True
    then show ?thesis using b by linarith
  next
    case False
    then show ?thesis using a by linarith
  qed
  then show ?thesis by (simp add: d)
qed

lemma leaps_Suc: "1970 \<le> y \<Longrightarrow> leaps (Suc y) = leaps y + (if leap y then 1 else 0)"
proof -
  assume y: "1970 \<le> y"
  then obtain z where z: "y = Suc z" by (cases y) auto
  have m: "y mod 400 = 0 \<Longrightarrow> y mod 100 = 0" "y mod 100 = 0 \<Longrightarrow> y mod 4 = 0"
    by (auto simp: mod_eq_0_iff_dvd intro: dvd_trans)
  define a b c where "a = z div 4" "b = z div 100" "c = z div 400"
  note d = this
  have e: "y div 4 = a + (if y mod 4 = 0 then 1 else 0)" "y div 100 = b + (if y mod 100 = 0 then 1 else 0)"
    "y div 400 = c + (if y mod 400 = 0 then 1 else 0)"
    by (simp_all add: z d div_Suc)
  have l: "leaps y = a - b + c - 477" "leaps (Suc y) = y div 4 - y div 100 + y div 400 - 477"
    by (simp_all add: leaps_def z d)
  have i: "477 + b \<le> a + c" "b \<le> a" using leaps_base [OF y] centuries_le [of z] by (simp_all add: z d)
  show ?thesis
    using i m by (cases "y mod 4 = 0"; cases "y mod 100 = 0"; cases "y mod 400 = 0") (simp_all add: l e leap_def)
qed

lemma year_start_Suc: "1970 \<le> y \<Longrightarrow> year_start (Suc y) = year_start y + year_len y"
proof -
  assume y: "1970 \<le> y"
  then have "Suc y - 1970 = Suc (y - 1970)" by simp
  then show ?thesis unfolding year_start_def year_len_def by (simp only: leaps_Suc [OF y]) simp
qed

lemma year_start_mono: "1970 \<le> y \<Longrightarrow> y < y' \<Longrightarrow> year_start y < year_start y'"
proof (induction y' rule: less_induct)
  case (less y')
  then obtain z where z: "y' = Suc z" "y \<le> z" by (cases y') auto
  then have "year_start z < year_start y'" using less.prems by (simp add: year_start_Suc year_len_def)
  then show ?case using less.IH [of z] less.prems z by (cases "y = z") auto
qed

lemma year_starts: "year_start 1970 = 0" "year_start 3477 = 550421" "leaps 3472 = 364" "leaps 3476 = 365"
  by (simp_all add: year_start_def leaps_def)

lemma find_year:
  "\<exists>y doy. 1970 \<le> y \<and> d = year_start y + doy \<and> doy < year_len y"
proof (induction d)
  case 0
  show ?case by (rule exI [of _ 1970], rule exI [of _ 0]) (simp add: year_starts year_len_def)
next
  case (Suc d)
  then obtain y doy where y: "1970 \<le> y" "d = year_start y + doy" "doy < year_len y" by blast
  show ?case
  proof (cases "Suc doy < year_len y")
    case True
    then show ?thesis using y by (intro exI [of _ y] exI [of _ "Suc doy"]) simp
  next
    case False
    then have "Suc d = year_start (Suc y) + 0" using y by (simp add: year_start_Suc)
    then show ?thesis using y(1) by (intro exI [of _ "Suc y"] exI [of _ 0]) (simp add: year_len_def)
  qed
qed

lemma leaps_mono: "1970 \<le> y \<Longrightarrow> y \<le> y' \<Longrightarrow> leaps y \<le> leaps y'"
proof (induction y' rule: less_induct)
  case (less y')
  show ?case
  proof (cases "y = y'")
    case False
    then obtain z where z: "y' = Suc z" "y \<le> z" using less.prems by (cases y') auto
    then have "leaps z \<le> leaps y'" using less.prems by (simp add: leaps_Suc)
    then show ?thesis using less.IH [of z] less.prems z by simp
  qed simp
qed

lemma find_year_bound:
  assumes y: "1970 \<le> y" and d: "year_start y + doy < 550420" "doy < year_len y"
  shows "y \<le> 3476" and "leaps y \<le> 365" and "leaps y + doy < 730"
proof -
  show b: "y \<le> 3476" using year_start_mono [of 3477 y] year_starts(2) d(1) by (cases "3477 < y"; cases "y = 3477") auto
  show l: "leaps y \<le> 365" using leaps_mono [OF y b] year_starts(4) by simp
  consider "y \<le> 3472" | "y = 3473" | "y = 3474" | "y = 3475" | "y = 3476" using b by linarith
  then show "leaps y + doy < 730"
  proof cases
    case 1
    then show ?thesis using leaps_mono [OF y 1] year_starts(3) d(2) by (auto simp: year_len_def split: if_splits)
  next
    case 5
    then show ?thesis using d(1) year_starts(4) by (simp add: year_start_def)
  qed (use l d(2) in \<open>auto simp: year_len_def leap_def\<close>)
qed

section \<open>Words\<close>

lemma of_nat_div_u32: "a < 4294967296 \<Longrightarrow> b < 4294967296 \<Longrightarrow> (of_nat a :: u32) div of_nat b = of_nat (a div b)"
  by (simp add: word_arith_nat_div take_bit_nat_eq_self unat_of_nat_u32)

lemma of_nat_mod_u32: "a < 4294967296 \<Longrightarrow> b < 4294967296 \<Longrightarrow> (of_nat a :: u32) mod of_nat b = of_nat (a mod b)"
  by (simp add: word_arith_nat_mod take_bit_nat_eq_self unat_of_nat_u32)

lemma of_nat_eq_u32: "a < 4294967296 \<Longrightarrow> b < 4294967296 \<Longrightarrow> (of_nat a :: u32) = of_nat b \<longleftrightarrow> a = b"
  by (metis unat_of_nat_u32)

lemma of_nat_less_u32: "a < 4294967296 \<Longrightarrow> b < 4294967296 \<Longrightarrow> (of_nat a :: u32) < of_nat b \<longleftrightarrow> a < b"
  by (simp add: word_less_nat_alt unat_of_nat_u32)

lemmas nat_u32 = of_nat_div_u32 of_nat_mod_u32 of_nat_eq_u32 of_nat_less_u32

text \<open>Numerals next to \<open>of_nat\<close> terms.\<close>

lemma num_u32:
  "a < 4294967296 \<Longrightarrow> (of_nat a :: u32) div 100 = of_nat (a div 100)"
  "a < 4294967296 \<Longrightarrow> (of_nat a :: u32) div 400 = of_nat (a div 400)"
  "a < 4294967296 \<Longrightarrow> (of_nat a :: u32) div 4 = of_nat (a div 4)"
  "a < 4294967296 \<Longrightarrow> (of_nat a :: u32) div 365 = of_nat (a div 365)"
  "a < 4294967296 \<Longrightarrow> (of_nat a :: u32) mod 365 = of_nat (a mod 365)"
  "a < 4294967296 \<Longrightarrow> ((of_nat a :: u32) mod 400 = 0) = (a mod 400 = 0)"
  "a < 4294967296 \<Longrightarrow> ((of_nat a :: u32) mod 100 = 0) = (a mod 100 = 0)"
  "a < 4294967296 \<Longrightarrow> ((of_nat a :: u32) mod 4 = 0) = (a mod 4 = 0)"
  "a < 4294967296 \<Longrightarrow> ((of_nat a :: u32) mod 7) = of_nat (a mod 7)"
proof -
  assume a: "a < 4294967296"
  note * = of_nat_div_u32 [OF a, of 100] of_nat_div_u32 [OF a, of 400] of_nat_div_u32 [OF a, of 4] of_nat_div_u32 [OF a, of 365]
    of_nat_mod_u32 [OF a, of 365] of_nat_mod_u32 [OF a, of 400] of_nat_mod_u32 [OF a, of 100] of_nat_mod_u32 [OF a, of 4]
    of_nat_mod_u32 [OF a, of 7]
  show "(of_nat a :: u32) div 100 = of_nat (a div 100)" "(of_nat a :: u32) div 400 = of_nat (a div 400)"
    "(of_nat a :: u32) div 4 = of_nat (a div 4)" "(of_nat a :: u32) div 365 = of_nat (a div 365)"
    "(of_nat a :: u32) mod 365 = of_nat (a mod 365)" "(of_nat a :: u32) mod 7 = of_nat (a mod 7)"
    using * by simp_all
  have "((of_nat (a mod n) :: u32) = 0) = (a mod n = 0)" if "0 < n" "n < 4294967296" for n
    using of_nat_eq_u32 [of "a mod n" 0] that mod_less_divisor [OF that(1), of a] by simp
  then show "((of_nat a :: u32) mod 400 = 0) = (a mod 400 = 0)" "((of_nat a :: u32) mod 100 = 0) = (a mod 100 = 0)"
    "((of_nat a :: u32) mod 4 = 0) = (a mod 4 = 0)"
    using * by simp_all
qed

lemma year_leap_nat: "y < 4294967296 \<Longrightarrow> year_leap (of_nat y) = leap y"
  by (auto simp: year_leap_def leap_def num_u32)

section \<open>The year of a day\<close>

lemma leaps_count:
  assumes "Y = n + 1970"
  shows "leaps Y + Y div 100 + 4 =
     (n + 1) div 4 + (if (n + 1969) div 100 \<noteq> Y div 100 \<and> Y mod 400 \<noteq> 0 then 1 else 0) + 19 + Y div 400"
proof -
  define z where "z = n + 1969"
  have z: "Y = Suc z" "Y - 1 = z" using assms by (simp_all add: z_def)
  define a b c where "a = z div 4" "b = z div 100" "c = z div 400"
  note d = this
  have e: "Y div 100 = b + (if Y mod 100 = 0 then 1 else 0)" "Y div 400 = c + (if Y mod 400 = 0 then 1 else 0)"
    by (simp_all add: z d div_Suc)
  have "z = (n + 1) + 492 * 4" by (simp add: z_def)
  then have n: "a = (n + 1) div 4 + 492" using div_mult_self3 [of 4 492 "n + 1"] by (simp add: d)
  have "477 + (Y - 1) div 100 \<le> (Y - 1) div 4 + (Y - 1) div 400" by (rule leaps_base) (simp add: assms)
  then have i: "477 + b \<le> a + c" "b \<le> a" using centuries_le [of z] unfolding z(2) d by simp_all
  have m: "Y mod 400 = 0 \<Longrightarrow> Y mod 100 = 0" by (auto simp: mod_eq_0_iff_dvd intro: dvd_trans)
  have l: "leaps Y = a - b + c - 477" by (simp only: leaps_def z(2) d)
  have g: "(n + 1969) div 100 = b" by (simp add: d z_def)
  show ?thesis
    using i m n by (cases "Y mod 100 = 0"; cases "Y mod 400 = 0") (simp_all add: l e g)
qed

lemma leap_fix_nat:
  assumes "n < 4000"
  shows "leap_fix (of_nat n) = of_nat (leaps (n + 1970))"
proof -
  let ?Y = "n + 1970"
  have w: "(of_nat n + 1 :: u32) = of_nat (n + 1)" "(of_nat n + 1970 :: u32) = of_nat ?Y"
    "(of_nat ?Y - 1 :: u32) = of_nat (n + 1969)" by simp_all
  have d: "drop_bit 2 (of_nat (n + 1) :: u32) = of_nat ((n + 1) div 4)"
    using num_u32(3) [of "n + 1"] assms by (simp add: drop_bit_eq_div)
  have c: "((of_nat (n + 1969) :: u32) div 100 \<noteq> of_nat ?Y div 100) = ((n + 1969) div 100 \<noteq> ?Y div 100)"
    using assms of_nat_eq_u32 [of "(n + 1969) div 100" "?Y div 100"] num_u32(1) [of ?Y] num_u32(1) [of "n + 1969"]
    by (simp del: of_nat_add)
  let ?e = "if (n + 1969) div 100 \<noteq> ?Y div 100 \<and> ?Y mod 400 \<noteq> 0 then 1 else 0 :: nat"
  have k: "(of_nat (leaps ?Y + ?Y div 100 + 4) :: u32) = of_nat ((n + 1) div 4 + ?e + 19 + ?Y div 400)"
    using leaps_count [of ?Y n] by simp
  have "leap_fix (of_nat n) = of_nat ((n + 1) div 4) + of_nat ?e - (of_nat (?Y div 100) - 19) + (of_nat (?Y div 400) - 4)"
    using num_u32(1,2,6) [of ?Y] assms unfolding leap_fix_def Let_def w c d
    by (simp del: of_nat_add)
  then have "leap_fix (of_nat n) + of_nat (?Y div 100) = of_nat (leaps ?Y) + of_nat (?Y div 100)"
    using k by (simp add: algebra_simps)
  then show ?thesis by (simp only: add_right_cancel)
qed

text \<open>The day of the year counts from 1.\<close>

lemma year_day_nat:
  assumes y: "1970 \<le> y" and D: "D = year_start y + doy" "D < 550420" "doy < year_len y"
  shows "year_day (of_nat D) = (of_nat y, of_nat (doy + 1))"
proof -
  let ?L = "leaps y"
  have d: "year_start y + doy < 550420" using D by simp
  note B = find_year_bound [OF y d D(3)]
  define n where "n = y - 1970"
  have n: "y = n + 1970" "D = 365 * n + (?L + doy)" "n < 2000"
    using y D B(1) by (simp_all add: n_def year_start_def)
  have w: "(of_nat D :: u32) div 365 = of_nat (D div 365)" "(of_nat D :: u32) mod 365 = of_nat (D mod 365)"
    using D(2) num_u32(4,5) [of D] by simp_all
  have yl: "year_leap (of_nat y) = leap y" using year_leap_nat B(1) by simp
  show ?thesis
  proof (cases "?L + doy < 365")
    case True
    have "D = (?L + doy) + 365 * n" using n(2) by simp
    then have q: "D div 365 = n" "D mod 365 = ?L + doy" using True by (simp_all only: div_mult_self2 mod_mult_self2) simp_all
    have f: "leap_fix (of_nat n) = of_nat ?L" using leap_fix_nat [of n] n by simp
    have c: "\<not> (of_nat (?L + doy) :: u32) < of_nat ?L" using of_nat_less_u32 [of "?L + doy" ?L] True by simp
    show ?thesis
      using c unfolding year_day_def Let_def w q f by (simp add: n(1) algebra_simps)
  next
    case False
    define r where "r = ?L + doy - 365"
    have r: "?L + doy = 365 + r" "r < 365" using False B(3) by (simp_all add: r_def)
    have "D = r + 365 * (n + 1)" using n(2) r by simp
    then have q: "D div 365 = n + 1" "D mod 365 = r" 
      using r(2) by (simp_all only: div_mult_self2 mod_mult_self2) simp_all
    have f: "leap_fix (of_nat (n + 1)) = of_nat (leaps (Suc y))" using leap_fix_nat [of "n + 1"] n by simp
    have L: "leaps (Suc y) = ?L + (if leap y then 1 else 0)" by (rule leaps_Suc [OF y])
    have "r < leaps (Suc y)" using r D(3) L by (auto simp: year_len_def split: if_splits)
    then have c: "(of_nat r :: u32) < of_nat (leaps (Suc y))"
      using of_nat_less_u32 [of r "leaps (Suc y)"] L B(2) by simp
    have k: "(of_nat (?L + doy) :: u32) = of_nat (365 + r)" using r(1) by simp
    have yy: "(1970 + (of_nat (n + 1) - 1) :: u32) = of_nat y" by (simp add: n(1))
    show ?thesis
      using c k yl unfolding year_day_def Let_def w q f by (simp only: yy if_True prod.case) (auto simp: L algebra_simps)
  qed
qed

section \<open>The month of a day\<close>

lemma month_loop_nat:
  assumes "k < length ms" and "1 \<le> x" "x \<le> sum_list (drop k ms)" and "sum_list ms < 4294967296" "length ms < 4294967296"
  shows "\<exists>m d. month_loop (map of_nat ms) (of_nat (k + 1)) (of_nat x) (of_nat (ms ! k)) = Some (of_nat m, of_nat d) \<and>
     k + 1 \<le> m \<and> m \<le> length ms \<and> 1 \<le> d \<and> d \<le> ms ! (m - 1) \<and> x + sum_list (take k ms) = sum_list (take (m - 1) ms) + d"
  using assms(1-3)
proof (induction "length ms - k" arbitrary: k x)
  case 0
  then show ?case by simp
next
  case (Suc l)
  have s: "sum_list (take k ms) + sum_list (drop k ms) = sum_list ms"
    by (metis append_take_drop_id sum_list.append)
  then have xb: "x < 4294967296" using Suc.prems assms(4) by linarith
  have mk: "ms ! k \<le> sum_list (drop k ms)" using Suc.prems(1) by (simp add: Cons_nth_drop_Suc [symmetric])
  then have kb: "ms ! k < 4294967296" using s assms(4) by linarith
  show ?case
  proof (cases "ms ! k < x")
    case False
    then have "month_loop (map of_nat ms) (of_nat (k + 1)) (of_nat x) (of_nat (ms ! k)) = Some (of_nat (k + 1), of_nat x)"
      using of_nat_less_u32 [OF kb xb] by (subst month_loop.simps) (simp del: of_nat_add)
    then show ?thesis using False Suc.prems
      by (intro exI [of _ "k + 1"] exI [of _ x]) (simp del: of_nat_add)
  next
    case True
    have D: "sum_list (drop k ms) = ms ! k + sum_list (drop (k + 1) ms)"
      using Suc.prems(1) by (simp add: Cons_nth_drop_Suc [symmetric])
    then have "1 \<le> sum_list (drop (k + 1) ms)" using True Suc.prems(3) by linarith
    then have k1: "k + 1 < length ms" by (cases "k + 1 < length ms") auto
    have u: "unat (of_nat (k + 1) :: u32) = k + 1" using k1 assms(5) by (intro unat_of_nat_u32) linarith
    have T: "sum_list (take (k + 1) ms) = sum_list (take k ms) + ms ! k"
      using Suc.prems(1) by (simp add: take_Suc_conv_app_nth)
    have "\<exists>m d. month_loop (map of_nat ms) (of_nat (k + 1 + 1)) (of_nat (x - ms ! k)) (of_nat (ms ! (k + 1))) = Some (of_nat m, of_nat d) \<and>
        k + 1 + 1 \<le> m \<and> m \<le> length ms \<and> 1 \<le> d \<and> d \<le> ms ! (m - 1) \<and>
        x - ms ! k + sum_list (take (k + 1) ms) = sum_list (take (m - 1) ms) + d"
      by (rule Suc.hyps(1)) (use Suc.hyps(2) Suc.prems True D k1 in linarith)+
    then obtain m d where md: "month_loop (map of_nat ms) (of_nat (k + 1 + 1)) (of_nat (x - ms ! k)) (of_nat (ms ! (k + 1))) = Some (of_nat m, of_nat d)"
        "k + 1 + 1 \<le> m" "m \<le> length ms" "1 \<le> d" "d \<le> ms ! (m - 1)"
        "x - ms ! k + sum_list (take (k + 1) ms) = sum_list (take (m - 1) ms) + d" by blast
    have sub: "(of_nat x - of_nat (ms ! k) :: u32) = of_nat (x - ms ! k)" using True by simp
    have "of_nat (ms ! k) < (of_nat x :: u32)" using True of_nat_less_u32 [OF kb xb] by simp
    then have "month_loop (map of_nat ms) (of_nat (k + 1)) (of_nat x) (of_nat (ms ! k)) =
        month_loop (map of_nat ms) (of_nat (k + 1) + 1) (of_nat x - of_nat (ms ! k)) (map of_nat ms ! (k + 1))"
      using k1 by (subst month_loop.simps) (simp only: if_True u length_map)
    also have "\<dots> = Some (of_nat m, of_nat d)"
      using md(1) k1 unfolding sub by (simp only: nth_map of_nat_add of_nat_1)
    finally have "month_loop (map of_nat ms) (of_nat (k + 1)) (of_nat x) (of_nat (ms ! k)) = Some (of_nat m, of_nat d)" .
    then show ?thesis using md T True by (intro exI [of _ m] exI [of _ d]) simp
  qed
qed

lemma month_days_facts: "length (month_days y) = 12" "sum_list (month_days y) = year_len y"
  by (simp_all add: month_days_def year_len_def)

lemma month_of_day:
  assumes "doy < year_len y"
  shows "\<exists>m d. month_loop (map of_nat (month_days y)) 1 (of_nat (doy + 1)) (of_nat (month_days y ! 0)) = Some (of_nat m, of_nat d) \<and>
     1 \<le> m \<and> m \<le> 12 \<and> 1 \<le> d \<and> d \<le> month_days y ! (m - 1) \<and> doy + 1 = month_start y m + d"
  using month_loop_nat [of 0 "month_days y" "doy + 1"] assms month_days_facts [of y]
  by (simp add: month_start_def year_len_def split: if_splits)

section \<open>Local time\<close>

text \<open>The table of the months, whose second entry is that of the last conversion.\<close>

definition months_ok :: "calst \<Rightarrow> bool" where
  "months_ok s \<longleftrightarrow> (\<exists>f. g_u32MonthDays s = [31, f, 31, 30, 31, 30, 31, 31, 30, 31, 30, 31])"

definition date_of :: "tm \<Rightarrow> nat \<Rightarrow> nat \<Rightarrow> nat \<Rightarrow> bool" where
  "date_of r y m d \<longleftrightarrow> tm_year r = int y \<and> tm_mon r = int m \<and> tm_mday r = int d"

lemma month_bound: "1 \<le> m \<Longrightarrow> m \<le> 12 \<Longrightarrow> d \<le> month_days y ! (m - 1) \<Longrightarrow> d \<le> 31"
proof -
  assume m: "1 \<le> m" "m \<le> 12" "d \<le> month_days y ! (m - 1)"
  have "\<forall>x \<in> set (month_days y). x \<le> 31" by (simp add: month_days_def)
  moreover have "m - 1 < length (month_days y)" using m month_days_facts by simp
  ultimately show "d \<le> 31" using m(3) nth_mem by fastforce
qed

lemma sint_nat: "n < 2147483648 \<Longrightarrow> sint (of_nat n :: u32) = int n"
  by (simp add: signed_of_nat signed_take_bit_int_eq_self)

text \<open>The conversion of a time since 1970, up to the end of the year 3476.\<close>

lemma LocalTime_date:
  assumes s: "months_ok s" and t: "0 \<le> t" "t < 550420 * 86400"
  shows "\<exists>r s' y m d. Tm_LocalTime_r now (Some t) (Some res) s = Some (Some r, s') \<and> months_ok s' \<and> tms s' = tms s \<and>
     valid_date y m d \<and> y \<le> 3476 \<and> date_of r y m d \<and> int (civil y m d) = t div 86400 \<and>
     tm_hour r = t div 3600 mod 24 \<and> tm_min r = t div 60 mod 60 \<and> tm_sec r = t mod 60 \<and> tm_us r = 0 \<and>
     tm_wday r = (t div 86400 + 4) mod 7 \<and> tm_yday r = int d \<and> g_u32MonthDays s' = map of_nat (month_days y)"
proof -
  define D where "D = nat (t div 86400)"
  have D: "t div 86400 = int D" "D < 550420" using t by (auto simp: D_def)
  obtain y doy where y: "1970 \<le> y" "D = year_start y + doy" "doy < year_len y" using find_year by blast
  have yb: "y \<le> 3476" using find_year_bound(1) [OF y(1) _ y(3)] y(2) D(2) by simp
  have yd: "year_day (of_nat D) = (of_nat y, of_nat (doy + 1))" by (rule year_day_nat [OF y(1,2) D(2) y(3)])
  obtain m d where md: "month_loop (map of_nat (month_days y)) 1 (of_nat (doy + 1)) (of_nat (month_days y ! 0)) = Some (of_nat m, of_nat d)"
    "1 \<le> m" "m \<le> 12" "1 \<le> d" "d \<le> month_days y ! (m - 1)" "doy + 1 = month_start y m + d"
    using month_of_day [OF y(3)] by blast
  have db: "d \<le> 31" using month_bound md(2,3,5) by blast
  have yl: "year_leap (of_nat y) = leap y" using year_leap_nat yb by simp
  obtain f where f: "g_u32MonthDays s = [31, f, 31, 30, 31, 30, 31, 31, 30, 31, 30, 31]" using s by (auto simp: months_ok_def)
  define MD where "MD = (g_u32MonthDays s)[1 := if leap y then 29 else 28]"
  have MD: "MD = map of_nat (month_days y)" "MD ! 0 = of_nat (month_days y ! 0)" by (simp_all add: MD_def f month_days_def)
  define s' where "s' = s\<lparr>g_u32MonthDays := MD\<rparr>"
  have ok: "months_ok s'" by (simp add: months_ok_def s'_def MD_def f)
  have w: "(word_of_int (t div 86400) :: u32) = of_nat D" using D(1) by simp
  have wd: "sint ((of_nat D + 4 :: u32) mod 7) = (t div 86400 + 4) mod 7"
  proof -
    have "(of_nat D + 4 :: u32) mod 7 = of_nat ((D + 4) mod 7)" using num_u32(9) [of "D + 4"] D(2) by simp
    then have "sint ((of_nat D + 4 :: u32) mod 7) = int ((D + 4) mod 7)" using sint_nat [of "(D + 4) mod 7"] by simp
    then show ?thesis using D(1) by (simp add: zmod_int)
  qed
  have si: "sint (word_of_int v :: u32) = v" if "0 \<le> v" "v < 2147483648" for v
    using sint_nat [of "nat v"] that by simp
  have "t mod 60 < 60" "t div 60 mod 60 < 60" "t div 3600 mod 24 < 24" by simp_all
  then have hms: "sint (word_of_int (t mod 60) :: u32) = t mod 60" "sint (word_of_int (t div 60 mod 60) :: u32) = t div 60 mod 60"
    "sint (word_of_int (t div 3600 mod 24) :: u32) = t div 3600 mod 24"
    by (intro si; simp)+
  define r where "r = res\<lparr>tm_us := 0, tm_sec := t mod 60, tm_min := t div 60 mod 60, tm_hour := t div 3600 mod 24,
      tm_mday := int d, tm_mon := int m, tm_year := int y, tm_wday := (t div 86400 + 4) mod 7, tm_yday := int d\<rparr>"
  have c: "cmod t 60 = t mod 60" "cmod (cdiv t 60) 60 = t div 60 mod 60" "cmod (cdiv t 3600) 24 = t div 3600 mod 24"
    "cdiv t 86400 = t div 86400"
    using t by (simp_all add: pos_imp_zdiv_nonneg_iff)
  have fin: "sint (of_nat d :: u32) = int d" "sint (of_nat m :: u32) = int m" "sint (of_nat y :: u32) = int y"
    using db md(3) yb by (auto intro!: sint_nat)
  have g: "g_u32MonthDays (s\<lparr>g_u32MonthDays := MD\<rparr>) = MD" by simp
  have mdl: "month_loop MD 1 (of_nat (doy + 1)) (MD ! 0) = Some (of_nat m, of_nat d)"
    using md(1) unfolding MD(1) [symmetric] MD(2) [symmetric] .
  have "Tm_LocalTime_r now (Some t) (Some res) s = Some (Some r, s')"
    unfolding Tm_LocalTime_r_def option.case bind_Some_conv prod.case c Let_def w yd yl MD_def [symmetric]
    by (simp only: g mdl bind_Some_conv prod.case hms wd fin r_def s'_def)
  moreover have "int (civil y m d) = t div 86400" using md(4,6) y(2) D(1) by (simp add: civil_def)
  moreover have "valid_date y m d" using y(1) md by (simp add: valid_date_def)
  ultimately show ?thesis using ok yb by (intro exI [of _ r] exI [of _ s'] exI [of _ y] exI [of _ m] exI [of _ d]) (simp add: date_of_def r_def s'_def MD(1))
qed

section \<open>From a date to seconds\<close>

text \<open>\<open>367 * mon / 12\<close> counts the days of the months from March on.\<close>

lemma march_months:
  assumes "1 \<le> m" "m \<le> 12"
  shows "m \<le> 2 \<Longrightarrow> 367 * (m + 10) div 12 = 336 + month_start y m \<and> sint (of_nat m - 2 :: u32) \<le> 0 \<and>
      (of_nat m - 2 + 12 :: u32) = of_nat (m + 10)"
    and "\<not> m \<le> 2 \<Longrightarrow> 367 * (m - 2) div 12 + 29 + (if leap y then 1 else 0) = month_start y m \<and>
      \<not> sint (of_nat m - 2 :: u32) \<le> 0 \<and> (of_nat m - 2 :: u32) = of_nat (m - 2)"
proof -
  have m: "m \<in> {1, 2, 3, 4, 5, 6, 7, 8, 9, 10, 11, 12}" using assms by simp arith
  show "m \<le> 2 \<Longrightarrow> 367 * (m + 10) div 12 = 336 + month_start y m \<and> sint (of_nat m - 2 :: u32) \<le> 0 \<and>
      (of_nat m - 2 + 12 :: u32) = of_nat (m + 10)"
    using m by (auto simp: month_start_def month_days_def)
  show "\<not> m \<le> 2 \<Longrightarrow> 367 * (m - 2) div 12 + 29 + (if leap y then 1 else 0) = month_start y m \<and>
      \<not> sint (of_nat m - 2 :: u32) \<le> 0 \<and> (of_nat m - 2 :: u32) = of_nat (m - 2)"
    using m by (auto simp: month_start_def month_days_def)
qed

text \<open>The sum of the code for a year \<open>Y\<close> and a month \<open>M\<close> counted from March.\<close>

lemma MkTime_sum:
  assumes "Y < 1000000" "M \<le> 22" "d \<le> 31" "1968 < Y"
  shows "uint (of_nat Y div 4 - of_nat Y div 100 + of_nat Y div 400 + 367 * of_nat M div 12 + of_nat d :: u32) +
      uint (of_nat Y * 365 :: u32) - 719499 = int (365 * (Y - 1969) + leaps (Y + 1) + 367 * M div 12 + d) - 337"
proof -
  have a: "(of_nat Y :: u32) div 4 = of_nat (Y div 4)" "(of_nat Y :: u32) div 100 = of_nat (Y div 100)"
    "(of_nat Y :: u32) div 400 = of_nat (Y div 400)"
    using num_u32(1-3) [of Y] assms(1) by simp_all
  have b: "(367 * of_nat M div 12 :: u32) = of_nat (367 * M div 12)"
    using of_nat_div_u32 [of "367 * M" 12] assms(2) by simp
  have le: "Y div 100 \<le> Y div 4" "477 + Y div 100 \<le> Y div 4 + Y div 400"
    using centuries_le [of Y] leaps_base [of "Y + 1"] assms(4) by simp_all
  have l: "leaps (Y + 1) + 477 + Y div 100 = Y div 4 + Y div 400" using le by (simp add: leaps_def)
  define n where "n = Y div 4 - Y div 100 + Y div 400 + 367 * M div 12 + d"
  have n: "of_nat (Y div 4) - of_nat (Y div 100) + of_nat (Y div 400) + of_nat (367 * M div 12) + of_nat d = (of_nat n :: u32)"
    using le(1) by (simp add: n_def)
  have "367 * M div 12 \<le> 1000" using assms(2) div_le_mono [of "367 * M" "367 * 22" 12] by simp
  then have nb: "n < 4294967296" using assms by (simp add: n_def)
  have "uint (of_nat n :: u32) = int n" using nb by (simp add: uint_nat unat_of_nat_u32 del: of_nat_unat)
  moreover have "uint (of_nat (Y * 365) :: u32) = int (Y * 365)"
    using assms(1) by (simp add: uint_nat unat_of_nat_u32 del: of_nat_unat of_nat_mult)
  ultimately show ?thesis using l le assms(4) unfolding a b n by (simp add: n_def of_nat_diff)
qed

lemma MkTime_civil:
  assumes v: "valid_date y m d" and y: "y < 1000000" and r: "date_of r y m d"
  shows "Tm_MkTime r = ((int (civil y m d) * 24 + tm_hour r) * 60 + tm_min r) * 60 + tm_sec r"
proof -
  have m: "1 \<le> m" "m \<le> 12" "1970 \<le> y" "1 \<le> d" using v by (auto simp: valid_date_def)
  have d: "d \<le> 31" using v month_bound by (auto simp: valid_date_def)
  have f: "tm_year r = int y" "tm_mon r = int m" "tm_mday r = int d" using r by (auto simp: date_of_def)
  have S: "\<And>x. Suc y - 1970 = y - 1969" by simp
  show ?thesis
  proof (cases "m \<le> 2")
    case True
    have w: "(of_nat y - 1 :: u32) = of_nat (y - 1)" using m by simp
    note M = march_months(1) [OF m(1,2) True, of y]
    have "uint (of_nat (y - 1) div 4 - of_nat (y - 1) div 100 + of_nat (y - 1) div 400 + 367 * of_nat (m + 10) div 12 + of_nat d :: u32) +
      uint (of_nat (y - 1) * 365 :: u32) - 719499 = int (365 * (y - 1 - 1969) + leaps (y - 1 + 1) + 367 * (m + 10) div 12 + d) - 337"
      by (rule MkTime_sum) (use m y d True in auto)
    also have "\<dots> = int (civil y m d)" using M m by (simp add: civil_def year_start_def of_nat_diff)
    finally show ?thesis using M unfolding Tm_MkTime_def Let_def f by (simp only: of_int_of_nat_eq w if_True prod.case)
  next
    case False
    note M = march_months(2) [OF m(1,2) False, of y]
    then have c: "\<not> sint (of_nat (m - 2) :: u32) \<le> 0" by metis
    have "uint (of_nat y div 4 - of_nat y div 100 + of_nat y div 400 + 367 * of_nat (m - 2) div 12 + of_nat d :: u32) +
      uint (of_nat y * 365 :: u32) - 719499 = int (365 * (y - 1969) + leaps (y + 1) + 367 * (m - 2) div 12 + d) - 337"
      by (rule MkTime_sum) (use m y d in auto)
    also have "\<dots> = int (civil y m d)"
    proof -
      have "y - 1969 = Suc (y - 1970)" using m by simp
      then have "365 * (y - 1969) + leaps (y + 1) + 367 * (m - 2) div 12 + d = civil y m d + 337"
        using M m leaps_Suc [of y] by (simp add: civil_def year_start_def)
      then show ?thesis by simp
    qed
    finally show ?thesis using M c unfolding Tm_MkTime_def Let_def f by (simp only: of_int_of_nat_eq if_False prod.case)
  qed
qed

end
