(* ===== verification/TimeProps.thy ===== *)
theory TimeProps
  imports CalProps
begin

text \<open>Printing and reading dates, and the properties of the time and the calendar.\<close>

section \<open>Printing numbers\<close>

definition dig :: "nat \<Rightarrow> u8" where
  "dig k = 0x30 + of_nat k"

lemma ucast_digit: "k < 256 \<Longrightarrow> ucast (of_nat k :: u32) = (of_nat k :: u8)"
  by (simp add: unsigned_of_nat take_bit_nat_eq_self)

lemma digits_step:
  assumes "v < 4294967296"
  shows "digits_inv 10 (of_nat v) = dig (v mod 10) # (if v < 10 then [] else digits_inv 10 (of_nat (v div 10)))"
proof -
  have d: "(of_nat v :: u32) div 10 = of_nat (v div 10)" "(of_nat v :: u32) mod 10 = of_nat (v mod 10)"
    using of_nat_div_u32 [OF assms, of 10] of_nat_mod_u32 [OF assms, of 10] by simp_all
  have z: "((of_nat (v div 10) :: u32) = 0) = (v < 10)" using of_nat_eq_u32 [of "v div 10" 0] assms by auto
  have "ucast (of_nat (v mod 10) :: u32) + 0x30 = dig (v mod 10)" by (simp add: ucast_digit dig_def)
  then show ?thesis by (subst digits_inv.simps) (simp add: d z Let_def)
qed

lemma itoa_nat: "v < 10 \<Longrightarrow> itoa (int v) 10 = [dig v, 0]"
  "10 \<le> v \<Longrightarrow> v < 100 \<Longrightarrow> itoa (int v) 10 = [dig (v div 10), dig (v mod 10), 0]"
  "1000 \<le> v \<Longrightarrow> v < 10000 \<Longrightarrow>
     itoa (int v) 10 = [dig (v div 1000), dig (v div 100 mod 10), dig (v div 10 mod 10), dig (v mod 10), 0]"
  by (auto simp: itoa_def digits_step div_mult2_eq [symmetric])

lemma dig_nz: "k < 10 \<Longrightarrow> dig k \<noteq> 0"
proof -
  assume "k < 10"
  then have "unat (of_nat (48 + k) :: u8) = 48 + k" by (simp only: unsigned_of_nat) (simp add: take_bit_nat_eq_self)
  moreover have "dig k = of_nat (48 + k)" by (simp add: dig_def)
  ultimately show "dig k \<noteq> 0" by (metis unsigned_0 add_is_0 zero_neq_numeral)
qed

lemma mem_put_at: "length pre = i \<Longrightarrow> length d = length old \<Longrightarrow> mem_put i d (pre @ old @ post) = Some (pre @ d @ post)"
  by (simp add: mem_put_def)

lemma put1_at: "length pre = i \<Longrightarrow> put1 i v (pre @ x # post) = Some (pre @ v # post)"
  using mem_put_at [of pre i "[v]" "[x]" post] by (simp add: put1_def)

text \<open>A field and the character behind it.\<close>

lemma put_field:
  assumes i: "length pre = i" and v: "v < 100"
  shows "do { b \<leftarrow> put_two i (int v) (pre @ x # y # z # post); put1 (i + 2) sep b } =
     Some (pre @ dig (v div 10) # dig (v mod 10) # sep # post)"
proof (cases "v < 10")
  case True
  have "mem_put i [dig v, 0] (pre @ [x, y] @ z # post) = Some (pre @ [dig v, 0] @ z # post)"
    by (rule mem_put_at) (use i in simp_all)
  moreover have "put1 (i + 1) (dig v) ((pre @ [dig v]) @ 0 # z # post) = Some ((pre @ [dig v]) @ dig v # z # post)"
    by (rule put1_at) (use i in simp)
  moreover have "put1 i 0x30 (pre @ dig v # dig v # z # post) = Some (pre @ 0x30 # dig v # z # post)"
    by (rule put1_at) (use i in simp)
  moreover have "put1 (i + 2) sep ((pre @ [0x30, dig v]) @ z # post) = Some ((pre @ [0x30, dig v]) @ sep # post)"
    by (rule put1_at) (use i in simp)
  moreover have "dig 0 = 0x30" by (simp add: dig_def)
  ultimately show ?thesis using True i by (simp add: put_two_def itoa_nat get1_def nth_append)
next
  case False
  have "mem_put i [dig (v div 10), dig (v mod 10), 0] (pre @ [x, y, z] @ post) =
      Some (pre @ [dig (v div 10), dig (v mod 10), 0] @ post)"
    by (rule mem_put_at) (use i in simp_all)
  moreover have "put1 (i + 2) sep ((pre @ [dig (v div 10), dig (v mod 10)]) @ 0 # post) =
      Some ((pre @ [dig (v div 10), dig (v mod 10)]) @ sep # post)"
    by (rule put1_at) (use i in simp)
  ultimately show ?thesis using False i v dig_nz [of "v mod 10"] by (simp add: put_two_def itoa_nat get1_def nth_append)
qed

text \<open>The form \<open>2011/10/28,22:37:50\<close>.\<close>

definition two :: "nat \<Rightarrow> u8 list" where
  "two v = [dig (v div 10), dig (v mod 10)]"

definition asc :: "nat \<Rightarrow> nat \<Rightarrow> nat \<Rightarrow> nat \<Rightarrow> nat \<Rightarrow> nat \<Rightarrow> u8 list" where
  "asc y m d h mi se = [dig (y div 1000), dig (y div 100 mod 10), dig (y div 10 mod 10), dig (y mod 10)] @
     0x2F # two m @ 0x2F # two d @ 0x2C # two h @ 0x3A # two mi @ 0x3A # two se"

lemma bind_assoc2: "Option.bind (Option.bind m f) g = Option.bind m (\<lambda>x. Option.bind (f x) g)"
  by simp

lemma AscTime_asc:
  assumes t: "tm_year t = int y" "tm_mon t = int m" "tm_mday t = int d" "tm_hour t = int h" "tm_min t = int mi"
      "tm_sec t = int se"
    and v: "1000 \<le> y" "y < 10000" "m < 100" "d < 100" "h < 100" "mi < 100" "se < 100" and b: "20 \<le> length buf"
  shows "Tm_AscTime t buf = Some (asc y m d h mi se @ 0 # drop 20 buf)"
proof -
  have "\<exists>xs. take 20 buf = xs \<and> length xs = 20" using b by simp
  then obtain b0 b1 b2 b3 b4 b5 b6 b7 b8 b9 b10 b11 b12 b13 b14 b15 b16 b17 b18 b19
    where "take 20 buf = [b0, b1, b2, b3, b4, b5, b6, b7, b8, b9, b10, b11, b12, b13, b14, b15, b16, b17, b18, b19]"
    by (auto simp: numeral_eq_Suc length_Suc_conv)
  then have B: "buf = [b0, b1, b2, b3, b4, b5, b6, b7, b8, b9, b10, b11, b12, b13, b14, b15, b16, b17, b18, b19] @ drop 20 buf"
    by (metis append_take_drop_id)
  define R where "R = drop 20 buf"
  let ?p0 = "[dig (y div 1000), dig (y div 100 mod 10), dig (y div 10 mod 10), dig (y mod 10), 0x2F]"
  let ?p1 = "?p0 @ [dig (m div 10), dig (m mod 10), 0x2F]"
  let ?p2 = "?p1 @ [dig (d div 10), dig (d mod 10), 0x2C]"
  let ?p3 = "?p2 @ [dig (h div 10), dig (h mod 10), 0x3A]"
  let ?p4 = "?p3 @ [dig (mi div 10), dig (mi mod 10), 0x3A]"
  have 0: "do { b \<leftarrow> mem_put 0 (itoa (int y) 10) buf; put1 4 0x2F b } =
      Some (?p0 @ b5 # b6 # b7 # b8 # b9 # b10 # b11 # b12 # b13 # b14 # b15 # b16 # b17 # b18 # b19 # R)"
    by (subst B) (simp add: itoa_nat(3) [OF v(1,2)] mem_put_def put1_def R_def)
  have 1: "do { b \<leftarrow> put_two 5 (int m) (?p0 @ b5 # b6 # b7 # b8 # b9 # b10 # b11 # b12 # b13 # b14 # b15 # b16 # b17 # b18 # b19 # R); put1 7 0x2F b } =
      Some (?p1 @ b8 # b9 # b10 # b11 # b12 # b13 # b14 # b15 # b16 # b17 # b18 # b19 # R)"
    using put_field [of ?p0 5 m b5 b6 b7 "b8 # b9 # b10 # b11 # b12 # b13 # b14 # b15 # b16 # b17 # b18 # b19 # R" "0x2F"] v(3) by simp
  have 2: "do { b \<leftarrow> put_two 8 (int d) (?p1 @ b8 # b9 # b10 # b11 # b12 # b13 # b14 # b15 # b16 # b17 # b18 # b19 # R); put1 10 0x2C b } =
      Some (?p2 @ b11 # b12 # b13 # b14 # b15 # b16 # b17 # b18 # b19 # R)"
    using put_field [of ?p1 8 d b8 b9 b10 "b11 # b12 # b13 # b14 # b15 # b16 # b17 # b18 # b19 # R" "0x2C"] v(4) by simp
  have 3: "do { b \<leftarrow> put_two 11 (int h) (?p2 @ b11 # b12 # b13 # b14 # b15 # b16 # b17 # b18 # b19 # R); put1 13 0x3A b } =
      Some (?p3 @ b14 # b15 # b16 # b17 # b18 # b19 # R)"
    using put_field [of ?p2 11 h b11 b12 b13 "b14 # b15 # b16 # b17 # b18 # b19 # R" "0x3A"] v(5) by simp
  have 4: "do { b \<leftarrow> put_two 14 (int mi) (?p3 @ b14 # b15 # b16 # b17 # b18 # b19 # R); put1 16 0x3A b } =
      Some (?p4 @ b17 # b18 # b19 # R)"
    using put_field [of ?p3 14 mi b14 b15 b16 "b17 # b18 # b19 # R" "0x3A"] v(6) by simp
  have 5: "do { b \<leftarrow> put_two 17 (int se) (?p4 @ b17 # b18 # b19 # R); put1 19 0 b } =
      Some (?p4 @ [dig (se div 10), dig (se mod 10), 0] @ R)"
    using put_field [of ?p4 17 se b17 b18 b19 "R" "0"] v(7) by simp
  have "Tm_AscTime t buf = do {
     b \<leftarrow> do { b \<leftarrow> mem_put 0 (itoa (int y) 10) buf; put1 4 0x2F b };
     b \<leftarrow> do { b \<leftarrow> put_two 5 (int m) b; put1 7 0x2F b };
     b \<leftarrow> do { b \<leftarrow> put_two 8 (int d) b; put1 10 0x2C b };
     b \<leftarrow> do { b \<leftarrow> put_two 11 (int h) b; put1 13 0x3A b };
     b \<leftarrow> do { b \<leftarrow> put_two 14 (int mi) b; put1 16 0x3A b };
     do { b \<leftarrow> put_two 17 (int se) b; put1 19 0 b } }"
    by (simp only: Tm_AscTime_def t bind_assoc2)
  also have "\<dots> = Some (asc y m d h mi se @ 0 # R)"
    unfolding 0 bind_Some_conv 1 2 3 4 5 by (simp add: asc_def two_def)
  finally show ?thesis by (simp only: R_def)
qed

section \<open>Reading numbers\<close>

definition dch :: "nat \<Rightarrow> char" where
  "dch k = char_of (48 + k)"

lemma dch_code: "k < 10 \<Longrightarrow> of_char (dch k) = (48 + k :: nat)"
  by (simp add: dch_def)

lemma dch_facts:
  assumes "k < 10"
  shows "is_digit (dch k)" "\<not> is_blank (dch k)" "dch k \<noteq> CHR ''-''" "dch k \<noteq> CHR ''+''" "digit_value 10 (dch k) = k"
proof -
  note c = dch_code [OF assms]
  show "is_digit (dch k)" using c assms by (simp add: is_digit_def)
  have "dch k \<noteq> ch" if "of_char ch < (48 :: nat)" for ch using that c by auto
  then show n: "dch k \<noteq> CHR ''-''" "dch k \<noteq> CHR ''+''" and "\<not> is_blank (dch k)"
    using c by (simp_all add: is_blank_def)
  show "digit_value 10 (dch k) = k" by (simp add: digit_value_def c)
qed

definition stops :: "string \<Rightarrow> bool" where
  "stops r \<longleftrightarrow> r = [] \<or> \<not> is_digit (hd r)"

lemma strto_digits:
  assumes "\<And>k. k \<in> set ks \<Longrightarrow> k < 10" and "stops r"
  shows "sc_strto 10 (of_nat a :: u32) (map dch ks @ r) = (of_nat (foldl (\<lambda>n k. n * 10 + k) a ks), r)"
  using assms(1)
proof (induction ks arbitrary: a)
  case Nil
  then show ?case using assms(2) by (cases r) (auto simp: stops_def in_base_def)
next
  case (Cons k ks)
  note D = dch_facts [OF Cons.prems [OF list.set_intros(1)]]
  have "of_nat a * of_nat 10 + of_nat k = (of_nat (a * 10 + k) :: u32)" by simp
  then show ?case using Cons.IH [of "a * 10 + k"] Cons.prems D(1,5) by (simp add: in_base_def)
qed

text \<open>A \<open>%d\<close> that meets digits takes them all.\<close>

lemma scan_d_digits:
  assumes "ks \<noteq> []" and "\<forall>k \<in> set ks. k < 10" and "stops r" and "take 2 f \<noteq> ''%n''" and "foldl (\<lambda>n k. n * 10 + k) 0 ks = v"
  shows "scan_fmt \<lparr>sc_fmt = CHR ''%'' # CHR ''d'' # f, sc_inp = map dch ks @ r, sc_len = n, sc_width = w, sc_num = c, sc_out = out\<rparr> =
    scan_fmt \<lparr>sc_fmt = f, sc_inp = r, sc_len = n, sc_width = w, sc_num = Suc c,
      sc_out = out @ [Store_s32 (of_nat v)]\<rparr>"
proof -
  obtain k ks' where k: "ks = k # ks'" using assms(1) by (cases ks) auto
  have h: "hd (map dch ks @ r) = dch k" "map dch ks @ r \<noteq> []" by (simp_all add: k)
  have "k < 10" using assms(2) k by simp
  note D = dch_facts [OF this]
  have "sc_strto 10 0 (map dch ks @ r) = (of_nat v :: u32, r)"
    using strto_digits [OF _ assms(3), of ks 0] assms(2,5) by simp
  then show ?thesis using scan_d [where r = "map dch ks @ r" and f = f and r' = r and n = n and w = w and k = c and out = out] h D(2-4) assms(4) by simp
qed

definition str_of :: "u8 list \<Rightarrow> string" where
  "str_of bs = map (\<lambda>b. char_of (unat b)) bs"

lemma str_dig: "k < 10 \<Longrightarrow> char_of (unat (dig k)) = dch k"
proof -
  assume "k < 10"
  then have "unat (of_nat (48 + k) :: u8) = 48 + k" by (simp only: unsigned_of_nat) (simp add: take_bit_nat_eq_self)
  then show "char_of (unat (dig k)) = dch k" by (simp add: dig_def dch_def)
qed

lemma scan_two_digits:
  assumes "a < 10" "b < 10" and "stops r" and "take 2 f \<noteq> ''%n''" and "v = a * 10 + b"
  shows "scan_fmt \<lparr>sc_fmt = CHR ''%'' # CHR ''d'' # f, sc_inp = dch a # dch b # r, sc_len = n,
      sc_width = w, sc_num = c, sc_out = out\<rparr> =
    scan_fmt \<lparr>sc_fmt = f, sc_inp = r, sc_len = n, sc_width = w, sc_num = Suc c, sc_out = out @ [Store_s32 (of_nat v)]\<rparr>"
proof -
  have "foldl (\<lambda>n k. n * 10 + k) 0 [a, b] = v" using assms(5) by simp
  from scan_d_digits [OF _ _ assms(3,4) this] assms(1,2) show ?thesis by simp
qed

lemma scan_four_digits:
  assumes "a < 10" "b < 10" "d < 10" "e < 10" and "stops r" and "take 2 f \<noteq> ''%n''"
    and "v = ((a * 10 + b) * 10 + d) * 10 + e"
  shows "scan_fmt \<lparr>sc_fmt = CHR ''%'' # CHR ''d'' # f, sc_inp = dch a # dch b # dch d # dch e # r, sc_len = n,
      sc_width = w, sc_num = c, sc_out = out\<rparr> =
    scan_fmt \<lparr>sc_fmt = f, sc_inp = r, sc_len = n, sc_width = w, sc_num = Suc c, sc_out = out @ [Store_s32 (of_nat v)]\<rparr>"
proof -
  have "foldl (\<lambda>n k. n * 10 + k) 0 [a, b, d, e] = v" using assms(7) by simp
  from scan_d_digits [OF _ _ assms(5,6) this] assms(1-4) show ?thesis by simp
qed

lemma scan_two:
  assumes "v < 100" and "stops r" and "take 2 f \<noteq> ''%n''"
  shows "scan_fmt \<lparr>sc_fmt = CHR ''%'' # CHR ''d'' # f, sc_inp = dch (v div 10) # dch (v mod 10) # r, sc_len = n,
      sc_width = w, sc_num = c, sc_out = out\<rparr> =
    scan_fmt \<lparr>sc_fmt = f, sc_inp = r, sc_len = n, sc_width = w, sc_num = Suc c, sc_out = out @ [Store_s32 (of_nat v)]\<rparr>"
  by (rule scan_two_digits [OF _ _ assms(2,3) div_mult_mod_eq [symmetric]]) (use assms(1) in linarith, simp)

lemma scan_four:
  assumes "v < 10000" and "stops r" and "take 2 f \<noteq> ''%n''"
  shows "scan_fmt \<lparr>sc_fmt = CHR ''%'' # CHR ''d'' # f,
      sc_inp = dch (v div 1000) # dch (v div 100 mod 10) # dch (v div 10 mod 10) # dch (v mod 10) # r, sc_len = n,
      sc_width = w, sc_num = c, sc_out = out\<rparr> =
    scan_fmt \<lparr>sc_fmt = f, sc_inp = r, sc_len = n, sc_width = w, sc_num = Suc c, sc_out = out @ [Store_s32 (of_nat v)]\<rparr>"
proof -
  define a b where "a = v div 10" "b = a div 10"
  note ab = this
  have "v div 1000 = b div 10" "v div 100 = b" by (simp_all add: ab div_mult2_eq [symmetric])
  note e = this
  have s: "v = ((b div 10 * 10 + b mod 10) * 10 + a mod 10) * 10 + v mod 10"
    by (simp only: div_mult_mod_eq) (simp only: ab(2) div_mult_mod_eq, simp only: ab(1) div_mult_mod_eq)
  have l: "b div 10 < 10" using assms(1) by (simp add: e(1) [symmetric] less_mult_imp_div_less)
  show ?thesis unfolding e ab(1) [symmetric] by (rule scan_four_digits [OF l _ _ _ assms(2,3) s]) simp_all
qed

lemma sscanf_asc:
  assumes "1000 \<le> y" "y < 10000" "m < 100" "d < 100" "h < 100" "mi < 100" "se < 100"
  shows "sscanf_dt (str_of (asc y m d h mi se)) = (6, map (\<lambda>v. Store_s32 (of_nat v)) [y, m, d, h, mi, se])"
proof -
  have k: "y div 1000 < 10" "m div 10 < 10" "d div 10 < 10" "h div 10 < 10" "mi div 10 < 10" "se div 10 < 10"
    using assms by simp_all
  have st: "stops (CHR ''/'' # r)" "stops (CHR '','' # r)" "stops (CHR '':'' # r)" "stops []" for r
    by (simp_all add: stops_def is_digit_def)
  have sep: "char_of (47 :: nat) = CHR ''/''" "char_of (44 :: nat) = CHR '',''"
    "char_of (58 :: nat) = CHR '':''" by code_simp+
  have nb: "\<not> is_blank CHR ''/''" "\<not> is_blank CHR '',''" "\<not> is_blank CHR '':''" by (simp_all add: is_blank_def)
  show ?thesis
    using assms k by (simp add: sscanf_dt_def sscanf_def str_of_def asc_def two_def str_dig sep scan_four scan_two st scan_literal nb scan_empty)
qed

lemma asc_nonzero:
  assumes "y < 10000" "m < 100" "d < 100" "h < 100" "mi < 100" "se < 100"
  shows "takeWhile (\<lambda>b. b \<noteq> 0) (asc y m d h mi se @ 0 # r) = asc y m d h mi se"
proof -
  have "\<forall>b \<in> set (asc y m d h mi se). b \<noteq> 0"
    using assms by (simp add: asc_def two_def dig_nz less_mult_imp_div_less)
  then show ?thesis by simp
qed

section \<open>Setting the clock\<close>

text \<open>The clock is set when the system time can be read and the device, if there is one, accepts the value.\<close>

definition settable :: "moment \<Rightarrow> s64 \<Rightarrow> timest \<Rightarrow> bool" where
  "settable now v s \<longleftrightarrow> (s_u32SysTimeFreq s \<noteq> 0 \<or> fnSysTimeHard32 s = None \<and> fnSysTimeHard64 s = None) \<and>
     (case fnRtcSetTime s of None \<Rightarrow> True | Some f \<Rightarrow> f now v)"

lemma Rtc_SetTime_settable:
  assumes "settable now v s"
  shows "\<exists>s'. Rtc_SetTime now v s = Some (True, s') \<and> sgRtcTimeSet s' = v"
proof -
  have "\<exists>r s'. DjyGetSysTime now s = Some (r, s') \<and> fnRtcSetTime s' = fnRtcSetTime s"
    using assms by (cases "fnSysTimeHard32 s"; cases "fnSysTimeHard64 s")
      (auto simp: settable_def DjyGetSysTime_def port_DjyGetSysTime_def take_count_def Let_def)
  then obtain r s' where "DjyGetSysTime now s = Some (r, s')" "fnRtcSetTime s' = fnRtcSetTime s" by blast
  then show ?thesis using assms by (auto simp: Rtc_SetTime_def settable_def Let_def split: option.split)
qed

lemma Tm_MkTime_small:
  assumes "valid_date y m d" "y \<le> 2100" "h < 24" "mi < 60" "se < 60"
    and "date_of t y m d" "tm_hour t = int h" "tm_min t = int mi" "tm_sec t = int se"
  shows "0 \<le> Tm_MkTime t" and "Tm_MkTime t < 2 ^ 40"
proof -
  have m: "1 \<le> m" "m \<le> 12" "1970 \<le> y" "1 \<le> d" "d \<le> month_days y ! (m - 1)" using assms(1) by (auto simp: valid_date_def)
  have d: "d \<le> 31" using month_bound m by blast
  have "leaps y \<le> 2100"
    using assms(2) div_le_dividend [of "y - 1" 4] div_le_dividend [of "y - 1" 400] by (simp add: leaps_def)
  then have ys: "year_start y \<le> 365 * 130 + 2100" using assms(2) m(3) unfolding year_start_def by linarith
  have "m \<in> {1, 2, 3, 4, 5, 6, 7, 8, 9, 10, 11, 12}" using m by simp arith
  then have "month_start y m \<le> 366" by (auto simp: month_start_def month_days_def)
  then have c: "civil y m d \<le> 60000" using ys d by (simp add: civil_def)
  have "Tm_MkTime t = ((int (civil y m d) * 24 + int h) * 60 + int mi) * 60 + int se"
    using MkTime_civil [OF assms(1) _ assms(6)] assms(2,7-9) by simp
  then show "0 \<le> Tm_MkTime t" "Tm_MkTime t < 2 ^ 40" using c assms(3-5) by simp_all
qed

lemma leap_cmod: "(cmod (int y) 4 = 0 \<longrightarrow> cmod (int y) 100 = 0 \<longrightarrow> cmod (int y) 400 = 0) \<and> cmod (int y) 4 = 0 \<longleftrightarrow> leap y"
proof -
  have "cmod (int y) n = int (y mod nat n)" if "0 < n" for n :: int
    using that zmod_int [of y "nat n"] by simp
  then have "cmod (int y) 4 = int (y mod 4)" "cmod (int y) 100 = int (y mod 100)" "cmod (int y) 400 = int (y mod 400)" by simp_all
  then show ?thesis by (auto simp: leap_def)
qed

lemma sint_field: "v < 2147483648 \<Longrightarrow> sint (of_nat v :: u32) = int v"
  by (rule sint_nat)

lemma SetDateTimeStr_asc:
  assumes v: "valid_date y m d" and y: "y \<le> 2100" and h: "h < 24" "mi < 60" "se < 60"
    and md: "of_nat d \<le> g_u32MonthDays s ! (m - 1)" and t: "date_of t y m d" "tm_hour t = int h" "tm_min t = int mi" "tm_sec t = int se"
    and r: "settable now (Tm_MkTime t * 1000000) (tms s)"
  shows "\<exists>s'. Tm_SetDateTimeStr now (str_of (asc y m d h mi se)) s = Some (CLOCK_OK, s') \<and>
     sgRtcTimeSet (tms s') = Tm_MkTime t * 1000000"
proof -
  have m: "1 \<le> m" "m \<le> 12" "1970 \<le> y" "1 \<le> d" "d \<le> month_days y ! (m - 1)" using v by (auto simp: valid_date_def)
  have d: "d \<le> 31" using month_bound m by blast
  have f: "tm_year t = int y" "tm_mon t = int m" "tm_mday t = int d" using t(1) by (auto simp: date_of_def)
  have feb: "m = 2 \<Longrightarrow> d \<le> 29 \<and> (28 < d \<longrightarrow> leap y)" using m(5) by (auto simp: month_days_def split: if_splits)
  define dt where "dt = \<lparr>tm_us = 0, tm_sec = int se, tm_min = int mi, tm_hour = int h, tm_mday = int d, tm_mon = int m,
      tm_year = int y, tm_wday = 0, tm_yday = 0, tm_isdst = 0\<rparr>"
  have w: "w64 (Tm_MkTime t * 1000000) = Tm_MkTime t * 1000000"
    using Tm_MkTime_small [OF v y h t] by (intro w64_id) simp_all
  have "Tm_MkTime dt = Tm_MkTime t" using f t by (simp add: dt_def Tm_MkTime_def)
  then have e: "Tm_MkTimeUs dt = Tm_MkTime t * 1000000" unfolding Tm_MkTimeUs_def by (simp add: dt_def w)
  have md': "\<not> g_u32MonthDays s ! nat (int m - 1) < word_of_int (int d)"
    using md m(1) by (simp add: nat_diff_distrib' linorder_not_less)
  have ps: "sscanf_dt (str_of (asc y m d h mi se)) = (6, map (\<lambda>v. Store_s32 (of_nat v)) [y, m, d, h, mi, se])"
    by (rule sscanf_asc) (use m d y h in auto)
  have sf: "sint (of_nat y :: u32) = int y" "sint (of_nat m :: u32) = int m" "sint (of_nat d :: u32) = int d"
    "sint (of_nat h :: u32) = int h" "sint (of_nat mi :: u32) = int mi" "sint (of_nat se :: u32) = int se"
    using m d y h by (simp_all add: sint_field)
  obtain s' where s': "Rtc_SetTime now (Tm_MkTimeUs dt) (tms s) = Some (True, s')" "sgRtcTimeSet s' = Tm_MkTimeUs dt"
    using Rtc_SetTime_settable [OF r] e by auto
  have "\<not> (int m = 2 \<and> (int d > 29 \<or> (if cmod (int y) 4 = 0 then cmod (int y) 100 = 0 \<and> cmod (int y) 400 \<noteq> 0 \<and> int d > 28
      else int d > 28)))"
    using feb leap_cmod [of y] by auto
  then have "Tm_SetDateTimeStr now (str_of (asc y m d h mi se)) s = Some (CLOCK_OK, s\<lparr>tms := s'\<rparr>)"
    using m d y h md' s'(1) [unfolded dt_def] unfolding Tm_SetDateTimeStr_def Let_def ps
    by (simp add: dt_field_def on_tms_def sf del: One_nat_def) (auto split: if_splits)
  then show ?thesis using s'(2) e by simp
qed

lemma month_in_table:
  assumes "valid_date y m d" and "months_ok s"
    and "if m = 2 \<and> d = 29 then g_u32MonthDays s ! 1 = 29 else 28 \<le> g_u32MonthDays s ! 1"
  shows "of_nat d \<le> g_u32MonthDays s ! (m - 1)"
proof -
  have m: "1 \<le> m" "m \<le> 12" "1 \<le> d" "d \<le> month_days y ! (m - 1)" using assms(1) by (auto simp: valid_date_def)
  obtain f where f: "g_u32MonthDays s = [31, f, 31, 30, 31, 30, 31, 31, 30, 31, 30, 31]" using assms(2) by (auto simp: months_ok_def)
  have w: "(of_nat d :: u32) \<le> of_nat k" if "d \<le> k" "k \<le> 31" for k
    using that by (simp add: word_le_nat_alt unat_of_nat_u32)
  show ?thesis
  proof (cases "m = 2")
    case True
    then have "d = 29 \<or> d \<le> 28" using m(4) by (auto simp: month_days_def split: if_splits)
    then show ?thesis using True assms(3) f w [of 28] by (auto intro: order_trans)
  next
    case False
    have "m \<in> {1, 3, 4, 5, 6, 7, 8, 9, 10, 11, 12}" using m(1,2) False by simp arith
    then show ?thesis using m(4) f w [of 30] w [of 31] by (auto simp: month_days_def)
  qed
qed

section \<open>Properties\<close>

text \<open>
  C20: in any sequence of readings of the system time and of its maintenance by the tick, no further
  apart than a period of the 32-bit timer, every reading gives the true number of cycles since the
  start, or that number in microseconds, however often the timer has wrapped, as long as the number
  of cycles fits into 63 bits and, for a reading in microseconds, a million times that number does.
  That is the limit: \<open>DjyGetSysTime_overflows\<close>.
\<close>

theorem SysTime_readings:
  assumes "clock_at s t" and "timer_of s T" and "paced (unat (s_u32SysTimeCycle s)) t (map (T \<circ> snd) xs)"
    and "s_u32SysTimeFreq s \<noteq> 0" and "\<forall>(x, now) \<in> set xs. if x = Read_Time then T now * 1000000 < 2 ^ 63 else T now < 2 ^ 63"
  shows "\<exists>s'. do_readings xs s = Some (map (\<lambda>(x, now). true_reading (s_u32SysTimeFreq s) x (T now)) xs, s')"
proof -
  have "readable x n = (if x = Read_Time then n * 1000000 < 2 ^ 63 else n < 2 ^ 63)" for x n by (cases x) simp_all
  then have "\<forall>(x, now) \<in> set xs. readable x (T now)" using assms(5) by auto
  then show ?thesis by (rule readings_true [OF assms(1-4)])
qed

text \<open>A timer of 16 bits at 1 MHz.\<close>

definition time_sample :: timest where
  "time_sample = \<lparr>fnSysTimeHard32 = Some (\<lambda>m. of_nat (mo_time m mod 65536)), fnSysTimeHard64 = None, s_u32SysTimeFreq = 1000000,
     s_u32SysTimeCycle = 65536, s_s64sysTimeMajor = 0, s_u32BakCounter = 0, sgRtcTimeSet = 0, sgRtcUpdateTime2SysTime = 0,
     fnRtcGetTime = None, fnRtcSetTime = None, BakTime = 0, CN_CFG_FCLK = 168000000, CN_CFG_TICK_HZ = 1000, CN_CFG_TICK_US = 1000,
     CN_CFG_FINE_US = 390\<rparr>"

definition at_time :: "nat \<Rightarrow> moment" where
  "at_time n = \<lparr>mo_ticks = 0, mo_systick = 0, mo_time = n\<rparr>"

theorem SysTime_readings_witness:
  "\<exists>s'. do_readings [(Read_Cycle, at_time 60000), (Maintain, at_time 100000), (Read_Time, at_time 140000)] time_sample =
     Some ([Some 60000, None, Some 140000], s')"
proof -
  have "unat (of_nat (n mod 65536) :: u32) = n mod 65536" for n
  proof -
    have "n mod 65536 < 65536" by simp
    then show ?thesis by (intro unat_of_nat_u32) linarith
  qed
  then have "timer_of time_sample mo_time" by (auto simp: timer_of_def time_sample_def)
  moreover have "clock_at time_sample 0" by (simp add: clock_at_def time_sample_def)
  moreover have "unat (s_u32SysTimeCycle time_sample) = 65536" "unat (s_u32SysTimeFreq time_sample) = 1000000"
    "s_u32SysTimeFreq time_sample \<noteq> 0" by (simp_all add: time_sample_def)
  ultimately show ?thesis
    using SysTime_readings [of time_sample 0 mo_time "[(Read_Cycle, at_time 60000), (Maintain, at_time 100000), (Read_Time, at_time 140000)]"]
    by (simp add: at_time_def)
qed

text \<open>
  C21: \<open>Tm_LocalTime_r\<close> gives the date of the Gregorian calendar and the time of the day, for every
  second from 1970 to the end of the year 3476 but one day.  The month is counted from 1 and the year
  from 0, and \<open>tm_yday\<close> is the day of the month: the comments on these fields, in \<open>struct tm\<close> and in the
  function, say something else.  The table of the months is left with the lengths for that year.
\<close>

theorem Tm_LocalTime_civil:
  assumes "months_ok s" and "0 \<le> t" "t < 550420 * 86400"
  shows "\<exists>r s' y m d. Tm_LocalTime_r now (Some t) (Some res) s = Some (Some r, s') \<and> months_ok s' \<and>
     valid_date y m d \<and> tm_year r = int y \<and> tm_mon r = int m \<and> tm_mday r = int d \<and> int (civil y m d) = t div 86400 \<and>
     tm_hour r = t div 3600 mod 24 \<and> tm_min r = t div 60 mod 60 \<and> tm_sec r = t mod 60 \<and>
     tm_wday r = (t div 86400 + 4) mod 7 \<and> tm_yday r = int d \<and> g_u32MonthDays s' = map of_nat (month_days y)"
  using LocalTime_date [OF assms, of now res] unfolding date_of_def by blast

definition cal_sample :: calst where
  "cal_sample = (let z = \<lparr>tm_us = 0, tm_sec = 0, tm_min = 0, tm_hour = 0, tm_mday = 0, tm_mon = 0, tm_year = 0, tm_wday = 0,
       tm_yday = 0, tm_isdst = 0\<rparr>
     in \<lparr>tms = time_sample\<lparr>fnSysTimeHard32 := None\<rparr>, g_u32MonthDays = [31, 28, 31, 30, 31, 30, 31, 31, 30, 31, 30, 31],
       gc_u32CfgTimeZone = 8, buf_GmTime = z, buf_GmTimeUs = z, buf_LocalTime = z, buf_LocalTimeUs = z, buf_localtime = z,
       buf_gmtime = z\<rparr>)"

lemma cal_sample_facts: "months_ok cal_sample" "g_u32MonthDays cal_sample = [31, 28, 31, 30, 31, 30, 31, 31, 30, 31, 30, 31]"
  "fnSysTimeHard32 (tms cal_sample) = None" "fnSysTimeHard64 (tms cal_sample) = None" "fnRtcSetTime (tms cal_sample) = None"
  by (simp_all add: cal_sample_def Let_def months_ok_def time_sample_def)

theorem Tm_LocalTime_civil_witness:
  "\<exists>r s' y m d. Tm_LocalTime_r (at_time 0) (Some 1319841470) (Some (buf_LocalTime cal_sample)) cal_sample = Some (Some r, s') \<and>
     valid_date y m d \<and> tm_year r = int y \<and> tm_mon r = int m \<and> tm_mday r = int d \<and> civil y m d = 15275 \<and> tm_hour r = 22 \<and> tm_wday r = 5"
proof -
  have e: "(1319841470 :: int) div 86400 = 15275" "(1319841470 :: int) div 3600 mod 24 = 22" by simp_all
  show ?thesis
    using Tm_LocalTime_civil [OF cal_sample_facts(1), of 1319841470 "at_time 0" "buf_LocalTime cal_sample"] unfolding e by force
qed

text \<open>
  C22: \<open>Tm_MkTime\<close> undoes \<open>Tm_LocalTime_r\<close>: seconds to a date and back give the same seconds.
\<close>

theorem Tm_MkTime_LocalTime:
  assumes "months_ok s" and "0 \<le> t" "t < 550420 * 86400"
  shows "\<exists>r s'. Tm_LocalTime_r now (Some t) (Some res) s = Some (Some r, s') \<and> Tm_MkTime r = t"
proof -
  obtain r s' y m d where r: "Tm_LocalTime_r now (Some t) (Some res) s = Some (Some r, s')" "valid_date y m d" "y \<le> 3476"
    "date_of r y m d" "int (civil y m d) = t div 86400" "tm_hour r = t div 3600 mod 24" "tm_min r = t div 60 mod 60"
    "tm_sec r = t mod 60"
    using LocalTime_date [OF assms, of now res] by blast
  have "Tm_MkTime r = ((t div 86400 * 24 + t div 3600 mod 24) * 60 + t div 60 mod 60) * 60 + t mod 60"
    using MkTime_civil [OF r(2) _ r(4)] r(3) unfolding r(5-8) by linarith
  also have "\<dots> = t"
  proof -
    have e: "t div 86400 = t div 3600 div 24" "t div 3600 = t div 60 div 60"
      using zdiv_zmult2_eq [of 24 t 3600] zdiv_zmult2_eq [of 60 t 60] by simp_all
    have "t div 86400 * 24 + t div 3600 mod 24 = t div 60 div 60" unfolding e(1) div_mult_mod_eq by (rule e(2))
    then show ?thesis by (simp only: div_mult_mod_eq)
  qed
  finally show ?thesis using r(1) by blast
qed

theorem Tm_MkTime_LocalTime_witness:
  "\<exists>r s'. Tm_LocalTime_r (at_time 0) (Some 951782399) (Some (buf_LocalTime cal_sample)) cal_sample = Some (Some r, s') \<and>
     Tm_MkTime r = 951782399"
  by (rule Tm_MkTime_LocalTime [OF cal_sample_facts(1)]) simp_all

text \<open>
  C23: a date from 1970 to 2100 printed by \<open>Tm_AscTime\<close> and given to \<open>Tm_SetDateTimeStr\<close> is accepted
  and sets the calendar clock to that date; for the 29th of February the table of the months has to
  have 29 days for that month.  The system time has to be readable, and the clock device, if there is
  one, has to accept the time.
\<close>

theorem Tm_AscTime_SetDateTimeStr:
  assumes "valid_date y m d" "y \<le> 2100" "h < 24" "mi < 60" "se < 60"
    and "tm_year t = int y" "tm_mon t = int m" "tm_mday t = int d" "tm_hour t = int h" "tm_min t = int mi" "tm_sec t = int se"
    and "months_ok s" and "if m = 2 \<and> d = 29 then g_u32MonthDays s ! 1 = 29 else 28 \<le> g_u32MonthDays s ! 1"
    and "20 \<le> length buf" and "settable now (Tm_MkTime t * 1000000) (tms s)"
  shows "\<exists>buf' s'. Tm_AscTime t buf = Some buf' \<and>
     Tm_SetDateTimeStr now (str_of (takeWhile (\<lambda>b. b \<noteq> 0) buf')) s = Some (CLOCK_OK, s') \<and>
     sgRtcTimeSet (tms s') = Tm_MkTime t * 1000000"
proof -
  have b: "1000 \<le> y" "y < 10000" "m < 100" "d < 100" "h < 100" "mi < 100" "se < 100"
    using assms(1-5) month_bound [of m d y] by (auto simp: valid_date_def)
  have "Tm_AscTime t buf = Some (asc y m d h mi se @ 0 # drop 20 buf)"
    by (rule AscTime_asc [OF assms(6-11) b assms(14)])
  moreover have "date_of t y m d" using assms(6-8) by (simp add: date_of_def)
  ultimately show ?thesis
    using SetDateTimeStr_asc [OF assms(1-5) month_in_table [OF assms(1,12,13)] _ assms(9-11,15)] asc_nonzero [OF b(2-7)] by simp
qed

theorem Tm_AscTime_SetDateTimeStr_witness:
  "\<exists>t buf' s'. tm_year t = 2011 \<and> tm_mon t = 10 \<and> tm_mday t = 28 \<and> Tm_AscTime t (replicate 21 0) = Some buf' \<and>
     Tm_SetDateTimeStr (at_time 0) (str_of (takeWhile (\<lambda>b. b \<noteq> 0) buf')) cal_sample = Some (CLOCK_OK, s')"
proof -
  define t where "t = \<lparr>tm_us = 0, tm_sec = 50, tm_min = 37, tm_hour = 22, tm_mday = 28, tm_mon = 10, tm_year = 2011, tm_wday = 0,
      tm_yday = 0, tm_isdst = 0\<rparr>"
  have "\<exists>buf' s'. Tm_AscTime t (replicate 21 0) = Some buf' \<and>
      Tm_SetDateTimeStr (at_time 0) (str_of (takeWhile (\<lambda>b. b \<noteq> 0) buf')) cal_sample = Some (CLOCK_OK, s') \<and>
      sgRtcTimeSet (tms s') = Tm_MkTime t * 1000000"
    by (rule Tm_AscTime_SetDateTimeStr [of 2011 10 28 22 37 50])
      (simp_all add: t_def valid_date_def month_days_def cal_sample_facts settable_def)
  moreover have "tm_year t = 2011" "tm_mon t = 10" "tm_mday t = 28" by (simp_all add: t_def)
  ultimately show ?thesis by blast
qed

text \<open>
  C24: \<open>Tm_SetDateTimeStr\<close> refuses the 29th of February of a leap year as long as the table of the
  months has 28 days for February: so it starts, and so every conversion of a date of another year
  by \<open>Tm_LocalTime_r\<close> leaves it.
\<close>

theorem Tm_SetDateTimeStr_feb29:
  assumes "leap y" "1970 \<le> y" "y \<le> 2100" "h < 100" "mi < 100" "se < 100"
  shows "(g_u32MonthDays s ! 1 = 28 \<longrightarrow>
      Tm_SetDateTimeStr now (str_of (asc y 2 29 h mi se)) s = Some (DAY_ERROR, s)) \<and>
    (\<forall>t r s'. months_ok s \<longrightarrow> 0 \<le> t \<longrightarrow> t < 550420 * 86400 \<longrightarrow>
      Tm_LocalTime_r now0 (Some t) (Some res) s = Some (Some r, s') \<longrightarrow> \<not> leap (nat (tm_year r)) \<longrightarrow>
      Tm_SetDateTimeStr now (str_of (asc y 2 29 h mi se)) s' = Some (DAY_ERROR, s'))"
proof (intro conjI allI impI)
  have ps: "sscanf_dt (str_of (asc y 2 29 h mi se)) = (6, map (\<lambda>v. Store_s32 (of_nat v)) [y, 2, 29, h, mi, se])"
    by (rule sscanf_asc) (use assms in auto)
  have sf: "sint (of_nat y :: u32) = int y" using assms by (simp add: sint_field)
  have refuse: "Tm_SetDateTimeStr now (str_of (asc y 2 29 h mi se)) u = Some (DAY_ERROR, u)" if "g_u32MonthDays u ! 1 = 28" for u
    using assms that by (simp add: Tm_SetDateTimeStr_def Let_def ps dt_field_def sf)
  then show "g_u32MonthDays s ! 1 = 28 \<Longrightarrow> Tm_SetDateTimeStr now (str_of (asc y 2 29 h mi se)) s = Some (DAY_ERROR, s)" .
  fix t r s'
  assume a: "months_ok s" "0 \<le> t" "t < 550420 * 86400" and run: "Tm_LocalTime_r now0 (Some t) (Some res) s = Some (Some r, s')"
    and nl: "\<not> leap (nat (tm_year r))"
  from LocalTime_date [OF a, of now0 res] obtain y' m' d' where
    "date_of r y' m' d'" "g_u32MonthDays s' = map of_nat (month_days y')" using run by auto
  then show "Tm_SetDateTimeStr now (str_of (asc y 2 29 h mi se)) s' = Some (DAY_ERROR, s')"
    using nl by (intro refuse) (simp add: date_of_def month_days_def)
qed

theorem Tm_SetDateTimeStr_feb29_witness:
  "valid_date 2012 2 29 \<and> Tm_SetDateTimeStr (at_time 0) (str_of (asc 2012 2 29 12 0 0)) cal_sample = Some (DAY_ERROR, cal_sample)"
  using Tm_SetDateTimeStr_feb29 [of 2012 12 0 0 cal_sample "at_time 0"] cal_sample_facts(2)
  by (simp add: leap_def valid_date_def month_days_def)

text \<open>
  \<open>sscanf\<close> counts a \<open>%d\<close> that meets no digit as a conversion, so that \<open>Tm_SetDateTimeStr\<close> accepts a
  string without a number for the seconds.
\<close>

lemma SetDateTimeStr_no_seconds:
  "sscanf_dt ''2011/10/28,22:37:x'' = (6, map Store_s32 [2011, 10, 28, 22, 37, 0])"
  by code_simp

end
