(* ===== verification/Timer.thy ===== *)
theory Timer
  imports Prelude
begin

text \<open>
  The software timers, \<open>component/timer/timer.c\<close>.  Timers are addressed by numbers, 0 is the null
  pointer, and wait in a list with two ends that is kept in the order of the deadlines.  The n-th
  reading of the system time gives \<open>clk n\<close>.  The service routines of the timers and the commands to
  the hardware timer are recorded calls; a service routine does not use the timers itself.  The
  message queue between the callers and the timer thread is the list of its messages, as the model
  of the message queues justifies.  The product in double precision that turns microseconds into
  cycles, cut to 32 bits, is the field \<open>dmul\<close>.  What \<open>Mb_Malloc\<close> and the constructors of the pool, the mutex, the
  message queue and the event answer are arguments.
\<close>

unbundle bit_operations_syntax

section \<open>State\<close>

record tagTimer =
  t_pre :: nat
  t_nxt :: nat
  t_name :: nat
  t_cycle :: u32
  t_isr :: nat
  t_stat :: u32
  TimerTag :: u32
  t_deadline :: s64

datatype hard_cmd =
    EN_TIMER_STARTCOUNT
  | EN_TIMER_PAUSECOUNT
  | EN_TIMER_SETCYCLE u32
  | EN_TIMER_SETRELOAD bool
  | EN_TIMER_ENINT

datatype timer_source = CN_TIMER_SOURCE_TICK | CN_TIMER_SOURCE_HARD

datatype tcall = Run_isr nat nat | HardTimer_Ctrl hard_cmd | Pool_free nat | Pool_delete | Mem_free | Mutex_delete | MsgQ_delete
  | Evtt_unregist u16 | MsgQ_wait u32

datatype timer_op =
    EN_TIMER_SOFT_START
  | EN_TIMER_SOFT_PAUSE
  | EN_TIMER_SOFT_SETCYCLE
  | EN_TIMER_SOFT_SETRELOAD
  | EN_TIMERSOFT_ADD
  | EN_TIMERSOFT_REMOVE
  | EN_TIMER_OTHER

record tagTimerMsg =
  msg_timer :: nat
  msg_type :: timer_op
  msg_para :: u32

record tmrst =
  tmrs :: "nat \<Rightarrow> tagTimer"
  ptTimerHead :: nat
  ptTimerTail :: nat
  s_u32TimerPrecision :: u32
  s_u32Precision2Tclk :: u32
  sbUsingHardTimer :: bool
  ptTimerMsgQ :: "tagTimerMsg list"
  clk :: "nat \<Rightarrow> s64"
  clk_reads :: nat
  s_u32TimerFreq :: u32
  dmul :: "u32 \<Rightarrow> u32 \<Rightarrow> u32"
  tcalls :: "tcall list"

abbreviation (input) "CN_TIMER_ENCOUNT \<equiv> (1 :: u32)"
abbreviation (input) "CN_TIMER_RELOAD \<equiv> (8 :: u32)"
abbreviation (input) "CN_TIMER_ALARMNEVER \<equiv> (0x7FFFFFFFFFFFFFFF :: s64)"
abbreviation (input) "WAIT_FOREVER \<equiv> (0xFFFFFFFF :: u32)"
abbreviation (input) "CN_TIMERSOFT_MSGLEN \<equiv> (16 :: nat)"

definition rtm :: "(tagTimer \<Rightarrow> 'v) \<Rightarrow> nat \<Rightarrow> tmrst \<Rightarrow> 'v option" where
  "rtm f p s = (if p = 0 then None else Some (f (tmrs s p)))"

definition updt :: "(tagTimer \<Rightarrow> tagTimer) \<Rightarrow> nat \<Rightarrow> tmrst \<Rightarrow> tmrst" where
  "updt f p s = s\<lparr>tmrs := (tmrs s)(p := f (tmrs s p))\<rparr>"

definition wtm :: "(tagTimer \<Rightarrow> tagTimer) \<Rightarrow> nat \<Rightarrow> tmrst \<Rightarrow> tmrst option" where
  "wtm f p s = (if p = 0 then None else Some (updt f p s))"

definition set_pre :: "nat \<Rightarrow> nat \<Rightarrow> tmrst \<Rightarrow> tmrst option" where
  "set_pre p v = wtm (\<lambda>t. t\<lparr>t_pre := v\<rparr>) p"

definition set_nxt :: "nat \<Rightarrow> nat \<Rightarrow> tmrst \<Rightarrow> tmrst option" where
  "set_nxt p v = wtm (\<lambda>t. t\<lparr>t_nxt := v\<rparr>) p"

definition read_clock :: "tmrst \<Rightarrow> s64 \<times> tmrst" where
  "read_clock s = (clk s (clk_reads s), s\<lparr>clk_reads := clk_reads s + 1\<rparr>)"

definition note_call :: "tcall \<Rightarrow> tmrst \<Rightarrow> tmrst" where
  "note_call c s = s\<lparr>tcalls := tcalls s @ [c]\<rparr>"

section \<open>The queue\<close>

definition Timer_Get64Time :: "tmrst \<Rightarrow> bool \<times> s64 \<times> tmrst" where
  "Timer_Get64Time s = (let (now, s) = read_clock s in (True, now, s))"

definition Timer_ExeAlarmHandler :: "nat \<Rightarrow> tmrst \<Rightarrow> (bool \<times> tmrst) option" where
  "Timer_ExeAlarmHandler timer s = do {
     f \<leftarrow> rtm t_isr timer s;
     Some (True, if f \<noteq> 0 then note_call (Run_isr f timer) s else s) }"

definition Timer_Remove :: "nat \<Rightarrow> tmrst \<Rightarrow> tmrst option" where
  "Timer_Remove timer s =
     (if timer = ptTimerHead s \<and> timer = ptTimerTail s then Some (s\<lparr>ptTimerHead := 0, ptTimerTail := 0\<rparr>)
      else if timer = ptTimerHead s then do {
        nx \<leftarrow> rtm t_nxt (ptTimerHead s) s;
        set_pre nx 0 (s\<lparr>ptTimerHead := nx\<rparr>) }
      else if timer = ptTimerTail s then do {
        pr \<leftarrow> rtm t_pre (ptTimerTail s) s;
        set_nxt pr 0 (s\<lparr>ptTimerTail := pr\<rparr>) }
      else do {
        pr \<leftarrow> rtm t_pre timer s; nx \<leftarrow> rtm t_nxt timer s;
        s \<leftarrow> set_nxt pr nx s;
        nx \<leftarrow> rtm t_nxt timer s; pr \<leftarrow> rtm t_pre timer s;
        set_pre nx pr s })"

text \<open>\<open>while((NULL != tmp)&&(tmp->deadline < timer->deadline)) tmp = tmp->nxt;\<close>\<close>

partial_function (option) find_place :: "s64 \<Rightarrow> nat \<Rightarrow> tmrst \<Rightarrow> nat option" where
  "find_place dl tmp s =
     (if tmp = 0 then Some 0
      else do {
        d \<leftarrow> rtm t_deadline tmp s;
        if d < dl then do { nx \<leftarrow> rtm t_nxt tmp s; find_place dl nx s } else Some tmp })"

definition add_empty :: "nat \<Rightarrow> tmrst \<Rightarrow> tmrst option" where
  "add_empty timer s = do {
     s \<leftarrow> set_pre timer 0 (s\<lparr>ptTimerHead := timer, ptTimerTail := timer\<rparr>);
     set_nxt timer 0 s }"

definition add_tail :: "nat \<Rightarrow> tmrst \<Rightarrow> tmrst option" where
  "add_tail timer s = do {
     s \<leftarrow> set_pre timer (ptTimerTail s) s;
     s \<leftarrow> set_nxt timer 0 s;
     s \<leftarrow> set_nxt (ptTimerTail s) timer s;
     Some (s\<lparr>ptTimerTail := timer\<rparr>) }"

definition Timer_Add :: "nat \<Rightarrow> tmrst \<Rightarrow> tmrst option" where
  "Timer_Add timer s =
     (if ptTimerHead s = 0 then add_empty timer s
      else do {
        dl \<leftarrow> rtm t_deadline timer s;
        tmp \<leftarrow> find_place dl (ptTimerHead s) s;
        if tmp = 0 then add_tail timer s
        else do {
          pr \<leftarrow> rtm t_pre tmp s;
          s \<leftarrow> set_pre timer pr s;
          s \<leftarrow> set_nxt timer tmp s;
          pr \<leftarrow> rtm t_pre tmp s;
          s \<leftarrow> (if pr \<noteq> 0 then set_nxt pr timer s else Some (s\<lparr>ptTimerHead := timer\<rparr>));
          set_pre tmp timer s } })"

definition Timer_AddLast :: "nat \<Rightarrow> tmrst \<Rightarrow> tmrst option" where
  "Timer_AddLast timer s = (if ptTimerHead s = 0 then add_empty timer s else add_tail timer s)"

section \<open>Timers that are due\<close>

definition Timer_ChkTimeout :: "nat \<Rightarrow> s64 \<Rightarrow> tmrst \<Rightarrow> bool option" where
  "Timer_ChkTimeout timer timenow s = do {
     d \<leftarrow> rtm t_deadline timer s;
     Some (d - uint (s_u32TimerPrecision s) < timenow) }"

text \<open>What the loop does with a timer that is due.\<close>

definition expire :: "nat \<Rightarrow> s64 \<Rightarrow> tmrst \<Rightarrow> tmrst option" where
  "expire timer timenow s = do {
     s \<leftarrow> Timer_Remove timer s;
     st \<leftarrow> rtm t_stat timer s;
     cy \<leftarrow> rtm t_cycle timer s;
     s \<leftarrow> (if st AND CN_TIMER_RELOAD \<noteq> 0 then do {
              s \<leftarrow> wtm (\<lambda>t. t\<lparr>t_deadline := timenow + uint cy\<rparr>) timer s;
              Timer_Add timer s }
           else do {
              s \<leftarrow> wtm (\<lambda>t. t\<lparr>t_deadline := CN_TIMER_ALARMNEVER\<rparr>) timer s;
              Timer_AddLast timer s });
     (_, s) \<leftarrow> Timer_ExeAlarmHandler timer s;
     Some s }"

partial_function (option) deal_loop :: "nat \<Rightarrow> tmrst \<Rightarrow> (u32 \<times> tmrst) option" where
  "deal_loop timer s =
     (if timer = 0 then Some (WAIT_FOREVER, s)
      else do {
        st \<leftarrow> rtm t_stat timer s;
        if st AND CN_TIMER_ENCOUNT \<noteq> 0 then do {
          let (timenow, s) = read_clock s;
          due \<leftarrow> Timer_ChkTimeout timer timenow s;
          if due then do {
            s \<leftarrow> expire timer timenow s;
            deal_loop (ptTimerHead s) s }
          else do {
            d \<leftarrow> rtm t_deadline timer s;
            Some (word_of_int (d - timenow), s) } }
        else Some (WAIT_FOREVER, s) })"

definition Timer_DealTimeout :: "tmrst \<Rightarrow> (u32 \<times> tmrst) option" where
  "Timer_DealTimeout s = deal_loop (ptTimerHead s) s"

definition GetTclkCycle :: "u32 \<Rightarrow> tmrst \<Rightarrow> u32" where
  "GetTclkCycle waittime s =
     (let result = dmul s waittime (s_u32TimerFreq s) in if result < s_u32Precision2Tclk s then s_u32Precision2Tclk s else result)"

text \<open>The end of every operation with the hardware timer: the cycle it is given is in microseconds.\<close>

definition rearm :: "tmrst \<Rightarrow> tmrst option" where
  "rearm s = do {
     (waittime, s) \<leftarrow> Timer_DealTimeout s;
     Some (if waittime \<noteq> WAIT_FOREVER
       then note_call (HardTimer_Ctrl EN_TIMER_STARTCOUNT) (note_call (HardTimer_Ctrl (EN_TIMER_SETCYCLE waittime)) s) else s) }"

definition Timer_ISR :: "tmrst \<Rightarrow> (u32 \<times> tmrst) option" where
  "Timer_ISR s = do {
     let s = note_call (HardTimer_Ctrl EN_TIMER_PAUSECOUNT) s;
     (waittime, s) \<leftarrow> Timer_DealTimeout s;
     Some (0, if waittime \<noteq> WAIT_FOREVER
       then note_call (HardTimer_Ctrl EN_TIMER_STARTCOUNT)
              (note_call (HardTimer_Ctrl (EN_TIMER_SETCYCLE (GetTclkCycle waittime s))) s) else s) }"

section \<open>Operations\<close>

text \<open>
  The timer thread reads the messages; a caller that finds the queue full sleeps.  With a hardware
  timer, the mutex \<open>ptTimerQSync\<close> is free when the operation starts.
\<close>

definition timer_send :: "tagTimerMsg \<Rightarrow> tmrst \<Rightarrow> ((bool, unit) call \<times> tmrst) option" where
  "timer_send m s =
     (if length (ptTimerMsgQ s) < CN_TIMERSOFT_MSGLEN
      then Some (Return True, s\<lparr>ptTimerMsgQ := ptTimerMsgQ s @ [m]\<rparr>) else Some (Block (), s))"

definition init_timer :: "nat \<Rightarrow> nat \<Rightarrow> u32 \<Rightarrow> nat \<Rightarrow> tmrst \<Rightarrow> tmrst option" where
  "init_timer timer name cycle isr =
     wtm (\<lambda>t. t\<lparr>t_name := name, t_cycle := cycle, t_isr := isr, t_deadline := CN_TIMER_ALARMNEVER, t_stat := CN_TIMER_RELOAD\<rparr>) timer"

definition Timer_Create_s :: "nat \<Rightarrow> nat \<Rightarrow> u32 \<Rightarrow> nat \<Rightarrow> tmrst \<Rightarrow> ((nat, unit) call \<times> tmrst) option" where
  "Timer_Create_s timer name cycle isr s =
     (if timer = 0 then Some (Return 0, s)
      else if sbUsingHardTimer s then do {
        let s = note_call (HardTimer_Ctrl EN_TIMER_PAUSECOUNT) s;
        s \<leftarrow> init_timer timer name cycle isr s;
        s \<leftarrow> Timer_AddLast timer s;
        s \<leftarrow> rearm s;
        Some (Return timer, s) }
      else do {
        s \<leftarrow> init_timer timer name cycle isr s;
        (c, s) \<leftarrow> timer_send \<lparr>msg_timer = timer, msg_type = EN_TIMERSOFT_ADD, msg_para = 0\<rparr> s;
        Some (case c of Return _ \<Rightarrow> Return timer | Block u \<Rightarrow> Block u, s) })"

definition Timer_Delete_s :: "nat \<Rightarrow> tmrst \<Rightarrow> ((nat, unit) call \<times> tmrst) option" where
  "Timer_Delete_s timer s =
     (if timer = 0 then Some (Return 0, s)
      else if sbUsingHardTimer s then do {
        let s = note_call (HardTimer_Ctrl EN_TIMER_PAUSECOUNT) s;
        s \<leftarrow> Timer_Remove timer s;
        s \<leftarrow> rearm s;
        Some (Return timer, s) }
      else do {
        (c, s) \<leftarrow> timer_send \<lparr>msg_timer = timer, msg_type = EN_TIMERSOFT_REMOVE, msg_para = 0\<rparr> s;
        Some (case c of Return _ \<Rightarrow> Return timer | Block u \<Rightarrow> Block u, s) })"

definition Timer_Create :: "nat option \<Rightarrow> nat \<Rightarrow> u32 \<Rightarrow> nat \<Rightarrow> tmrst \<Rightarrow> ((nat, unit) call \<times> tmrst) option" where
  "Timer_Create mem name cycle isr s = (case mem of
       None \<Rightarrow> Some (Return 0, s)
     | Some timer \<Rightarrow> do {
         (c, s) \<leftarrow> Timer_Create_s timer name cycle isr s;
         Some (c, if c = Return 0 then note_call (Pool_free timer) s else s) })"

definition Timer_Delete :: "nat \<Rightarrow> tmrst \<Rightarrow> ((bool, unit) call \<times> tmrst) option" where
  "Timer_Delete timer s = do {
     (c, s) \<leftarrow> Timer_Delete_s timer s;
     Some (case c of
         Return r \<Rightarrow> if r \<noteq> 0 then (Return True, note_call (Pool_free timer) s) else (Return False, s)
       | Block u \<Rightarrow> (Block u, s)) }"

text \<open>The commands that the callers and the timer thread share, and whether a command is one of them.\<close>

definition restart_count :: "nat \<Rightarrow> tmrst \<Rightarrow> tmrst option" where
  "restart_count timer s = do {
     let (timenow, s) = read_clock s;
     cy \<leftarrow> rtm t_cycle timer s;
     s \<leftarrow> wtm (\<lambda>t. t\<lparr>t_deadline := timenow + uint cy\<rparr>) timer s;
     s \<leftarrow> Timer_Remove timer s;
     Timer_Add timer s }"

fun timer_cmd :: "timer_op \<Rightarrow> nat \<Rightarrow> u32 \<Rightarrow> tmrst \<Rightarrow> (bool \<times> tmrst) option" where
  "timer_cmd EN_TIMER_SOFT_START timer para s = do {
     st \<leftarrow> rtm t_stat timer s;
     if CN_TIMER_ENCOUNT AND st = 0 then do {
       s \<leftarrow> wtm (\<lambda>t. t\<lparr>t_stat := t_stat t OR CN_TIMER_ENCOUNT\<rparr>) timer s;
       s \<leftarrow> restart_count timer s;
       Some (True, s) }
     else Some (True, s) }"
| "timer_cmd EN_TIMER_SOFT_PAUSE timer para s = do {
     st \<leftarrow> rtm t_stat timer s;
     if CN_TIMER_ENCOUNT AND st \<noteq> 0 then do {
       s \<leftarrow> wtm (\<lambda>t. t\<lparr>t_stat := t_stat t AND NOT CN_TIMER_ENCOUNT, t_deadline := CN_TIMER_ALARMNEVER\<rparr>) timer s;
       s \<leftarrow> Timer_Remove timer s;
       s \<leftarrow> Timer_AddLast timer s;
       Some (True, s) }
     else Some (True, s) }"
| "timer_cmd EN_TIMER_SOFT_SETCYCLE timer para s = do {
     s \<leftarrow> wtm (\<lambda>t. t\<lparr>t_cycle := para\<rparr>) timer s;
     st \<leftarrow> rtm t_stat timer s;
     if CN_TIMER_ENCOUNT AND st \<noteq> 0 then do { s \<leftarrow> restart_count timer s; Some (True, s) }
     else Some (True, s) }"
| "timer_cmd EN_TIMER_SOFT_SETRELOAD timer para s = do {
     s \<leftarrow> wtm (\<lambda>t. t\<lparr>t_stat := (if para \<noteq> 0 then t_stat t OR CN_TIMER_RELOAD else t_stat t AND NOT CN_TIMER_RELOAD)\<rparr>) timer s;
     Some (True, s) }"
| "timer_cmd opn timer para s = Some (False, s)"

definition Timer_Ctrl :: "nat \<Rightarrow> timer_op \<Rightarrow> u32 \<Rightarrow> tmrst \<Rightarrow> ((bool, unit) call \<times> tmrst) option" where
  "Timer_Ctrl timer opcode para s =
     (if timer = 0 then Some (Return False, s)
      else if sbUsingHardTimer s then do {
        let s = note_call (HardTimer_Ctrl EN_TIMER_PAUSECOUNT) s;
        (result, s) \<leftarrow> timer_cmd opcode timer para s;
        s \<leftarrow> rearm s;
        Some (Return result, s) }
      else timer_send \<lparr>msg_timer = timer, msg_type = opcode, msg_para = para\<rparr> s)"

text \<open>
  One round of the timer thread.  \<open>MsgQ_Receive\<close> with the time to wait, a recorded call, takes the
  oldest message; when there is none, \<open>comes\<close> tells whether and which message comes within that time.
\<close>

definition VMTask_msg :: "tagTimerMsg \<Rightarrow> tmrst \<Rightarrow> tmrst option" where
  "VMTask_msg m s = (case msg_type m of
       EN_TIMERSOFT_ADD \<Rightarrow> Timer_Add (msg_timer m) s
     | EN_TIMERSOFT_REMOVE \<Rightarrow> Timer_Remove (msg_timer m) s
     | opcode \<Rightarrow> map_option snd (timer_cmd opcode (msg_timer m) (msg_para m) s))"

definition VMTask_round :: "(u32 \<Rightarrow> tagTimerMsg option) \<Rightarrow> tmrst \<Rightarrow> tmrst option" where
  "VMTask_round comes s = do {
     (waittime, s) \<leftarrow> Timer_DealTimeout s;
     let s = note_call (MsgQ_wait waittime) s;
     case ptTimerMsgQ s of
       m # ms \<Rightarrow> VMTask_msg m (s\<lparr>ptTimerMsgQ := ms\<rparr>)
     | [] \<Rightarrow> (case comes waittime of Some m \<Rightarrow> VMTask_msg m s | None \<Rightarrow> Some s) }"

definition Timer_GetTag :: "nat \<Rightarrow> tmrst \<Rightarrow> u32" where
  "Timer_GetTag timer s = (if timer \<noteq> 0 then TimerTag (tmrs s timer) else 0)"

definition Timer_GetName :: "nat \<Rightarrow> tmrst \<Rightarrow> nat" where
  "Timer_GetName timer s = (if timer \<noteq> 0 then t_name (tmrs s timer) else 0)"

section \<open>Installation\<close>

text \<open>
  What the system answers while the module is installed: whether there is memory, a pool, a mutex and a message queue,
  the frequency of the hardware timer if there is one, the type and the id of the event of the timer thread.
\<close>

record install_env =
  ans_mem :: bool
  ans_pool :: bool
  ans_mutex :: bool
  ans_hard :: "u32 option"
  ans_msgq :: bool
  ans_evtt :: u16
  ans_event :: u16

definition install_failed :: "tmrst \<Rightarrow> u32 \<times> tmrst" where
  "install_failed s = (0xFFFFFFFF, note_call Mem_free (note_call Pool_delete s))"

definition install_hard :: "install_env \<Rightarrow> u32 \<Rightarrow> tmrst \<Rightarrow> u32 \<times> tmrst" where
  "install_hard a CN_CFG_MCLK s =
     (if \<not> ans_mutex a then install_failed s
      else case ans_hard a of
          None \<Rightarrow> install_failed (note_call Mutex_delete s)
        | Some freq \<Rightarrow>
            (let s = s\<lparr>s_u32TimerPrecision := word_of_int (1000000000 div uint CN_CFG_MCLK)\<rparr>;
                 s = (if s_u32TimerPrecision s = 0 then s\<lparr>s_u32TimerPrecision := 1\<rparr> else s);
                 s = s\<lparr>s_u32TimerFreq := s_u32TimerPrecision s * CN_CFG_MCLK div 1000000\<rparr>;
                 s = s\<lparr>s_u32Precision2Tclk := freq\<rparr>;
                 s = s\<lparr>s_u32Precision2Tclk := dmul s (s_u32Precision2Tclk s) (s_u32TimerFreq s)\<rparr>
             in (0, note_call (HardTimer_Ctrl (EN_TIMER_SETRELOAD False)) (note_call (HardTimer_Ctrl EN_TIMER_ENINT) s))))"

definition install_thread :: "install_env \<Rightarrow> u32 \<Rightarrow> tmrst \<Rightarrow> u32 \<times> tmrst" where
  "install_thread a CN_CFG_TICK_US s =
     (if \<not> ans_msgq a then install_failed s
      else
        let s = s\<lparr>ptTimerMsgQ := []\<rparr> in
        if ans_evtt a = 0xFFFF then install_failed (note_call MsgQ_delete s)
        else
          let s = s\<lparr>s_u32TimerPrecision := CN_CFG_TICK_US\<rparr> in
          if ans_event a = 0xFFFF then install_failed (note_call (Evtt_unregist (ans_event a)) (note_call MsgQ_delete s))
          else (0, s))"

definition ModuleInstall_Timer :: "install_env \<Rightarrow> u32 \<Rightarrow> u32 \<Rightarrow> timer_source \<Rightarrow> tmrst \<Rightarrow> u32 \<times> tmrst" where
  "ModuleInstall_Timer a CN_CFG_MCLK CN_CFG_TICK_US para s =
     (if \<not> ans_mem a then (0xFFFFFFFF, s)
      else if \<not> ans_pool a then (0xFFFFFFFF, note_call Mem_free s)
      else
        let s = s\<lparr>sbUsingHardTimer := (para = CN_TIMER_SOURCE_HARD)\<rparr> in
        if sbUsingHardTimer s then install_hard a CN_CFG_MCLK s else install_thread a CN_CFG_TICK_US s)"

end
