(* ===== verification/TimerQueue.thy ===== *)
theory TimerQueue
  imports Timer
begin

text \<open>
  The queue of the software timers ends in null pointers at both sides.  Read through address 0, whose
  links are the head and the tail of the queue, it is a ring like the queues of the kernel, and the
  lemmas about rings apply to it.
\<close>

section \<open>Links\<close>

definition tlN :: "tmrst \<Rightarrow> nat \<Rightarrow> nat" where "tlN s p = (if p = 0 then ptTimerHead s else t_nxt (tmrs s p))"
definition tlP :: "tmrst \<Rightarrow> nat \<Rightarrow> nat" where "tlP s p = (if p = 0 then ptTimerTail s else t_pre (tmrs s p))"
definition tD :: "tmrst \<Rightarrow> nat \<Rightarrow> s64" where "tD s p = t_deadline (tmrs s p)"
definition tS :: "tmrst \<Rightarrow> nat \<Rightarrow> u32" where "tS s p = t_stat (tmrs s p)"
definition tC :: "tmrst \<Rightarrow> nat \<Rightarrow> u32" where "tC s p = t_cycle (tmrs s p)"
definition tI :: "tmrst \<Rightarrow> nat \<Rightarrow> nat" where "tI s p = t_isr (tmrs s p)"

definition put_tN :: "nat \<Rightarrow> nat \<Rightarrow> tmrst \<Rightarrow> tmrst" where
  "put_tN a v s = (if a = 0 then s\<lparr>ptTimerHead := v\<rparr> else updt (\<lambda>t. t\<lparr>t_nxt := v\<rparr>) a s)"

definition put_tP :: "nat \<Rightarrow> nat \<Rightarrow> tmrst \<Rightarrow> tmrst" where
  "put_tP a v s = (if a = 0 then s\<lparr>ptTimerTail := v\<rparr> else updt (\<lambda>t. t\<lparr>t_pre := v\<rparr>) a s)"

lemmas tview_defs = tlN_def tlP_def tD_def tS_def tC_def tI_def put_tN_def put_tP_def updt_def

lemma put_tl_links:
  "tlN (put_tN a v s) = (tlN s)(a := v)" "tlP (put_tN a v s) = tlP s"
  "tlN (put_tP a v s) = tlN s" "tlP (put_tP a v s) = (tlP s)(a := v)"
  by (auto simp: tview_defs fun_eq_iff)

interpretation tl: dlink tlN tlP put_tN put_tP
  by unfold_locales (rule put_tl_links)+

lemma put_tl_fields [simp]:
  "tD (put_tN a v s) = tD s" "tD (put_tP a v s) = tD s" "tS (put_tN a v s) = tS s" "tS (put_tP a v s) = tS s"
  "tC (put_tN a v s) = tC s" "tC (put_tP a v s) = tC s" "tI (put_tN a v s) = tI s" "tI (put_tP a v s) = tI s"
  "clk (put_tN a v s) = clk s" "clk (put_tP a v s) = clk s"
  "clk_reads (put_tN a v s) = clk_reads s" "clk_reads (put_tP a v s) = clk_reads s"
  "tcalls (put_tN a v s) = tcalls s" "tcalls (put_tP a v s) = tcalls s"
  "s_u32TimerPrecision (put_tN a v s) = s_u32TimerPrecision s" "s_u32TimerPrecision (put_tP a v s) = s_u32TimerPrecision s"
  "ptTimerMsgQ (put_tN a v s) = ptTimerMsgQ s" "ptTimerMsgQ (put_tP a v s) = ptTimerMsgQ s"
  "sbUsingHardTimer (put_tN a v s) = sbUsingHardTimer s" "sbUsingHardTimer (put_tP a v s) = sbUsingHardTimer s"
  by (auto simp: tview_defs fun_eq_iff)

lemma put_tl_swap: "put_tP b w (put_tN a v s) = put_tN a v (put_tP b w s)"
  by (auto simp: tview_defs fun_eq_iff)

lemma timer_access:
  "p \<noteq> 0 \<Longrightarrow> rtm t_nxt p s = Some (tlN s p)" "p \<noteq> 0 \<Longrightarrow> rtm t_pre p s = Some (tlP s p)"
  "p \<noteq> 0 \<Longrightarrow> rtm t_deadline p s = Some (tD s p)" "p \<noteq> 0 \<Longrightarrow> rtm t_stat p s = Some (tS s p)"
  "p \<noteq> 0 \<Longrightarrow> rtm t_cycle p s = Some (tC s p)" "p \<noteq> 0 \<Longrightarrow> rtm t_isr p s = Some (tI s p)"
  "p \<noteq> 0 \<Longrightarrow> set_pre p v s = Some (put_tP p v s)" "p \<noteq> 0 \<Longrightarrow> set_nxt p v s = Some (put_tN p v s)"
  "p \<noteq> 0 \<Longrightarrow> wtm f p s = Some (updt f p s)"
  by (simp_all add: rtm_def set_pre_def set_nxt_def wtm_def tview_defs)

lemma head_tail_links: "ptTimerHead s = tlN s 0" "ptTimerTail s = tlP s 0"
  "s\<lparr>ptTimerHead := v\<rparr> = put_tN 0 v s" "s\<lparr>ptTimerTail := v\<rparr> = put_tP 0 v s"
  by (simp_all add: tview_defs)

section \<open>The queue\<close>

definition tq :: "tmrst \<Rightarrow> nat list \<Rightarrow> bool" where
  "tq s xs \<longleftrightarrow> dring (tlN s) (tlP s) (0 # xs)"

lemma tq_distinct: "tq s xs \<Longrightarrow> distinct xs \<and> 0 \<notin> set xs"
  using dring_distinct by (fastforce simp: tq_def)

lemma tq_head: "tq s xs \<Longrightarrow> tlN s 0 = hd (xs @ [0])"
  by (simp add: tq_def dring_next)

lemma dring_inverse:
  assumes "dring n p xs" and "x \<in> set xs"
  shows "p (n x) = x" and "n (p x) = x"
proof -
  obtain as bs where xs: "xs = as @ x # bs" using assms(2) by (meson split_list)
  then have r: "dring n p (x # bs @ as)" using assms(1) dring_rotate [of n p as "x # bs"] by simp
  show "p (n x) = x" using r by (cases "bs @ as") (auto simp: dring_single dring_Cons)
  show "n (p x) = x" using r by (cases "bs @ as") (auto simp: dring_single dring_Cons)
qed

definition tunlink :: "nat \<Rightarrow> tmrst \<Rightarrow> tmrst" where
  "tunlink x s = put_tN (tlP s x) (tlN s x) (put_tP (tlN s x) (tlP s x) s)"

definition tlink :: "nat \<Rightarrow> nat \<Rightarrow> tmrst \<Rightarrow> tmrst" where
  "tlink x y s = put_tP y x (put_tN (tlP s y) x (put_tP x (tlP s y) (put_tN x y s)))"

lemma Timer_Remove_eq:
  assumes "tq s xs" and "x \<in> set xs"
  shows "Timer_Remove x s = Some (tunlink x s)"
proof -
  obtain as bs where xs: "xs = as @ x # bs" using assms(2) by (meson split_list)
  have r: "dring (tlN s) (tlP s) (0 # xs)" using assms(1) by (simp add: tq_def)
  have in0: "0 \<in> set (0 # xs)" and inx: "x \<in> set (0 # xs)" using assms(2) by auto
  have nz: "x \<noteq> 0" using tq_distinct [OF assms(1)] assms(2) by metis
  have pr: "tlN s x \<noteq> x" "tlP s x \<noteq> x"
    using dring_proper [of "tlN s" "tlP s" "0 # as" x bs] r xs by auto
  note i0 = dring_inverse [OF r in0] and ix = dring_inverse [OF r inx]
  have h: "tlN s 0 = x \<longleftrightarrow> tlP s x = 0" using i0(1) ix(2) by metis
  have t: "tlP s 0 = x \<longleftrightarrow> tlN s x = 0" using i0(2) ix(1) by metis
  consider "tlN s 0 = x" "tlP s 0 = x" | "tlN s 0 = x" "tlP s 0 \<noteq> x" | "tlN s 0 \<noteq> x" "tlP s 0 = x" | "tlN s 0 \<noteq> x" "tlP s 0 \<noteq> x"
    by blast
  then show ?thesis
  proof cases
    case 1
    then have "tlP s x = 0" "tlN s x = 0" using h t by simp_all
    then show ?thesis using 1 by (simp add: Timer_Remove_def head_tail_links tunlink_def put_tl_swap)
  next
    case 2
    then have "tlP s x = 0" "tlN s x \<noteq> 0" using h t by simp_all
    then show ?thesis using 2 nz by (simp add: Timer_Remove_def head_tail_links timer_access tunlink_def put_tl_links put_tl_swap)
  next
    case 3
    then have "tlP s x \<noteq> 0" "tlN s x = 0" using h t by simp_all
    then show ?thesis using 3 nz by (simp add: Timer_Remove_def head_tail_links timer_access tunlink_def put_tl_links put_tl_swap)
  next
    case 4
    then have "tlP s x \<noteq> 0" "tlN s x \<noteq> 0" using h t by simp_all
    then show ?thesis using 4 nz pr
      by (simp add: Timer_Remove_def head_tail_links timer_access tunlink_def put_tl_links put_tl_swap)
  qed
qed

lemma tq_unlink:
  assumes "tq s (as @ x # bs)"
  shows "tq (tunlink x s) (as @ bs)"
  using tl.unlink [of s "0 # as" x bs "tunlink x s"] assms by (simp add: tq_def tunlink_def)

lemma tq_link:
  assumes "tq s (as @ bs)" and "x \<notin> set (0 # as @ bs)" and "y = hd (bs @ [0])"
  shows "tq (tlink x y s) (as @ x # bs)"
proof (cases bs)
  case Nil
  then show ?thesis using tl.link_tail [of s 0 as x "tlink x 0 s"] assms by (simp add: tq_def tlink_def)
next
  case (Cons b cs)
  then show ?thesis using tl.link_before [of s "0 # as" b cs x "tlink x y s"] assms by (simp add: tq_def tlink_def)
qed

lemma find_place_eq:
  "dseg (tlN s) (tlP s) (ys @ [0]) \<Longrightarrow> 0 \<notin> set ys \<Longrightarrow>
   find_place d (hd (ys @ [0])) s = Some (hd (dropWhile (\<lambda>y. tD s y < d) ys @ [0]))"
proof (induction ys)
  case Nil
  then show ?case by (simp add: find_place.simps)
next
  case (Cons y ys)
  then have "tlN s y = hd (ys @ [0])" "dseg (tlN s) (tlP s) (ys @ [0])" by (auto simp: dseg_Cons)
  with Cons show ?case by (subst find_place.simps) (simp add: timer_access)
qed

lemma tq_dseg: "tq s xs \<Longrightarrow> dseg (tlN s) (tlP s) (xs @ [0])"
  by (simp add: tq_def dring_def dseg_Cons)

lemma add_tail_eq:
  assumes "x \<noteq> 0" and "tlP s 0 \<noteq> 0" and "tlP s 0 \<noteq> x"
  shows "add_tail x s = Some (tlink x 0 s)"
  using assms by (simp add: add_tail_def head_tail_links timer_access tlink_def put_tl_links put_tl_swap)

lemma add_empty_eq:
  assumes "tq s []" and "x \<noteq> 0"
  shows "add_empty x s = Some (tlink x 0 s)"
  using assms
  by (simp add: add_empty_def head_tail_links timer_access tlink_def put_tl_links tq_def dring_single)
     (auto simp: tview_defs fun_eq_iff)

lemma tq_tail: "tq s xs \<Longrightarrow> xs \<noteq> [] \<Longrightarrow> tlP s 0 = last xs"
  by (simp add: tq_def dring_Cons)

lemma Timer_AddLast_eq:
  assumes "tq s xs" and "x \<notin> set (0 # xs)"
  shows "Timer_AddLast x s = Some (tlink x 0 s)" and "tq (tlink x 0 s) (xs @ [x])"
proof -
  show "tq (tlink x 0 s) (xs @ [x])" using tq_link [of s xs "[]" x 0] assms by simp
  have z: "0 \<notin> set xs" using tq_distinct [OF assms(1)] by simp
  show "Timer_AddLast x s = Some (tlink x 0 s)"
  proof (cases xs)
    case Nil
    then show ?thesis using assms tq_head [OF assms(1)] add_empty_eq
      by (simp add: Timer_AddLast_def head_tail_links)
  next
    case (Cons y ys)
    then have "last xs \<in> set xs" by simp
    then have "last xs \<noteq> 0" "last xs \<noteq> x" using z assms(2) by (metis, auto)
    then show ?thesis using assms(2) Cons z tq_head [OF assms(1)] tq_tail [OF assms(1)] add_tail_eq [of x s]
      by (simp add: Timer_AddLast_def head_tail_links)
  qed
qed

lemma Timer_Add_eq:
  assumes "tq s xs" and "x \<notin> set (0 # xs)" and P: "P = (\<lambda>y. tD s y < tD s x)"
  shows "Timer_Add x s = Some (tlink x (hd (dropWhile P xs @ [0])) s)"
    and "tq (tlink x (hd (dropWhile P xs @ [0])) s) (ins_by P x xs)"
proof -
  let ?y = "hd (dropWhile P xs @ [0])"
  show "tq (tlink x ?y s) (ins_by P x xs)"
    using tq_link [of s "takeWhile P xs" "dropWhile P xs" x ?y] assms by (simp add: ins_by_def)
  have z: "0 \<notin> set xs" "x \<noteq> 0" using tq_distinct [OF assms(1)] assms(2) by auto
  show "Timer_Add x s = Some (tlink x ?y s)"
  proof (cases xs)
    case Nil
    then show ?thesis using assms(1) z tq_head [OF assms(1)] add_empty_eq
      by (simp add: Timer_Add_def head_tail_links)
  next
    case (Cons a as)
    have f: "find_place (tD s x) (hd (xs @ [0])) s = Some ?y"
      using find_place_eq [OF tq_dseg [OF assms(1)] z(1)] P by simp
    have h: "tlN s 0 = hd (xs @ [0])" "tlN s 0 \<noteq> 0" using tq_head [OF assms(1)] Cons z(1) by auto
    have "last xs \<in> set xs" "tlP s 0 = last xs" using Cons tq_tail [OF assms(1)] by simp_all
    then have l: "tlP s 0 \<noteq> 0" "tlP s 0 \<noteq> x" using z assms(2) by (metis, auto)
    show ?thesis
    proof (cases "?y = 0")
      case True
      then show ?thesis using f h z l add_tail_eq [of x s] by (simp add: Timer_Add_def head_tail_links timer_access)
    next
      case False
      then have "dropWhile P xs \<noteq> []" by (metis append_Nil list.sel(1))
      then have "?y \<in> set xs" by (metis hd_append2 hd_in_set set_dropWhileD)
      then have "?y \<noteq> x" using assms(2) by auto
      then show ?thesis using False f h z
        by (auto simp: Timer_Add_def head_tail_links timer_access put_tl_links tlink_def put_tl_swap)
    qed
  qed
qed

section \<open>Deadlines\<close>

text \<open>
  The invariant of the timers: the queue is in the order of the deadlines, and a timer that does not
  count has a deadline that is never reached.
\<close>

abbreviation counting :: "tmrst \<Rightarrow> nat \<Rightarrow> bool" where
  "counting s x \<equiv> tS s x AND CN_TIMER_ENCOUNT \<noteq> 0"

abbreviation reloads :: "tmrst \<Rightarrow> nat \<Rightarrow> bool" where
  "reloads s x \<equiv> tS s x AND CN_TIMER_RELOAD \<noteq> 0"

definition timers_ok :: "tmrst \<Rightarrow> nat list \<Rightarrow> bool" where
  "timers_ok s xs \<longleftrightarrow> tq s xs \<and> sorted (map (tD s) xs) \<and>
     (\<forall>x \<in> set xs. tD s x \<le> CN_TIMER_ALARMNEVER \<and> (\<not> counting s x \<longrightarrow> tD s x = CN_TIMER_ALARMNEVER))"

text \<open>What dealing with timers leaves alone, and the calls of the service routines of some timers.\<close>

definition tframe :: "tmrst \<Rightarrow> tmrst \<Rightarrow> bool" where
  "tframe s s' \<longleftrightarrow> tS s' = tS s \<and> tC s' = tC s \<and> tI s' = tI s \<and> clk s' = clk s \<and>
     s_u32TimerPrecision s' = s_u32TimerPrecision s \<and> ptTimerMsgQ s' = ptTimerMsgQ s \<and>
     sbUsingHardTimer s' = sbUsingHardTimer s"

definition run_calls :: "tmrst \<Rightarrow> nat list \<Rightarrow> tcall list" where
  "run_calls s xs = map (\<lambda>x. Run_isr (tI s x) x) (filter (\<lambda>x. tI s x \<noteq> 0) xs)"

lemma tframe_trans: "tframe a b \<Longrightarrow> tframe b c \<Longrightarrow> tframe a c"
  by (simp add: tframe_def)

lemma run_calls_simps [simp]: "run_calls s [] = []" "run_calls s (xs @ ys) = run_calls s xs @ run_calls s ys"
  by (simp_all add: run_calls_def)

lemma run_calls_Cons: "run_calls s (x # xs) = run_calls s [x] @ run_calls s xs"
  by (simp add: run_calls_def)

lemma run_calls_frame: "tframe s s' \<Longrightarrow> run_calls s' xs = run_calls s xs"
  by (simp add: run_calls_def tframe_def)

lemma updt_deadline [simp]:
  "tlN (updt (\<lambda>t. t\<lparr>t_deadline := v\<rparr>) x s) = tlN s" "tlP (updt (\<lambda>t. t\<lparr>t_deadline := v\<rparr>) x s) = tlP s"
  "tD (updt (\<lambda>t. t\<lparr>t_deadline := v\<rparr>) x s) = (tD s)(x := v)"
  "tframe s (updt (\<lambda>t. t\<lparr>t_deadline := v\<rparr>) x s)"
  "clk_reads (updt f x s) = clk_reads s" "tcalls (updt f x s) = tcalls s" "clk (updt f x s) = clk s"
  by (auto simp: tframe_def tview_defs fun_eq_iff)

lemma tlink_fields [simp]:
  "tD (tlink x y s) = tD s" "tD (tunlink x s) = tD s" "tframe s (tlink x y s)" "tframe s (tunlink x s)"
  "clk_reads (tlink x y s) = clk_reads s" "clk_reads (tunlink x s) = clk_reads s"
  "tcalls (tlink x y s) = tcalls s" "tcalls (tunlink x s) = tcalls s"
  by (simp_all add: tlink_def tunlink_def tframe_def)

lemma note_call_fields [simp]:
  "tlN (note_call c s) = tlN s" "tlP (note_call c s) = tlP s" "tD (note_call c s) = tD s" "tframe s (note_call c s)"
  "clk_reads (note_call c s) = clk_reads s" "tcalls (note_call c s) = tcalls s @ [c]"
  by (auto simp: note_call_def tframe_def tview_defs fun_eq_iff)

lemma tcall_ok [simp]: "timers_ok (note_call c s) xs = timers_ok s xs"
proof -
  have "tS (note_call c s) = tS s" by (simp add: note_call_def tS_def fun_eq_iff)
  then show ?thesis by (simp add: timers_ok_def tq_def)
qed

lemma read_clock_fields:
  assumes "read_clock s = (now, s')"
  shows "now = clk s (clk_reads s)" and "clk_reads s' = Suc (clk_reads s)" and "tD s' = tD s" and "tframe s s'"
    and "tcalls s' = tcalls s" and "timers_ok s' xs = timers_ok s xs" and "tlN s' = tlN s"
proof -
  have s': "s' = s\<lparr>clk_reads := Suc (clk_reads s)\<rparr>" and "now = clk s (clk_reads s)"
    using assms by (auto simp: read_clock_def)
  then show "now = clk s (clk_reads s)" by simp
  show r: "clk_reads s' = Suc (clk_reads s)" "tD s' = tD s" "tframe s s'" "tcalls s' = tcalls s" "tlN s' = tlN s"
    by (auto simp: s' tframe_def tview_defs fun_eq_iff)
  have "tS s' = tS s" "tlP s' = tlP s" by (auto simp: s' tview_defs fun_eq_iff)
  then show "timers_ok s' xs = timers_ok s xs" using r by (simp add: timers_ok_def tq_def)
qed

lemma sorted_ins_before:
  fixes f :: "'p \<Rightarrow> 'k::linorder"
  assumes "sorted (map f xs)"
  shows "sorted (map f (ins_by (\<lambda>y. f y < f x) x xs))"
proof -
  let ?P = "\<lambda>y. f y < f x"
  have s: "sorted (map f (takeWhile ?P xs @ dropWhile ?P xs))" using assms by simp
  have "f x \<le> f b" if "b \<in> set (dropWhile ?P xs)" for b
  proof -
    have ne: "dropWhile ?P xs \<noteq> []" using that by (metis empty_iff list.set(1))
    then have "f x \<le> f (hd (dropWhile ?P xs))" using hd_dropWhile [OF ne] by simp
    also have "\<dots> \<le> f b" using s that ne by (cases "dropWhile ?P xs") (auto simp: sorted_append)
    finally show ?thesis .
  qed
  then show ?thesis using s
    by (auto simp: ins_by_def sorted_append simp del: takeWhile_dropWhile_id dest: set_takeWhileD)
qed

lemma ins_by_split: "\<exists>as bs. xs = as @ bs \<and> ins_by P x xs = as @ x # bs"
  unfolding ins_by_def by (metis takeWhile_dropWhile_id)

text \<open>Both ways of putting a timer back into the queue.\<close>

lemma requeue:
  assumes ok: "timers_ok s qs" and x: "x \<notin> set (0 # qs)" and le: "tD s x \<le> CN_TIMER_ALARMNEVER"
    and never: "\<not> counting s x \<Longrightarrow> tD s x = CN_TIMER_ALARMNEVER"
  shows "\<exists>y as bs. Timer_Add x s = Some (tlink x y s) \<and> qs = as @ bs \<and> timers_ok (tlink x y s) (as @ x # bs)"
    and "tD s x = CN_TIMER_ALARMNEVER \<Longrightarrow>
         Timer_AddLast x s = Some (tlink x 0 s) \<and> timers_ok (tlink x 0 s) (qs @ [x])"
proof -
  have q: "tq s qs" and so: "sorted (map (tD s) qs)" using ok by (auto simp: timers_ok_def)
  have f: "tS (tlink x y s) = tS s" for y by (simp add: tlink_def)
  let ?P = "\<lambda>y. tD s y < tD s x" and ?y = "hd (dropWhile (\<lambda>y. tD s y < tD s x) qs @ [0])"
  have "timers_ok (tlink x ?y s) (ins_by ?P x qs)"
    using Timer_Add_eq(2) [OF q x refl] sorted_ins_before [OF so] ok le never by (auto simp: timers_ok_def f)
  then show "\<exists>y as bs. Timer_Add x s = Some (tlink x y s) \<and> qs = as @ bs \<and> timers_ok (tlink x y s) (as @ x # bs)"
    using Timer_Add_eq(1) [OF q x refl] ins_by_split by metis
  assume "tD s x = CN_TIMER_ALARMNEVER"
  then show "Timer_AddLast x s = Some (tlink x 0 s) \<and> timers_ok (tlink x 0 s) (qs @ [x])"
    using Timer_AddLast_eq [OF q x] so ok by (auto simp: timers_ok_def f sorted_append)
qed

text \<open>Taking a timer out of the queue and giving it another deadline keeps the rest in order.\<close>

lemma unqueue:
  assumes ok: "timers_ok s (as @ x # bs)"
  shows "Timer_Remove x s = Some (tunlink x s)" and "timers_ok (tunlink x s) (as @ bs)"
    and "x \<notin> set (0 # as @ bs)"
    and "timers_ok (updt (\<lambda>t. t\<lparr>t_deadline := d\<rparr>) x (tunlink x s)) (as @ bs)"
proof -
  have q: "tq s (as @ x # bs)" using ok by (simp add: timers_ok_def)
  show "Timer_Remove x s = Some (tunlink x s)" using Timer_Remove_eq [OF q] by simp
  show x: "x \<notin> set (0 # as @ bs)" using tq_distinct [OF q] by auto
  have tS: "tS (updt (\<lambda>t. t\<lparr>t_deadline := d\<rparr>) x (tunlink x s)) = tS s" "tS (tunlink x s) = tS s"
    by (auto simp: tunlink_def tview_defs)
  show ok': "timers_ok (tunlink x s) (as @ bs)"
    using ok tq_unlink [OF q] by (auto simp: timers_ok_def tS sorted_append)
  moreover have "map ((tD s)(x := d)) (as @ bs) = map (tD s) (as @ bs)" using x by auto
  moreover have "tq (updt (\<lambda>t. t\<lparr>t_deadline := d\<rparr>) x (tunlink x s)) (as @ bs) = tq (tunlink x s) (as @ bs)"
    by (simp add: tq_def)
  ultimately show "timers_ok (updt (\<lambda>t. t\<lparr>t_deadline := d\<rparr>) x (tunlink x s)) (as @ bs)"
    using x by (auto simp: timers_ok_def tS)
qed

lemma expire_ok:
  assumes ok: "timers_ok s (x # qs)" and en: "counting s x"
    and d: "d = (if reloads s x then now + uint (tC s x) else CN_TIMER_ALARMNEVER)" "d \<le> CN_TIMER_ALARMNEVER"
  shows "\<exists>s' as bs. expire x now s = Some s' \<and> qs = as @ bs \<and> timers_ok s' (as @ x # bs) \<and>
    tD s' = (tD s)(x := d) \<and> tframe s s' \<and> clk_reads s' = clk_reads s \<and> tcalls s' = tcalls s @ run_calls s [x]"
proof -
  define s1 where "s1 = updt (\<lambda>t. t\<lparr>t_deadline := d\<rparr>) x (tunlink x s)"
  have s1e: "reloads s x \<Longrightarrow> updt (\<lambda>t. t\<lparr>t_deadline := now + uint (tC s x)\<rparr>) x (tunlink x s) = s1"
    "\<not> reloads s x \<Longrightarrow> updt (\<lambda>t. t\<lparr>t_deadline := CN_TIMER_ALARMNEVER\<rparr>) x (tunlink x s) = s1"
    using d(1) by (simp_all add: s1_def)
  note U = unqueue [of s "[]" x qs, simplified, OF ok]
  have x: "x \<notin> set (0 # qs)" "x \<noteq> 0" using U(3) by auto
  have fr: "tframe s s1" using tframe_trans [OF tlink_fields(4) updt_deadline(4)] by (simp add: s1_def)
  have D: "tD s1 = (tD s)(x := d)" by (simp add: s1_def)
  have ok1: "timers_ok s1 qs" using U(4) by (simp add: s1_def)
  have st: "tS (tunlink x s) = tS s" "tC (tunlink x s) = tC s" by (simp_all add: tunlink_def)
  have en1: "counting s1 x" using en fr by (simp add: tframe_def)
  obtain y as bs where l: "qs = as @ bs" "timers_ok (tlink x y s1) (as @ x # bs)"
    and a: "(if reloads s x then Timer_Add x s1 else Timer_AddLast x s1) = Some (tlink x y s1)"
  proof (cases "reloads s x")
    case True
    then show ?thesis using requeue(1) [OF ok1 x(1)] D d(2) en1 that by auto
  next
    case False
    then show ?thesis using requeue(2) [OF ok1 x(1)] D d en1 that [of qs "[]" 0] by auto
  qed
  define s2 where "s2 = tlink x y s1"
  define s' where "s' = (if tI s x \<noteq> 0 then note_call (Run_isr (tI s x) x) s2 else s2)"
  have fr2: "tframe s s2" using tframe_trans [OF fr] by (simp add: s2_def)
  have "Timer_ExeAlarmHandler x s2 = Some (True, s')"
    using x(2) fr2 by (simp add: Timer_ExeAlarmHandler_def timer_access s'_def tframe_def)
  then have "expire x now s = Some s'"
    using U(1) x(2) a s1e by (simp add: expire_def timer_access st s2_def split: if_splits)
  moreover have "timers_ok s' (as @ x # bs)"
    using l(2) by (simp add: s'_def s2_def)
  moreover have "tframe s s'" using tframe_trans [OF fr2] fr2 by (simp add: s'_def)
  ultimately show ?thesis using l(1) D
    by (intro exI [of _ s'] exI [of _ as] exI [of _ bs]) (simp add: s'_def s2_def s1_def run_calls_def)
qed

section \<open>The timers that are due\<close>

text \<open>
  While the timers are dealt with the clock shows moments between \<open>t0\<close> and \<open>t0 + e\<close>.  A cycle is
  longer than that by the precision of the timers, so that a timer that has fired is not due again.
\<close>

definition clock_within :: "s64 \<Rightarrow> s64 \<Rightarrow> tmrst \<Rightarrow> bool" where
  "clock_within t0 e s \<longleftrightarrow> (\<forall>n \<ge> clk_reads s. t0 \<le> clk s n \<and> clk s n \<le> t0 + e)"

definition cycles_ok :: "s64 \<Rightarrow> tmrst \<Rightarrow> nat list \<Rightarrow> bool" where
  "cycles_ok e s xs \<longleftrightarrow> (\<forall>x \<in> set xs. reloads s x \<longrightarrow> e + uint (s_u32TimerPrecision s) \<le> uint (tC s x))"

text \<open>The deadline that a timer has after it fired at some moment of that time.\<close>

definition refired :: "s64 \<Rightarrow> s64 \<Rightarrow> tmrst \<Rightarrow> nat \<Rightarrow> s64 \<Rightarrow> bool" where
  "refired t0 e s x d \<longleftrightarrow>
     (if reloads s x then t0 + uint (tC s x) \<le> d \<and> d \<le> t0 + e + uint (tC s x) else d = CN_TIMER_ALARMNEVER)"

text \<open>
  How long to wait: for ever when no timer counts at the head of the queue, else from the last
  reading of the clock up to its deadline.
\<close>

definition wait_of :: "tmrst \<Rightarrow> nat list \<Rightarrow> u32" where
  "wait_of s qs = (if qs = [] \<or> \<not> counting s (hd qs) then WAIT_FOREVER
     else word_of_int (tD s (hd qs) - clk s (clk_reads s - 1)))"

text \<open>The loop stops at the head of the queue.\<close>

lemma precision_bound: "0 \<le> uint (s_u32TimerPrecision s)" "uint (s_u32TimerPrecision s) < 2 ^ 32"
  using uint_lt2p [of "s_u32TimerPrecision s"] by simp_all

lemma deal_stop:
  assumes ok: "timers_ok s qs" and c: "t0 \<le> clk s (clk_reads s)" and big: "t0 + 2 ^ 33 \<le> CN_TIMER_ALARMNEVER"
    and stop: "qs = [] \<or> \<not> counting s (hd qs) \<or> clk s (clk_reads s) \<le> tD s (hd qs) - uint (s_u32TimerPrecision s)"
  shows "\<exists>w s'. deal_loop (tlN s 0) s = Some (w, s') \<and> timers_ok s' qs \<and> tcalls s' = tcalls s \<and> tframe s s' \<and>
    tD s' = tD s \<and> (\<forall>x \<in> set qs. t0 \<le> tD s x - uint (s_u32TimerPrecision s)) \<and>
    w = wait_of s' qs \<and> clk_reads s \<le> clk_reads s'"
proof (cases qs)
  case Nil
  then show ?thesis using ok tq_head [of s qs]
    by (simp add: timers_ok_def deal_loop.simps [of 0] tframe_def wait_of_def)
next
  case (Cons x r)
  have h: "tlN s 0 = x" "x \<noteq> 0" using ok Cons tq_head [of s qs] tq_distinct [of s qs] by (auto simp: timers_ok_def)
  have le: "tD s x \<le> tD s y" if "y \<in> set qs" for y using that ok Cons by (auto simp: timers_ok_def)
  show ?thesis
  proof (cases "counting s x")
    case False
    then have "tD s x = CN_TIMER_ALARMNEVER" using ok Cons by (auto simp: timers_ok_def)
    then have "\<forall>y \<in> set qs. t0 \<le> tD s y - uint (s_u32TimerPrecision s)"
      using le big precision_bound [of s] by fastforce
    then show ?thesis using False h ok
      by (intro exI [of _ WAIT_FOREVER] exI [of _ s]) (simp add: deal_loop.simps [of x] timer_access tframe_def wait_of_def Cons)
  next
    case True
    obtain now s1 where rc: "read_clock s = (now, s1)" by (cases "read_clock s")
    note R = read_clock_fields [OF rc]
    have nd: "now \<le> tD s x - uint (s_u32TimerPrecision s)" using stop Cons True R(1) by simp
    then have g: "\<forall>y \<in> set qs. t0 \<le> tD s y - uint (s_u32TimerPrecision s)" using le c R(1) by fastforce
    have "deal_loop x s = Some (word_of_int (tD s x - now), s1)"
      using h(2) True nd R(3,4) by (subst deal_loop.simps) (simp add: timer_access rc Timer_ChkTimeout_def tframe_def)
    then show ?thesis using g h(1) R ok Cons True
      by (intro exI [of _ "word_of_int (tD s x - now)"] exI [of _ s1]) (simp add: tframe_def wait_of_def)
  qed
qed

text \<open>One turn of the loop, whatever the rest of the loop does.\<close>

definition deal_body :: "(nat \<Rightarrow> tmrst \<Rightarrow> (u32 \<times> tmrst) option) \<Rightarrow> nat \<Rightarrow> tmrst \<Rightarrow> (u32 \<times> tmrst) option" where
  "deal_body f timer s =
     (if timer = 0 then Some (WAIT_FOREVER, s)
      else do {
        st \<leftarrow> rtm t_stat timer s;
        if st AND CN_TIMER_ENCOUNT \<noteq> 0 then do {
          let (timenow, s) = read_clock s;
          due \<leftarrow> Timer_ChkTimeout timer timenow s;
          if due then do { s \<leftarrow> expire timer timenow s; f (ptTimerHead s) s }
          else do { d \<leftarrow> rtm t_deadline timer s; Some (word_of_int (d - timenow), s) } }
        else Some (WAIT_FOREVER, s) })"

lemma deal_loop_body: "deal_loop timer s = deal_body deal_loop timer s"
  by (subst deal_loop.simps) (simp add: deal_body_def)

lemma deal_turn:
  assumes ok: "timers_ok s (x # r)" and c: "clk s (clk_reads s) \<le> t0 + e" "t0 \<le> clk s (clk_reads s)" and e: "0 \<le> e"
    and big: "t0 + e + 2 ^ 33 \<le> CN_TIMER_ALARMNEVER"
    and due: "counting s x" "tD s x - uint (s_u32TimerPrecision s) < clk s (clk_reads s)"
  shows "\<exists>s' as bs d. (\<forall>f. deal_body f (tlN s 0) s = f (tlN s' 0) s') \<and> r = as @ bs \<and> timers_ok s' (as @ x # bs) \<and>
    tD s' = (tD s)(x := d) \<and> refired t0 e s x d \<and> tframe s s' \<and> clk_reads s' = Suc (clk_reads s) \<and>
    tcalls s' = tcalls s @ run_calls s [x]"
proof -
  obtain now s1 where rc: "read_clock s = (now, s1)" by (cases "read_clock s")
  note R = read_clock_fields [OF rc]
  have h: "tlN s 0 = x" "x \<noteq> 0" using ok tq_head [of s "x # r"] tq_distinct [of s "x # r"] by (auto simp: timers_ok_def)
  define d where "d = (if reloads s1 x then now + uint (tC s1 x) else CN_TIMER_ALARMNEVER)"
  have "uint (tC s1 x) < 2 ^ 32" using uint_lt2p [of "tC s1 x"] by simp
  then have le: "d \<le> CN_TIMER_ALARMNEVER" using c R(1) big by (simp add: d_def)
  have en: "counting s1 x" using due(1) R(4) by (simp add: tframe_def)
  obtain s' as bs where s': "expire x now s1 = Some s'" "r = as @ bs" "timers_ok s' (as @ x # bs)"
    "tD s' = (tD s1)(x := d)" "tframe s1 s'" "clk_reads s' = clk_reads s1" "tcalls s' = tcalls s1 @ run_calls s1 [x]"
    using expire_ok [of s1 x r d now] ok R(6) en le d_def by blast
  have "deal_body f x s = f (tlN s' 0) s'" for f
    using h(2) due R(1,3,4) s'(1)
    by (simp add: deal_body_def timer_access rc Timer_ChkTimeout_def tframe_def head_tail_links)
  moreover have "refired t0 e s x d" using c R(1,4) by (simp add: refired_def d_def tframe_def)
  ultimately show ?thesis
    using s' h(1) R tframe_trans [OF R(4) s'(5)] run_calls_frame [OF R(4)] by (intro exI [of _ s'] exI [of _ as] exI [of _ bs] exI [of _ d]) simp
qed

text \<open>Nothing fires when the loop stops at once.\<close>

lemma deal_none:
  assumes "\<exists>w s'. L = Some (w, s') \<and> timers_ok s' qs \<and> tcalls s' = tcalls s \<and> tframe s s' \<and> tD s' = tD s \<and>
      (\<forall>x \<in> set qs. t0 \<le> tD s x - pr) \<and> w = wait_of s' qs \<and> clk_reads s \<le> clk_reads s'"
    and "set us \<subseteq> set qs"
  shows "\<exists>w s' qs' fs rs. L = Some (w, s') \<and> timers_ok s' qs' \<and> set qs' = set qs \<and> us = fs @ rs \<and>
    tcalls s' = tcalls s @ run_calls s fs \<and> tframe s s' \<and>
    (\<forall>x \<in> set fs. counting s x \<and> tD s x - pr < t1 \<and> refired t0 e s x (tD s' x)) \<and>
    (\<forall>x. x \<notin> set fs \<longrightarrow> tD s' x = tD s x) \<and> (\<forall>x \<in> set rs. t0 \<le> tD s x - pr) \<and>
    w = wait_of s' qs' \<and> clk_reads s \<le> clk_reads s'"
proof -
  obtain w s' where s': "L = Some (w, s')" "timers_ok s' qs" "tcalls s' = tcalls s" "tframe s s'" "tD s' = tD s"
    "\<forall>x \<in> set qs. t0 \<le> tD s x - pr" "w = wait_of s' qs" "clk_reads s \<le> clk_reads s'"
    using assms(1) by blast
  then show ?thesis using assms(2)
    by (intro exI [of _ w] exI [of _ s'] exI [of _ qs] exI [of _ "[]"] exI [of _ us]) auto
qed

lemma deal_loop_ok:
  assumes "timers_ok s qs" and "clock_within t0 e s" and "cycles_ok e s qs" and "0 \<le> e"
    and "t0 + e + 2 ^ 33 \<le> CN_TIMER_ALARMNEVER" and "us = filter (\<lambda>x. x \<notin> F) qs"
    and "\<And>x. x \<in> F \<Longrightarrow> x \<in> set qs \<Longrightarrow> t0 + e + uint (s_u32TimerPrecision s) \<le> tD s x"
  shows "\<exists>w s' qs' fs rs. deal_loop (tlN s 0) s = Some (w, s') \<and> timers_ok s' qs' \<and> set qs' = set qs \<and>
    us = fs @ rs \<and> tcalls s' = tcalls s @ run_calls s fs \<and> tframe s s' \<and>
    (\<forall>x \<in> set fs. counting s x \<and> tD s x - uint (s_u32TimerPrecision s) < t0 + e \<and> refired t0 e s x (tD s' x)) \<and>
    (\<forall>x. x \<notin> set fs \<longrightarrow> tD s' x = tD s x) \<and>
    (\<forall>x \<in> set rs. t0 \<le> tD s x - uint (s_u32TimerPrecision s)) \<and>
    w = wait_of s' qs' \<and> clk_reads s \<le> clk_reads s'"
  using assms
proof (induction us arbitrary: s qs F)
  case (Cons u us)
  let ?pr = "uint (s_u32TimerPrecision s)"
  have c: "t0 \<le> clk s (clk_reads s)" "clk s (clk_reads s) \<le> t0 + e" using Cons.prems(2) by (simp_all add: clock_within_def)
  show ?case
  proof (cases "\<not> counting s (hd qs) \<or> clk s (clk_reads s) \<le> tD s (hd qs) - ?pr")
    case True
    have "set (u # us) \<subseteq> set qs" using Cons.prems(6) by (metis filter_is_subset)
    then show ?thesis using deal_stop [of s qs t0] Cons.prems(1,4,5) c(1) True by (intro deal_none) auto
  next
    case False
    then obtain x r where qs: "qs = x # r" using Cons.prems(6) by (cases qs) auto
    have due: "counting s x" "tD s x - ?pr < clk s (clk_reads s)" using False qs by auto
    then have "x \<notin> F" using Cons.prems(7) [of x] c qs by fastforce
    then have u: "u = x" and us: "us = filter (\<lambda>x. x \<notin> F) r" using Cons.prems(6) qs by auto
    obtain s' as bs d where s': "\<forall>f. deal_body f (tlN s 0) s = f (tlN s' 0) s'" "r = as @ bs"
      "timers_ok s' (as @ x # bs)" "tD s' = (tD s)(x := d)" "refired t0 e s x d" "tframe s s'"
      "clk_reads s' = Suc (clk_reads s)" "tcalls s' = tcalls s @ run_calls s [x]"
      using deal_turn [OF _ c(2,1) Cons.prems(4,5) due] Cons.prems(1) qs by blast
    have S: "reloads s' y = reloads s y" "counting s' y = counting s y" "tC s' = tC s"
      "s_u32TimerPrecision s' = s_u32TimerPrecision s" "clk s' = clk s" "refired t0 e s' y v = refired t0 e s y v" for y v
      using s'(6) by (simp_all add: tframe_def refired_def)
    have dist: "x \<notin> set r" "distinct r" using Cons.prems(1) qs tq_distinct [of s "x # r"] by (simp_all add: timers_ok_def)
    have xus: "x \<notin> set us" using us dist by simp
    have d: "t0 + e + ?pr \<le> d" using s'(5) Cons.prems(3,5) qs precision_bound [of s]
      by (auto simp: refired_def cycles_ok_def split: if_splits)
    have "\<exists>w s'' qs' fs rs. deal_loop (tlN s' 0) s' = Some (w, s'') \<and> timers_ok s'' qs' \<and> set qs' = set (as @ x # bs) \<and>
      us = fs @ rs \<and> tcalls s'' = tcalls s' @ run_calls s' fs \<and> tframe s' s'' \<and>
      (\<forall>x \<in> set fs. counting s' x \<and> tD s' x - uint (s_u32TimerPrecision s') < t0 + e \<and> refired t0 e s' x (tD s'' x)) \<and>
      (\<forall>x. x \<notin> set fs \<longrightarrow> tD s'' x = tD s' x) \<and>
      (\<forall>x \<in> set rs. t0 \<le> tD s' x - uint (s_u32TimerPrecision s')) \<and>
      w = wait_of s'' qs' \<and> clk_reads s' \<le> clk_reads s''"
    proof (rule Cons.IH [of s' "as @ x # bs" "insert x F"])
      show "clock_within t0 e s'" using Cons.prems(2) s'(7) by (simp add: clock_within_def S)
      show "cycles_ok e s' (as @ x # bs)" using Cons.prems(3) qs s'(2) by (auto simp: cycles_ok_def S)
      show "us = filter (\<lambda>x'. x' \<notin> insert x F) (as @ x # bs)"
      proof -
        have "filter (\<lambda>x'. x' \<notin> insert x F) r = filter (\<lambda>x'. x' \<notin> F) r" using dist(1) by (intro filter_cong) auto
        then show ?thesis using us s'(2) by simp
      qed
      show "t0 + e + uint (s_u32TimerPrecision s') \<le> tD s' y" if "y \<in> insert x F" "y \<in> set (as @ x # bs)" for y
        using that d Cons.prems(7) [of y] qs s'(2,4) by (auto simp: S)
    qed (use s'(3) Cons.prems(4,5) in simp_all)
    then obtain w s'' qs' fs rs where I: "deal_loop (tlN s' 0) s' = Some (w, s'')" "timers_ok s'' qs'"
      "set qs' = set (as @ x # bs)" "us = fs @ rs" "tcalls s'' = tcalls s' @ run_calls s' fs" "tframe s' s''"
      "\<forall>x \<in> set fs. counting s' x \<and> tD s' x - uint (s_u32TimerPrecision s') < t0 + e \<and> refired t0 e s' x (tD s'' x)"
      "\<forall>x. x \<notin> set fs \<longrightarrow> tD s'' x = tD s' x" "\<forall>x \<in> set rs. t0 \<le> tD s' x - uint (s_u32TimerPrecision s')"
      "w = wait_of s'' qs'" "clk_reads s' \<le> clk_reads s''"
      by (elim exE conjE) (rule that)
    have xf: "x \<notin> set fs" "x \<notin> set rs" using xus I(4) by auto
    have same: "tD s' y = tD s y" if "y \<noteq> x" for y using that s'(4) by simp
    have fired: "counting s y \<and> tD s y - ?pr < t0 + e \<and> refired t0 e s y (tD s'' y)" if "y \<in> set (x # fs)" for y
    proof (cases "y = x")
      case True
      then show ?thesis using due c s'(4,5) I(8) xf by simp
    next
      case False
      then have f: "y \<in> set fs" using that by simp
      show ?thesis using bspec [OF I(7) f] same [OF False] by (simp add: S)
    qed
    have "\<forall>y. y \<notin> set (x # fs) \<longrightarrow> tD s'' y = tD s y" using I(8) same by simp
    moreover have "\<forall>y \<in> set rs. t0 \<le> tD s y - ?pr" using I(9) same xf(2) by (metis S(4))
    moreover have "tcalls s'' = tcalls s @ run_calls s (x # fs)"
      using I(5) s'(8) run_calls_frame [OF s'(6)] run_calls_Cons [of s x fs] by simp
    moreover have "deal_loop (tlN s 0) s = Some (w, s'')" using s'(1) I(1) by (simp add: deal_loop_body [of "tlN s 0"])
    moreover have "set qs' = set qs" using I(3) qs s'(2) by auto
    moreover have "u # us = (x # fs) @ rs" using u I(4) by simp
    moreover have "tframe s s''" by (rule tframe_trans [OF s'(6) I(6)])
    moreover have "\<forall>y \<in> set (x # fs). counting s y \<and> tD s y - ?pr < t0 + e \<and> refired t0 e s y (tD s'' y)"
      using fired by blast
    moreover have "clk_reads s \<le> clk_reads s''" using I(11) s'(7) by simp
    ultimately show ?thesis using I(2,10)
      by (intro exI [of _ w] exI [of _ s''] exI [of _ qs'] exI [of _ "x # fs"] exI [of _ rs] conjI)
  qed
next
  case Nil
  have c: "t0 \<le> clk s (clk_reads s)" "clk s (clk_reads s) \<le> t0 + e" using Nil.prems(2) by (simp_all add: clock_within_def)
  have "clk s (clk_reads s) \<le> tD s x - uint (s_u32TimerPrecision s)" if "x \<in> set qs" for x
    using Nil.prems(6,7) that c by (metis (mono_tags, lifting) empty_filter_conv add_le_imp_le_diff order_trans)
  then have "qs = [] \<or> clk s (clk_reads s) \<le> tD s (hd qs) - uint (s_u32TimerPrecision s)" by (cases qs) auto
  then show ?case using deal_stop [of s qs t0] Nil.prems(1,4,5) c(1) by (intro deal_none) auto
qed

section \<open>Commands\<close>

text \<open>A timer whose flags or deadline have changed is taken out and put where it belongs.\<close>

lemma move_timer:
  assumes ok: "timers_ok s (as @ x # bs)" and l: "tlN s1 = tlN s" "tlP s1 = tlP s"
    and other: "\<forall>y. y \<noteq> x \<longrightarrow> tD s1 y = tD s y \<and> tS s1 y = tS s y"
    and le: "tD s1 x \<le> CN_TIMER_ALARMNEVER" and never: "\<not> counting s1 x \<longrightarrow> tD s1 x = CN_TIMER_ALARMNEVER"
  shows "Timer_Remove x s1 = Some (tunlink x s1)"
    and "\<exists>s' ys. Timer_Add x (tunlink x s1) = Some s' \<and> timers_ok s' ys \<and> set ys = set (as @ x # bs) \<and>
         tframe s1 s' \<and> clk_reads s' = clk_reads s1 \<and> tD s' = tD s1 \<and> tcalls s' = tcalls s1"
    and "tD s1 x = CN_TIMER_ALARMNEVER \<Longrightarrow> \<exists>s' ys. Timer_AddLast x (tunlink x s1) = Some s' \<and> timers_ok s' ys \<and>
         set ys = set (as @ x # bs) \<and> tframe s1 s' \<and> clk_reads s' = clk_reads s1 \<and> tD s' = tD s1 \<and> tcalls s' = tcalls s1"
proof -
  have q: "tq s1 (as @ x # bs)" using ok l by (simp add: timers_ok_def tq_def)
  show "Timer_Remove x s1 = Some (tunlink x s1)" using Timer_Remove_eq [OF q] by simp
  have x: "x \<notin> set (0 # as @ bs)" using tq_distinct [OF q] by auto
  have e: "y \<noteq> x" if "y \<in> set (as @ bs)" for y using that x by auto
  have m: "map (tD s1) (as @ bs) = map (tD s) (as @ bs)" using other e by (simp only: map_eq_conv) blast
  have tS: "tS (tunlink x s1) = tS s1" by (simp add: tunlink_def)
  have so: "sorted (map (tD s1) (as @ bs))" unfolding m using ok by (auto simp: timers_ok_def sorted_append)
  have b: "\<forall>y \<in> set (as @ bs). tD s1 y \<le> CN_TIMER_ALARMNEVER \<and> (\<not> counting s1 y \<longrightarrow> tD s1 y = CN_TIMER_ALARMNEVER)"
    using ok other e unfolding timers_ok_def by fastforce
  have ok1: "timers_ok (tunlink x s1) (as @ bs)" using tq_unlink [OF q] so b by (simp add: timers_ok_def tS)
  have le': "tD (tunlink x s1) x \<le> CN_TIMER_ALARMNEVER"
    and never': "\<not> counting (tunlink x s1) x \<Longrightarrow> tD (tunlink x s1) x = CN_TIMER_ALARMNEVER"
    using le never by (simp_all add: tS)
  have fr: "tframe s1 (tlink x y (tunlink x s1))" for y by (rule tframe_trans [OF tlink_fields(4) tlink_fields(3)])
  obtain y as' bs' where a: "Timer_Add x (tunlink x s1) = Some (tlink x y (tunlink x s1))" "as @ bs = as' @ bs'"
    "timers_ok (tlink x y (tunlink x s1)) (as' @ x # bs')"
    using requeue(1) [OF ok1 x le' never'] by blast
  have "set (as' @ x # bs') = insert x (set (as @ bs))" unfolding a(2) by simp
  then show "\<exists>s' ys. Timer_Add x (tunlink x s1) = Some s' \<and> timers_ok s' ys \<and> set ys = set (as @ x # bs) \<and>
         tframe s1 s' \<and> clk_reads s' = clk_reads s1 \<and> tD s' = tD s1 \<and> tcalls s' = tcalls s1"
    using a(1,3) fr [of y] by (intro exI [of _ "tlink x y (tunlink x s1)"] exI [of _ "as' @ x # bs'"]) auto
  assume "tD s1 x = CN_TIMER_ALARMNEVER"
  then show "\<exists>s' ys. Timer_AddLast x (tunlink x s1) = Some s' \<and> timers_ok s' ys \<and>
         set ys = set (as @ x # bs) \<and> tframe s1 s' \<and> clk_reads s' = clk_reads s1 \<and> tD s' = tD s1 \<and> tcalls s' = tcalls s1"
    using requeue(2) [OF ok1 x le' never'] fr [of 0]
    by (intro exI [of _ "tlink x 0 (tunlink x s1)"] exI [of _ "(as @ bs) @ [x]"]) auto
qed

lemma flag_bits [simp]:
  fixes w :: u32
  shows "(w OR 1) AND 1 = 1" "(w OR 1) AND 8 = w AND 8" "(w AND NOT 1) AND 1 = 0" "(w AND NOT 1) AND 8 = w AND 8"
    "(w OR 8) AND 1 = w AND 1" "(w OR 8) AND 8 = 8" "(w AND NOT 8) AND 1 = w AND 1" "(w AND NOT 8) AND 8 = 0"
proof -
  have e: "(8::u32) AND 1 = 0" "(1::u32) AND 8 = 0" by simp_all
  have n: "NOT 1 AND (8::u32) = 8" "NOT 8 AND (1::u32) = 1" by simp_all
  show "(w OR 1) AND 1 = 1" "(w OR 1) AND 8 = w AND 8" "(w OR 8) AND 1 = w AND 1" "(w OR 8) AND 8 = 8"
    by (simp_all only: bit.conj_disj_distrib2 e) (simp_all add: and.commute or.commute)
  show "(w AND NOT 1) AND 1 = 0" "(w AND NOT 1) AND 8 = w AND 8" "(w AND NOT 8) AND 1 = w AND 1" "(w AND NOT 8) AND 8 = 0"
    by (simp_all only: and.assoc n) simp_all
qed

text \<open>What a command does to the timer it is given, in terms of its flags, its cycle and its deadline.\<close>

definition acmd :: "timer_op \<Rightarrow> u32 \<Rightarrow> s64 \<Rightarrow> u32 \<times> u32 \<times> s64 \<Rightarrow> u32 \<times> u32 \<times> s64" where
  "acmd opn para now v = (case v of (st, cy, dl) \<Rightarrow>
     (case opn of
        EN_TIMER_SOFT_START \<Rightarrow> if st AND 1 = 0 then (st OR 1, cy, now + uint cy) else v
      | EN_TIMER_SOFT_PAUSE \<Rightarrow> if st AND 1 \<noteq> 0 then (st AND NOT 1, cy, CN_TIMER_ALARMNEVER) else v
      | EN_TIMER_SOFT_SETCYCLE \<Rightarrow> (st, para, if st AND 1 \<noteq> 0 then now + uint para else dl)
      | EN_TIMER_SOFT_SETRELOAD \<Rightarrow> (if para \<noteq> 0 then st OR 8 else st AND NOT 8, cy, dl)
      | _ \<Rightarrow> v))"

definition tview :: "tmrst \<Rightarrow> nat \<Rightarrow> u32 \<times> u32 \<times> s64" where "tview s x = (tS s x, tC s x, tD s x)"

definition is_cmd :: "timer_op \<Rightarrow> bool" where
  "is_cmd opn \<longleftrightarrow> opn \<in> {EN_TIMER_SOFT_START, EN_TIMER_SOFT_PAUSE, EN_TIMER_SOFT_SETCYCLE, EN_TIMER_SOFT_SETRELOAD}"

text \<open>The rest of the state: the clock has only gone on.\<close>

definition tenv :: "tmrst \<Rightarrow> tmrst \<Rightarrow> bool" where
  "tenv s s' \<longleftrightarrow> clk s' = clk s \<and> clk_reads s \<le> clk_reads s' \<and> s_u32TimerPrecision s' = s_u32TimerPrecision s \<and>
     ptTimerMsgQ s' = ptTimerMsgQ s \<and> sbUsingHardTimer s' = sbUsingHardTimer s \<and> tcalls s' = tcalls s \<and> tI s' = tI s"

definition links_kept :: "(tagTimer \<Rightarrow> tagTimer) \<Rightarrow> bool" where
  "links_kept f \<longleftrightarrow> (\<forall>t. t_nxt (f t) = t_nxt t \<and> t_pre (f t) = t_pre t \<and> t_isr (f t) = t_isr t)"

lemma updt_view:
  assumes "links_kept f"
  shows "tlN (updt f x s) = tlN s" "tlP (updt f x s) = tlP s" "tenv s (updt f x s)"
    "y \<noteq> x \<Longrightarrow> tview (updt f x s) y = tview s y"
    "tview (updt f x s) x = (t_stat (f (tmrs s x)), t_cycle (f (tmrs s x)), t_deadline (f (tmrs s x)))"
  using assms by (auto simp: links_kept_def tview_def tenv_def tview_defs fun_eq_iff)

lemma updt_updt: "updt g x (updt f x s) = updt (\<lambda>t. g (f t)) x s"
  by (simp add: updt_def)

lemma moved_view:
  assumes "tframe s1 s'" and "tD s' = tD s1" and "tcalls s' = tcalls s1" and "clk_reads s' = clk_reads s1"
  shows "tview s' = tview s1" and "tenv s1 s'"
  using assms by (auto simp: tview_def tframe_def tenv_def fun_eq_iff)

text \<open>Every command is a change of the timer, followed by finding its new place when it counts.\<close>

lemma change_and_move:
  assumes ok: "timers_ok s xs" and x: "x \<in> set xs" and f: "links_kept f"
    and v: "(t_stat (f (tmrs s x)), t_cycle (f (tmrs s x)), t_deadline (f (tmrs s x))) = (st, cy, dl)"
    and le: "dl \<le> CN_TIMER_ALARMNEVER" "st AND 1 = 0 \<Longrightarrow> dl = CN_TIMER_ALARMNEVER"
  shows "Timer_Remove x (updt f x s) = Some (tunlink x (updt f x s))"
    and "\<exists>s' ys. Timer_Add x (tunlink x (updt f x s)) = Some s' \<and> timers_ok s' ys \<and> set ys = set xs \<and>
         tview s' x = (st, cy, dl) \<and> (\<forall>y. y \<noteq> x \<longrightarrow> tview s' y = tview s y) \<and> tenv s s'"
    and "dl = CN_TIMER_ALARMNEVER \<Longrightarrow> \<exists>s' ys. Timer_AddLast x (tunlink x (updt f x s)) = Some s' \<and> timers_ok s' ys \<and>
         set ys = set xs \<and> tview s' x = (st, cy, dl) \<and> (\<forall>y. y \<noteq> x \<longrightarrow> tview s' y = tview s y) \<and> tenv s s'"
proof -
  let ?s = "updt f x s"
  note V = updt_view [OF f]
  obtain as bs where xs: "xs = as @ x # bs" using x by (meson split_list)
  have o: "\<forall>y. y \<noteq> x \<longrightarrow> tD ?s y = tD s y \<and> tS ?s y = tS s y" using V(4) by (auto simp: tview_def)
  have n: "tD ?s x = dl" "tS ?s x = st" using V(5) [where x = x and s = s] v by (simp_all add: tview_def)
  have ok': "timers_ok s (as @ x # bs)" using ok xs by simp
  have le': "tD ?s x \<le> CN_TIMER_ALARMNEVER" "\<not> counting ?s x \<longrightarrow> tD ?s x = CN_TIMER_ALARMNEVER" using le n by auto
  note M = move_timer [OF ok' V(1,2) o le', folded xs]
  have tr: "tenv s s'" if "tenv ?s s'" for s' using V(3) [where x = x and s = s] that by (auto simp: tenv_def)
  show "Timer_Remove x ?s = Some (tunlink x ?s)" by (rule M(1)) 
  obtain s' ys where s': "Timer_Add x (tunlink x ?s) = Some s'" "timers_ok s' ys" "set ys = set xs"
    "tframe ?s s'" "clk_reads s' = clk_reads ?s" "tD s' = tD ?s" "tcalls s' = tcalls ?s" using M(2) by blast
  note mv = moved_view [OF s'(4,6,7,5)]
  show "\<exists>s' ys. Timer_Add x (tunlink x ?s) = Some s' \<and> timers_ok s' ys \<and> set ys = set xs \<and>
         tview s' x = (st, cy, dl) \<and> (\<forall>y. y \<noteq> x \<longrightarrow> tview s' y = tview s y) \<and> tenv s s'"
    using s'(1-3) mv(1) tr [OF mv(2)] V(4,5) v by auto
  assume "dl = CN_TIMER_ALARMNEVER"
  then obtain s' ys where s': "Timer_AddLast x (tunlink x ?s) = Some s'" "timers_ok s' ys" "set ys = set xs"
    "tframe ?s s'" "clk_reads s' = clk_reads ?s" "tD s' = tD ?s" "tcalls s' = tcalls ?s" using M(3) n by blast
  note mv = moved_view [OF s'(4,6,7,5)]
  show "\<exists>s' ys. Timer_AddLast x (tunlink x ?s) = Some s' \<and> timers_ok s' ys \<and> set ys = set xs \<and>
         tview s' x = (st, cy, dl) \<and> (\<forall>y. y \<noteq> x \<longrightarrow> tview s' y = tview s y) \<and> tenv s s'"
    using s'(1-3) mv(1) tr [OF mv(2)] V(4,5) v by auto
qed

lemma flag_bits_neg [simp]:
  fixes w :: u32
  shows "(w AND - 2) AND 1 = 0" "(w AND - 2) AND 8 = w AND 8" "(w AND - 9) AND 1 = w AND 1" "(w AND - 9) AND 8 = 0"
proof -
  have n: "NOT 1 = (- 2 :: u32)" "NOT 8 = (- 9 :: u32)" by simp_all
  show "(w AND - 2) AND 1 = 0" "(w AND - 2) AND 8 = w AND 8" "(w AND - 9) AND 1 = w AND 1" "(w AND - 9) AND 8 = 0"
    using flag_bits(3,4,7,8) [of w] unfolding n by simp_all
qed

definition clock_read :: "tmrst \<Rightarrow> tmrst" where "clock_read s = s\<lparr>clk_reads := clk_reads s + 1\<rparr>"

lemma clock_read_view [simp]:
  "timers_ok (clock_read s) xs = timers_ok s xs" "tview (clock_read s) = tview s" "tmrs (clock_read s) = tmrs s"
  "tenv s (clock_read s)"
proof -
  have "tS (clock_read s) = tS s" "tD (clock_read s) = tD s" "tlN (clock_read s) = tlN s" "tlP (clock_read s) = tlP s"
    by (auto simp: clock_read_def tview_defs fun_eq_iff)
  then show "timers_ok (clock_read s) xs = timers_ok s xs" by (simp add: timers_ok_def tq_def)
  show "tview (clock_read s) = tview s" "tmrs (clock_read s) = tmrs s" "tenv s (clock_read s)"
    by (auto simp: clock_read_def tview_def tenv_def tview_defs fun_eq_iff)
qed

lemma read_clock_updt: "read_clock (updt f x s) = (clk s (clk_reads s), updt f x (clock_read s))"
  by (simp add: read_clock_def clock_read_def updt_def)

lemma tenv_trans: "tenv a b \<Longrightarrow> tenv b c \<Longrightarrow> tenv a c"
  by (auto simp: tenv_def)

lemma restart_count_ok:
  assumes ok: "timers_ok s xs" and x: "x \<in> set xs" and f: "links_kept f"
    and v: "t_stat (f (tmrs s x)) = st" "t_cycle (f (tmrs s x)) = cy" "st AND 1 \<noteq> 0"
    and now: "now = clk s (clk_reads s)" "now + 2 ^ 32 \<le> CN_TIMER_ALARMNEVER"
  shows "\<exists>s' ys. restart_count x (updt f x s) = Some s' \<and> timers_ok s' ys \<and> set ys = set xs \<and>
         tview s' x = (st, cy, now + uint cy) \<and> (\<forall>y. y \<noteq> x \<longrightarrow> tview s' y = tview s y) \<and> tenv s s'"
proof -
  let ?g = "\<lambda>t. (f t)\<lparr>t_deadline := now + uint cy\<rparr>"
  have x0: "x \<noteq> 0" using ok x tq_distinct [of s xs] unfolding timers_ok_def by metis
  have g: "links_kept ?g" using f by (simp add: links_kept_def)
  have le: "now + uint cy \<le> CN_TIMER_ALARMNEVER" using now(2) uint_lt2p [of cy] by simp
  have okr: "timers_ok (clock_read s) xs" using ok by simp
  have vr: "(t_stat (?g (tmrs (clock_read s) x)), t_cycle (?g (tmrs (clock_read s) x)), t_deadline (?g (tmrs (clock_read s) x)))
      = (st, cy, now + uint cy)" using v by simp
  have imp: "st AND 1 = 0 \<Longrightarrow> now + uint cy = CN_TIMER_ALARMNEVER" using v(3) by simp
  note C = change_and_move [OF okr x g vr le imp]
  have cy: "rtm t_cycle x (updt f x (clock_read s)) = Some cy" using x0 v(2) by (simp add: rtm_def updt_def)
  have w: "wtm (\<lambda>t. t\<lparr>t_deadline := now + uint cy\<rparr>) x (updt f x (clock_read s)) = Some (updt ?g x (clock_read s))"
    using x0 by (simp add: wtm_def updt_updt)
  obtain s' ys where s': "Timer_Add x (tunlink x (updt ?g x (clock_read s))) = Some s'" "timers_ok s' ys" "set ys = set xs"
    "tview s' x = (st, cy, now + uint cy)" "\<forall>y. y \<noteq> x \<longrightarrow> tview s' y = tview s y" "tenv (clock_read s) s'"
    using C(2) by auto
  have "restart_count x (updt f x s) = Some s'"
    using C(1) s'(1) cy w now(1) by (simp add: restart_count_def read_clock_updt)
  then show ?thesis using s' tenv_trans [OF clock_read_view(4) s'(6)] by blast
qed

lemma change_in_place:
  assumes ok: "timers_ok s xs" and f: "links_kept f" and d: "t_deadline (f (tmrs s x)) = t_deadline (tmrs s x)"
    and st: "t_stat (f (tmrs s x)) AND 1 = t_stat (tmrs s x) AND 1"
  shows "timers_ok (updt f x s) xs"
proof -
  have "tD (updt f x s) = tD s" "counting (updt f x s) y = counting s y" for y
    using d st by (auto simp: tview_defs fun_eq_iff)
  then show ?thesis using ok updt_view(1,2) [OF f] by (simp add: timers_ok_def tq_def)
qed

lemma timer_cmd_ok:
  assumes ok: "timers_ok s xs" and x: "x \<in> set xs"
    and now: "now = clk s (clk_reads s)" "now + 2 ^ 32 \<le> CN_TIMER_ALARMNEVER"
  shows "\<exists>s' ys. timer_cmd opn x para s = Some (is_cmd opn, s') \<and> timers_ok s' ys \<and> set ys = set xs \<and>
         tview s' x = acmd opn para now (tview s x) \<and> (\<forall>y. y \<noteq> x \<longrightarrow> tview s' y = tview s y) \<and> tenv s s'"
proof -
  have x0: "x \<noteq> 0" using ok x tq_distinct [of s xs] unfolding timers_ok_def by metis
  have e: "tenv s s" by (simp add: tenv_def)
  have v: "tview s x = (t_stat (tmrs s x), t_cycle (tmrs s x), t_deadline (tmrs s x))" by (simp add: tview_def tview_defs)
  have st: "rtm t_stat x s = Some (t_stat (tmrs s x))" using x0 by (simp add: rtm_def)
  have dl: "t_deadline (tmrs s x) \<le> CN_TIMER_ALARMNEVER" "t_stat (tmrs s x) AND 1 = 0 \<Longrightarrow> t_deadline (tmrs s x) = CN_TIMER_ALARMNEVER"
    using ok x by (auto simp: timers_ok_def tD_def tS_def)
  show ?thesis
  proof (cases opn)
    case EN_TIMER_SOFT_START
    let ?f = "\<lambda>t. t\<lparr>t_stat := t_stat t OR 1\<rparr>"
    show ?thesis
    proof (cases "t_stat (tmrs s x) AND 1 = 0")
      case True
      have "links_kept ?f" by (simp add: links_kept_def)
      from restart_count_ok [OF ok x this refl refl _ now] show ?thesis
        using True EN_TIMER_SOFT_START x0 st by (fastforce simp: is_cmd_def acmd_def v wtm_def and.commute)
    next
      case False
      then show ?thesis using EN_TIMER_SOFT_START st ok e by (auto simp: is_cmd_def acmd_def v and.commute)
    qed
  next
    case EN_TIMER_SOFT_PAUSE
    let ?f = "\<lambda>t. t\<lparr>t_stat := t_stat t AND NOT 1, t_deadline := CN_TIMER_ALARMNEVER\<rparr>"
    show ?thesis
    proof (cases "t_stat (tmrs s x) AND 1 = 0")
      case True
      then show ?thesis using EN_TIMER_SOFT_PAUSE st ok e by (auto simp: is_cmd_def acmd_def v and.commute)
    next
      case False
      have "links_kept ?f" by (simp add: links_kept_def)
      note C = change_and_move [OF ok x this refl]
      from C(1) C(3) show ?thesis
        using False EN_TIMER_SOFT_PAUSE x0 st by (fastforce simp: is_cmd_def acmd_def v wtm_def and.commute)
    qed
  next
    case EN_TIMER_SOFT_SETCYCLE
    let ?f = "\<lambda>t. t\<lparr>t_cycle := para\<rparr>"
    have f: "links_kept ?f" by (simp add: links_kept_def)
    show ?thesis
    proof (cases "t_stat (tmrs s x) AND 1 = 0")
      case True
      have "timers_ok (updt ?f x s) xs" using ok f by (rule change_in_place) simp_all
      then show ?thesis using updt_view [OF f, where x = x and s = s] True EN_TIMER_SOFT_SETCYCLE x0
        by (intro exI [of _ "updt ?f x s"] exI [of _ xs])
           (simp add: is_cmd_def acmd_def v wtm_def rtm_def updt_def and.commute)
    next
      case False
      from restart_count_ok [OF ok x f refl refl _ now] show ?thesis
        using False EN_TIMER_SOFT_SETCYCLE x0 by (fastforce simp: is_cmd_def acmd_def v wtm_def rtm_def updt_def and.commute)
    qed
  next
    case EN_TIMER_SOFT_SETRELOAD
    let ?f = "\<lambda>t. t\<lparr>t_stat := (if para \<noteq> 0 then t_stat t OR 8 else t_stat t AND NOT 8)\<rparr>"
    have f: "links_kept ?f" by (simp add: links_kept_def)
    have "timers_ok (updt ?f x s) xs" using ok f by (rule change_in_place) simp_all
    then show ?thesis using updt_view [OF f, where x = x and s = s] EN_TIMER_SOFT_SETRELOAD x0
      by (intro exI [of _ "updt ?f x s"] exI [of _ xs]) (simp add: is_cmd_def acmd_def v wtm_def)
  qed (use ok e in \<open>auto simp: is_cmd_def acmd_def v\<close>)
qed

end
