(* ===== verification/TimerProps.thy ===== *)
theory TimerProps
  imports TimerQueue
begin

text \<open>The properties of the software timers.\<close>

section \<open>A sample state\<close>

text \<open>Timer 2 counts, reloads and is due; timer 3 is paused.  The clock stands at 1000, the precision is 10.\<close>

definition sample_tms :: "bool \<Rightarrow> u32 \<Rightarrow> tagTimerMsg list \<Rightarrow> tmrst" where
  "sample_tms hard flags msgs =
     \<lparr>tmrs = (\<lambda>p. \<lparr>t_pre = (if p = 3 then 2 else 0), t_nxt = (if p = 2 then 3 else 0), t_name = 0, t_cycle = 5000,
        t_isr = 7, t_stat = (if p = 2 then flags else 8), TimerTag = 0,
        t_deadline = (if p = 2 then 1000 else CN_TIMER_ALARMNEVER)\<rparr>),
      ptTimerHead = 2, ptTimerTail = 3, s_u32TimerPrecision = 10, s_u32Precision2Tclk = 100, sbUsingHardTimer = hard,
      ptTimerMsgQ = msgs, clk = (\<lambda>_. 1000), clk_reads = 0, s_u32TimerFreq = 1, dmul = (\<lambda>w f. w), tcalls = []\<rparr>"

lemma sample_tms_ok [simp]:
  "flags AND 1 \<noteq> 0 \<Longrightarrow> timers_ok (sample_tms hard flags msgs) [2, 3]" "clock_within 1000 0 (sample_tms hard flags msgs)"
  "cycles_ok 0 (sample_tms hard flags msgs) [2, 3]"
  by (simp_all add: sample_tms_def timers_ok_def tq_def dring_def tlN_def tlP_def tD_def tS_def tC_def clock_within_def cycles_ok_def)

lemma sample_tms_fields [simp]:
  "sbUsingHardTimer (sample_tms hard flags msgs) = hard" "ptTimerMsgQ (sample_tms hard flags msgs) = msgs"
  "tS (sample_tms hard flags msgs) 2 = flags" "tS (sample_tms hard flags msgs) 3 = 8" "tD (sample_tms hard flags msgs) 2 = 1000"
  "tD (sample_tms hard flags msgs) 3 = CN_TIMER_ALARMNEVER"
  "tI (sample_tms hard flags msgs) x = 7" "tC (sample_tms hard flags msgs) x = 5000" "clk (sample_tms hard flags msgs) n = 1000"
  "s_u32TimerPrecision (sample_tms hard flags msgs) = 10" "tcalls (sample_tms hard flags msgs) = []"
  by (simp_all add: sample_tms_def tD_def tS_def tC_def tI_def)

text \<open>Timer 2 alone, with a cycle of 5.\<close>

definition sample_short :: tmrst where
  "sample_short = (sample_tms True 9 [])\<lparr>tmrs := (\<lambda>p. \<lparr>t_pre = 0, t_nxt = 0, t_name = 0, t_cycle = 5, t_isr = 7, t_stat = 9,
     TimerTag = 0, t_deadline = 1000\<rparr>), ptTimerTail := 2\<rparr>"

section \<open>The timer service\<close>

text \<open>
  C25: Dealing with the timers returns.  When the clock shows moments between \<open>t0\<close> and \<open>t0 + e\<close> meanwhile, the
  timers that fire are the first ones of the queue, in the order of their deadlines and each once; every one
  of them was due by \<open>t0 + e\<close>, and no timer that was due at \<open>t0\<close> is left out.  A timer that reloads is due again
  one cycle after it fired, any other one never, and the queue is in order again.  The answer is the time to wait:
  from the last reading of the clock to the deadline at the head of the queue, or for ever when no timer counts there.
  Timers that reload have cycles longer than the time that passes meanwhile and the precision together.
\<close>
theorem Timer_DealTimeout_fires:
  assumes "timers_ok s xs" and "clock_within t0 e s" and "cycles_ok e s xs" and "0 \<le> e"
    and "t0 + e + 2 ^ 33 \<le> CN_TIMER_ALARMNEVER"
  shows "\<exists>w s' ys fs rs. Timer_DealTimeout s = Some (w, s') \<and> timers_ok s' ys \<and> set ys = set xs \<and> xs = fs @ rs \<and>
    tcalls s' = tcalls s @ run_calls s fs \<and> tframe s s' \<and>
    (\<forall>x \<in> set fs. counting s x \<and> tD s x - uint (s_u32TimerPrecision s) < t0 + e \<and> refired t0 e s x (tD s' x)) \<and>
    (\<forall>x. x \<notin> set fs \<longrightarrow> tD s' x = tD s x) \<and>
    (\<forall>x \<in> set rs. t0 \<le> tD s x - uint (s_u32TimerPrecision s)) \<and>
    w = wait_of s' ys"
  using deal_loop_ok [OF assms, of xs "{}"] by (simp add: Timer_DealTimeout_def head_tail_links) metis

theorem Timer_DealTimeout_fires_witness:
  "\<exists>w s'. Timer_DealTimeout (sample_tms True 9 []) = Some (w, s') \<and> tcalls s' = [Run_isr 7 2] \<and> tD s' 2 = 6000"
proof -
  let ?s = "sample_tms True 9 []"
  have "\<exists>w s' ys fs rs. Timer_DealTimeout ?s = Some (w, s') \<and> timers_ok s' ys \<and> set ys = set [2, 3] \<and> [2, 3] = fs @ rs \<and>
    tcalls s' = tcalls ?s @ run_calls ?s fs \<and> tframe ?s s' \<and>
    (\<forall>x \<in> set fs. counting ?s x \<and> tD ?s x - uint (s_u32TimerPrecision ?s) < 1000 + 0 \<and> refired 1000 0 ?s x (tD s' x)) \<and>
    (\<forall>x. x \<notin> set fs \<longrightarrow> tD s' x = tD ?s x) \<and>
    (\<forall>x \<in> set rs. 1000 \<le> tD ?s x - uint (s_u32TimerPrecision ?s)) \<and>
    w = wait_of s' ys"
    by (rule Timer_DealTimeout_fires) simp_all
  then obtain w s' fs rs where s': "Timer_DealTimeout ?s = Some (w, s')" "[2, 3] = fs @ rs" "tcalls s' = run_calls ?s fs"
    "\<forall>x \<in> set fs. counting ?s x \<and> refired 1000 0 ?s x (tD s' x)" "\<forall>x \<in> set rs. 1000 \<le> tD ?s x - 10"
    by (elim exE conjE) (rule that, auto)
  have "2 \<notin> set rs" "3 \<notin> set fs" using s'(4,5) by auto
  then have "fs = [2]" using s'(2) by (cases fs; cases "tl fs") auto
  then show ?thesis using s'(1,3,4) by (auto simp: run_calls_def refired_def)
qed

lemma Timer_DealTimeout_ok:
  assumes "timers_ok s xs" and "clock_within t0 e s" and "cycles_ok e s xs" and "0 \<le> e"
    and "t0 + e + 2 ^ 33 \<le> CN_TIMER_ALARMNEVER"
  obtains w s' ys fs rs where "Timer_DealTimeout s = Some (w, s')" and "timers_ok s' ys" and "set ys = set xs"
    and "xs = fs @ rs" and "tframe s s'" and "tcalls s' = tcalls s @ run_calls s fs"
    and "\<forall>x \<in> set fs. counting s x \<and> tD s x - uint (s_u32TimerPrecision s) < t0 + e \<and> refired t0 e s x (tD s' x)"
    and "\<forall>x. x \<notin> set fs \<longrightarrow> tD s' x = tD s x" and "\<forall>x \<in> set rs. t0 \<le> tD s x - uint (s_u32TimerPrecision s)"
    and "w = wait_of s' ys" and "clk_reads s \<le> clk_reads s'"
proof -
  from deal_loop_ok [OF assms, of xs "{}"]
  have "\<exists>w s' ys fs rs. Timer_DealTimeout s = Some (w, s') \<and> timers_ok s' ys \<and> set ys = set xs \<and>
    xs = fs @ rs \<and> tcalls s' = tcalls s @ run_calls s fs \<and> tframe s s' \<and>
    (\<forall>x \<in> set fs. counting s x \<and> tD s x - uint (s_u32TimerPrecision s) < t0 + e \<and> refired t0 e s x (tD s' x)) \<and>
    (\<forall>x. x \<notin> set fs \<longrightarrow> tD s' x = tD s x) \<and>
    (\<forall>x \<in> set rs. t0 \<le> tD s x - uint (s_u32TimerPrecision s)) \<and>
    w = wait_of s' ys \<and> clk_reads s \<le> clk_reads s'"
    unfolding Timer_DealTimeout_def head_tail_links(1) by fastforce
  then show ?thesis by (elim exE conjE) (rule that)
qed

text \<open>
  C29: A timer that does not reload and has expired still counts, so that starting it again does nothing: it never
  fires again before it is paused.
\<close>
theorem expired_timer_not_restarted:
  assumes "timers_ok s xs" and "clock_within t0 e s" and "cycles_ok e s xs" and "0 \<le> e"
    and "t0 + e + 2 ^ 33 \<le> CN_TIMER_ALARMNEVER"
    and "x \<in> set xs" and "counting s x" and "\<not> reloads s x" and "tD s x - uint (s_u32TimerPrecision s) < t0"
  shows "\<exists>w s'. Timer_DealTimeout s = Some (w, s') \<and> tD s' x = CN_TIMER_ALARMNEVER \<and>
    timer_cmd EN_TIMER_SOFT_START x para s' = Some (True, s')"
proof -
  obtain w s' ys fs rs where D: "Timer_DealTimeout s = Some (w, s')" "timers_ok s' ys" "set ys = set xs" "xs = fs @ rs"
    "tframe s s'" "\<forall>x \<in> set fs. counting s x \<and> tD s x - uint (s_u32TimerPrecision s) < t0 + e \<and> refired t0 e s x (tD s' x)"
    "\<forall>x \<in> set rs. t0 \<le> tD s x - uint (s_u32TimerPrecision s)" using Timer_DealTimeout_ok [OF assms(1-5)] by metis
  then have s': "Timer_DealTimeout s = Some (w, s')" "timers_ok s' ys" "set ys = set xs" "tframe s s'"
    "x \<in> set fs \<Longrightarrow> refired t0 e s x (tD s' x)"
    "x \<notin> set fs \<Longrightarrow> t0 \<le> tD s x - uint (s_u32TimerPrecision s)" using assms(6) by auto
  have x0: "x \<noteq> 0" using s'(2,3) assms(6) tq_distinct [of s' ys] unfolding timers_ok_def by metis
  have "x \<in> set fs" using s'(6) assms(9) by linarith
  then have "tD s' x = CN_TIMER_ALARMNEVER" using s'(5) assms(8) by (simp add: refired_def)
  moreover have "timer_cmd EN_TIMER_SOFT_START x para s' = Some (True, s')"
    using s'(4) assms(7) x0 by (simp add: timer_access tframe_def and.commute)
  ultimately show ?thesis using s'(1) by blast
qed

theorem expired_timer_not_restarted_witness:
  "\<exists>w s'. Timer_DealTimeout (sample_tms True 1 []) = Some (w, s') \<and> tD s' 2 = CN_TIMER_ALARMNEVER \<and>
    timer_cmd EN_TIMER_SOFT_START 2 0 s' = Some (True, s')"
  by (rule expired_timer_not_restarted [of _ "[2, 3]" 1000 0]) simp_all

text \<open>
  C28: A counting timer that reloads and whose cycle is shorter than the precision of the timers is due again as
  soon as it has fired: once it is due, dealing with the timers does not return, whatever other timers are in the
  queue.
\<close>
theorem short_cycle_diverges:
  assumes "timers_ok s xs" and "x \<in> set xs" and "counting s x" and "reloads s x"
    and "uint (tC s x) < uint (s_u32TimerPrecision s)"
    and "\<forall>n. clk s n \<le> clk s (Suc n) \<and> 0 \<le> clk s n \<and> clk s n + 2 ^ 33 \<le> CN_TIMER_ALARMNEVER"
    and "tD s x - uint (s_u32TimerPrecision s) < clk s (clk_reads s)"
  shows "Timer_DealTimeout s = None"
proof -
  have "\<not> (timer = tlN t 0 \<and> timers_ok t qs \<and> x \<in> set qs \<and> tframe s t \<and>
      tD t x - uint (s_u32TimerPrecision t) < clk t (clk_reads t))"
    if "deal_loop timer t = Some r" for timer t r qs
    using that
  proof (induction timer t r arbitrary: qs rule: deal_loop.raw_induct [rotated, consumes 1, case_names step])
    case (step f timer t r)
    show ?case
    proof
      assume *: "timer = tlN t 0 \<and> timers_ok t qs \<and> x \<in> set qs \<and> tframe s t \<and>
        tD t x - uint (s_u32TimerPrecision t) < clk t (clk_reads t)"
      then have fr: "tframe s t" by simp
      obtain h q where qs: "qs = h # q" using * by (cases qs) auto
      have c: "clk t = clk s" "tC t = tC s" "tS t = tS s" "s_u32TimerPrecision t = s_u32TimerPrecision s"
        using fr by (simp_all add: tframe_def)
      have b: "clk s (clk_reads t) + 2 ^ 33 \<le> CN_TIMER_ALARMNEVER" using assms(6) by blast
      have hx: "tD t h \<le> tD t x" using * qs by (auto simp: timers_ok_def)
      then have due: "tD t h - uint (s_u32TimerPrecision t) < clk t (clk_reads t)" using * by linarith
      have "uint (s_u32TimerPrecision t) < 2 ^ 32" by (rule precision_bound)
      then have "tD t h \<noteq> CN_TIMER_ALARMNEVER" using due b c(1) by simp
      then have hc: "counting t h" using * qs by (auto simp: timers_ok_def)
      have T: "timers_ok t (h # q)" "clk t (clk_reads t) \<le> clk t (clk_reads t) + 0"
        "clk t (clk_reads t) + 0 + 2 ^ 33 \<le> CN_TIMER_ALARMNEVER" using * b c(1) qs by simp_all
      obtain s' as bs d where s': "\<forall>f. deal_body f (tlN t 0) t = f (tlN s' 0) s'" "q = as @ bs" "timers_ok s' (as @ h # bs)"
        "tD s' = (tD t)(h := d)" "refired (clk t (clk_reads t)) 0 t h d" "tframe t s'" "clk_reads s' = Suc (clk_reads t)"
        using deal_turn [OF T(1,2) order_refl order_refl T(3) hc due] by blast
      have "deal_body f timer t = Some r" unfolding deal_body_def by (rule step(2))
      then have "f (tlN s' 0) s' = Some r" using s'(1) * by simp
      moreover have "tD s' x - uint (s_u32TimerPrecision s') < clk s' (clk_reads s')"
      proof -
        have up: "clk s (clk_reads t) \<le> clk s (Suc (clk_reads t))" using assms(6) by blast
        have same: "clk s' = clk s" "s_u32TimerPrecision s' = s_u32TimerPrecision s" using s'(6) c by (simp_all add: tframe_def)
        show ?thesis
        proof (cases "h = x")
          case True
          then have "tD s' x = clk s (clk_reads t) + uint (tC s x)" using s'(4,5) c assms(4) by (simp add: refired_def)
          then show ?thesis using up same assms(5) s'(7) by simp
        next
          case False
          then show ?thesis using up same s'(4,7) * c by simp
        qed
      qed
      moreover have "timers_ok s' (as @ h # bs)" "x \<in> set (as @ h # bs)" using s'(2,3) qs * by auto
      ultimately show False using step(1) tframe_trans [OF fr s'(6)] by blast
    qed
  qed
  from this [of "tlN s 0" s] show ?thesis
    using assms(1,2,7) by (cases "deal_loop (tlN s 0) s") (auto simp: Timer_DealTimeout_def head_tail_links tframe_def)
qed

theorem short_cycle_diverges_witness: "Timer_DealTimeout sample_short = None"
  by (rule short_cycle_diverges [of _ "[2]" 2])
     (simp_all add: sample_short_def sample_tms_def timers_ok_def tq_def dring_single dring_def tlN_def tlP_def tD_def tS_def tC_def)

lemma tcall_tview [simp]: "tview (note_call c s) = tview s" "clk (note_call c s) = clk s"
  "s_u32TimerPrecision (note_call c s) = s_u32TimerPrecision s" "sbUsingHardTimer (note_call c s) = sbUsingHardTimer s"
  "ptTimerMsgQ (note_call c s) = ptTimerMsgQ s" "run_calls (note_call c s) xs = run_calls s xs"
  by (auto simp: note_call_def tview_def tview_defs run_calls_def fun_eq_iff)

text \<open>Commands that ask for a cycle that is long enough keep all cycles long enough.\<close>

definition cmd_cycle_ok :: "s64 \<Rightarrow> timer_op \<Rightarrow> u32 \<Rightarrow> nat \<Rightarrow> tmrst \<Rightarrow> bool" where
  "cmd_cycle_ok e opn para x s \<longleftrightarrow>
     (opn = EN_TIMER_SOFT_SETCYCLE \<longrightarrow> e + uint (s_u32TimerPrecision s) \<le> uint para) \<and>
     (opn = EN_TIMER_SOFT_SETRELOAD \<longrightarrow> e + uint (s_u32TimerPrecision s) \<le> uint (tC s x))"

lemma cmd_cycles:
  assumes c: "cycles_ok e s xs" and a: "cmd_cycle_ok e opn para x s" and x: "x \<in> set xs" and ys: "set ys = set xs"
    and v: "tview s' x = acmd opn para now (tview s x)" "\<forall>y. y \<noteq> x \<longrightarrow> tview s' y = tview s y" and env: "tenv s s'"
  shows "cycles_ok e s' ys"
  unfolding cycles_ok_def
proof (intro ballI impI)
  fix y assume y: "y \<in> set ys" "reloads s' y"
  have pr: "s_u32TimerPrecision s' = s_u32TimerPrecision s" using env by (simp add: tenv_def)
  show "e + uint (s_u32TimerPrecision s') \<le> uint (tC s' y)"
  proof (cases "y = x")
    case False
    then have "tS s' y = tS s y" "tC s' y = tC s y" using v(2) by (simp_all add: tview_def)
    then show ?thesis using c y ys pr by (simp add: cycles_ok_def)
  next
    case True
    then show ?thesis using v(1) y a c x
      by (auto simp: tview_def acmd_def cmd_cycle_ok_def cycles_ok_def pr split: timer_op.splits if_splits)
  qed
qed

lemma clock_within_env: "clock_within t0 e s \<Longrightarrow> tenv s s' \<Longrightarrow> clock_within t0 e s'"
  by (auto simp: clock_within_def tenv_def)

lemma tenv_tcall_run: "tenv s s' \<Longrightarrow> run_calls s' xs = run_calls s xs"
  by (simp add: tenv_def run_calls_def)

lemma clock_now:
  assumes "clock_within t0 e s" and "t0 + e + 2 ^ 33 \<le> CN_TIMER_ALARMNEVER"
  shows "clk s (clk_reads s) + 2 ^ 32 \<le> CN_TIMER_ALARMNEVER"
  using assms(1) [unfolded clock_within_def, rule_format, of "clk_reads s"] assms(2) by simp

text \<open>The views of the timers after a command, and of a timer that fires.\<close>

definition after_cmd :: "timer_op \<Rightarrow> u32 \<Rightarrow> s64 \<Rightarrow> nat \<Rightarrow> (nat \<Rightarrow> u32 \<times> u32 \<times> s64) \<Rightarrow> nat \<Rightarrow> u32 \<times> u32 \<times> s64" where
  "after_cmd opn para now x v y = (if y = x then acmd opn para now (v y) else v y)"

abbreviation deadline_of :: "u32 \<times> u32 \<times> s64 \<Rightarrow> s64" where "deadline_of v \<equiv> snd (snd v)"

definition fires :: "s64 \<Rightarrow> s64 \<Rightarrow> u32 \<times> u32 \<times> s64 \<Rightarrow> u32 \<times> u32 \<times> s64 \<Rightarrow> bool" where
  "fires t0 e v v' \<longleftrightarrow> (case v of (st, cy, dl) \<Rightarrow> case v' of (st', cy', dl') \<Rightarrow>
     st AND CN_TIMER_ENCOUNT \<noteq> 0 \<and> st' = st \<and> cy' = cy \<and>
     (if st AND CN_TIMER_RELOAD \<noteq> 0 then t0 + uint cy \<le> dl' \<and> dl' \<le> t0 + e + uint cy else dl' = CN_TIMER_ALARMNEVER))"

lemma fires_view:
  assumes "tframe s s'" and "counting s x" and "refired t0 e s x (tD s' x)"
  shows "fires t0 e (tview s x) (tview s' x)"
  using assms by (auto simp: fires_def tview_def tframe_def refired_def)

lemma rest_view: "tframe s s' \<Longrightarrow> tD s' x = tD s x \<Longrightarrow> tview s' x = tview s x"
  by (simp add: tview_def tframe_def)

lemma wait_of_call [simp]: "wait_of (note_call c s) ys = wait_of s ys"
proof -
  have "tS (note_call c s) = tS s" by (simp add: note_call_def tS_def fun_eq_iff)
  then show ?thesis by (simp add: wait_of_def)
qed

text \<open>
  C26: With a hardware timer, a command on a timer of the queue returns whether it is one of the four commands, and
  changes that timer as \<open>acmd\<close> says: it starts it with a deadline one cycle away, pauses it, sets its cycle and the
  deadline when it counts, or its reload flag.  The hardware timer is stopped, then, in the order of the deadlines
  after the command, the timers that are due fire, each once; every one that fires was due when the clock showed
  \<open>t0 + e\<close>, and none that was due at \<open>t0\<close> is left out.  All other timers stay as the command left them and the queue
  is in order with the same timers.  When a timer counts at the head, the hardware timer is started again with the
  time up to that deadline, in microseconds cut to 32 bits, whatever its frequency is; it stays stopped when no timer
  counts there, or when that number happens to be \<open>WAIT_FOREVER\<close>.
\<close>
theorem Timer_Ctrl_hard:
  assumes "timers_ok s xs" and "clock_within t0 e s" and "cycles_ok e s xs" and "0 \<le> e"
    and "t0 + e + 2 ^ 33 \<le> CN_TIMER_ALARMNEVER"
    and "x \<in> set xs" and "sbUsingHardTimer s" and "cmd_cycle_ok e opn para x s"
  defines "v \<equiv> after_cmd opn para (clk s (clk_reads s)) x (tview s)"
  shows "\<exists>s' ys fs rs. Timer_Ctrl x opn para s = Some (Return (is_cmd opn), s') \<and> timers_ok s' ys \<and> set ys = set xs \<and>
    clk s' = clk s \<and> distinct (fs @ rs) \<and> set (fs @ rs) = set xs \<and> sorted (map (\<lambda>y. deadline_of (v y)) (fs @ rs)) \<and>
    (\<forall>y \<in> set fs. fires t0 e (v y) (tview s' y) \<and> deadline_of (v y) - uint (s_u32TimerPrecision s) < t0 + e) \<and>
    (\<forall>y \<in> set rs. tview s' y = v y \<and> t0 \<le> deadline_of (v y) - uint (s_u32TimerPrecision s)) \<and>
    tcalls s' = tcalls s @ [HardTimer_Ctrl EN_TIMER_PAUSECOUNT] @ run_calls s fs @
      (if wait_of s' ys = WAIT_FOREVER then []
       else [HardTimer_Ctrl (EN_TIMER_SETCYCLE (wait_of s' ys)), HardTimer_Ctrl EN_TIMER_STARTCOUNT])"
proof -
  let ?s = "note_call (HardTimer_Ctrl EN_TIMER_PAUSECOUNT) s"
  have x0: "x \<noteq> 0" using assms(1,6) tq_distinct [of s xs] unfolding timers_ok_def by metis
  have cw: "clock_within t0 e ?s" "timers_ok ?s xs" using assms(1,2) by (simp_all add: clock_within_def)
  obtain s1 zs where s1: "timer_cmd opn x para ?s = Some (is_cmd opn, s1)" "timers_ok s1 zs" "set zs = set xs"
    "tview s1 x = acmd opn para (clk s (clk_reads s)) (tview s x)" "\<forall>y. y \<noteq> x \<longrightarrow> tview s1 y = tview s y" "tenv ?s s1"
    using timer_cmd_ok [OF cw(2) assms(6) refl clock_now [OF cw(1) assms(5)], of opn para] by auto
  have v: "v = tview s1" using s1(4,5) by (auto simp: v_def after_cmd_def fun_eq_iff)
  have pr: "s_u32TimerPrecision s1 = s_u32TimerPrecision s" using s1(6) by (simp add: tenv_def)
  have "tS ?s = tS s" "tC ?s = tC s" by (auto simp: note_call_def tview_defs fun_eq_iff)
  then have "cycles_ok e ?s xs" "cmd_cycle_ok e opn para x ?s" using assms(3,8) by (simp_all add: cycles_ok_def cmd_cycle_ok_def)
  then have cy: "cycles_ok e s1 zs" using cmd_cycles [of e ?s xs opn para x zs s1] s1(3-6) assms(6) by auto
  obtain w s2 ys fs rs where s2: "Timer_DealTimeout s1 = Some (w, s2)" "timers_ok s2 ys" "set ys = set zs" "zs = fs @ rs"
    "tframe s1 s2" "tcalls s2 = tcalls s1 @ run_calls s1 fs"
    "\<forall>x \<in> set fs. counting s1 x \<and> tD s1 x - uint (s_u32TimerPrecision s1) < t0 + e \<and> refired t0 e s1 x (tD s2 x)"
    "\<forall>x. x \<notin> set fs \<longrightarrow> tD s2 x = tD s1 x" "\<forall>x \<in> set rs. t0 \<le> tD s1 x - uint (s_u32TimerPrecision s1)" "w = wait_of s2 ys"
    by (rule Timer_DealTimeout_ok [OF s1(2) clock_within_env [OF cw(1) s1(6)] cy assms(4,5)])
  have dz: "distinct zs" "sorted (map (tD s1) zs)" using s1(2) tq_distinct [of s1 zs] by (simp_all add: timers_ok_def)
  have tc: "tcalls s1 = tcalls s @ [HardTimer_Ctrl EN_TIMER_PAUSECOUNT]" "run_calls s1 fs = run_calls s fs"
    using s1(6) tenv_tcall_run [OF s1(6), of fs] by (simp_all add: tenv_def)
  have dl: "deadline_of (v y) = tD s1 y" for y by (simp add: v tview_def)
  have F: "\<forall>y \<in> set fs. fires t0 e (v y) (tview s2 y) \<and> deadline_of (v y) - uint (s_u32TimerPrecision s) < t0 + e"
    using s2(7) fires_view [OF s2(5)] unfolding dl pr [symmetric] by (simp add: v)
  have R: "\<forall>y \<in> set rs. tview s2 y = v y \<and> t0 \<le> deadline_of (v y) - uint (s_u32TimerPrecision s)"
    using s2(8,9) rest_view [OF s2(5)] dz(1) s2(4) unfolding dl pr [symmetric] by (auto simp: v)
  obtain s' where s': "s' = (if w \<noteq> WAIT_FOREVER
       then note_call (HardTimer_Ctrl EN_TIMER_STARTCOUNT) (note_call (HardTimer_Ctrl (EN_TIMER_SETCYCLE w)) s2) else s2)"
    by blast
  have C: "Timer_Ctrl x opn para s = Some (Return (is_cmd opn), s')"
    using x0 assms(7) s1(1) s2(1) by (simp add: Timer_Ctrl_def rearm_def s')
  have S: "timers_ok s' ys" "tview s' = tview s2" "wait_of s' ys = w" "clk s' = clk s"
    using s1(6) s2(2,5,10) by (simp_all add: s' tenv_def tframe_def)
  have T: "tcalls s' = tcalls s @ [HardTimer_Ctrl EN_TIMER_PAUSECOUNT] @ run_calls s fs @
      (if w = WAIT_FOREVER then [] else [HardTimer_Ctrl (EN_TIMER_SETCYCLE w), HardTimer_Ctrl EN_TIMER_STARTCOUNT])"
    using s2(6) tc by (simp add: s' note_call_def)
  have "distinct (fs @ rs)" "set (fs @ rs) = set xs" "sorted (map (\<lambda>y. deadline_of (v y)) (fs @ rs))" "set ys = set xs"
    using dz s1(3) s2(3,4) by (simp_all add: dl)
  note all = C S(1) this(4) S(4) this(1-3) F [folded S(2)] R [folded S(2)] T [folded S(3)]
  show ?thesis by (rule exI [of _ s'], rule exI [of _ ys], rule exI [of _ fs], rule exI [of _ rs], intro conjI) (fact all)+
qed

lemma split_two:
  assumes "distinct (fs @ rs)" and "set (fs @ rs) = {a, b}" and "a \<notin> set rs" and "b \<notin> set fs"
  shows "fs = [a]" and "b \<in> set rs"
proof -
  have "set fs = {a}" "distinct fs" "b \<in> set rs" using assms by auto
  then show "fs = [a]" "b \<in> set rs" by (cases fs; cases "tl fs"; auto)+
qed

theorem Timer_Ctrl_hard_witness:
  "\<exists>s'. Timer_Ctrl 3 EN_TIMER_SOFT_START 0 (sample_tms True 9 []) = Some (Return True, s') \<and>
    tview s' 3 = (9, 5000, 6000) \<and> tcalls s' = [HardTimer_Ctrl EN_TIMER_PAUSECOUNT, Run_isr 7 2,
      HardTimer_Ctrl (EN_TIMER_SETCYCLE 5000), HardTimer_Ctrl EN_TIMER_STARTCOUNT]"
proof -
  let ?s = "sample_tms True 9 []" and ?o = EN_TIMER_SOFT_START
  let ?v = "after_cmd ?o 0 (clk ?s (clk_reads ?s)) 3 (tview ?s)"
  have v: "?v 2 = (9, 5000, 1000)" "?v 3 = (9, 5000, 6000)" by (simp_all add: after_cmd_def acmd_def tview_def)
  have "\<exists>s' ys fs rs. Timer_Ctrl 3 ?o 0 ?s = Some (Return (is_cmd ?o), s') \<and> timers_ok s' ys \<and> set ys = set [2, 3] \<and>
    clk s' = clk ?s \<and> distinct (fs @ rs) \<and> set (fs @ rs) = set [2, 3] \<and> sorted (map (\<lambda>y. deadline_of (?v y)) (fs @ rs)) \<and>
    (\<forall>y \<in> set fs. fires 1000 0 (?v y) (tview s' y) \<and> deadline_of (?v y) - uint (s_u32TimerPrecision ?s) < 1000 + 0) \<and>
    (\<forall>y \<in> set rs. tview s' y = ?v y \<and> 1000 \<le> deadline_of (?v y) - uint (s_u32TimerPrecision ?s)) \<and>
    tcalls s' = tcalls ?s @ [HardTimer_Ctrl EN_TIMER_PAUSECOUNT] @ run_calls ?s fs @
      (if wait_of s' ys = WAIT_FOREVER then []
       else [HardTimer_Ctrl (EN_TIMER_SETCYCLE (wait_of s' ys)), HardTimer_Ctrl EN_TIMER_STARTCOUNT])"
    by (rule Timer_Ctrl_hard) (simp_all add: cmd_cycle_ok_def)
  then obtain s' ys fs rs where s': "Timer_Ctrl 3 ?o 0 ?s = Some (Return (is_cmd ?o), s')" "timers_ok s' ys" "set ys = {2, 3}"
    "clk s' = clk ?s" "distinct (fs @ rs)" "set (fs @ rs) = {2, 3}"
    "\<forall>y \<in> set fs. fires 1000 0 (?v y) (tview s' y) \<and> deadline_of (?v y) - 10 < 1000"
    "\<forall>y \<in> set rs. tview s' y = ?v y \<and> 1000 \<le> deadline_of (?v y) - 10"
    and tc: "tcalls s' = [HardTimer_Ctrl EN_TIMER_PAUSECOUNT] @ run_calls ?s fs @
      (if wait_of s' ys = WAIT_FOREVER then []
       else [HardTimer_Ctrl (EN_TIMER_SETCYCLE (wait_of s' ys)), HardTimer_Ctrl EN_TIMER_STARTCOUNT])"
    by (elim exE conjE) (rule that, auto)
  have "2 \<notin> set rs" "3 \<notin> set fs" using s'(7,8) v by auto
  then have fs: "fs = [2]" "3 \<in> set rs" using split_two [OF s'(5,6)] by simp_all
  have t: "tview s' 3 = (9, 5000, 6000)" "tview s' 2 = (9, 5000, 6000)"
    using fs s'(7,8) v by (auto simp: fires_def split: prod.splits)
  have "hd ys \<in> {2, 3}" using s'(3) by (cases ys) auto
  then have "wait_of s' ys = 5000" using t s'(3,4) by (auto simp: wait_of_def tview_def)
  then show ?thesis using s'(1) t(1) tc fs(1) by (simp add: is_cmd_def run_calls_def)
qed

lemma msgs_view [simp]:
  "timers_ok (s\<lparr>ptTimerMsgQ := ms\<rparr>) xs = timers_ok s xs" "tview (s\<lparr>ptTimerMsgQ := ms\<rparr>) = tview s"
proof -
  have "tlN (s\<lparr>ptTimerMsgQ := ms\<rparr>) = tlN s" "tlP (s\<lparr>ptTimerMsgQ := ms\<rparr>) = tlP s"
    "tD (s\<lparr>ptTimerMsgQ := ms\<rparr>) = tD s" "tS (s\<lparr>ptTimerMsgQ := ms\<rparr>) = tS s" "tC (s\<lparr>ptTimerMsgQ := ms\<rparr>) = tC s"
    by (auto simp: tview_defs fun_eq_iff)
  note f = this
  show "timers_ok (s\<lparr>ptTimerMsgQ := ms\<rparr>) xs = timers_ok s xs" by (simp add: timers_ok_def tq_def f)
  show "tview (s\<lparr>ptTimerMsgQ := ms\<rparr>) = tview s" by (rule ext) (simp add: tview_def f)
qed

text \<open>The message that a round carries out, and which messages the callers send.\<close>

definition next_msg :: "(u32 \<Rightarrow> tagTimerMsg option) \<Rightarrow> u32 \<Rightarrow> tmrst \<Rightarrow> tagTimerMsg option" where
  "next_msg comes w s = (case ptTimerMsgQ s of m # ms \<Rightarrow> Some m | [] \<Rightarrow> comes w)"

definition msg_ok :: "tmrst \<Rightarrow> nat list \<Rightarrow> tagTimerMsg \<Rightarrow> bool" where
  "msg_ok s xs m \<longleftrightarrow> (if msg_type m = EN_TIMERSOFT_ADD
     then msg_timer m \<notin> set (0 # xs) \<and> tD s (msg_timer m) = CN_TIMER_ALARMNEVER else msg_timer m \<in> set xs)"

text \<open>What a message does to the set of the queued timers and to their views.\<close>

definition msg_queue :: "tagTimerMsg \<Rightarrow> nat set \<Rightarrow> nat set" where
  "msg_queue m X = (if msg_type m = EN_TIMERSOFT_ADD then insert (msg_timer m) X
     else if msg_type m = EN_TIMERSOFT_REMOVE then X - {msg_timer m} else X)"

lemma after_other [simp]: "after_cmd EN_TIMERSOFT_ADD para now x v = v" "after_cmd EN_TIMERSOFT_REMOVE para now x v = v"
  by (auto simp: after_cmd_def acmd_def fun_eq_iff split: prod.splits)

lemma VMTask_msg_ok:
  assumes ok: "timers_ok s zs" and m: "msg_ok s zs m" and c: "clk s (clk_reads s) + 2 ^ 32 \<le> CN_TIMER_ALARMNEVER"
  shows "\<exists>s' ys. VMTask_msg m s = Some s' \<and> timers_ok s' ys \<and> set ys = msg_queue m (set zs) \<and>
    tview s' = after_cmd (msg_type m) (msg_para m) (clk s (clk_reads s)) (msg_timer m) (tview s) \<and>
    ptTimerMsgQ s' = ptTimerMsgQ s \<and> tcalls s' = tcalls s"
proof -
  let ?x = "msg_timer m"
  have view: "tview (tlink x y u) = tview u" "tview (tunlink x u) = tview u" for x y u
    using tlink_fields(3,4) by (auto simp: tview_def tframe_def fun_eq_iff)
  consider "msg_type m = EN_TIMERSOFT_ADD" | "msg_type m = EN_TIMERSOFT_REMOVE"
    | "msg_type m \<noteq> EN_TIMERSOFT_ADD" "msg_type m \<noteq> EN_TIMERSOFT_REMOVE" by blast
  then show ?thesis
  proof cases
    case 1
    then have x: "?x \<notin> set (0 # zs)" "tD s ?x = CN_TIMER_ALARMNEVER" using m by (auto simp: msg_ok_def)
    obtain y as bs where "Timer_Add ?x s = Some (tlink ?x y s)" "zs = as @ bs" "timers_ok (tlink ?x y s) (as @ ?x # bs)"
      using requeue(1) [OF ok x(1)] x(2) by auto
    then show ?thesis using 1 tlink_fields(3) [of s ?x y]
      by (intro exI [of _ "tlink ?x y s"] exI [of _ "as @ ?x # bs"])
        (auto simp: VMTask_msg_def msg_queue_def view tframe_def)
  next
    case 2
    then obtain as bs where zs: "zs = as @ ?x # bs" using m by (metis msg_ok_def split_list timer_op.distinct)
    note U = unqueue [OF ok [unfolded zs]]
    have "set (as @ bs) = set zs - {?x}" using U(3) zs by auto
    then show ?thesis using 2 U(1,2) tlink_fields(4) [of s ?x]
      by (intro exI [of _ "tunlink ?x s"] exI [of _ "as @ bs"])
        (auto simp: VMTask_msg_def msg_queue_def view tframe_def)
  next
    case 3
    then have x: "?x \<in> set zs" using m by (simp add: msg_ok_def)
    from timer_cmd_ok [OF ok x refl c, of "msg_type m" "msg_para m"]
    obtain s' ys where s': "timer_cmd (msg_type m) ?x (msg_para m) s = Some (is_cmd (msg_type m), s')" "timers_ok s' ys"
      "set ys = set zs" "tview s' ?x = acmd (msg_type m) (msg_para m) (clk s (clk_reads s)) (tview s ?x)"
      "\<forall>y. y \<noteq> ?x \<longrightarrow> tview s' y = tview s y" "tenv s s'" by blast
    have "VMTask_msg m s = Some s'" using 3 s'(1) by (cases "msg_type m") (auto simp: VMTask_msg_def)
    moreover have "tview s' = after_cmd (msg_type m) (msg_para m) (clk s (clk_reads s)) ?x (tview s)"
      using s'(4,5) by (auto simp: after_cmd_def fun_eq_iff)
    ultimately show ?thesis using 3 s'(2,3,6) by (auto simp: msg_queue_def tenv_def)
  qed
qed

text \<open>
  C27: Without a hardware timer, a round of the timer thread first deals with the timers: the first ones of the
  queue fire, in order and each once, every one of them was due when the clock showed \<open>t0 + e\<close>, and none that was
  due at \<open>t0\<close> is left out.  Then it waits for a message, at most up to the deadline that is then at the head, and
  carries out the oldest message or the one that comes: it adds or removes a timer, starts, pauses or sets a timer
  as \<open>acmd\<close> says, and all other timers stay as they are.  The queue is in order again.
\<close>
theorem VMTask_round_ok:
  assumes "timers_ok s xs" and "clock_within t0 e s" and "cycles_ok e s xs" and "0 \<le> e"
    and "t0 + e + 2 ^ 33 \<le> CN_TIMER_ALARMNEVER"
    and "\<forall>w m. next_msg comes w s = Some m \<longrightarrow> msg_ok s xs m"
  shows "\<exists>w s1 s' zs ys fs rs. VMTask_round comes s = Some s' \<and> Timer_DealTimeout s = Some (w, s1) \<and>
    xs = fs @ rs \<and> (\<forall>y \<in> set rs. t0 \<le> tD s y - uint (s_u32TimerPrecision s)) \<and>
    (\<forall>y \<in> set fs. fires t0 e (tview s y) (tview s1 y) \<and> tD s y - uint (s_u32TimerPrecision s) < t0 + e) \<and>
    (\<forall>y. y \<notin> set fs \<longrightarrow> tview s1 y = tview s y) \<and>
    timers_ok s1 zs \<and> set zs = set xs \<and> w = wait_of s1 zs \<and>
    tcalls s' = tcalls s @ run_calls s fs @ [MsgQ_wait w] \<and> ptTimerMsgQ s' = tl (ptTimerMsgQ s) \<and> timers_ok s' ys \<and>
    (case next_msg comes w s of
       None \<Rightarrow> set ys = set xs \<and> tview s' = tview s1
     | Some m \<Rightarrow> set ys = msg_queue m (set xs) \<and>
         tview s' = after_cmd (msg_type m) (msg_para m) (clk s (clk_reads s1)) (msg_timer m) (tview s1))"
proof -
  obtain w s1 zs fs rs where s1: "Timer_DealTimeout s = Some (w, s1)" "timers_ok s1 zs" "set zs = set xs" "xs = fs @ rs"
    "tframe s s1" "tcalls s1 = tcalls s @ run_calls s fs"
    "\<forall>x \<in> set fs. counting s x \<and> tD s x - uint (s_u32TimerPrecision s) < t0 + e \<and> refired t0 e s x (tD s1 x)"
    "\<forall>x. x \<notin> set fs \<longrightarrow> tD s1 x = tD s x" "\<forall>x \<in> set rs. t0 \<le> tD s x - uint (s_u32TimerPrecision s)" "w = wait_of s1 zs"
    "clk_reads s \<le> clk_reads s1"
    by (rule Timer_DealTimeout_ok [OF assms(1-5)])
  have q: "ptTimerMsgQ s1 = ptTimerMsgQ s" "clk s1 = clk s" using s1(5) by (simp_all add: tframe_def)
  have F: "\<forall>y \<in> set fs. fires t0 e (tview s y) (tview s1 y) \<and> tD s y - uint (s_u32TimerPrecision s) < t0 + e"
    using s1(7) fires_view [OF s1(5)] by blast
  have R: "\<forall>y. y \<notin> set fs \<longrightarrow> tview s1 y = tview s y" using s1(8) rest_view [OF s1(5)] by blast
  let ?s = "note_call (MsgQ_wait w) s1" and ?q = "tl (ptTimerMsgQ s)"
  let ?t = "?s\<lparr>ptTimerMsgQ := ?q\<rparr>"
  have step: "VMTask_round comes s = (case next_msg comes w s of None \<Rightarrow> Some ?s | Some m \<Rightarrow> VMTask_msg m ?t)"
  proof (cases "ptTimerMsgQ s")
    case Nil
    then have e: "?s\<lparr>ptTimerMsgQ := []\<rparr> = ?s" using q(1) by (cases s1) (simp add: note_call_def)
    have "VMTask_msg x (?s\<lparr>ptTimerMsgQ := []\<rparr>) = VMTask_msg x ?s" for x unfolding e by (rule refl)
    then show ?thesis using s1(1) q(1) Nil by (simp add: VMTask_round_def next_msg_def split: option.split)
  qed (use s1(1) q(1) in \<open>simp add: VMTask_round_def next_msg_def\<close>)
  have "clk s (clk_reads s1) \<le> t0 + e" using assms(2) s1(11) by (simp add: clock_within_def)
  then have c: "clk ?t (clk_reads ?t) + 2 ^ 32 \<le> CN_TIMER_ALARMNEVER" using assms(5) q(2) by simp
  have ok: "timers_ok ?t zs" using s1(2) by simp
  have vt: "tview ?t = tview s1" "clk ?t = clk s" "clk_reads ?t = clk_reads s1" "tcalls ?t = tcalls s @ run_calls s fs @ [MsgQ_wait w]"
    using q(2) s1(6) by simp_all
  show ?thesis
  proof (cases "next_msg comes w s")
    case None
    then have "ptTimerMsgQ s = []" by (simp add: next_msg_def split: list.splits)
    then show ?thesis using step None F R s1 q
      by (intro exI [of _ w] exI [of _ s1] exI [of _ ?s] exI [of _ zs] exI [of _ zs] exI [of _ fs] exI [of _ rs]) simp
  next
    case (Some m)
    have mo: "msg_ok s xs m" using assms(6) Some by blast
    have "tD ?t y = tD s1 y" for y using fun_cong [OF vt(1), of y] unfolding tview_def by simp
    moreover have "tD s1 (msg_timer m) = tD s (msg_timer m)" if "msg_type m = EN_TIMERSOFT_ADD"
      using mo that s1(4,8) by (simp add: msg_ok_def)
    ultimately have "msg_ok ?t zs m" using mo s1(3) by (auto simp: msg_ok_def)
    from VMTask_msg_ok [OF ok this c] obtain s' ys where s': "VMTask_msg m ?t = Some s'" "timers_ok s' ys"
      "set ys = msg_queue m (set zs)" "tview s' = after_cmd (msg_type m) (msg_para m) (clk s (clk_reads s1)) (msg_timer m) (tview s1)"
      "ptTimerMsgQ s' = ptTimerMsgQ ?t" "tcalls s' = tcalls ?t" unfolding vt(1-3) by blast
    show ?thesis using step Some F R s1 s' vt(4)
      by (intro exI [of _ w] exI [of _ s1] exI [of _ s'] exI [of _ zs] exI [of _ ys] exI [of _ fs] exI [of _ rs]) simp
  qed
qed

text \<open>The sample with timer 2 due and a message that starts timer 3.\<close>

theorem VMTask_round_ok_witness:
  "\<exists>w s'. VMTask_round (\<lambda>_. None) (sample_tms False 9 [\<lparr>msg_timer = 3, msg_type = EN_TIMER_SOFT_START, msg_para = 0\<rparr>]) = Some s' \<and>
    tcalls s' = [Run_isr 7 2, MsgQ_wait w] \<and> tview s' 2 = (9, 5000, 6000) \<and> tview s' 3 = (9, 5000, 6000) \<and> ptTimerMsgQ s' = []"
proof -
  let ?m = "\<lparr>msg_timer = 3, msg_type = EN_TIMER_SOFT_START, msg_para = 0\<rparr> :: tagTimerMsg"
  let ?s = "sample_tms False 9 [?m]" and ?c = "\<lambda>_. None"
  have ok: "timers_ok ?s [2, 3]" "clock_within 1000 0 ?s" "cycles_ok 0 ?s [2, 3]" by simp_all
  have n: "next_msg ?c w ?s = Some ?m" for w by (simp add: next_msg_def)
  have mo: "\<forall>w m. next_msg ?c w ?s = Some m \<longrightarrow> msg_ok ?s [2, 3] m" unfolding n by (simp add: msg_ok_def)
  obtain w s1 s' fs rs where s': "VMTask_round ?c ?s = Some s'" "[2, 3] = fs @ rs"
    "\<forall>y \<in> set rs. 1000 \<le> tD ?s y - 10" "\<forall>y \<in> set fs. fires 1000 0 (tview ?s y) (tview s1 y) \<and> tD ?s y - 10 < 1000"
    "\<forall>y. y \<notin> set fs \<longrightarrow> tview s1 y = tview ?s y" "tcalls s' = run_calls ?s fs @ [MsgQ_wait w]" "ptTimerMsgQ s' = []"
    "tview s' = after_cmd EN_TIMER_SOFT_START 0 1000 3 (tview s1)"
    using VMTask_round_ok [OF ok _ _ mo] unfolding n by (simp, elim exE conjE) (rule that, auto)
  have "2 \<notin> set rs" "3 \<notin> set fs" using s'(3,4) by auto
  then have fs: "fs = [2]" using s'(2) by (cases fs; cases "tl fs") auto
  have "tview s1 3 = (8, 5000, CN_TIMER_ALARMNEVER)" "tview s1 2 = (9, 5000, 6000)"
    using s'(4,5) fs by (auto simp: tview_def fires_def)
  then show ?thesis using s'(1,6-8) fs by (auto simp: after_cmd_def acmd_def run_calls_def)
qed



end
