(* ===== verification/Multiplex.thy ===== *)
theory Multiplex
  imports Prelude
begin

text \<open>
  Waiting for many objects at once, \<open>component/multiplex/multiplex.c\<close>.  A set has two circular lists of object
  blocks, those that are triggered and those that are not; an object that belongs to several sets has a block
  in each, linked through \<open>NextSets\<close>.  Sets and blocks are addressed by numbers, 0 is the null pointer.  The
  variable of the caller that holds the head of such a chain (\<open>*ObjectHead\<close>) is passed and returned by value.
  The mutex of the module is free when an operation starts, and an operation is one step.  The semaphore of a set
  and the pools are recorded calls; what \<open>Mb_Malloc\<close> and \<open>Mb_CreatePool\<close> answer is an argument.
\<close>

unbundle bit_operations_syntax

section \<open>State\<close>

record MultiplexSetsCB =
  ObjectQ :: nat
  ActiveQ :: nat
  ObjectSum :: u32
  ActiveLevel :: u32
  Actived :: u32
  SetsActived :: bool

record MultiplexObjectCB =
  NextObject :: nat
  PreObject :: nat
  NextSets :: nat
  MySets :: nat
  ObjectID :: u32
  PendingBit :: u32
  SensingBit :: u32

datatype mpcall = Sets_post nat | Sets_semp_create nat | Object_free nat | Delete_pool bool

record mpst =
  mobjs :: "nat \<Rightarrow> MultiplexObjectCB"
  msets :: "nat \<Rightarrow> MultiplexSetsCB"
  mpcalls :: "mpcall list"

abbreviation (input) "SENSINGBIT_MODE \<equiv> (0x80000000 :: u32)"

definition rmo :: "(MultiplexObjectCB \<Rightarrow> 'v) \<Rightarrow> nat \<Rightarrow> mpst \<Rightarrow> 'v option" where
  "rmo f p s = (if p = 0 then None else Some (f (mobjs s p)))"

definition umo :: "(MultiplexObjectCB \<Rightarrow> MultiplexObjectCB) \<Rightarrow> nat \<Rightarrow> mpst \<Rightarrow> mpst" where
  "umo f p s = s\<lparr>mobjs := (mobjs s)(p := f (mobjs s p))\<rparr>"

definition wmo :: "(MultiplexObjectCB \<Rightarrow> MultiplexObjectCB) \<Rightarrow> nat \<Rightarrow> mpst \<Rightarrow> mpst option" where
  "wmo f p s = (if p = 0 then None else Some (umo f p s))"

definition ums :: "(MultiplexSetsCB \<Rightarrow> MultiplexSetsCB) \<Rightarrow> nat \<Rightarrow> mpst \<Rightarrow> mpst" where
  "ums f i s = s\<lparr>msets := (msets s)(i := f (msets s i))\<rparr>"

definition set_NextObject :: "nat \<Rightarrow> nat \<Rightarrow> mpst \<Rightarrow> mpst option" where
  "set_NextObject p v = wmo (\<lambda>b. b\<lparr>NextObject := v\<rparr>) p"

definition set_PreObject :: "nat \<Rightarrow> nat \<Rightarrow> mpst \<Rightarrow> mpst option" where
  "set_PreObject p v = wmo (\<lambda>b. b\<lparr>PreObject := v\<rparr>) p"

definition note_mp :: "mpcall \<Rightarrow> mpst \<Rightarrow> mpst" where
  "note_mp c s = s\<lparr>mpcalls := mpcalls s @ [c]\<rparr>"

section \<open>Lists\<close>

text \<open>The addresses \<open>&Sets->ObjectQ\<close> and \<open>&Sets->ActiveQ\<close>.\<close>

datatype listaddr = AtObjectQ nat | AtActiveQ nat

fun get_list :: "listaddr \<Rightarrow> mpst \<Rightarrow> nat" where
  "get_list (AtObjectQ i) s = ObjectQ (msets s i)"
| "get_list (AtActiveQ i) s = ActiveQ (msets s i)"

fun put_list :: "listaddr \<Rightarrow> nat \<Rightarrow> mpst \<Rightarrow> mpst" where
  "put_list (AtObjectQ i) v s = ums (\<lambda>b. b\<lparr>ObjectQ := v\<rparr>) i s"
| "put_list (AtActiveQ i) v s = ums (\<lambda>b. b\<lparr>ActiveQ := v\<rparr>) i s"

fun list_set :: "listaddr \<Rightarrow> nat" where
  "list_set (AtObjectQ i) = i"
| "list_set (AtActiveQ i) = i"

text \<open>Putting \<open>Object\<close> at the head of a list.\<close>

definition push_object :: "listaddr \<Rightarrow> nat \<Rightarrow> mpst \<Rightarrow> mpst option" where
  "push_object TarList Object s =
     (if get_list TarList s = 0 then do {
        s \<leftarrow> set_NextObject Object Object (put_list TarList Object s);
        set_PreObject Object Object s }
      else do {
        pv \<leftarrow> rmo PreObject (get_list TarList s) s;
        s \<leftarrow> set_PreObject Object pv s;
        s \<leftarrow> set_NextObject Object (get_list TarList s) s;
        pv \<leftarrow> rmo PreObject (get_list TarList s) s;
        s \<leftarrow> set_NextObject pv Object s;
        s \<leftarrow> set_PreObject (get_list TarList s) Object s;
        Some (put_list TarList Object s) })"

definition cut_object :: "nat \<Rightarrow> mpst \<Rightarrow> mpst option" where
  "cut_object Object s = do {
     nx \<leftarrow> rmo NextObject Object s; pv \<leftarrow> rmo PreObject Object s;
     s \<leftarrow> set_PreObject nx pv s;
     pv \<leftarrow> rmo PreObject Object s; nx \<leftarrow> rmo NextObject Object s;
     set_NextObject pv nx s }"

definition ChangeList :: "listaddr \<Rightarrow> listaddr \<Rightarrow> nat \<Rightarrow> mpst \<Rightarrow> mpst option" where
  "ChangeList SrcList TarList Object s =
     (if list_set SrcList = 0 \<or> list_set TarList = 0 then None
      else do {
        s \<leftarrow> cut_object Object s;
        s \<leftarrow> (if get_list SrcList s = Object then do {
                 nx \<leftarrow> rmo NextObject Object s;
                 Some (put_list SrcList (if nx = Object then 0 else nx) s) }
              else Some s);
        push_object TarList Object s })"

definition ObjectIsActived :: "u32 \<Rightarrow> u32 \<Rightarrow> u32 \<Rightarrow> bool" where
  "ObjectIsActived Pending Sensing Mode =
     (if Mode = SENSINGBIT_MODE then Pending AND Sensing \<noteq> 0 else Pending AND Sensing = Sensing)"

section \<open>Operations\<close>

definition ModuleInstall_Multiplex :: "bool \<Rightarrow> bool \<Rightarrow> mpst \<Rightarrow> u32 \<times> mpst" where
  "ModuleInstall_Multiplex sets_pool object_pool s =
     (if \<not> sets_pool then (0xFFFFFFFF, s)
      else if \<not> object_pool then (0xFFFFFFFF, note_mp (Delete_pool object_pool) s)
      else (0, s))"

definition Multiplex_Create :: "nat option \<Rightarrow> u32 \<Rightarrow> mpst \<Rightarrow> nat \<times> mpst" where
  "Multiplex_Create mem level s =
     (if level = 0 then (0, s)
      else case mem of
          None \<Rightarrow> (0, s)
        | Some SetsQ \<Rightarrow> (SetsQ, note_mp (Sets_semp_create SetsQ) (s\<lparr>msets := (msets s)(SetsQ :=
            \<lparr>ObjectQ = 0, ActiveQ = 0, ObjectSum = 0, ActiveLevel = level, Actived = 0, SetsActived = False\<rparr>)\<rparr>)))"

text \<open>The search for the block of a set: the block before it and the block, 0 when there is none.\<close>

partial_function (option) find_block :: "nat \<Rightarrow> nat \<Rightarrow> nat \<Rightarrow> mpst \<Rightarrow> (nat \<times> nat) option" where
  "find_block Sets following Object s =
     (if Object = 0 then Some (following, 0)
      else do {
        m \<leftarrow> rmo MySets Object s;
        if m \<noteq> Sets then do { nx \<leftarrow> rmo NextSets Object s; find_block Sets Object nx s }
        else Some (following, Object) })"

text \<open>Triggering the set when enough of its objects are triggered.\<close>

definition trigger :: "nat \<Rightarrow> mpst \<Rightarrow> mpst" where
  "trigger Sets s =
     (let c = msets s Sets in
      if Actived c \<ge> ActiveLevel c \<or> Actived c \<ge> ObjectSum c
      then if \<not> SetsActived c then note_mp (Sets_post Sets) (ums (\<lambda>c. c\<lparr>SetsActived := True\<rparr>) Sets s) else s
      else s)"

definition Multiplex_AddObject ::
  "nat option \<Rightarrow> nat \<Rightarrow> nat \<Rightarrow> u32 \<Rightarrow> u32 \<Rightarrow> u32 \<Rightarrow> mpst \<Rightarrow> (bool \<times> nat \<times> mpst) option" where
  "Multiplex_AddObject mem Sets head ObjectStatus oid sensing s =
     (if Sets = 0 then Some (False, head, s)
      else do {
        (_, temp) \<leftarrow> find_block Sets 0 head s;
        if temp = 0 then
          (let status = ObjectStatus AND NOT SENSINGBIT_MODE;
               act = ObjectIsActived status (sensing AND NOT SENSINGBIT_MODE) (sensing AND SENSINGBIT_MODE);
               TargetQ = (if act then AtActiveQ Sets else AtObjectQ Sets) in
           case mem of
             None \<Rightarrow> Some (False, head, s)
           | Some temp \<Rightarrow> do {
               let s = ums (\<lambda>c. c\<lparr>ObjectSum := ObjectSum c + 1\<rparr>) Sets s;
               s \<leftarrow> wmo (\<lambda>b. b\<lparr>SensingBit := sensing, PendingBit := status, ObjectID := oid, MySets := Sets\<rparr>) temp s;
               s \<leftarrow> push_object TargetQ temp s;
               s \<leftarrow> wmo (\<lambda>b. b\<lparr>NextSets := head\<rparr>) temp s;
               Some (True, temp,
                 if act then trigger Sets (ums (\<lambda>c. c\<lparr>Actived := Actived c + 1\<rparr>) Sets s) else s) })
        else Some (True, head, s) })"

text \<open>One object less is triggered.\<close>

definition lose_active :: "nat \<Rightarrow> mpst \<Rightarrow> mpst" where
  "lose_active Sets s =
     (let s = (if Actived (msets s Sets) \<noteq> 0 then ums (\<lambda>c. c\<lparr>Actived := Actived c - 1\<rparr>) Sets s else s) in
      if Actived (msets s Sets) = 0 then ums (\<lambda>c. c\<lparr>SetsActived := False\<rparr>) Sets s else s)"

definition block_active :: "nat \<Rightarrow> mpst \<Rightarrow> bool" where
  "block_active Object s = (let b = mobjs s Object in
     ObjectIsActived (PendingBit b) (SensingBit b AND NOT SENSINGBIT_MODE) (SensingBit b AND SENSINGBIT_MODE))"

text \<open>In \<open>Multiplex_DelObject\<close> the set is only made inactive when the counter was not 0 before.\<close>

definition del_active :: "nat \<Rightarrow> mpst \<Rightarrow> mpst" where
  "del_active Sets s = (if Actived (msets s Sets) \<noteq> 0 then lose_active Sets s else s)"

definition del_links :: "nat \<Rightarrow> nat \<Rightarrow> mpst \<Rightarrow> mpst option" where
  "del_links Sets Object s = do {
     nx \<leftarrow> rmo NextObject Object s;
     if nx \<noteq> Object then do {
       s \<leftarrow> cut_object Object s;
       nx \<leftarrow> rmo NextObject Object s;
       let s = (if Object = ObjectQ (msets s Sets) then put_list (AtObjectQ Sets) nx s else s);
       Some (if Object = ActiveQ (msets s Sets) then put_list (AtActiveQ Sets) nx s else s) }
     else do {
       let s = (if Object = ObjectQ (msets s Sets) then put_list (AtObjectQ Sets) 0 s else s);
       Some (if Object = ActiveQ (msets s Sets) then put_list (AtActiveQ Sets) 0 s else s) } }"

definition Multiplex_DelObject :: "nat \<Rightarrow> nat option \<Rightarrow> mpst \<Rightarrow> (bool \<times> nat option \<times> mpst) option" where
  "Multiplex_DelObject Sets ObjectHead s = (case ObjectHead of
       None \<Rightarrow> Some (False, None, s)
     | Some head \<Rightarrow>
        if Sets = 0 then Some (False, Some head, s)
        else do {
          (following, Object) \<leftarrow> find_block Sets 0 head s;
          if Object \<noteq> 0 then do {
            let s = (if block_active Object s then del_active Sets s else s);
            let s = ums (\<lambda>c. c\<lparr>ObjectSum := ObjectSum c - 1\<rparr>) Sets s;
            s \<leftarrow> del_links Sets Object s;
            (head, s) \<leftarrow> (if following = 0 then Some (0, s)
              else do {
                nx \<leftarrow> rmo NextObject Object s;
                s \<leftarrow> set_NextObject following nx s;
                Some (head, s) });
            Some (True, Some head, note_mp (Object_free Object) s) }
          else Some (True, Some head, s) })"

definition set_one :: "nat \<Rightarrow> u32 \<Rightarrow> mpst \<Rightarrow> mpst option" where
  "set_one Object Status s = do {
     OldPend \<leftarrow> rmo PendingBit Object s;
     Sets \<leftarrow> rmo MySets Object s;
     sb \<leftarrow> rmo SensingBit Object s;
     let Sensing = sb AND NOT SENSINGBIT_MODE;
     let Type = sb AND SENSINGBIT_MODE;
     s \<leftarrow> wmo (\<lambda>b. b\<lparr>PendingBit := Status AND Sensing\<rparr>) Object s;
     pend \<leftarrow> rmo PendingBit Object s;
     if ObjectIsActived OldPend Sensing Type then
       if \<not> ObjectIsActived pend Sensing Type then do {
         s \<leftarrow> ChangeList (AtActiveQ Sets) (AtObjectQ Sets) Object s;
         Some (lose_active Sets s) }
       else Some s
     else
       if ObjectIsActived pend Sensing Type then do {
         s \<leftarrow> ChangeList (AtObjectQ Sets) (AtActiveQ Sets) Object s;
         let s = (if Actived (msets s Sets) < ObjectSum (msets s Sets)
                  then ums (\<lambda>c. c\<lparr>Actived := Actived c + 1\<rparr>) Sets s else s);
         Some (trigger Sets s) }
       else Some s }"

partial_function (option) set_loop :: "nat \<Rightarrow> u32 \<Rightarrow> mpst \<Rightarrow> mpst option" where
  "set_loop Object Status s =
     (if Object = 0 then Some s
      else do {
        s \<leftarrow> set_one Object Status s;
        nx \<leftarrow> rmo NextSets Object s;
        set_loop nx Status s })"

definition Multiplex_Set :: "nat \<Rightarrow> u32 \<Rightarrow> mpst \<Rightarrow> (bool \<times> mpst) option" where
  "Multiplex_Set ObjectHead Status s =
     (if ObjectHead = 0 then Some (False, s)
      else do { s \<leftarrow> set_loop ObjectHead Status s; Some (True, s) })"

text \<open>
  The end of a wait, reached at once when the set is triggered and after \<open>Lock_SempPend\<close> on the semaphore of the set
  otherwise, whatever that returned: the id and the state of an object.
\<close>

definition Multiplex_Wait_resume :: "nat \<Rightarrow> mpst \<Rightarrow> (u32 \<times> u32 option \<times> mpst) option" where
  "Multiplex_Wait_resume Sets s =
     (if ActiveQ (msets s Sets) \<noteq> 0 then do {
        let s = ums (\<lambda>c. c\<lparr>SetsActived := True\<rparr>) Sets s;
        oid \<leftarrow> rmo ObjectID (ActiveQ (msets s Sets)) s;
        st \<leftarrow> rmo PendingBit (ActiveQ (msets s Sets)) s;
        Some (oid, Some st, s) }
      else Some (0xFFFFFFFF, None, s))"

definition Multiplex_Wait :: "nat \<Rightarrow> mpst \<Rightarrow> ((u32 \<times> u32 option, nat) call \<times> mpst) option" where
  "Multiplex_Wait Sets s =
     (if Sets = 0 then Some (Return (0xFFFFFFFF, None), s)
      else if \<not> SetsActived (msets s Sets) then Some (Block Sets, s)
      else do { (oid, st, s) \<leftarrow> Multiplex_Wait_resume Sets s; Some (Return (oid, st), s) })"

end
