(* ===== verification/MultiplexSets.thy ===== *)
theory MultiplexSets
  imports Multiplex
begin

text \<open>
  The sets of \<open>multiplex.c\<close> as pairs of lists of object blocks, and what the operations do to them.
\<close>

section \<open>Links\<close>

definition mN :: "mpst \<Rightarrow> nat \<Rightarrow> nat" where "mN s p = NextObject (mobjs s p)"
definition mP :: "mpst \<Rightarrow> nat \<Rightarrow> nat" where "mP s p = PreObject (mobjs s p)"

abbreviation put_mN :: "nat \<Rightarrow> nat \<Rightarrow> mpst \<Rightarrow> mpst" where "put_mN a v \<equiv> umo (\<lambda>b. b\<lparr>NextObject := v\<rparr>) a"
abbreviation put_mP :: "nat \<Rightarrow> nat \<Rightarrow> mpst \<Rightarrow> mpst" where "put_mP a v \<equiv> umo (\<lambda>b. b\<lparr>PreObject := v\<rparr>) a"

lemma put_m_links:
  "mN (put_mN a v s) = (mN s)(a := v)" "mP (put_mN a v s) = mP s"
  "mN (put_mP a v s) = mN s" "mP (put_mP a v s) = (mP s)(a := v)"
  by (auto simp: umo_def mN_def mP_def fun_eq_iff)

interpretation ml: dlink mN mP put_mN put_mP
  by unfold_locales (rule put_m_links)+

text \<open>What moving a block between lists leaves alone: everything but the links and the heads.\<close>

definition bdata :: "mpst \<Rightarrow> nat \<Rightarrow> nat \<times> nat \<times> u32 \<times> u32 \<times> u32" where
  "bdata s p = (let b = mobjs s p in (NextSets b, MySets b, ObjectID b, PendingBit b, SensingBit b))"

definition sdata :: "mpst \<Rightarrow> nat \<Rightarrow> u32 \<times> u32 \<times> u32 \<times> bool" where
  "sdata s i = (let c = msets s i in (ObjectSum c, ActiveLevel c, Actived c, SetsActived c))"

lemma links_data [simp]:
  "bdata (put_mN a v s) = bdata s" "bdata (put_mP a v s) = bdata s" "msets (umo f a s) = msets s"
  "mpcalls (umo f a s) = mpcalls s" "sdata (umo f a s) = sdata s" "get_list q (umo f a s) = get_list q s"
  by (cases q; auto simp: umo_def bdata_def sdata_def Let_def fun_eq_iff)+

lemma put_list_data [simp]:
  "mobjs (put_list q v s) = mobjs s" "bdata (put_list q v s) = bdata s" "sdata (put_list q v s) = sdata s"
  "mN (put_list q v s) = mN s" "mP (put_list q v s) = mP s" "mpcalls (put_list q v s) = mpcalls s"
  "get_list r (put_list q v s) = (if r = q then v else get_list r s)"
  by (cases q; cases r; auto simp: ums_def bdata_def sdata_def mN_def mP_def Let_def fun_eq_iff)+

lemma block_access:
  "p \<noteq> 0 \<Longrightarrow> rmo NextObject p s = Some (mN s p)" "p \<noteq> 0 \<Longrightarrow> rmo PreObject p s = Some (mP s p)"
  "p \<noteq> 0 \<Longrightarrow> set_NextObject p v s = Some (put_mN p v s)" "p \<noteq> 0 \<Longrightarrow> set_PreObject p v s = Some (put_mP p v s)"
  "p \<noteq> 0 \<Longrightarrow> wmo f p s = Some (umo f p s)"
  by (simp_all add: rmo_def set_NextObject_def set_PreObject_def wmo_def mN_def mP_def)

lemma put_m_swap: "put_mP b w (put_mN a v s) = put_mN a v (put_mP b w s)"
  by (auto simp: umo_def fun_eq_iff)

section \<open>Lists\<close>

definition mring :: "mpst \<Rightarrow> nat \<Rightarrow> nat list \<Rightarrow> bool" where
  "mring s h xs \<longleftrightarrow> 0 \<notin> set xs \<and> (if xs = [] then h = 0 else h = hd xs \<and> dring (mN s) (mP s) xs)"

lemma mringD:
  assumes "mring s h xs" and "x \<in> set xs"
  shows "dring (mN s) (mP s) xs" and "h = hd xs" and "x \<noteq> 0" and "mN s x \<in> set xs" and "mP s x \<in> set xs"
    and "mN s x \<noteq> 0" and "mP s x \<noteq> 0" and "distinct xs" and "h \<in> set xs" and "h \<noteq> 0"
proof -
  have ne: "xs \<noteq> []" using assms(2) by auto
  have z: "0 \<notin> set xs" using assms(1) by (simp add: mring_def)
  show r: "dring (mN s) (mP s) xs" and h: "h = hd xs" using assms(1) ne by (simp_all add: mring_def)
  show n: "mN s x \<in> set xs" "mP s x \<in> set xs" using dring_next_in [OF r assms(2)] dring_prev_in [OF r assms(2)] .
  show "x \<noteq> 0" "mN s x \<noteq> 0" "mP s x \<noteq> 0" using z n assms(2) by metis+
  show "distinct xs" using r by (rule dring_distinct)
  show "h \<in> set xs" using h ne by simp
  then show "h \<noteq> 0" using z by metis
qed

lemma mring_cong:
  assumes "\<And>x. x \<in> set xs \<Longrightarrow> mN s' x = mN s x \<and> mP s' x = mP s x"
  shows "mring s' h xs = mring s h xs"
  using assms dring_cong [of xs "mN s'" "mN s" "mP s'" "mP s"] by (auto simp: mring_def)

lemma mring_put_list [simp]: "mring (put_list q v s) h xs = mring s h xs"
  by (rule mring_cong) simp

text \<open>Pushing a block.\<close>

lemma push_object_ok:
  assumes r: "mring s (get_list q s) ys" and x: "x \<noteq> 0" "x \<notin> set ys"
  shows "\<exists>s'. push_object q x s = Some s' \<and> get_list q s' = x \<and> mring s' x (x # ys) \<and>
    (\<forall>r. r \<noteq> q \<longrightarrow> get_list r s' = get_list r s) \<and> (\<forall>p. p \<notin> set (x # ys) \<longrightarrow> mN s' p = mN s p \<and> mP s' p = mP s p) \<and>
    bdata s' = bdata s \<and> sdata s' = sdata s \<and> mpcalls s' = mpcalls s"
proof (cases ys)
  case Nil
  then have "get_list q s = 0" using r by (simp add: mring_def)
  then have "push_object q x s = Some (put_mP x x (put_mN x x (put_list q x s)))"
    using x by (simp add: push_object_def block_access)
  moreover have "dring (mN (put_mP x x (put_mN x x (put_list q x s)))) (mP (put_mP x x (put_mN x x (put_list q x s)))) [x]"
    by (rule ml.self_link)
  ultimately show ?thesis using Nil x by (simp add: mring_def put_m_links)
next
  case (Cons y zs)
  have h: "get_list q s = y" "y \<noteq> 0" and d: "dring (mN s) (mP s) ([] @ y # zs)" using r Cons by (auto simp: mring_def)
  have l: "mP s y \<noteq> 0" "mP s y \<in> set ys" using mringD(5,7) [OF r, of y] Cons by auto
  define s1 where "s1 = put_mP y x (put_mN (mP s y) x (put_mP x (mP s y) (put_mN x y s)))"
  have n: "x \<noteq> y" "mP s y \<noteq> x" using x Cons l by auto
  have "push_object q x s = Some (put_list q x s1)"
    using h x l(1) n by (simp add: push_object_def block_access put_m_links put_m_swap s1_def)
  moreover have "dring (mN s1) (mP s1) ([] @ x # y # zs)"
    using ml.link_before [OF d] x Cons by (simp add: s1_def)
  moreover have "mN s1 p = mN s p \<and> mP s1 p = mP s p" if "p \<notin> set (x # ys)" for p
    using that l Cons by (auto simp: s1_def put_m_links)
  moreover have "bdata s1 = bdata s" "sdata s1 = sdata s" "mpcalls s1 = mpcalls s" "get_list r s1 = get_list r s" for r
    by (simp_all add: s1_def)
  ultimately show ?thesis using Cons r x
    by (intro exI [of _ "put_list q x s1"]) (auto simp: mring_def)
qed

text \<open>Cutting a block out of its ring; alone, it stays linked to itself.\<close>

lemma cut_object_ok:
  assumes r: "mring s h (as @ x # bs)"
  shows "\<exists>s'. cut_object x s = Some s' \<and> mring s' (if as @ bs = [] then 0 else if h = x then mN s' x else h) (as @ bs) \<and>
    (mN s' x = x \<longleftrightarrow> as @ bs = []) \<and> mN s' x = mN s x \<and> (\<forall>q. get_list q s' = get_list q s) \<and>
    (\<forall>p. p \<notin> set (as @ x # bs) \<longrightarrow> mN s' p = mN s p \<and> mP s' p = mP s p) \<and>
    bdata s' = bdata s \<and> sdata s' = sdata s \<and> msets s' = msets s \<and> mpcalls s' = mpcalls s"
proof -
  have x: "x \<in> set (as @ x # bs)" by simp
  note D = mringD [OF r x]
  define s' where "s' = put_mN (mP s x) (mN s x) (put_mP (mN s x) (mP s x) s)"
  have c: "cut_object x s = Some s'" if "as @ bs \<noteq> []"
    using D dring_proper [OF D(1) that] by (simp add: cut_object_def block_access put_m_links s'_def)
  have e: "mN s x = x \<and> mP s x = x" if "as @ bs = []"
    using that D(1) by (auto simp: dring_single)
  have c0: "cut_object x s = Some s'" if "as @ bs = []"
    using D e [OF that] by (simp add: cut_object_def block_access put_m_links s'_def)
  have keep: "mN s' x = mN s x"
    using e dring_proper [OF D(1)] by (cases "as @ bs = []") (auto simp: s'_def put_m_links)
  have fr: "bdata s' = bdata s" "sdata s' = sdata s" "msets s' = msets s" "mpcalls s' = mpcalls s" "get_list q s' = get_list q s" for q
    by (simp_all add: s'_def)
  have out: "mN s' p = mN s p \<and> mP s' p = mP s p" if "p \<notin> set (as @ x # bs)" for p
    using that D(4,5) by (auto simp: s'_def put_m_links)
  have alone: "mN s' x = x \<longleftrightarrow> as @ bs = []" using keep e dring_proper [OF D(1)] by metis
  have z: "0 \<notin> set (as @ bs)" using r by (simp add: mring_def)
  have "mring s' (if as @ bs = [] then 0 else if h = x then mN s' x else h) (as @ bs)"
  proof (cases "as @ bs = []")
    case False
    have d: "dring (mN s') (mP s') (as @ bs)" using ml.unlink [OF D(1) False] by (simp add: s'_def)
    have eq: "(if h = x then mN s x else h) = hd (as @ bs)"
    proof (cases as)
      case Nil
      then show ?thesis using D(1,2) False by (cases bs) (auto simp: dring_Cons)
    next
      case (Cons a cs)
      then show ?thesis using D(2,8) by auto
    qed
    show ?thesis unfolding keep if_not_P [OF False] eq using False d z by (auto simp: mring_def)
  qed (simp add: mring_def)
  then show ?thesis using c c0 alone keep fr out by (intro exI [of _ s']) (cases "as @ bs = []"; simp)
qed

lemma ChangeList_ok:
  assumes src: "mring s (get_list p s) xs" and tar: "mring s (get_list q s) ys" and x: "x \<in> set xs"
    and pq: "p \<noteq> q" "list_set p \<noteq> 0" "list_set q \<noteq> 0" and dis: "set xs \<inter> set ys = {}"
  shows "\<exists>s'. ChangeList p q x s = Some s' \<and> mring s' (get_list p s') (remove1 x xs) \<and> mring s' (get_list q s') (x # ys) \<and>
    (\<forall>r. r \<noteq> p \<longrightarrow> r \<noteq> q \<longrightarrow> get_list r s' = get_list r s) \<and>
    (\<forall>z. z \<notin> set xs \<longrightarrow> z \<notin> set ys \<longrightarrow> mN s' z = mN s z \<and> mP s' z = mP s z) \<and>
    bdata s' = bdata s \<and> sdata s' = sdata s \<and> mpcalls s' = mpcalls s"
proof -
  obtain as bs where xs: "xs = as @ x # bs" "x \<notin> set as" using x by (meson split_list_first)
  have rm: "remove1 x xs = as @ bs" using xs by (simp add: remove1_append)
  have dx: "x \<notin> set ys" "x \<noteq> 0" using dis x mringD(3) [OF src x] by auto
  have dd: "x \<notin> set (as @ bs)" using mringD(8) [OF src x] xs(1) by auto
  obtain s1 where s1: "cut_object x s = Some s1"
    "mring s1 (if as @ bs = [] then 0 else if get_list p s = x then mN s1 x else get_list p s) (as @ bs)"
    "mN s1 x = x \<longleftrightarrow> as @ bs = []" "mN s1 x = mN s x" "\<forall>q. get_list q s1 = get_list q s"
    "\<forall>p. p \<notin> set xs \<longrightarrow> mN s1 p = mN s p \<and> mP s1 p = mP s p"
    "bdata s1 = bdata s" "sdata s1 = sdata s" "mpcalls s1 = mpcalls s"
    using cut_object_ok [OF src [unfolded xs(1)], folded xs(1)] by (elim exE conjE) (rule that)
  define s2 where "s2 = (if get_list p s1 = x then put_list p (if mN s1 x = x then 0 else mN s1 x) s1 else s1)"
  have gx: "as @ bs = [] \<Longrightarrow> get_list p s = x" using src xs by (simp add: mring_def)
  have m2: "mN s2 = mN s1" "mP s2 = mP s1" by (simp_all add: s2_def)
  have g2: "get_list r s2 = (if r = p \<and> get_list p s = x then if as @ bs = [] then 0 else mN s1 x else get_list r s)" for r
    by (simp add: s2_def s1(5) s1(3))
  have src2: "mring s2 (get_list p s2) (as @ bs)"
    using s1(2) gx mring_cong [of "as @ bs" s2 s1] by (cases "as @ bs = []") (auto simp: g2 m2)
  have "mring s2 (get_list q s2) ys"
    using tar mring_cong [of ys s2 s] s1(6) dis pq(1) by (auto simp: g2 m2)
  from push_object_ok [OF this dx(2,1)]
  obtain s3 where s3: "push_object q x s2 = Some s3" "get_list q s3 = x" "mring s3 x (x # ys)"
    "\<And>r. r \<noteq> q \<Longrightarrow> get_list r s3 = get_list r s2" "\<And>p. p \<notin> set (x # ys) \<Longrightarrow> mN s3 p = mN s2 p \<and> mP s3 p = mP s2 p"
    "bdata s3 = bdata s2" "sdata s3 = sdata s2" "mpcalls s3 = mpcalls s2" by blast
  have out: "z \<notin> set (x # ys)" if "z \<in> set (as @ bs)" for z using that dd dis xs(1) by auto
  have "mring s3 (get_list p s3) (as @ bs)"
    using src2 mring_cong [of "as @ bs" s3 s2] s3(5) [OF out] s3(4) [OF pq(1)] by simp
  moreover have "ChangeList p q x s = Some s3"
    using pq s1(1) s3(1) dx(2)
    by (cases "mN s1 x = x"; cases "get_list p s1 = x") (simp_all add: ChangeList_def block_access s2_def)
  moreover have "mN s3 z = mN s z \<and> mP s3 z = mP s z" if "z \<notin> set xs" "z \<notin> set ys" for z
    using that s3(5) [of z] s1(6) x m2 by auto
  moreover have "get_list r s3 = get_list r s" if "r \<noteq> p" "r \<noteq> q" for r using that s3(4) [of r] g2 by simp
  ultimately show ?thesis using s3(2,3,6,7,8) s1(7,8,9) rm by (intro exI [of _ s3]) (simp add: s2_def)
qed

section \<open>Sets\<close>

text \<open>
  A set with the blocks \<open>qs\<close> that are not triggered and the blocks \<open>as\<close> that are: the counters are the lengths of the
  lists, and a block is in the list where its bits put it.
\<close>

definition mset :: "mpst \<Rightarrow> nat \<Rightarrow> nat list \<Rightarrow> nat list \<Rightarrow> bool" where
  "mset s i qs as \<longleftrightarrow> i \<noteq> 0 \<and> mring s (ObjectQ (msets s i)) qs \<and> mring s (ActiveQ (msets s i)) as \<and>
     set qs \<inter> set as = {} \<and> unat (Actived (msets s i)) = length as \<and>
     unat (ObjectSum (msets s i)) = length qs + length as \<and>
     (\<forall>b \<in> set qs \<union> set as. MySets (mobjs s b) = i \<and> (block_active b s \<longleftrightarrow> b \<in> set as))"

definition minv :: "mpst \<Rightarrow> nat set \<Rightarrow> (nat \<Rightarrow> nat list) \<Rightarrow> (nat \<Rightarrow> nat list) \<Rightarrow> bool" where
  "minv s I Q A \<longleftrightarrow> (\<forall>i \<in> I. mset s i (Q i) (A i))"

lemma bdata_eq:
  assumes "bdata s' p = bdata s p"
  shows "NextSets (mobjs s' p) = NextSets (mobjs s p)" "MySets (mobjs s' p) = MySets (mobjs s p)"
    "PendingBit (mobjs s' p) = PendingBit (mobjs s p)" "SensingBit (mobjs s' p) = SensingBit (mobjs s p)"
    "block_active p s' = block_active p s"
  using assms by (simp_all add: bdata_def block_active_def Let_def)

lemma ums_fields [simp]:
  "mobjs (ums f i s) = mobjs s" "mpcalls (ums f i s) = mpcalls s" "mN (ums f i s) = mN s" "mP (ums f i s) = mP s"
  "bdata (ums f i s) = bdata s" "msets (ums f i s) j = (if j = i then f (msets s i) else msets s j)"
  by (auto simp: ums_def mN_def mP_def bdata_def fun_eq_iff)

lemma note_mp_fields [simp]:
  "mobjs (note_mp c s) = mobjs s" "msets (note_mp c s) = msets s" "mN (note_mp c s) = mN s" "mP (note_mp c s) = mP s"
  "bdata (note_mp c s) = bdata s" "mpcalls (note_mp c s) = mpcalls s @ [c]"
  by (auto simp: note_mp_def mN_def mP_def bdata_def fun_eq_iff)

text \<open>A set whose blocks are not touched.\<close>

lemma mset_other:
  assumes "mset s j qs as" and "msets s' j = msets s j"
    and "\<And>b. b \<in> set qs \<union> set as \<Longrightarrow> mN s' b = mN s b \<and> mP s' b = mP s b \<and> bdata s' b = bdata s b"
  shows "mset s' j qs as"
proof -
  have "MySets (mobjs s' b) = MySets (mobjs s b) \<and> block_active b s' = block_active b s" if "b \<in> set qs \<union> set as" for b
    using bdata_eq(2,5) assms(3) [OF that] by metis
  moreover have "mring s' h qs = mring s h qs" "mring s' h as = mring s h as" for h
    using assms(3) by (auto intro!: mring_cong)
  ultimately show ?thesis using assms(1,2) by (auto simp: mset_def)
qed

text \<open>What a new state does to the lists of the set of a block.\<close>

definition now_active :: "mpst \<Rightarrow> nat \<Rightarrow> u32 \<Rightarrow> bool" where
  "now_active s b Status = (let m = SensingBit (mobjs s b) in
     ObjectIsActived (Status AND (m AND NOT SENSINGBIT_MODE)) (m AND NOT SENSINGBIT_MODE) (m AND SENSINGBIT_MODE))"

fun moved :: "bool \<Rightarrow> nat \<Rightarrow> nat list \<times> nat list \<Rightarrow> nat list \<times> nat list" where
  "moved act b (qs, as) =
     (if act \<and> b \<notin> set as then (remove1 b qs, b # as)
      else if \<not> act \<and> b \<in> set as then (b # qs, remove1 b as) else (qs, as))"

text \<open>Whether the set is triggered then.\<close>

definition latch :: "bool \<Rightarrow> u32 \<Rightarrow> nat \<Rightarrow> nat list \<times> nat list \<Rightarrow> bool \<Rightarrow> bool" where
  "latch act level b v on =
     (if act \<and> b \<notin> set (snd v)
      then on \<or> unat level \<le> length (snd (moved act b v)) \<or> fst (moved act b v) = []
      else if \<not> act \<and> b \<in> set (snd v) then on \<and> snd (moved act b v) \<noteq> [] else on)"

lemma unat_inc: "(a :: u32) < b \<Longrightarrow> unat (a + 1) = Suc (unat a)"
  using unsigned_less [of b, where 'a = nat] by (simp add: word_less_nat_alt unat_word_ariths)

lemma unat_dec: "(a :: u32) \<noteq> 0 \<Longrightarrow> unat (a - 1) = unat a - 1"
  by (simp add: unat_minus_one)

text \<open>\<open>set_one\<close> in these terms.\<close>

definition pend_bits :: "nat \<Rightarrow> u32 \<Rightarrow> mpst \<Rightarrow> mpst" where
  "pend_bits b Status s = umo (\<lambda>c. c\<lparr>PendingBit := Status AND (SensingBit c AND NOT SENSINGBIT_MODE)\<rparr>) b s"

definition gain_active :: "nat \<Rightarrow> mpst \<Rightarrow> mpst" where
  "gain_active i s = (if Actived (msets s i) < ObjectSum (msets s i) then ums (\<lambda>c. c\<lparr>Actived := Actived c + 1\<rparr>) i s else s)"

lemma pend_bits_fields [simp]:
  "mN (pend_bits b Status s) = mN s" "mP (pend_bits b Status s) = mP s" "msets (pend_bits b Status s) = msets s"
  "mpcalls (pend_bits b Status s) = mpcalls s" "p \<noteq> b \<Longrightarrow> bdata (pend_bits b Status s) p = bdata s p"
  "get_list q (pend_bits b Status s) = get_list q s" "sdata (pend_bits b Status s) = sdata s"
  "bdata (pend_bits b Status s) b =
     (let c = mobjs s b in (NextSets c, MySets c, ObjectID c, Status AND (SensingBit c AND NOT SENSINGBIT_MODE), SensingBit c))"
  "block_active b (pend_bits b Status s) = now_active s b Status"
  by (simp_all add: pend_bits_def block_active_def now_active_def Let_def)
     (auto simp: umo_def mN_def mP_def bdata_def Let_def fun_eq_iff)

lemma set_one_eq:
  assumes "b \<noteq> 0" and "MySets (mobjs s b) = i"
  shows "set_one b Status s =
    (if block_active b s then
       if \<not> now_active s b Status then
         Option.bind (ChangeList (AtActiveQ i) (AtObjectQ i) b (pend_bits b Status s)) (\<lambda>s. Some (lose_active i s))
       else Some (pend_bits b Status s)
     else if now_active s b Status then
         Option.bind (ChangeList (AtObjectQ i) (AtActiveQ i) b (pend_bits b Status s)) (\<lambda>s. Some (trigger i (gain_active i s)))
     else Some (pend_bits b Status s))"
proof -
  have u: "umo (\<lambda>c. c\<lparr>PendingBit := Status AND (SensingBit (mobjs s b) AND NOT SENSINGBIT_MODE)\<rparr>) b s = pend_bits b Status s"
    by (simp add: pend_bits_def umo_def)
  have m: "PendingBit (mobjs (pend_bits b Status s) b) = Status AND (SensingBit (mobjs s b) AND NOT SENSINGBIT_MODE)"
    by (simp add: pend_bits_def umo_def)
  show ?thesis using assms
    by (simp add: set_one_def rmo_def wmo_def u [simplified] m [simplified] block_active_def now_active_def gain_active_def Let_def)
qed

text \<open>The lists after a block of the set \<open>i\<close> has changed lists: the blocks are the same, the counters follow.\<close>

lemma mset_data:
  assumes "mring s (ObjectQ (msets s i)) qs" and "mring s (ActiveQ (msets s i)) as" and "i \<noteq> 0" and "set qs \<inter> set as = {}"
    and "unat (Actived (msets s i)) = length as" and "unat (ObjectSum (msets s i)) = length qs + length as"
    and "\<And>c. c \<in> set qs \<union> set as \<Longrightarrow> MySets (mobjs s c) = i \<and> (block_active c s \<longleftrightarrow> c \<in> set as)"
  shows "mset s i qs as"
  using assms by (auto simp: mset_def)

definition one_effect :: "nat \<Rightarrow> nat \<Rightarrow> u32 \<Rightarrow> nat list \<times> nat list \<Rightarrow> mpst \<Rightarrow> mpst \<Rightarrow> bool" where
  "one_effect i b Status v s s' \<longleftrightarrow>
    mset s' i (fst (moved (now_active s b Status) b v)) (snd (moved (now_active s b Status) b v)) \<and>
    (\<forall>j. j \<noteq> i \<longrightarrow> msets s' j = msets s j) \<and> ActiveLevel (msets s' i) = ActiveLevel (msets s i) \<and>
    SetsActived (msets s' i) = latch (now_active s b Status) (ActiveLevel (msets s i)) b v (SetsActived (msets s i)) \<and>
    mpcalls s' = mpcalls s @ (if \<not> SetsActived (msets s i) \<and> SetsActived (msets s' i) then [Sets_post i] else []) \<and>
    (\<forall>p. p \<notin> set (fst v) \<union> set (snd v) \<longrightarrow> mN s' p = mN s p \<and> mP s' p = mP s p) \<and>
    bdata s' = bdata (pend_bits b Status s)"

lemma sdataD:
  assumes "sdata s' = sdata s"
  shows "ObjectSum (msets s' i) = ObjectSum (msets s i)" "ActiveLevel (msets s' i) = ActiveLevel (msets s i)"
    "Actived (msets s' i) = Actived (msets s i)" "SetsActived (msets s' i) = SetsActived (msets s i)"
  using fun_cong [OF assms, of i] by (simp_all add: sdata_def Let_def)

lemma get_lists:
  assumes "\<And>r. r \<noteq> AtObjectQ i \<Longrightarrow> r \<noteq> AtActiveQ i \<Longrightarrow> get_list r s' = get_list r s" and "sdata s' = sdata s" and "j \<noteq> i"
  shows "msets s' j = msets s j"
  using assms(1) [of "AtObjectQ j"] assms(1) [of "AtActiveQ j"] assms(3) fun_cong [OF assms(2), of j]
  by (simp add: sdata_def Let_def)

text \<open>Where a block is after its bits and its list have changed.\<close>

lemma blocks_placed:
  assumes I: "mset s i qs as" and b: "b \<in> set qs \<union> set as" and d: "bdata s' = bdata (pend_bits b Status s)"
    and v: "(qs', as') = moved (now_active s b Status) b (qs, as)" and c: "c \<in> set qs' \<union> set as'"
  shows "MySets (mobjs s' c) = i \<and> (block_active c s' \<longleftrightarrow> c \<in> set as')"
proof -
  have di: "distinct qs" "distinct as" "set qs \<inter> set as = {}"
    using I dring_distinct by (auto simp: mset_def mring_def split: if_splits)
  have m: "c \<in> set as' \<longleftrightarrow> (if c = b then now_active s b Status else c \<in> set as)" "c \<in> set qs \<union> set as"
    using v c b di by (auto split: if_splits)
  show ?thesis
  proof (cases "c = b")
    case True
    have "block_active b s' = now_active s b Status" using bdata_eq(5) [OF fun_cong [OF d, of b]] by simp
    moreover have "MySets (mobjs s' b) = MySets (mobjs s b)"
      using bdata_eq(2) [OF fun_cong [OF d, of b]] by (simp add: pend_bits_def umo_def)
    ultimately show ?thesis using True m I b by (auto simp: mset_def)
  next
    case False
    then have "bdata s' c = bdata s c" using d by simp
    then show ?thesis using bdata_eq(2,5) False m I by (metis mset_def)
  qed
qed

lemma set_one_fall:
  assumes I: "mset s i qs as" and b: "b \<in> set as" and n: "\<not> now_active s b Status"
  shows "\<exists>s'. set_one b Status s = Some s' \<and> one_effect i b Status (qs, as) s s'"
proof -
  let ?s = "pend_bits b Status s"
  have M: "mring s (ObjectQ (msets s i)) qs" "mring s (ActiveQ (msets s i)) as" "i \<noteq> 0" "set qs \<inter> set as = {}"
    "MySets (mobjs s b) = i" "block_active b s" using I b by (auto simp: mset_def)
  have b0: "b \<noteq> 0" using mringD(3) [OF M(2) b] .
  have "mring ?s (get_list (AtActiveQ i) ?s) as" "mring ?s (get_list (AtObjectQ i) ?s) qs"
    using M(1,2) mring_cong [of as ?s s] mring_cong [of qs ?s s] by simp_all
  from ChangeList_ok [OF this b] M(3,4)
  obtain t where t: "ChangeList (AtActiveQ i) (AtObjectQ i) b ?s = Some t" "mring t (ActiveQ (msets t i)) (remove1 b as)"
    "mring t (ObjectQ (msets t i)) (b # qs)" "\<And>r. r \<noteq> AtObjectQ i \<Longrightarrow> r \<noteq> AtActiveQ i \<Longrightarrow> get_list r t = get_list r s"
    "\<And>z. z \<notin> set qs \<union> set as \<Longrightarrow> mN t z = mN s z \<and> mP t z = mP s z" "bdata t = bdata ?s" "sdata t = sdata s" "mpcalls t = mpcalls s"
    by (auto simp: Int_commute sdata_def)
  note C = sdataD [OF t(7), of i]
  define s' where "s' = lose_active i t"
  have cnt: "unat (Actived (msets s i)) = length as" "unat (ObjectSum (msets s i)) = length qs + length as"
    using I by (simp_all add: mset_def)
  have len: "length (remove1 b as) = length as - 1" "0 < length as" using b by (auto simp: length_remove1)
  have pos: "Actived (msets s i) \<noteq> 0" using cnt(1) len(2) by auto
  have act: "unat (Actived (msets s i) - 1) = length (remove1 b as)" using unat_dec [OF pos] cnt(1) len by simp
  have z: "Actived (msets s i) - 1 = 0 \<longleftrightarrow> remove1 b as = []"
    using act by (metis length_0_conv unat_eq_0)
  have mv: "moved (now_active s b Status) b (qs, as) = (b # qs, remove1 b as)" using n b by simp
  have f: "mN s' = mN t" "mP s' = mP t" "bdata s' = bdata ?s" "mpcalls s' = mpcalls s" "\<forall>j. j \<noteq> i \<longrightarrow> msets s' j = msets t j"
    "ObjectQ (msets s' i) = ObjectQ (msets t i)" "ActiveQ (msets s' i) = ActiveQ (msets t i)"
    "ObjectSum (msets s' i) = ObjectSum (msets s i)" "ActiveLevel (msets s' i) = ActiveLevel (msets s i)"
    "Actived (msets s' i) = Actived (msets s i) - 1"
    "SetsActived (msets s' i) = (SetsActived (msets s i) \<and> remove1 b as \<noteq> [])"
    using pos z C t(6,8) by (simp_all add: s'_def lose_active_def Let_def)
  have "mset s' i (b # qs) (remove1 b as)"
  proof (rule mset_data)
    show "mring s' (ObjectQ (msets s' i)) (b # qs)" using t(3) mring_cong [of "b # qs" s' t] f(1,2,6) by simp
    show "mring s' (ActiveQ (msets s' i)) (remove1 b as)" using t(2) mring_cong [of "remove1 b as" s' t] f(1,2,7) by simp
    show "set (b # qs) \<inter> set (remove1 b as) = {}" using M(4) mringD(8) [OF M(2) b] by auto
    show "unat (Actived (msets s' i)) = length (remove1 b as)" using act f(10) by simp
    show "unat (ObjectSum (msets s' i)) = length (b # qs) + length (remove1 b as)" using cnt(2) f(8) len by simp
    show "MySets (mobjs s' c) = i \<and> (block_active c s' \<longleftrightarrow> c \<in> set (remove1 b as))"
      if "c \<in> set (b # qs) \<union> set (remove1 b as)" for c
      using blocks_placed [OF I _ f(3) mv [symmetric] that] b by blast
  qed (rule M(3))
  moreover have "\<forall>j. j \<noteq> i \<longrightarrow> msets s' j = msets s j" using get_lists [OF t(4,7)] f(5) by simp
  ultimately have e: "one_effect i b Status (qs, as) s s'"
    using f(1-4,9,11) t(5) n b by (auto simp: one_effect_def mv latch_def)
  show ?thesis using set_one_eq [OF b0 M(5)] M(6) n t(1) e by (simp add: s'_def)
qed

lemma set_one_rise:
  assumes I: "mset s i qs as" and b: "b \<in> set qs" and n: "now_active s b Status"
  shows "\<exists>s'. set_one b Status s = Some s' \<and> one_effect i b Status (qs, as) s s'"
proof -
  let ?s = "pend_bits b Status s"
  have M: "mring s (ObjectQ (msets s i)) qs" "mring s (ActiveQ (msets s i)) as" "i \<noteq> 0" "set qs \<inter> set as = {}"
    "MySets (mobjs s b) = i" "\<not> block_active b s" using I b by (auto simp: mset_def)
  have ba: "b \<notin> set as" using M(4) b by auto
  have b0: "b \<noteq> 0" using mringD(3) [OF M(1) b] .
  have "mring ?s (get_list (AtObjectQ i) ?s) qs" "mring ?s (get_list (AtActiveQ i) ?s) as"
    using M(1,2) mring_cong [of as ?s s] mring_cong [of qs ?s s] by simp_all
  from ChangeList_ok [OF this b] M(3,4)
  obtain t where t: "ChangeList (AtObjectQ i) (AtActiveQ i) b ?s = Some t" "mring t (ObjectQ (msets t i)) (remove1 b qs)"
    "mring t (ActiveQ (msets t i)) (b # as)" "\<And>r. r \<noteq> AtObjectQ i \<Longrightarrow> r \<noteq> AtActiveQ i \<Longrightarrow> get_list r t = get_list r s"
    "\<And>z. z \<notin> set qs \<union> set as \<Longrightarrow> mN t z = mN s z \<and> mP t z = mP s z" "bdata t = bdata ?s" "sdata t = sdata s" "mpcalls t = mpcalls s"
    by auto
  note C = sdataD [OF t(7), of i]
  have cnt: "unat (Actived (msets s i)) = length as" "unat (ObjectSum (msets s i)) = length qs + length as"
    using I by (simp_all add: mset_def)
  have len: "length (remove1 b qs) = length qs - 1" "0 < length qs" using b by (auto simp: length_remove1)
  have lt: "Actived (msets s i) < ObjectSum (msets s i)" using cnt len(2) by (simp add: word_less_nat_alt)
  have act: "unat (Actived (msets s i) + 1) = length (b # as)" using unat_inc [OF lt] cnt(1) by simp
  have full: "Actived (msets s i) + 1 \<ge> ObjectSum (msets s i) \<longleftrightarrow> remove1 b qs = []"
  proof -
    have "remove1 b qs = [] \<longleftrightarrow> length (remove1 b qs) = 0" by simp
    then show ?thesis unfolding word_le_nat_alt act cnt(2) using len by (simp only: list.size) linarith
  qed
  have reach: "Actived (msets s i) + 1 \<ge> ActiveLevel (msets s i) \<longleftrightarrow> unat (ActiveLevel (msets s i)) \<le> length (b # as)"
    unfolding word_le_nat_alt act by simp
  define s' where "s' = trigger i (gain_active i t)"
  have mv: "moved (now_active s b Status) b (qs, as) = (remove1 b qs, b # as)" using n ba by simp
  have g: "gain_active i t = ums (\<lambda>c. c\<lparr>Actived := Actived c + 1\<rparr>) i t" using lt C by (simp add: gain_active_def)
  have f: "mN s' = mN t" "mP s' = mP t" "bdata s' = bdata ?s" "\<forall>j. j \<noteq> i \<longrightarrow> msets s' j = msets t j"
    "ObjectQ (msets s' i) = ObjectQ (msets t i)" "ActiveQ (msets s' i) = ActiveQ (msets t i)"
    "ObjectSum (msets s' i) = ObjectSum (msets s i)" "ActiveLevel (msets s' i) = ActiveLevel (msets s i)"
    "Actived (msets s' i) = Actived (msets s i) + 1"
    using C t(6) by (simp_all add: s'_def trigger_def g Let_def)
  have on: "SetsActived (msets s' i) \<longleftrightarrow>
      SetsActived (msets s i) \<or> unat (ActiveLevel (msets s i)) \<le> length (b # as) \<or> remove1 b qs = []"
    unfolding full [symmetric] reach [symmetric] using C by (auto simp: s'_def trigger_def g Let_def)
  have post: "mpcalls s' = mpcalls s @ (if \<not> SetsActived (msets s i) \<and> SetsActived (msets s' i) then [Sets_post i] else [])"
    using C t(8) by (simp add: s'_def trigger_def g Let_def)
  have "mset s' i (remove1 b qs) (b # as)"
  proof (rule mset_data)
    show "mring s' (ObjectQ (msets s' i)) (remove1 b qs)" using t(2) mring_cong [of "remove1 b qs" s' t] f(1,2,5) by simp
    show "mring s' (ActiveQ (msets s' i)) (b # as)" using t(3) mring_cong [of "b # as" s' t] f(1,2,6) by simp
    show "set (remove1 b qs) \<inter> set (b # as) = {}" using M(4) mringD(8) [OF M(1) b] by auto
    show "unat (Actived (msets s' i)) = length (b # as)" using act f(9) by simp
    show "unat (ObjectSum (msets s' i)) = length (remove1 b qs) + length (b # as)" using cnt(2) f(7) len by simp
    show "MySets (mobjs s' c) = i \<and> (block_active c s' \<longleftrightarrow> c \<in> set (b # as))"
      if "c \<in> set (remove1 b qs) \<union> set (b # as)" for c
      using blocks_placed [OF I _ f(3) mv [symmetric] that] b by blast
  qed (rule M(3))
  moreover have "\<forall>j. j \<noteq> i \<longrightarrow> msets s' j = msets s j" using get_lists [OF t(4,7)] f(4) by simp
  moreover have "latch (now_active s b Status) (ActiveLevel (msets s i)) b (qs, as) (SetsActived (msets s i)) = SetsActived (msets s' i)"
    using n ba by (simp add: latch_def mv on)
  ultimately have e: "one_effect i b Status (qs, as) s s'"
    using f(1-3,8) t(5) post by (simp add: one_effect_def mv del: moved.simps)
  show ?thesis using set_one_eq [OF b0 M(5)] M(6) n t(1) e by (simp add: s'_def)
qed

lemma set_one_ok:
  assumes I: "mset s i qs as" and b: "b \<in> set qs \<union> set as"
  shows "\<exists>s'. set_one b Status s = Some s' \<and> one_effect i b Status (qs, as) s s'"
proof (cases "now_active s b Status \<longleftrightarrow> b \<in> set as")
  case True
  let ?s = "pend_bits b Status s"
  have M: "MySets (mobjs s b) = i" "block_active b s \<longleftrightarrow> b \<in> set as" "b \<noteq> 0"
    using I b by (auto simp: mset_def mring_def)
  have mv: "moved (now_active s b Status) b (qs, as) = (qs, as)" using True by auto
  have "mring ?s h xs = mring s h xs" for h xs by (rule mring_cong) simp
  then have "mset ?s i qs as"
    using I blocks_placed [OF I b refl mv [symmetric]] by (auto simp: mset_def)
  then have "one_effect i b Status (qs, as) s ?s" using True by (simp add: one_effect_def mv latch_def)
  then show ?thesis using set_one_eq [OF M(3,1)] M(2) True by auto
next
  case False
  then show ?thesis using set_one_fall [OF I] set_one_rise [OF I] b by blast
qed

section \<open>Objects in several sets\<close>

text \<open>The blocks of an object, one for each of its sets.\<close>

fun chain :: "mpst \<Rightarrow> nat \<Rightarrow> nat list \<Rightarrow> bool" where
  "chain s h [] = (h = 0)"
| "chain s h (b # bs) = (h = b \<and> b \<noteq> 0 \<and> chain s (NextSets (mobjs s b)) bs)"

definition object_blocks :: "mpst \<Rightarrow> nat set \<Rightarrow> (nat \<Rightarrow> nat list) \<Rightarrow> (nat \<Rightarrow> nat list) \<Rightarrow> nat \<Rightarrow> nat list \<Rightarrow> bool" where
  "object_blocks s I Q A h bs \<longleftrightarrow> chain s h bs \<and> distinct (map (\<lambda>b. MySets (mobjs s b)) bs) \<and>
     (\<forall>b \<in> set bs. MySets (mobjs s b) \<in> I \<and> b \<in> set (Q (MySets (mobjs s b))) \<union> set (A (MySets (mobjs s b))))"

definition abs_set :: "mpst \<Rightarrow> u32 \<Rightarrow> nat \<Rightarrow> (nat \<Rightarrow> nat list) \<times> (nat \<Rightarrow> nat list) \<Rightarrow> (nat \<Rightarrow> nat list) \<times> (nat \<Rightarrow> nat list)" where
  "abs_set s Status b v = (let i = MySets (mobjs s b); w = moved (now_active s b Status) b (fst v i, snd v i)
     in ((fst v)(i := fst w), (snd v)(i := snd w)))"

lemma pend_bits_static:
  assumes "bdata s' = bdata (pend_bits b Status s)"
  shows "NextSets (mobjs s' p) = NextSets (mobjs s p)" "MySets (mobjs s' p) = MySets (mobjs s p)"
    "SensingBit (mobjs s' p) = SensingBit (mobjs s p)" "now_active s' p st = now_active s p st"
    "abs_set s' st = abs_set s st" "chain s' h bs = chain s h bs"
proof -
  show e: "NextSets (mobjs s' p) = NextSets (mobjs s p)" "MySets (mobjs s' p) = MySets (mobjs s p)"
    "SensingBit (mobjs s' p) = SensingBit (mobjs s p)" for p
    using bdata_eq(1,2,4) [OF fun_cong [OF assms, of p]] by (simp_all add: pend_bits_def umo_def)
  show n: "now_active s' p st = now_active s p st" for p by (simp add: now_active_def e)
  show "abs_set s' st = abs_set s st" by (intro ext) (simp add: abs_set_def e n)
  show "chain s' h bs = chain s h bs" by (induction bs arbitrary: h) (simp_all add: e)
qed

lemma one_effect_inv:
  assumes V: "minv s I Q A" and i: "i \<in> I" "MySets (mobjs s b) = i" and e: "one_effect i b Status (Q i, A i) s s'"
    and v: "(Q', A') = abs_set s Status b (Q, A)" and b: "b \<in> set (Q i) \<union> set (A i)"
  shows "minv s' I Q' A'"
  unfolding minv_def
proof
  fix j assume j: "j \<in> I"
  show "mset s' j (Q' j) (A' j)"
  proof (cases "j = i")
    case True
    then show ?thesis using e v i(2) by (simp add: one_effect_def abs_set_def Let_def del: moved.simps)
  next
    case False
    have m: "mset s j (Q j) (A j)" and mi: "mset s i (Q i) (A i)" using V j i(1) by (simp_all add: minv_def)
    have "mset s' j (Q j) (A j)"
    proof (rule mset_other [OF m])
      show "msets s' j = msets s j" using e False by (simp add: one_effect_def)
      fix c assume c: "c \<in> set (Q j) \<union> set (A j)"
      then have "MySets (mobjs s c) = j" using m by (auto simp: mset_def)
      then have "c \<notin> set (Q i) \<union> set (A i)" "c \<noteq> b" using mi False i(2) by (auto simp: mset_def)
      then show "mN s' c = mN s c \<and> mP s' c = mP s c \<and> bdata s' c = bdata s c" using e by (simp add: one_effect_def)
    qed
    then show ?thesis using v i(2) False by (simp add: abs_set_def Let_def del: moved.simps)
  qed
qed

lemma set_loop_ok:
  assumes "minv s I Q A" and "object_blocks s I Q A h bs"
  shows "\<exists>s' ps. set_loop h Status s = Some s' \<and>
    minv s' I (fst (fold (abs_set s Status) bs (Q, A))) (snd (fold (abs_set s Status) bs (Q, A))) \<and>
    (\<forall>p. PendingBit (mobjs s' p) =
      (if p \<in> set bs then Status AND (SensingBit (mobjs s p) AND NOT SENSINGBIT_MODE) else PendingBit (mobjs s p))) \<and>
    (\<forall>b \<in> set bs. SetsActived (msets s' (MySets (mobjs s b))) =
      latch (now_active s b Status) (ActiveLevel (msets s (MySets (mobjs s b)))) b
        (Q (MySets (mobjs s b)), A (MySets (mobjs s b))) (SetsActived (msets s (MySets (mobjs s b))))) \<and>
    (\<forall>j. j \<notin> (\<lambda>b. MySets (mobjs s b)) ` set bs \<longrightarrow> msets s' j = msets s j) \<and>
    mpcalls s' = mpcalls s @ map Sets_post ps \<and>
    (\<forall>j. j \<in> set ps \<longleftrightarrow> \<not> SetsActived (msets s j) \<and> SetsActived (msets s' j))"
  using assms
proof (induction bs arbitrary: s Q A h)
  case Nil
  then show ?case by (intro exI [of _ s] exI [of _ "[]"]) (simp add: object_blocks_def set_loop.simps [of 0])
next
  case (Cons b bs)
  let ?M = "\<lambda>b. MySets (mobjs s b)" and ?i = "MySets (mobjs s b)"
  have O: "h = b" "b \<noteq> 0" "chain s (NextSets (mobjs s b)) bs" "?i \<in> I" "b \<in> set (Q ?i) \<union> set (A ?i)"
    "?i \<notin> ?M ` set bs" "b \<notin> set bs" "distinct (map ?M bs)"
    "\<forall>c \<in> set bs. ?M c \<in> I \<and> c \<in> set (Q (?M c)) \<union> set (A (?M c))"
    using Cons.prems(2) by (auto simp: object_blocks_def)
  have "mset s ?i (Q ?i) (A ?i)" using Cons.prems(1) O(4) by (simp add: minv_def)
  from set_one_ok [OF this O(5)]
  obtain s1 where s1: "set_one b Status s = Some s1" "one_effect ?i b Status (Q ?i, A ?i) s s1" by blast
  obtain Q1 A1 where v: "(Q1, A1) = abs_set s Status b (Q, A)" by (metis surj_pair)
  have E: "bdata s1 = bdata (pend_bits b Status s)" "\<forall>j. j \<noteq> ?i \<longrightarrow> msets s1 j = msets s j"
    "SetsActived (msets s1 ?i) = latch (now_active s b Status) (ActiveLevel (msets s ?i)) b (Q ?i, A ?i) (SetsActived (msets s ?i))"
    "mpcalls s1 = mpcalls s @ (if \<not> SetsActived (msets s ?i) \<and> SetsActived (msets s1 ?i) then [Sets_post ?i] else [])"
    using s1(2) by (simp_all add: one_effect_def)
  note P = pend_bits_static [OF E(1)]
  have inv: "minv s1 I Q1 A1" by (rule one_effect_inv [OF Cons.prems(1) O(4) refl s1(2) v O(5)])
  have QA: "Q1 j = Q j" "A1 j = A j" if "j \<noteq> ?i" for j using v that by (simp_all add: abs_set_def Let_def del: moved.simps)
  have ne: "?M c \<noteq> ?i" if "c \<in> set bs" for c using O(6) that by (metis image_eqI)
  have "object_blocks s1 I Q1 A1 (NextSets (mobjs s b)) bs"
    unfolding object_blocks_def P(2,6) using O(3,8,9) QA ne by simp
  from Cons.IH [OF inv this]
  obtain s' ps where I: "set_loop (NextSets (mobjs s b)) Status s1 = Some s'"
    "minv s' I (fst (fold (abs_set s Status) bs (Q1, A1))) (snd (fold (abs_set s Status) bs (Q1, A1)))"
    "\<forall>p. PendingBit (mobjs s' p) =
      (if p \<in> set bs then Status AND (SensingBit (mobjs s p) AND NOT SENSINGBIT_MODE) else PendingBit (mobjs s1 p))"
    "\<forall>c \<in> set bs. SetsActived (msets s' (?M c)) = latch (now_active s c Status) (ActiveLevel (msets s1 (?M c))) c
        (Q1 (?M c), A1 (?M c)) (SetsActived (msets s1 (?M c)))"
    "\<forall>j. j \<notin> ?M ` set bs \<longrightarrow> msets s' j = msets s1 j"
    "mpcalls s' = mpcalls s1 @ map Sets_post ps" "\<forall>j. j \<in> set ps \<longleftrightarrow> \<not> SetsActived (msets s1 j) \<and> SetsActived (msets s' j)"
    unfolding P by (elim exE conjE) (rule that)
  have bi: "msets s' ?i = msets s1 ?i" using I(5) O(6) by blast
  have oi: "msets s1 j = msets s j" if "j \<noteq> ?i" for j using E(2) that by blast
  let ?on = "\<not> SetsActived (msets s ?i) \<and> SetsActived (msets s1 ?i)"
  have "set_loop h Status s = Some s'"
    using O(1,2) s1(1) I(1) by (simp add: set_loop.simps [of b] rmo_def P(1))
  moreover have "fold (abs_set s Status) (b # bs) (Q, A) = fold (abs_set s Status) bs (Q1, A1)" using v by simp
  moreover have "PendingBit (mobjs s' p) =
      (if p \<in> set (b # bs) then Status AND (SensingBit (mobjs s p) AND NOT SENSINGBIT_MODE) else PendingBit (mobjs s p))" for p
    using I(3) O(7) bdata_eq(3) [OF fun_cong [OF E(1), of p]] by (cases "p = b") (simp_all add: pend_bits_def umo_def)
  moreover have "SetsActived (msets s' (?M c)) = latch (now_active s c Status) (ActiveLevel (msets s (?M c))) c
        (Q (?M c), A (?M c)) (SetsActived (msets s (?M c)))" if "c \<in> set (b # bs)" for c
  proof (cases "c = b")
    case True
    then show ?thesis using E(3) bi by simp
  next
    case False
    then have c: "c \<in> set bs" using that by simp
    show ?thesis using bspec [OF I(4) c] QA [OF ne [OF c]] oi [OF ne [OF c]] by simp
  qed
  moreover have "msets s' j = msets s j" if "j \<notin> ?M ` set (b # bs)" for j
    using that I(5) oi by simp
  moreover have "mpcalls s' = mpcalls s @ map Sets_post ((if ?on then [?i] else []) @ ps)"
    using I(6) E(4) by simp
  moreover have "j \<in> set ((if ?on then [?i] else []) @ ps) \<longleftrightarrow> \<not> SetsActived (msets s j) \<and> SetsActived (msets s' j)" for j
    using I(7) bi oi by (cases "j = ?i") auto
  ultimately show ?case using I(2)
    by (intro exI [of _ s'] exI [of _ "(if ?on then [?i] else []) @ ps"] conjI allI ballI impI)
       (simp_all only: simp_thms)
qed

section \<open>Taking an object out of a set\<close>

definition del_from :: "listaddr \<Rightarrow> nat \<Rightarrow> mpst \<Rightarrow> mpst option" where
  "del_from p b s =
     (if mN s b \<noteq> b then
        Option.bind (cut_object b s) (\<lambda>s. Some (if get_list p s = b then put_list p (mN s b) s else s))
      else Some (if get_list p s = b then put_list p 0 s else s))"

lemma del_from_ok:
  assumes r: "mring s (get_list p s) xs" and b: "b \<in> set xs"
  shows "\<exists>s'. del_from p b s = Some s' \<and> mring s' (get_list p s') (remove1 b xs) \<and>
    (\<forall>q. q \<noteq> p \<longrightarrow> get_list q s' = get_list q s) \<and> (\<forall>z. z \<notin> set xs \<longrightarrow> mN s' z = mN s z \<and> mP s' z = mP s z) \<and>
    bdata s' = bdata s \<and> sdata s' = sdata s \<and> mpcalls s' = mpcalls s \<and> mN s' b = mN s b"
proof -
  obtain as bs where xs: "xs = as @ b # bs" "b \<notin> set as" using b by (meson split_list_first)
  have rm: "remove1 b xs = as @ bs" using xs by (simp add: remove1_append)
  obtain s1 where s1: "cut_object b s = Some s1"
    "mring s1 (if as @ bs = [] then 0 else if get_list p s = b then mN s1 b else get_list p s) (as @ bs)"
    "mN s1 b = b \<longleftrightarrow> as @ bs = []" "mN s1 b = mN s b" "\<forall>q. get_list q s1 = get_list q s"
    "\<forall>p. p \<notin> set xs \<longrightarrow> mN s1 p = mN s p \<and> mP s1 p = mP s p"
    "bdata s1 = bdata s" "sdata s1 = sdata s" "mpcalls s1 = mpcalls s"
    using cut_object_ok [OF r [unfolded xs(1)], folded xs(1)] by (elim exE conjE) (rule that)
  show ?thesis
  proof (cases "as @ bs = []")
    case True
    have h: "get_list p s = b" using r True xs(1) by (simp add: mring_def)
    have "del_from p b s = Some (put_list p 0 s)" using True s1(3,4) h by (simp add: del_from_def)
    then show ?thesis unfolding rm True by (intro exI [of _ "put_list p 0 s"]) (simp add: mring_def)
  next
    case False
    let ?t = "if get_list p s1 = b then put_list p (mN s1 b) s1 else s1"
    have "del_from p b s = Some ?t" using False s1(1,3,4) by (simp add: del_from_def)
    moreover have "mring ?t (get_list p ?t) (as @ bs)" using s1(2) False s1(5) by (auto split: if_splits)
    moreover have "get_list q ?t = get_list q s" if "q \<noteq> p" for q using s1(5) that by simp
    moreover have "mN ?t z = mN s z \<and> mP ?t z = mP s z" if "z \<notin> set xs" for z using s1(6) that by simp
    ultimately show ?thesis unfolding rm using s1(4,7-9) by (intro exI [of _ ?t]) simp
  qed
qed

lemma del_links_eq:
  assumes "b \<noteq> 0"
  shows "b \<noteq> ActiveQ (msets s i) \<Longrightarrow> del_links i b s = del_from (AtObjectQ i) b s"
    and "b \<noteq> ObjectQ (msets s i) \<Longrightarrow> del_links i b s = del_from (AtActiveQ i) b s"
proof -
  have m: "msets t = msets s" if "cut_object b s = Some t" for t
    using that assms
    by (auto simp: cut_object_def rmo_def set_NextObject_def set_PreObject_def wmo_def umo_def split: if_splits)
  show "b \<noteq> ActiveQ (msets s i) \<Longrightarrow> del_links i b s = del_from (AtObjectQ i) b s"
    using m assms by (cases "cut_object b s") (auto simp: del_links_def del_from_def block_access Let_def)
  show "b \<noteq> ObjectQ (msets s i) \<Longrightarrow> del_links i b s = del_from (AtActiveQ i) b s"
    using m assms by (cases "cut_object b s") (auto simp: del_links_def del_from_def block_access Let_def)
qed

lemma del_links_ok:
  assumes q: "mring s (ObjectQ (msets s i)) qs" and a: "mring s (ActiveQ (msets s i)) as"
    and dis: "set qs \<inter> set as = {}" and b: "b \<in> set qs \<union> set as"
  shows "\<exists>s'. del_links i b s = Some s' \<and> mring s' (ObjectQ (msets s' i)) (remove1 b qs) \<and>
    mring s' (ActiveQ (msets s' i)) (remove1 b as) \<and> (\<forall>j. j \<noteq> i \<longrightarrow> msets s' j = msets s j) \<and>
    (\<forall>z. z \<notin> set qs \<union> set as \<longrightarrow> mN s' z = mN s z \<and> mP s' z = mP s z) \<and>
    bdata s' = bdata s \<and> sdata s' = sdata s \<and> mpcalls s' = mpcalls s \<and> mN s' b = mN s b"
proof (cases "b \<in> set qs")
  case True
  have na: "b \<notin> set as" "b \<noteq> 0" using dis True mringD(3) [OF q] by auto
  have "b \<noteq> ActiveQ (msets s i)" using a na mringD(9) [OF a] by (cases as) (auto simp: mring_def)
  then have e: "del_links i b s = del_from (AtObjectQ i) b s" by (rule del_links_eq(1) [OF na(2)])
  obtain s' where s': "del_from (AtObjectQ i) b s = Some s'" "mring s' (ObjectQ (msets s' i)) (remove1 b qs)"
    "\<forall>q. q \<noteq> AtObjectQ i \<longrightarrow> get_list q s' = get_list q s" "\<forall>z. z \<notin> set qs \<longrightarrow> mN s' z = mN s z \<and> mP s' z = mP s z"
    "bdata s' = bdata s" "sdata s' = sdata s" "mpcalls s' = mpcalls s" "mN s' b = mN s b"
    using del_from_ok [of s "AtObjectQ i" qs b] q True by auto
  have "ActiveQ (msets s' i) = ActiveQ (msets s i)" using s'(3) [rule_format, of "AtActiveQ i"] by simp
  then have "mring s' (ActiveQ (msets s' i)) as" using a mring_cong [of as s' s] s'(4) dis by auto
  then show ?thesis using e s' na(1) get_lists [of i s' s] by (intro exI [of _ s']) (auto simp: remove1_idem)
next
  case False
  then have t: "b \<in> set as" using b by simp
  have na: "b \<notin> set qs" "b \<noteq> 0" using False t mringD(3) [OF a] by auto
  have "b \<noteq> ObjectQ (msets s i)" using q na mringD(9) [OF q] by (cases qs) (auto simp: mring_def)
  then have e: "del_links i b s = del_from (AtActiveQ i) b s" by (rule del_links_eq(2) [OF na(2)])
  obtain s' where s': "del_from (AtActiveQ i) b s = Some s'" "mring s' (ActiveQ (msets s' i)) (remove1 b as)"
    "\<forall>q. q \<noteq> AtActiveQ i \<longrightarrow> get_list q s' = get_list q s" "\<forall>z. z \<notin> set as \<longrightarrow> mN s' z = mN s z \<and> mP s' z = mP s z"
    "bdata s' = bdata s" "sdata s' = sdata s" "mpcalls s' = mpcalls s" "mN s' b = mN s b"
    using del_from_ok [of s "AtActiveQ i" as b] a t by auto
  have "ObjectQ (msets s' i) = ObjectQ (msets s i)" using s'(3) [rule_format, of "AtObjectQ i"] by simp
  then have "mring s' (ObjectQ (msets s' i)) qs" using q mring_cong [of qs s' s] s'(4) dis by auto
  then show ?thesis using e s' na(1) get_lists [of i s' s] by (intro exI [of _ s']) (auto simp: remove1_idem)
qed

text \<open>Deleting, up to what becomes of the chain of the object.\<close>

definition del_counts :: "nat \<Rightarrow> nat \<Rightarrow> mpst \<Rightarrow> mpst" where
  "del_counts i b s = ums (\<lambda>c. c\<lparr>ObjectSum := ObjectSum c - 1\<rparr>) i (if block_active b s then del_active i s else s)"

lemma del_block_ok:
  assumes I: "mset s i qs as" and b: "b \<in> set qs \<union> set as"
  shows "\<exists>s'. del_links i b (del_counts i b s) = Some s' \<and> mset s' i (remove1 b qs) (remove1 b as) \<and>
    (\<forall>j. j \<noteq> i \<longrightarrow> msets s' j = msets s j) \<and> (\<forall>z. z \<notin> set qs \<union> set as \<longrightarrow> mN s' z = mN s z \<and> mP s' z = mP s z) \<and>
    bdata s' = bdata s \<and> mpcalls s' = mpcalls s \<and> mN s' b = mN s b"
proof -
  let ?s = "del_counts i b s"
  have M: "mring s (ObjectQ (msets s i)) qs" "mring s (ActiveQ (msets s i)) as" "i \<noteq> 0" "set qs \<inter> set as = {}"
    "block_active b s \<longleftrightarrow> b \<in> set as" and cnt: "unat (Actived (msets s i)) = length as" "unat (ObjectSum (msets s i)) = length qs + length as"
    using I b by (auto simp: mset_def)
  have f: "mobjs ?s = mobjs s" "ObjectQ (msets ?s i) = ObjectQ (msets s i)" "ActiveQ (msets ?s i) = ActiveQ (msets s i)"
    "mpcalls ?s = mpcalls s" "\<forall>j. j \<noteq> i \<longrightarrow> msets ?s j = msets s j" "ObjectSum (msets ?s i) = ObjectSum (msets s i) - 1"
    by (simp_all add: del_counts_def del_active_def lose_active_def Let_def)
  have l: "mN ?s = mN s" "mP ?s = mP s" "bdata ?s = bdata s" by (auto simp: mN_def mP_def bdata_def f(1) fun_eq_iff)
  have "mring ?s h xs = mring s h xs" for h xs by (rule mring_cong) (simp add: l)
  then have r: "mring ?s (ObjectQ (msets ?s i)) qs" "mring ?s (ActiveQ (msets ?s i)) as" using M(1,2) f(2,3) by simp_all
  obtain s' where s': "del_links i b ?s = Some s'" "mring s' (ObjectQ (msets s' i)) (remove1 b qs)"
    "mring s' (ActiveQ (msets s' i)) (remove1 b as)" "\<forall>j. j \<noteq> i \<longrightarrow> msets s' j = msets ?s j"
    "\<forall>z. z \<notin> set qs \<union> set as \<longrightarrow> mN s' z = mN ?s z \<and> mP s' z = mP ?s z"
    "bdata s' = bdata ?s" "sdata s' = sdata ?s" "mpcalls s' = mpcalls ?s" "mN s' b = mN ?s b"
    using del_links_ok [OF r M(4) b] by (elim exE conjE) (rule that)
  note C = sdataD [OF s'(7), of i]
  have sum0: "ObjectSum (msets s i) \<noteq> 0" using cnt(2) b by (cases qs; cases as) auto
  have di: "distinct qs" "distinct as" using I dring_distinct by (auto simp: mset_def mring_def split: if_splits)
  have len: "length (remove1 b qs) + length (remove1 b as) = length qs + length as - 1"
  proof (cases "b \<in> set qs")
    case True
    then obtain n where n: "length qs = Suc n" by (cases qs) auto
    have "b \<notin> set as" using M(4) True by auto
    then show ?thesis using True n by (simp add: length_remove1 remove1_idem)
  next
    case False
    then have a: "b \<in> set as" using b by simp
    then obtain n where "length as = Suc n" by (cases as) auto
    then show ?thesis using False a by (simp add: length_remove1 remove1_idem)
  qed
  have act: "unat (Actived (msets ?s i)) = length (remove1 b as)"
  proof (cases "b \<in> set as")
    case True
    then have "Actived (msets s i) \<noteq> 0" using cnt(1) by (cases as) auto
    then have "unat (Actived (msets s i) - 1) = length (remove1 b as)" "Actived (msets ?s i) = Actived (msets s i) - 1"
      using unat_dec [of "Actived (msets s i)"] cnt(1) True M(5)
      by (simp_all add: length_remove1 del_counts_def del_active_def lose_active_def Let_def)
    then show ?thesis by simp
  next
    case False
    then show ?thesis using M(5) cnt(1) by (simp add: del_counts_def remove1_idem)
  qed
  have "mset s' i (remove1 b qs) (remove1 b as)"
  proof (rule mset_data)
    show "set (remove1 b qs) \<inter> set (remove1 b as) = {}" using M(4) set_remove1_subset by fast
    show "unat (Actived (msets s' i)) = length (remove1 b as)" using act C by simp
    show "unat (ObjectSum (msets s' i)) = length (remove1 b qs) + length (remove1 b as)"
      using unat_dec [OF sum0] cnt(2) len C f(6) by simp
    fix c assume "c \<in> set (remove1 b qs) \<union> set (remove1 b as)"
    then have c: "c \<in> set qs \<union> set as" "c \<noteq> b" using di by auto
    have "bdata s' c = bdata s c" using s'(6) l by simp
    then have "MySets (mobjs s' c) = MySets (mobjs s c)" "block_active c s' = block_active c s" by (auto dest: bdata_eq)
    then show "MySets (mobjs s' c) = i \<and> (block_active c s' \<longleftrightarrow> c \<in> set (remove1 b as))"
      using I c di by (auto simp: mset_def)
  qed (use s' M in simp_all)
  then show ?thesis using s' f l by (intro exI [of _ s']) simp
qed

lemma find_first: "h \<noteq> 0 \<Longrightarrow> MySets (mobjs s h) = i \<Longrightarrow> find_block i f h s = Some (f, h)"
  by (simp add: find_block.simps [of i f h] rmo_def)

lemma find_second:
  "h \<noteq> 0 \<Longrightarrow> MySets (mobjs s h) \<noteq> i \<Longrightarrow> NextSets (mobjs s h) = b \<Longrightarrow> b \<noteq> 0 \<Longrightarrow> MySets (mobjs s b) = i \<Longrightarrow>
   find_block i f h s = Some (h, b)"
  by (subst find_block.simps) (simp add: rmo_def find_first)

end
