(* ===== verification/MultiplexProps.thy ===== *)
theory MultiplexProps
  imports MultiplexSets
begin

text \<open>Making sets and adding objects, and the properties of the multiplexer.\<close>

section \<open>New sets and new objects\<close>

lemma Multiplex_Create_ok:
  assumes "level \<noteq> 0" and "m \<noteq> 0"
  shows "\<exists>s'. Multiplex_Create (Some m) level s = (m, s') \<and> mset s' m [] [] \<and> (\<forall>j. j \<noteq> m \<longrightarrow> msets s' j = msets s j) \<and> mobjs s' = mobjs s"
  using assms by (auto simp: Multiplex_Create_def mset_def mring_def note_mp_def)

lemma find_none:
  "chain s h bs \<Longrightarrow> \<forall>b \<in> set bs. MySets (mobjs s b) \<noteq> i \<Longrightarrow> \<exists>f'. find_block i f h s = Some (f', 0)"
proof (induction bs arbitrary: f h)
  case Nil
  then show ?case by (simp add: find_block.simps)
next
  case (Cons b bs)
  then show ?case by (subst find_block.simps) (simp add: rmo_def)
qed

text \<open>A new block of a set, before the set is triggered.\<close>

lemma add_block_ok:
  assumes I: "mset s i qs as" and t: "t \<noteq> 0" "t \<notin> set qs \<union> set as" and big: "length qs + length as + 1 < 2 ^ 32"
    and s0: "s0 = umo (\<lambda>b. b\<lparr>SensingBit := sensing, PendingBit := status, ObjectID := oid, MySets := i\<rparr>) t
                (ums (\<lambda>c. c\<lparr>ObjectSum := ObjectSum c + 1\<rparr>) i s)"
    and act: "act = ObjectIsActived status (sensing AND NOT SENSINGBIT_MODE) (sensing AND SENSINGBIT_MODE)"
  shows "\<exists>s'. push_object (if act then AtActiveQ i else AtObjectQ i) t s0 = Some s' \<and>
    mset (if act then ums (\<lambda>c. c\<lparr>Actived := Actived c + 1\<rparr>) i (umo (\<lambda>b. b\<lparr>NextSets := h\<rparr>) t s') else umo (\<lambda>b. b\<lparr>NextSets := h\<rparr>) t s')
      i (if act then qs else t # qs) (if act then t # as else as) \<and>
    (\<forall>j. j \<noteq> i \<longrightarrow> msets s' j = msets s j) \<and>
    (\<forall>z. z \<notin> set (t # qs) \<union> set as \<longrightarrow> mN s' z = mN s z \<and> mP s' z = mP s z) \<and>
    (\<forall>z. z \<noteq> t \<longrightarrow> bdata s' z = bdata s z) \<and> MySets (mobjs s' t) = i"
proof -
  let ?q = "if act then AtActiveQ i else AtObjectQ i" and ?o = "if act then AtObjectQ i else AtActiveQ i"
  let ?ys = "if act then as else qs" and ?zs = "if act then qs else as"
  have M: "mring s (ObjectQ (msets s i)) qs" "mring s (ActiveQ (msets s i)) as" "i \<noteq> 0" "set qs \<inter> set as = {}"
    "unat (Actived (msets s i)) = length as" "unat (ObjectSum (msets s i)) = length qs + length as"
    using I by (auto simp: mset_def)
  have f: "mN s0 = mN s" "mP s0 = mP s" "msets s0 i = (msets s i)\<lparr>ObjectSum := ObjectSum (msets s i) + 1\<rparr>"
    "\<forall>j. j \<noteq> i \<longrightarrow> msets s0 j = msets s j" "\<forall>z. z \<noteq> t \<longrightarrow> bdata s0 z = bdata s z"
    "bdata s0 t = (NextSets (mobjs s t), i, oid, status, sensing)"
    by (auto simp: s0 umo_def ums_def mN_def mP_def bdata_def Let_def fun_eq_iff)
  have mr: "mring s0 k xs = mring s k xs" for k xs by (rule mring_cong) (simp add: f)
  have ty: "t \<notin> set ?ys" using t(2) by simp
  have "mring s0 (get_list ?q s0) ?ys" using M(1,2) f(3) by (simp add: mr)
  from push_object_ok [OF this t(1) ty]
  obtain s' where s': "push_object ?q t s0 = Some s'" "get_list ?q s' = t" "mring s' t (t # ?ys)"
    "\<And>r. r \<noteq> ?q \<Longrightarrow> get_list r s' = get_list r s0" "\<And>p. p \<notin> set (t # ?ys) \<Longrightarrow> mN s' p = mN s0 p \<and> mP s' p = mP s0 p"
    "bdata s' = bdata s0" "sdata s' = sdata s0" by blast
  note C = sdataD [OF s'(7), of i]
  define u where "u = (if act then ums (\<lambda>c. c\<lparr>Actived := Actived c + 1\<rparr>) i (umo (\<lambda>b. b\<lparr>NextSets := h\<rparr>) t s')
    else umo (\<lambda>b. b\<lparr>NextSets := h\<rparr>) t s')"
  have g: "mN u = mN s'" "mP u = mP s'" "ObjectQ (msets u i) = ObjectQ (msets s' i)" "ActiveQ (msets u i) = ActiveQ (msets s' i)"
    "ObjectSum (msets u i) = ObjectSum (msets s i) + 1" "Actived (msets u i) = (if act then Actived (msets s i) + 1 else Actived (msets s i))"
    using C f(3) by (auto simp: u_def umo_def ums_def mN_def mP_def fun_eq_iff)
  have bd: "PendingBit (mobjs u z) = PendingBit (mobjs s' z) \<and> SensingBit (mobjs u z) = SensingBit (mobjs s' z) \<and> MySets (mobjs u z) = MySets (mobjs s' z)" for z
    by (auto simp: u_def umo_def ums_def)
  have mu: "mring u k xs = mring s' k xs" for k xs by (rule mring_cong) (simp add: g)
  have lz: "length (if act then qs else t # qs) + length (if act then t # as else as) = Suc (length qs + length as)" by simp
  have inc: "unat (x + 1) = Suc n" if "unat x = n" "n + 1 < 2 ^ 32" for x :: u32 and n
    using that by (simp add: unat_word_ariths)
  have bt: "SensingBit (mobjs s' t) = sensing" "PendingBit (mobjs s' t) = status" "MySets (mobjs s' t) = i"
    using fun_cong [OF s'(6), of t] f(6) by (simp_all add: bdata_def Let_def)
  have "mset u i (if act then qs else t # qs) (if act then t # as else as)"
  proof (rule mset_data)
    have oth: "get_list ?o s' = get_list ?o s" using s'(4) [of ?o] f(3) by simp
    have nz: "z \<notin> set (t # ?ys)" if "z \<in> set ?zs" for z using that M(4) t(2) by (auto split: if_splits)
    have "mN s' z = mN s z \<and> mP s' z = mP s z" if "z \<in> set ?zs" for z using s'(5) [OF nz [OF that]] f(1,2) by simp
    then have "mring s' (get_list ?o s) ?zs = mring s (get_list ?o s) ?zs" by (rule mring_cong)
    then have "mring s' (get_list ?o s) ?zs" using M(1,2) by simp
    then show "mring u (ObjectQ (msets u i)) (if act then qs else t # qs)" "mring u (ActiveQ (msets u i)) (if act then t # as else as)"
      using s'(2,3) oth by (cases act; simp add: mu g(3,4))+
    show "set (if act then qs else t # qs) \<inter> set (if act then t # as else as) = {}" using M(4) t(2) by auto
    show "unat (Actived (msets u i)) = length (if act then t # as else as)" using g(6) M(5) inc [OF M(5)] big by simp
    show "unat (ObjectSum (msets u i)) = length (if act then qs else t # qs) + length (if act then t # as else as)"
      unfolding lz using g(5) inc [OF M(6)] big by simp
    fix c assume c: "c \<in> set (if act then qs else t # qs) \<union> set (if act then t # as else as)"
    show "MySets (mobjs u c) = i \<and> (block_active c u \<longleftrightarrow> c \<in> set (if act then t # as else as))"
    proof (cases "c = t")
      case True
      then show ?thesis using bd [of t] bt t(2) act by (simp add: block_active_def)
    next
      case False
      then have cc: "c \<in> set qs \<union> set as" using c by (auto split: if_splits)
      have d: "bdata s' c = bdata s c" using s'(6) f(5) False by simp
      have "MySets (mobjs u c) = MySets (mobjs s c)" "block_active c u = block_active c s"
        using bdata_eq(2,5) [OF d] bd [of c] by (simp_all add: block_active_def Let_def)
      moreover have "MySets (mobjs s c) = i \<and> (block_active c s \<longleftrightarrow> c \<in> set as)" using I cc by (simp add: mset_def)
      ultimately show ?thesis using False by simp
    qed
  qed (rule M(3))
  moreover have "msets s' j = msets s j" if "j \<noteq> i" for j using get_lists [of i s' s0 j] s'(4,7) f(4) that by simp
  moreover have "\<forall>z. z \<notin> set (t # qs) \<union> set as \<longrightarrow> mN s' z = mN s z \<and> mP s' z = mP s z" using s'(5) f(1,2) by auto
  ultimately show ?thesis using s'(1,6) f(5) bt(3) unfolding u_def by (intro exI [of _ s']) simp
qed

lemma trigger_fields:
  "mobjs (trigger i s) = mobjs s" "mN (trigger i s) = mN s" "mP (trigger i s) = mP s" "bdata (trigger i s) = bdata s"
  "mset (trigger i s) j qs as = mset s j qs as" "j \<noteq> i \<Longrightarrow> msets (trigger i s) j = msets s j"
proof -
  show f: "mobjs (trigger i s) = mobjs s" "mN (trigger i s) = mN s" "mP (trigger i s) = mP s" "bdata (trigger i s) = bdata s"
    "j \<noteq> i \<Longrightarrow> msets (trigger i s) j = msets s j" by (simp_all add: trigger_def Let_def)
  have h: "ObjectQ (msets (trigger i s) j) = ObjectQ (msets s j)" "ActiveQ (msets (trigger i s) j) = ActiveQ (msets s j)"
    "Actived (msets (trigger i s) j) = Actived (msets s j)" "ObjectSum (msets (trigger i s) j) = ObjectSum (msets s j)"
    by (simp_all add: trigger_def Let_def)
  show "mset (trigger i s) j qs as = mset s j qs as"
    by (simp add: mset_def mring_def block_active_def f(1-3) h)
qed

lemma chain_fresh: "chain s h bs \<Longrightarrow> t \<notin> set bs \<Longrightarrow> \<forall>z. z \<noteq> t \<longrightarrow> NextSets (mobjs s' z) = NextSets (mobjs s z) \<Longrightarrow> chain s' h bs"
  by (induction bs arbitrary: h) auto

lemma Multiplex_AddObject_ok:
  assumes V: "minv s I Q A" and i: "i \<in> I" and O: "object_blocks s I Q A h bs"
    and new: "\<forall>b \<in> set bs. MySets (mobjs s b) \<noteq> i" and t: "t \<noteq> 0" "\<forall>j \<in> I. t \<notin> set (Q j) \<union> set (A j)"
    and big: "length (Q i) + length (A i) + 1 < 2 ^ 32"
  shows "\<exists>s' Q' A'. Multiplex_AddObject (Some t) i h st oid sb s = Some (True, t, s') \<and> minv s' I Q' A' \<and>
    object_blocks s' I Q' A' t (t # bs) \<and> set (Q' i) \<union> set (A' i) = insert t (set (Q i) \<union> set (A i)) \<and>
    (\<forall>j. j \<noteq> i \<longrightarrow> Q' j = Q j \<and> A' j = A j)"
proof -
  have I: "mset s i (Q i) (A i)" and ti: "t \<notin> set (Q i) \<union> set (A i)" using V i t(2) by (simp_all add: minv_def)
  have i0: "i \<noteq> 0" using I by (simp add: mset_def)
  define status where "status = st AND NOT SENSINGBIT_MODE"
  define act where "act = ObjectIsActived status (sb AND NOT SENSINGBIT_MODE) (sb AND SENSINGBIT_MODE)"
  define s0 where "s0 = umo (\<lambda>b. b\<lparr>SensingBit := sb, PendingBit := status, ObjectID := oid, MySets := i\<rparr>) t
                (ums (\<lambda>c. c\<lparr>ObjectSum := ObjectSum c + 1\<rparr>) i s)"
  obtain s1 where s1: "push_object (if act then AtActiveQ i else AtObjectQ i) t s0 = Some s1"
    "mset (if act then ums (\<lambda>c. c\<lparr>Actived := Actived c + 1\<rparr>) i (umo (\<lambda>b. b\<lparr>NextSets := h\<rparr>) t s1) else umo (\<lambda>b. b\<lparr>NextSets := h\<rparr>) t s1)
      i (if act then Q i else t # Q i) (if act then t # A i else A i)"
    "\<forall>j. j \<noteq> i \<longrightarrow> msets s1 j = msets s j" "\<forall>z. z \<notin> set (t # Q i) \<union> set (A i) \<longrightarrow> mN s1 z = mN s z \<and> mP s1 z = mP s z"
    "\<forall>z. z \<noteq> t \<longrightarrow> bdata s1 z = bdata s z" "MySets (mobjs s1 t) = i"
    using add_block_ok [OF I t(1) ti big s0_def act_def, of h] by (elim exE conjE) (rule that)
  define u where "u = (if act then ums (\<lambda>c. c\<lparr>Actived := Actived c + 1\<rparr>) i (umo (\<lambda>b. b\<lparr>NextSets := h\<rparr>) t s1) else umo (\<lambda>b. b\<lparr>NextSets := h\<rparr>) t s1)"
  define s' where "s' = (if act then trigger i u else u)"
  define Q' A' where "Q' = Q(i := if act then Q i else t # Q i)" and "A' = A(i := if act then t # A i else A i)"
  have fu: "mN u = mN s1" "mP u = mP s1" "\<forall>j. j \<noteq> i \<longrightarrow> msets u j = msets s1 j" "\<forall>z. z \<noteq> t \<longrightarrow> mobjs u z = mobjs s1 z"
    "mobjs u t = (mobjs s1 t)\<lparr>NextSets := h\<rparr>"
    by (auto simp: u_def umo_def ums_def mN_def mP_def fun_eq_iff)
  have f: "mN s' = mN s1" "mP s' = mP s1" "mobjs s' = mobjs u" "\<forall>j. j \<noteq> i \<longrightarrow> msets s' j = msets s1 j" "mset s' k x y = mset u k x y" for k x y
    using fu trigger_fields by (simp_all add: s'_def)
  have bo: "bdata s' z = bdata s z" if "z \<noteq> t" for z using that s1(5) f(3) fu(4) by (simp add: bdata_def)
  have "minv s' I Q' A'"
    unfolding minv_def
  proof
    fix j assume j: "j \<in> I"
    show "mset s' j (Q' j) (A' j)"
    proof (cases "j = i")
      case True
      then show ?thesis using s1(2) f(5) by (simp add: Q'_def A'_def u_def)
    next
      case False
      have m: "mset s j (Q j) (A j)" using V j by (simp add: minv_def)
      have "mset s' j (Q j) (A j)"
      proof (rule mset_other [OF m])
        show "msets s' j = msets s j" using f(4) s1(3) False by simp
        fix c assume c: "c \<in> set (Q j) \<union> set (A j)"
        then have "c \<noteq> t" using t(2) j by auto
        moreover have "c \<notin> set (Q i) \<union> set (A i)" using c m I False unfolding mset_def by metis
        ultimately show "mN s' c = mN s c \<and> mP s' c = mP s c \<and> bdata s' c = bdata s c" using s1(4) bo f(1,2) by simp
      qed
      then show ?thesis using False by (simp add: Q'_def A'_def)
    qed
  qed
  moreover have tb: "t \<notin> set bs" using O t(2) by (auto simp: object_blocks_def)
  have ns: "NextSets (mobjs s' z) = NextSets (mobjs s z)" "MySets (mobjs s' z) = MySets (mobjs s z)" if "z \<noteq> t" for z
    using bdata_eq(1,2) [OF bo [OF that]] .
  have ht: "NextSets (mobjs s' t) = h" "MySets (mobjs s' t) = i" using f(3) fu(5) s1(6) by simp_all
  have my: "map (\<lambda>b. MySets (mobjs s' b)) bs = map (\<lambda>b. MySets (mobjs s b)) bs" using ns(2) tb by (simp only: map_eq_conv) metis
  have "object_blocks s' I Q' A' t (t # bs)"
  proof -
    have "chain s' t (t # bs)" using chain_fresh [of s h bs t s'] O tb ns(1) ht(1) t(1) by (simp add: object_blocks_def)
    moreover have d: "distinct (map (\<lambda>b. MySets (mobjs s' b)) bs)" using O unfolding my object_blocks_def by blast
    have "i \<noteq> MySets (mobjs s' b)" if "b \<in> set bs" for b
    proof -
      have "b \<noteq> t" using that tb by auto
      then show ?thesis using ns(2) new that by metis
    qed
    then have ni: "i \<notin> (\<lambda>b. MySets (mobjs s' b)) ` set bs" by blast
    have "distinct (map (\<lambda>b. MySets (mobjs s' b)) (t # bs))" unfolding list.map distinct.simps ht(2) set_map using ni d by blast
    moreover have "MySets (mobjs s' b) \<in> I \<and> b \<in> set (Q' (MySets (mobjs s' b))) \<union> set (A' (MySets (mobjs s' b)))" if "b \<in> set (t # bs)" for b
    proof (cases "b = t")
      case True
      then show ?thesis using ht(2) i by (simp add: Q'_def A'_def)
    next
      case False
      then have "b \<in> set bs" using that by simp
      then show ?thesis using O new ns(2) [OF False] by (auto simp: object_blocks_def Q'_def A'_def)
    qed
    ultimately show ?thesis by (simp add: object_blocks_def)
  qed
  moreover obtain f' where "find_block i 0 h s = Some (f', 0)" using find_none [of s h bs i 0] O new by (auto simp: object_blocks_def)
  then have "Multiplex_AddObject (Some t) i h st oid sb s = Some (True, t, s')"
    using i0 t(1) s1(1)
    by (cases act) (simp_all add: Multiplex_AddObject_def Let_def block_access s'_def u_def s0_def status_def act_def)
  moreover have "set (Q' i) \<union> set (A' i) = insert t (set (Q i) \<union> set (A i))" by (simp add: Q'_def A'_def)
  moreover have "\<forall>j. j \<noteq> i \<longrightarrow> Q' j = Q j \<and> A' j = A j" by (simp add: Q'_def A'_def)
  ultimately show ?thesis by blast
qed

section \<open>A sample state\<close>

text \<open>Two sets, 2 and 3, with one object in both: block 12 in set 2 and block 13 in set 3.\<close>

definition sample_mp :: mpst where
  "sample_mp = \<lparr>mobjs = (\<lambda>p. \<lparr>NextObject = p, PreObject = p, NextSets = (if p = 12 then 13 else 0),
       MySets = (if p = 12 then 2 else 3), ObjectID = 7, PendingBit = 0, SensingBit = 0x80000001\<rparr>),
     msets = (\<lambda>i. \<lparr>ObjectQ = i + 10, ActiveQ = 0, ObjectSum = 1, ActiveLevel = 1, Actived = 0, SetsActived = False\<rparr>),
     mpcalls = []\<rparr>"

definition sample_Q :: "nat \<Rightarrow> nat list" where "sample_Q i = [i + 10]"

lemma sample_mp_ok [simp]: "minv sample_mp {2, 3} sample_Q (\<lambda>_. [])"
  "object_blocks sample_mp {2, 3} sample_Q (\<lambda>_. []) 12 [12, 13]"
  by (simp_all add: minv_def mset_def mring_def dring_single mN_def mP_def block_active_def ObjectIsActived_def
      object_blocks_def sample_mp_def sample_Q_def)

section \<open>The multiplexer\<close>

text \<open>
  C31: Telling the multiplexer the new state of an object.  Every set of the object stays well formed; the block of the
  object changes lists exactly when the new bits trigger it or no longer do, and keeps the bits it is sensitive to; no
  other block changes.  A set is triggered from then on if enough of its objects are, or all of them, until none is;
  the semaphores posted are those of the sets that were not triggered and are now.
\<close>
theorem Multiplex_Set_refines:
  assumes "minv s I Q A" and "object_blocks s I Q A h bs" and "bs \<noteq> []"
  shows "\<exists>s' ps. Multiplex_Set h Status s = Some (True, s') \<and>
    minv s' I (fst (fold (abs_set s Status) bs (Q, A))) (snd (fold (abs_set s Status) bs (Q, A))) \<and>
    (\<forall>p. PendingBit (mobjs s' p) =
      (if p \<in> set bs then Status AND (SensingBit (mobjs s p) AND NOT SENSINGBIT_MODE) else PendingBit (mobjs s p))) \<and>
    (\<forall>b \<in> set bs. SetsActived (msets s' (MySets (mobjs s b))) =
      latch (now_active s b Status) (ActiveLevel (msets s (MySets (mobjs s b)))) b
        (Q (MySets (mobjs s b)), A (MySets (mobjs s b))) (SetsActived (msets s (MySets (mobjs s b))))) \<and>
    (\<forall>j. j \<notin> (\<lambda>b. MySets (mobjs s b)) ` set bs \<longrightarrow> msets s' j = msets s j) \<and>
    mpcalls s' = mpcalls s @ map Sets_post ps \<and>
    (\<forall>j. j \<in> set ps \<longleftrightarrow> \<not> SetsActived (msets s j) \<and> SetsActived (msets s' j))"
proof -
  have "h \<noteq> 0" using assms(2,3) by (cases bs) (auto simp: object_blocks_def)
  then show ?thesis using set_loop_ok [OF assms(1,2), of Status] by (auto simp: Multiplex_Set_def)
qed

theorem Multiplex_Set_refines_witness:
  "\<exists>s' ps. Multiplex_Set 12 1 sample_mp = Some (True, s') \<and> SetsActived (msets s' 2) \<and> SetsActived (msets s' 3) \<and>
    mpcalls s' = map Sets_post ps \<and> (\<forall>j. j \<in> set ps \<longleftrightarrow> SetsActived (msets s' j))"
proof -
  have "12 \<in> set [12, 13 :: nat]" "13 \<in> set [12, 13 :: nat]" by simp_all
  moreover have "MySets (mobjs sample_mp 12) = 2" "MySets (mobjs sample_mp 13) = 3" "mpcalls sample_mp = []"
    "now_active sample_mp b 1" "ActiveLevel (msets sample_mp i) = 1" "\<not> SetsActived (msets sample_mp i)" for b i
    by (simp_all add: sample_mp_def now_active_def ObjectIsActived_def)
  ultimately show ?thesis
    using Multiplex_Set_refines [OF sample_mp_ok, of 1] by (auto simp: latch_def sample_Q_def)
qed

text \<open>
  C32: Taking an object out of the set it was added to last makes its head null, although its blocks are still in the
  other sets: those sets never hear of the object again.
\<close>
theorem Multiplex_DelObject_forgets:
  assumes "minv s I Q A" and "object_blocks s I Q A h (b # c # bs)" and "MySets (mobjs s b) = i" and "MySets (mobjs s c) = j"
  shows "\<exists>s'. Multiplex_DelObject i (Some h) s = Some (True, Some 0, s') \<and> mset s' i (remove1 b (Q i)) (remove1 b (A i)) \<and>
    mset s' j (Q j) (A j) \<and> c \<in> set (Q j) \<union> set (A j) \<and> Multiplex_Set 0 Status s' = Some (False, s')"
proof -
  have O: "h = b" "b \<noteq> 0" "i \<in> I" "b \<in> set (Q i) \<union> set (A i)" "j \<in> I" "c \<in> set (Q j) \<union> set (A j)" "i \<noteq> j"
    using assms(2-4) by (auto simp: object_blocks_def)
  have I: "mset s i (Q i) (A i)" and J: "mset s j (Q j) (A j)" using assms(1) O(3,5) by (simp_all add: minv_def)
  obtain s' where s': "del_links i b (del_counts i b s) = Some s'" "mset s' i (remove1 b (Q i)) (remove1 b (A i))"
    "\<forall>j. j \<noteq> i \<longrightarrow> msets s' j = msets s j" "\<forall>z. z \<notin> set (Q i) \<union> set (A i) \<longrightarrow> mN s' z = mN s z \<and> mP s' z = mP s z"
    "bdata s' = bdata s"
    using del_block_ok [OF I O(4)] by blast
  have out: "z \<notin> set (Q i) \<union> set (A i)" if "z \<in> set (Q j) \<union> set (A j)" for z using that I J O(7) unfolding mset_def by metis
  have "mset s' j (Q j) (A j)" using J s'(3,4,5) out O(7) by (intro mset_other [OF J]) auto
  moreover have "mset (note_mp k t) l qs as = mset t l qs as" for k t l qs as
    by (simp add: mset_def mring_def block_active_def)
  moreover have "i \<noteq> 0" using I by (simp add: mset_def)
  then have "Multiplex_DelObject i (Some h) s = Some (True, Some 0, note_mp (Object_free b) s')"
    using O(1,2) s'(1) find_first [OF O(2) assms(3)] by (simp add: Multiplex_DelObject_def del_counts_def Let_def)
  ultimately show ?thesis using s'(2) O(6) by (intro exI [of _ "note_mp (Object_free b) s'"]) (simp add: Multiplex_Set_def)
qed

theorem Multiplex_DelObject_forgets_witness:
  "\<exists>s'. Multiplex_DelObject 2 (Some 12) sample_mp = Some (True, Some 0, s') \<and> mset s' 3 [13] [] \<and>
    Multiplex_Set 0 1 s' = Some (False, s')"
  using Multiplex_DelObject_forgets [OF sample_mp_ok, of 2 3 1]
  by (auto simp: sample_mp_def sample_Q_def)

text \<open>
  C33: Taking an object out of another of its sets links its block in the set before to a block of a different set, and
  leaves the released block in the chain of the object.
\<close>
theorem Multiplex_DelObject_mixes:
  assumes "minv s I Q A" and "object_blocks s I Q A h (f # b # bs)" and "MySets (mobjs s f) = i" and "MySets (mobjs s b) = j"
  shows "\<exists>s'. Multiplex_DelObject j (Some h) s = Some (True, Some h, s') \<and> NextSets (mobjs s' f) = b \<and>
    last (mpcalls s') = Object_free b \<and> f \<in> set (Q i) \<union> set (A i) \<and>
    NextObject (mobjs s' f) \<in> set (Q j) \<union> set (A j) \<and> NextObject (mobjs s' f) \<notin> set (Q i) \<union> set (A i)"
proof -
  have O: "h = f" "f \<noteq> 0" "NextSets (mobjs s f) = b" "b \<noteq> 0" "i \<in> I" "f \<in> set (Q i) \<union> set (A i)" "j \<in> I"
    "b \<in> set (Q j) \<union> set (A j)" "i \<noteq> j"
    using assms(2-4) by (auto simp: object_blocks_def)
  have I: "mset s i (Q i) (A i)" and J: "mset s j (Q j) (A j)" using assms(1) O(5,7) by (simp_all add: minv_def)
  obtain s' where s': "del_links j b (del_counts j b s) = Some s'" "bdata s' = bdata s" "mN s' b = mN s b"
    using del_block_ok [OF J O(8)] by blast
  have n: "mN s b \<in> set (Q j) \<union> set (A j)" using J O(8) mringD(4) unfolding mset_def by blast
  then have ni: "mN s b \<notin> set (Q i) \<union> set (A i)" using I J O(9) unfolding mset_def by metis
  let ?t = "note_mp (Object_free b) (put_mN f (mN s b) s')"
  have "j \<noteq> 0" using J by (simp add: mset_def)
  then have "Multiplex_DelObject j (Some h) s = Some (True, Some h, ?t)"
    using O assms(3) s'(1,3) find_second [OF O(2) _ O(3,4) assms(4)]
    by (simp add: Multiplex_DelObject_def del_counts_def Let_def block_access)
  moreover have "NextSets (mobjs ?t f) = b"
    using bdata_eq(1) [OF fun_cong [OF s'(2), of f]] O(3) by (simp add: umo_def)
  moreover have "NextObject (mobjs ?t f) = mN s b" by (simp add: umo_def)
  ultimately show ?thesis using n ni O(6) by (intro exI [of _ ?t]) simp
qed

theorem Multiplex_DelObject_mixes_witness:
  "\<exists>s'. Multiplex_DelObject 3 (Some 12) sample_mp = Some (True, Some 12, s') \<and> NextSets (mobjs s' 12) = 13 \<and>
    NextObject (mobjs s' 12) = 13 \<and> last (mpcalls s') = Object_free 13"
  using Multiplex_DelObject_mixes [OF sample_mp_ok, of 2 3]
  by (auto simp: sample_mp_def sample_Q_def)

end
